(* ===== verification/Prelude.thy ===== *)
theory Prelude
  imports Main "HOL-Library.Word"
begin

text \<open>
  Vocabulary shared by every component: the machine-integer types of the C sources,
  the result of a piece of emulator code that may leave through the trap \<open>longjmp\<close>,
  and the generic facts on words, bits and digit lists that the component proofs use.
  The collections \<open>bit_defs\<close> (single-bit reasoning), \<open>outcome_simps\<close>
  (sequencing) and \<open>acc\<close> (register accessors) are filled here and by the components.
\<close>

unbundle bit_operations_syntax

named_theorems bit_defs
named_theorems outcome_simps
named_theorems acc

type_synonym u8 = "8 word"
type_synonym u16 = "16 word"
type_synonym u32 = "32 word"
type_synonym u64 = "64 word"

section \<open>Code that may trap\<close>

text \<open>
  \<open>cpu_interrupt\<close> leaves the current instruction with \<open>longjmp\<close> when the cause is
  a protection violation, a page fault or an illegal instruction. \<open>Done x s\<close> is a normal
  return of \<open>x\<close> in state \<open>s\<close>; \<open>Trap s\<close> is the jump back to the \<open>setjmp\<close> of
  \<open>cpu_run\<close>, which keeps every change made so far.
\<close>

datatype ('a, 's) outcome = Done 'a 's | Trap 's

primrec final_state :: "('a, 's) outcome \<Rightarrow> 's" where
  "final_state (Done x s) = s"
| "final_state (Trap s) = s"

primrec trapped :: "('a, 's) outcome \<Rightarrow> bool" where
  "trapped (Done x s) = False"
| "trapped (Trap s) = True"

primrec returned :: "('a, 's) outcome \<Rightarrow> 'a option" where
  "returned (Done x s) = Some x"
| "returned (Trap s) = None"

lemma returned_Done: "returned f = Some x \<Longrightarrow> f = Done x (final_state f)"
  by (cases f) simp_all

lemma returned_None: "returned f = None \<Longrightarrow> f \<noteq> Done x s"
  by (cases f) simp_all

definition bind_out :: "('s \<Rightarrow> ('a, 's) outcome) \<Rightarrow> ('a \<Rightarrow> 's \<Rightarrow> ('b, 's) outcome)
    \<Rightarrow> 's \<Rightarrow> ('b, 's) outcome" where
  "bind_out f g s = (case f s of Done x s' \<Rightarrow> g x s' | Trap s' \<Rightarrow> Trap s')"

definition ret :: "'a \<Rightarrow> 's \<Rightarrow> ('a, 's) outcome" where
  "ret x s = Done x s"

definition modify :: "('s \<Rightarrow> 's) \<Rightarrow> 's \<Rightarrow> (unit, 's) outcome" where
  "modify f s = Done () (f s)"

lemma bind_out_Done [simp, outcome_simps]: "f s = Done x s' \<Longrightarrow> bind_out f g s = g x s'"
  by (simp add: bind_out_def)

lemma bind_out_Trap [simp, outcome_simps]: "f s = Trap s' \<Longrightarrow> bind_out f g s = Trap s'"
  by (simp add: bind_out_def)

lemma ret_simp [simp, outcome_simps]: "ret x s = Done x s"
  by (simp add: ret_def)

lemma modify_simp [simp, outcome_simps]: "modify f s = Done () (f s)"
  by (simp add: modify_def)

lemma bind_out_assoc: "bind_out (bind_out f g) h = bind_out f (\<lambda>x. bind_out (g x) h)"
  by (auto simp: bind_out_def fun_eq_iff split: outcome.splits)

lemma bind_out_eq_Done:
  "bind_out f g s = Done y t \<longleftrightarrow> (\<exists>x s'. f s = Done x s' \<and> g x s' = Done y t)"
  by (auto simp: bind_out_def split: outcome.splits)

lemma bind_out_eq_Trap:
  "bind_out f g s = Trap t \<longleftrightarrow> f s = Trap t \<or> (\<exists>x s'. f s = Done x s' \<and> g x s' = Trap t)"
  by (auto simp: bind_out_def split: outcome.splits)

section \<open>Single bits of words\<close>

lemma getbit_eq [bit_defs]: "(drop_bit n w AND 1 :: 'a::len word) = (if bit w n then 1 else 0)"
  by (simp add: and_one_eq mod_2_eq_odd bit_iff_odd_drop_bit)

lemma getbit_ne_0 [bit_defs]: "(drop_bit n w AND 1 :: 'a::len word) \<noteq> 0 \<longleftrightarrow> bit w n"
  by (simp add: getbit_eq)

lemma getbit_eq_1 [bit_defs]: "(drop_bit n w AND 1 :: 'a::len word) = 1 \<longleftrightarrow> bit w n"
  by (simp add: getbit_eq)

lemma bit_2_pow [bit_defs]:
  "bit (2 ^ n :: 'a::len word) m \<longleftrightarrow> m = n \<and> n < LENGTH('a)"
  by (auto simp: bit_exp_iff)

lemma bit_word_of_nat [bit_defs]:
  "bit (word_of_nat k :: 'a::len word) n \<longleftrightarrow> n < LENGTH('a) \<and> bit k n"
  using bit_word_of_int_iff[of "int k" n, where 'a = 'a] by (simp add: bit_of_nat_iff_bit)

lemma unat_small_word [simp]: "k < 2 ^ LENGTH('a) \<Longrightarrow> unat (word_of_nat k :: 'a::len word) = k"
  by (simp add: unsigned_of_nat take_bit_nat_eq_self)

lemma bit_small: "unat w < 2 ^ k \<Longrightarrow> bit w n \<Longrightarrow> n < k" for w :: "'a::len word"
proof -
  assume "unat w < 2 ^ k" and b: "bit w n"
  then have "take_bit k (unat w) = unat w" by (simp add: take_bit_nat_eq_self)
  moreover have "bit (unat w) n" using b by (simp add: bit_unsigned_iff bit_imp_le_length)
  ultimately have "bit (take_bit k (unat w)) n" by simp
  then show ?thesis by (simp add: bit_take_bit_iff)
qed

lemma push_or_add:
  fixes a b :: "'a::len word"
  assumes "unat b < 2 ^ k"
  shows "push_bit k a OR b = push_bit k a + b"
proof -
  have "push_bit k a AND b = 0"
    using bit_small[OF assms] by (intro bit_word_eqI) (fastforce simp: bit_simps)
  then show ?thesis by (simp add: disjunctive_add_eq_or)
qed

lemma and_mask_lt: "c = mask k \<Longrightarrow> unat (x AND c) < 2 ^ k" for x :: "'a::len word"
  by (simp add: unsigned_take_bit_eq flip: take_bit_eq_mask)

lemma unat_lt_16 [simp]: "unat (x :: u16) < 65536"
proof -
  have "unat x < 2 ^ LENGTH(16)" by (rule unsigned_less)
  then show ?thesis by simp
qed

lemma unat_ucast_16_32 [simp]: "unat (ucast (x :: u16) :: u32) = unat x"
proof -
  have "unat x < 2 ^ 32" using unat_lt_16[of x] by (simp del: unat_lt_16)
  then show ?thesis by (simp add: unsigned_ucast_eq take_bit_nat_eq_self)
qed

text \<open>
  Equality of 16-bit and 32-bit words bit by bit, with the bit numbers as numerals, so that
  masks written as numerals compute.
\<close>

lemma all_less_16: "(\<forall>n<16. P (n::nat)) \<longleftrightarrow>
  P 0 \<and> P 1 \<and> P 2 \<and> P 3 \<and> P 4 \<and> P 5 \<and> P 6 \<and> P 7 \<and>
  P 8 \<and> P 9 \<and> P 10 \<and> P 11 \<and> P 12 \<and> P 13 \<and> P 14 \<and> P 15"
  by (simp add: numeral_eq_Suc All_less_Suc) blast

lemma lt_16_cases: "n < 16 \<Longrightarrow> n \<in> {0, 1, 2, 3, 4, 5, 6, 7, 8, 9, 10, 11, 12, 13, 14, 15 :: nat}"
  using all_less_16[of "\<lambda>n. n \<in> {0, 1, 2, 3, 4, 5, 6, 7, 8, 9, 10, 11, 12, 13, 14, 15}"] by simp

lemma ex_less_16: "(\<exists>n<16. P (n::nat)) \<longleftrightarrow>
  P 0 \<or> P 1 \<or> P 2 \<or> P 3 \<or> P 4 \<or> P 5 \<or> P 6 \<or> P 7 \<or>
  P 8 \<or> P 9 \<or> P 10 \<or> P 11 \<or> P 12 \<or> P 13 \<or> P 14 \<or> P 15"
  using all_less_16[of "\<lambda>n. \<not> P n"] by blast

lemma all_less_32: "(\<forall>n<32. P (n::nat)) \<longleftrightarrow>
  (\<forall>n<16. P n) \<and> (\<forall>n<16. P (n + 16))"
proof -
  have "(\<forall>n<32. P n)" if "\<forall>n<16. P n" "\<forall>n<16. P (n + 16)"
  proof (intro allI impI)
    fix n :: nat assume "n < 32"
    then show "P n"
      using that(1)[rule_format, of n] that(2)[rule_format, of "n - 16"]
      by (cases "n < 16") simp_all
  qed
  then show ?thesis by auto
qed

lemma word16_eqI: "(\<forall>n<16. bit a n = bit b n) \<Longrightarrow> a = (b::u16)"
  by (rule bit_word_eqI) simp

lemma word32_eqI: "(\<forall>n<32. bit a n = bit b n) \<Longrightarrow> a = (b::u32)"
  by (rule bit_word_eqI) simp

lemma bit16_iff:
  "(\<forall>n<16. bit a n = P n) \<Longrightarrow> (\<And>n. P n \<Longrightarrow> n < 16) \<Longrightarrow> bit (a::u16) n = P n"
  using bit_imp_le_length[of a n] by auto

text \<open>
  The simplifier turns a bit of a word numeral into the bit of the integer numeral, so the
  masks of the code are described there.
\<close>

lemma bit_pow_int: "bit (2 ^ k :: int) n \<longleftrightarrow> n = k"
  by (auto simp: bit_exp_iff)

lemma bit_single [simp, bit_defs]:
  "bit (2 :: int) n \<longleftrightarrow> n = 1"
  "bit (4 :: int) n \<longleftrightarrow> n = 2"
  "bit (8 :: int) n \<longleftrightarrow> n = 3"
  "bit (16 :: int) n \<longleftrightarrow> n = 4"
  "bit (32 :: int) n \<longleftrightarrow> n = 5"
  "bit (64 :: int) n \<longleftrightarrow> n = 6"
  "bit (128 :: int) n \<longleftrightarrow> n = 7"
  "bit (256 :: int) n \<longleftrightarrow> n = 8"
  "bit (512 :: int) n \<longleftrightarrow> n = 9"
  "bit (1024 :: int) n \<longleftrightarrow> n = 10"
  "bit (2048 :: int) n \<longleftrightarrow> n = 11"
  "bit (4096 :: int) n \<longleftrightarrow> n = 12"
  "bit (8192 :: int) n \<longleftrightarrow> n = 13"
  "bit (16384 :: int) n \<longleftrightarrow> n = 14"
  "bit (32768 :: int) n \<longleftrightarrow> n = 15"
  "bit (65536 :: int) n \<longleftrightarrow> n = 16"
  using bit_pow_int[of 1 n] bit_pow_int[of 2 n] bit_pow_int[of 3 n] bit_pow_int[of 4 n]
    bit_pow_int[of 5 n] bit_pow_int[of 6 n] bit_pow_int[of 7 n] bit_pow_int[of 8 n]
    bit_pow_int[of 9 n] bit_pow_int[of 10 n] bit_pow_int[of 11 n] bit_pow_int[of 12 n]
    bit_pow_int[of 13 n] bit_pow_int[of 14 n] bit_pow_int[of 15 n] bit_pow_int[of 16 n]
  by simp_all

lemma bit_0xFFFF [simp, bit_defs]: "bit (0xFFFF :: int) n \<longleftrightarrow> n < 16"
proof -
  have "(0xFFFF :: int) = mask 16" by (simp add: mask_eq_exp_minus_1)
  then show ?thesis by (simp only: bit_mask_iff) simp
qed

lemma bit_0x0F00 [simp, bit_defs]: "bit (0x0F00 :: int) n \<longleftrightarrow> 8 \<le> n \<and> n < 12"
proof -
  have "(0x0F00 :: int) = push_bit 8 (mask 4)" by (simp add: mask_eq_exp_minus_1)
  then show ?thesis by (simp only: bit_push_bit_iff bit_mask_iff) auto
qed

lemma bit_0xFFFC [simp, bit_defs]: "bit (0xFFFC :: int) n \<longleftrightarrow> 2 \<le> n \<and> n < 16"
proof -
  have "(0xFFFC :: int) = push_bit 2 (mask 14)" by (simp add: mask_eq_exp_minus_1)
  then show ?thesis by (simp only: bit_push_bit_iff bit_mask_iff) auto
qed

lemmas word16_bits = word16_eqI [unfolded all_less_16]
lemmas word32_bits = word32_eqI [unfolded all_less_32 all_less_16]

end
