(* ===== verification/CpuState.thy ===== *)
theory CpuState
  imports Prelude
begin

text \<open>
  The emulator's state: \<open>struct CpuRegs\<close> and the memory-management globals of
  \<open>cpu_types.h\<close> and \<open>cpu_mms.c\<close>. A C array of registers is a function from its
  index; the shadow RAM is a list because its length is an allocation whose bounds matter.
  Debugger, breakpoint and host-side fields (instruction counter, semirun mode, debugger
  port) are left out: no modelled operation reads them.
\<close>

section \<open>The register file\<close>

record CpuRegs =
  reg :: "nat \<Rightarrow> nat \<Rightarrow> u16"
  reg_STS :: u16
  reg_PANS :: u16
  reg_PANC :: u16
  reg_OPR :: u16
  reg_LMP :: u16
  reg_PGS :: u16
  reg_PCR :: "nat \<Rightarrow> u16"
  reg_PVL :: u16
  reg_IIC :: u16
  reg_IID :: u16
  reg_IIE :: u16
  reg_PID :: u16
  reg_PIE :: u16
  reg_CSR :: u16
  reg_CCL :: u16
  reg_LCIL :: u16
  reg_ALD :: u16
  reg_UCIL :: u16
  reg_PES :: u16
  reg_PGC :: u16
  reg_PEA :: u16
  reg_ECCR :: u16
  reg_STBNK :: u16
  reg_STSRT :: u16
  reg_CMBUK :: u16
  effectiveAddress :: u16
  useAPT :: bool
  mylock_PEA :: bool
  mylock_PES :: bool
  mylock_PGS :: bool
  myreg_PK :: u16
  chkit :: bool

text \<open>Register numbers and status-bit positions (\<open>cpu_types.h\<close>).\<close>

abbreviation (input) R_STS :: nat where "R_STS \<equiv> 0"
abbreviation (input) R_D :: nat where "R_D \<equiv> 1"
abbreviation (input) R_P :: nat where "R_P \<equiv> 2"
abbreviation (input) R_B :: nat where "R_B \<equiv> 3"
abbreviation (input) R_L :: nat where "R_L \<equiv> 4"
abbreviation (input) R_A :: nat where "R_A \<equiv> 5"
abbreviation (input) R_T :: nat where "R_T \<equiv> 6"
abbreviation (input) R_X :: nat where "R_X \<equiv> 7"

abbreviation (input) STS_PAGE_TABLE_MODE :: nat where "STS_PAGE_TABLE_MODE \<equiv> 0"
abbreviation (input) STS_BIT_ACCUMULATOR :: nat where "STS_BIT_ACCUMULATOR \<equiv> 2"
abbreviation (input) STS_ERROR_INDICATOR :: nat where "STS_ERROR_INDICATOR \<equiv> 3"
abbreviation (input) STS_DYNAMIC_OVERFLOW :: nat where "STS_DYNAMIC_OVERFLOW \<equiv> 4"
abbreviation (input) STS_STATIC_OVERFLOW :: nat where "STS_STATIC_OVERFLOW \<equiv> 5"
abbreviation (input) STS_CARRY :: nat where "STS_CARRY \<equiv> 6"
abbreviation (input) STS_SHIFT_OUT :: nat where "STS_SHIFT_OUT \<equiv> 7"

text \<open>The macros \<open>gPIL\<close>/\<open>CURR_LEVEL\<close>, \<open>gSTSr\<close> and the status tests.\<close>

definition gPIL :: "CpuRegs \<Rightarrow> nat" where
  "gPIL r = unat (drop_bit 8 (reg_STS r AND 0x0f00))"

definition gSTSr :: "CpuRegs \<Rightarrow> u16" where
  "gSTSr r = (reg_STS r AND 0xFF00) OR (reg r (gPIL r) R_STS AND 0x00FF)"

definition STS_PAGE_TABLE_MODE_IS_SET :: "CpuRegs \<Rightarrow> bool" where
  "STS_PAGE_TABLE_MODE_IS_SET r = (drop_bit 0 (reg r (gPIL r) R_STS) AND 1 \<noteq> 0)"

definition STS_EXTENDED_ADDRESSING_IS_SET :: "CpuRegs \<Rightarrow> bool" where
  "STS_EXTENDED_ADDRESSING_IS_SET r = (drop_bit 13 (reg_STS r) AND 1 \<noteq> 0)"

definition STS_PAGING_ON_IS_SET :: "CpuRegs \<Rightarrow> bool" where
  "STS_PAGING_ON_IS_SET r = (drop_bit 14 (reg_STS r) AND 1 \<noteq> 0)"

definition STS_INTERRUPT_ON_IS_SET :: "CpuRegs \<Rightarrow> bool" where
  "STS_INTERRUPT_ON_IS_SET r = (drop_bit 15 (reg_STS r) AND 1 \<noteq> 0)"

text \<open>\<open>g_reg->reg[level][i]\<close> as an assignment target, and the current-level registers.\<close>

definition set_reg :: "nat \<Rightarrow> nat \<Rightarrow> u16 \<Rightarrow> CpuRegs \<Rightarrow> CpuRegs" where
  "set_reg lvl i v r = r\<lparr>reg := (reg r)(lvl := (reg r lvl)(i := v))\<rparr>"

definition cur :: "nat \<Rightarrow> CpuRegs \<Rightarrow> u16" where
  "cur i r = reg r (gPIL r) i"

definition set_cur :: "nat \<Rightarrow> u16 \<Rightarrow> CpuRegs \<Rightarrow> CpuRegs" where
  "set_cur i v r = set_reg (gPIL r) i v r"

text \<open>A register file for concrete examples: level 0, paging and extended addressing on.\<close>

definition demo_regs :: CpuRegs where
  "demo_regs = \<lparr>reg = (\<lambda>_ _. 0), reg_STS = 0x6000, reg_PANS = 0, reg_PANC = 0, reg_OPR = 0, reg_LMP = 0,
     reg_PGS = 0, reg_PCR = (\<lambda>_. 0), reg_PVL = 0, reg_IIC = 0, reg_IID = 0, reg_IIE = 0, reg_PID = 0,
     reg_PIE = 0, reg_CSR = 0, reg_CCL = 0, reg_LCIL = 0, reg_ALD = 0, reg_UCIL = 0, reg_PES = 0,
     reg_PGC = 0, reg_PEA = 0, reg_ECCR = 0, reg_STBNK = 0, reg_STSRT = 0, reg_CMBUK = 0,
     effectiveAddress = 0, useAPT = False, mylock_PEA = False, mylock_PES = False, mylock_PGS = False,
     myreg_PK = 0, chkit = False\<rparr>"

section \<open>Memory, page tables and memory banks\<close>

datatype CPURunMode = CPU_UNKNOWN_STATE | CPU_RUNNING | CPU_BREAKPOINT | CPU_PAUSED | CPU_STOPPED | CPU_SHUTDOWN
datatype CpuType = ND1 | ND4 | ND10 | ND100 | ND100CE | ND100CX | ND110 | ND110CE | ND110CX | ND110PCX | ND120CX
datatype FppType = FPP32 | FPP48
datatype MMSType = MMS1 | MMS2
datatype PageTableMode = Four | Sixteen
datatype WriteMode = WRITEMODE_MSB | WRITEMODE_LSB | WRITEMODE_WORD
datatype NDMemoryType = ND_MEM_NONE | ND_MEM_MPM3 | ND_MEM_MPM4 | ND_MEM_MPM5 | ND_MEM_LOCAL | ND_MEM_PIOC

text \<open>
  \<open>AccessMode\<close> is a bit set: \<open>READ_FETCH\<close> has both the read and the fetch bit.
\<close>

datatype AccessMode = READ | WRITE | FETCH | READ_FETCH

fun has_READ :: "AccessMode \<Rightarrow> bool" where
  "has_READ READ = True"
| "has_READ READ_FETCH = True"
| "has_READ _ = False"

fun has_WRITE :: "AccessMode \<Rightarrow> bool" where
  "has_WRITE WRITE = True"
| "has_WRITE _ = False"

fun has_FETCH :: "AccessMode \<Rightarrow> bool" where
  "has_FETCH FETCH = True"
| "has_FETCH READ_FETCH = True"
| "has_FETCH _ = False"

record PagingTables =
  mmsType :: MMSType
  shadowRam :: "u16 list"
  shadowRamAddress :: u32
  isInitialized :: bool

text \<open>
  A memory bank may be backed by a store outside local RAM. Its accessors are C function
  pointers with an opaque context; here they are functions over a store of type \<open>'d\<close>,
  and \<open>None\<close> is the \<open>NULL\<close> pointer.
\<close>

record 'd NdMemoryBank =
  start_word :: u32
  length_word :: u32
  bank_type :: NDMemoryType
  bank_read :: "(u32 \<Rightarrow> 'd \<Rightarrow> u16 \<times> 'd) option"
  bank_write :: "(u32 \<Rightarrow> u16 \<Rightarrow> WriteMode \<Rightarrow> 'd \<Rightarrow> 'd) option"
  bank_exchange :: "(u32 \<Rightarrow> u16 \<Rightarrow> 'd \<Rightarrow> u16 \<times> 'd) option"

text \<open>
  The lock a test-and-set takes is a pair of host callbacks; \<open>tset_calls\<close> records the
  calls made to them (\<open>True\<close> = lock, \<open>False\<close> = unlock), oldest first, and
  \<open>s_tset_lock_fn\<close> says whether a pair is installed. The ECC latch array is allocated
  lazily in C and reads as 0 before that, so a function that is 0 everywhere stands for
  both. \<open>devices\<close> is the store behind the banks' function pointers.
\<close>

record 'd machine =
  g_reg :: CpuRegs
  g_mms_type :: MMSType
  g_paging_tables :: PagingTables
  s_memory_banks :: "'d NdMemoryBank list"
  n_Array :: "nat \<Rightarrow> u16"
  g_nd_memsize :: u32
  g_ecc_latch :: "nat \<Rightarrow> u8"
  g_dma_access :: bool
  s_tset_lock_fn :: bool
  s_tset_lock_held :: bool
  s_tset_old :: u16
  s_tset_old_valid :: bool
  tset_calls :: "bool list"
  g_current_cpu_type :: CpuType
  g_current_fpp_type :: FppType
  CurrentCPURunMode :: CPURunMode
  g_cpu_exit_code :: int
  devices :: 'd

type_synonym ('a, 'd) exec = "'d machine \<Rightarrow> ('a, 'd machine) outcome"

section \<open>Accessor laws\<close>

lemma gPIL_lt_16 [simp]: "gPIL r < 16"
proof -
  have "drop_bit 8 (reg_STS r AND 0x0f00) = take_bit 4 (drop_bit 8 (reg_STS r))"
    by (rule word16_bits) (simp add: bit_simps)
  then have "unat (drop_bit 8 (reg_STS r AND 0x0f00)) = take_bit 4 (unat (drop_bit 8 (reg_STS r)))"
    by (simp add: unsigned_take_bit_eq)
  also have "\<dots> < 2 ^ 4"
    by (rule take_bit_nat_less_exp)
  finally show ?thesis by (simp add: gPIL_def)
qed

lemma gPIL_cong: "reg_STS r = reg_STS r' \<Longrightarrow> gPIL r = gPIL r'"
  by (simp add: gPIL_def)

lemma set_reg_sel [simp, acc]:
  "reg_STS (set_reg l i v r) = reg_STS r"
  "reg (set_reg l i v r) = (reg r)(l := (reg r l)(i := v))"
  "gPIL (set_reg l i v r) = gPIL r"
  "chkit (set_reg l i v r) = chkit r"
  by (simp_all add: set_reg_def gPIL_def)

lemma cur_set_cur [simp, acc]: "cur i (set_cur j v r) = (if i = j then v else cur i r)"
  by (simp add: cur_def set_cur_def)

lemma set_cur_sel [simp, acc]:
  "reg_STS (set_cur i v r) = reg_STS r"
  "gPIL (set_cur i v r) = gPIL r"
  "reg (set_cur i v r) = (reg r)(gPIL r := (reg r (gPIL r))(i := v))"
  "chkit (set_cur i v r) = chkit r"
  by (simp_all add: set_cur_def)

lemma paging_bit [bit_defs]: "STS_PAGING_ON_IS_SET r \<longleftrightarrow> bit (reg_STS r) 14"
  by (simp add: STS_PAGING_ON_IS_SET_def bit_defs)

lemma extended_bit [bit_defs]: "STS_EXTENDED_ADDRESSING_IS_SET r \<longleftrightarrow> bit (reg_STS r) 13"
  by (simp add: STS_EXTENDED_ADDRESSING_IS_SET_def bit_defs)

lemma interrupt_bit [bit_defs]: "STS_INTERRUPT_ON_IS_SET r \<longleftrightarrow> bit (reg_STS r) 15"
  by (simp add: STS_INTERRUPT_ON_IS_SET_def bit_defs)

lemma ptm_bit [bit_defs]: "STS_PAGE_TABLE_MODE_IS_SET r \<longleftrightarrow> bit (reg r (gPIL r) 0) 0"
  by (simp add: STS_PAGE_TABLE_MODE_IS_SET_def and_one_eq mod_2_eq_odd bit_0)

end
