(* ===== verification/Registers.thy ===== *)
theory Registers
  imports CpuState
begin

text \<open>
  \<open>src/cpu/cpu_regs.c\<close>: the run level, the status bits, the per-level registers, and the
  locked fault registers PEA, PES and PGS. A status bit is either in the current level's own
  \<open>STS\<close> register (bits 0 to 7) or in the shared \<open>reg_STS\<close> (bits 8 to 15).
\<close>

section \<open>Definitions\<close>

definition cpu_set_pil :: "int \<Rightarrow> CpuRegs \<Rightarrow> bool \<times> CpuRegs" where
  "cpu_set_pil new_level r =
     (if new_level \<ge> 16 then (False, r)
      else if new_level = int (gPIL r) then (True, r)
      else (True, r\<lparr>reg_PVL := word_of_nat (gPIL r),
                    reg_STS := (reg_STS r AND 0xF000)
                                 OR push_bit 8 (word_of_int (new_level AND 0x0f))\<rparr>))"

definition cpu_set_pea :: "u16 \<Rightarrow> CpuRegs \<Rightarrow> CpuRegs" where
  "cpu_set_pea pea r =
     (if mylock_PEA r then r else r\<lparr>reg_PEA := pea, mylock_PEA := True\<rparr>)"

definition cpu_set_pes :: "u16 \<Rightarrow> CpuRegs \<Rightarrow> CpuRegs" where
  "cpu_set_pes pes r =
     (if mylock_PES r then r else r\<lparr>reg_PES := pes, mylock_PES := True\<rparr>)"

text \<open>
  \<open>gPGS_Lock\<close> is \<open>#define\<close>d as \<open>g_reg->mylock_PES\<close> (\<open>cpu_types.h\<close> line 638), not as
  \<open>mylock_PGS\<close>: the page-status lock is the PES lock.
\<close>

definition gPGS_Lock :: "CpuRegs \<Rightarrow> bool" where
  "gPGS_Lock r = mylock_PES r"

definition set_gPGS_Lock :: "bool \<Rightarrow> CpuRegs \<Rightarrow> CpuRegs" where
  "set_gPGS_Lock b r = r\<lparr>mylock_PES := b\<rparr>"

definition cpu_set_pgs :: "u16 \<Rightarrow> CpuRegs \<Rightarrow> CpuRegs" where
  "cpu_set_pgs pgs r =
     (if gPGS_Lock r then r
      else let r' = r\<lparr>reg_PGS := pgs\<rparr>
           in if pgs \<noteq> 0 then set_gPGS_Lock True r' else r')"

definition cpu_setreg :: "nat \<Rightarrow> u32 \<Rightarrow> CpuRegs \<Rightarrow> CpuRegs" where
  "cpu_setreg i val r =
     (if i = R_STS then set_cur i (ucast (val AND 0x00FF)) r
      else set_cur i (ucast (val AND 0xFFFF)) r)"

definition cpu_getbit :: "nat \<Rightarrow> nat \<Rightarrow> CpuRegs \<Rightarrow> u16" where
  "cpu_getbit regnum stsbit r =
     (let tmp = (if regnum = R_STS then gSTSr r else cur regnum r)
      in drop_bit stsbit tmp AND 1)"

definition cpu_clrbit :: "nat \<Rightarrow> nat \<Rightarrow> CpuRegs \<Rightarrow> CpuRegs" where
  "cpu_clrbit regnum stsbit r =
     (let thebit = push_bit stsbit 1 XOR 0xFFFF
      in set_cur regnum (thebit AND cur regnum r) r)"

definition cpu_setbit_sts_msb :: "nat \<Rightarrow> bool \<Rightarrow> CpuRegs \<Rightarrow> CpuRegs" where
  "cpu_setbit_sts_msb stsbit val r =
     (if val then r\<lparr>reg_STS := reg_STS r OR push_bit stsbit 1\<rparr>
      else r\<lparr>reg_STS := reg_STS r AND (push_bit stsbit 1 XOR 0xFFFF)\<rparr>)"

definition cpu_setbit :: "nat \<Rightarrow> nat \<Rightarrow> bool \<Rightarrow> CpuRegs \<Rightarrow> CpuRegs" where
  "cpu_setbit regnum stsbit val r =
     (if regnum = R_STS \<and> stsbit > 7 then cpu_setbit_sts_msb stsbit val r
      else if val then
        (let r' = set_cur regnum (push_bit stsbit 1 OR cur regnum r) r
         in if stsbit = STS_ERROR_INDICATOR then r'\<lparr>chkit := True\<rparr> else r')
      else set_cur regnum ((push_bit stsbit 1 XOR 0xFFFF) AND cur regnum r) r)"

text \<open>\<open>result\<close> is a C \<open>int\<close>: its bit 15 is compared with the operands' sign bits.\<close>

definition cpu_adjust_sts :: "u16 \<Rightarrow> u16 \<Rightarrow> int \<Rightarrow> CpuRegs \<Rightarrow> CpuRegs" where
  "cpu_adjust_sts reg_a operand result r =
     (let r1 = cpu_setbit R_STS STS_CARRY (result > 0xFFFF) r
      in if bit reg_a 15 = bit operand 15 \<and> bit reg_a 15 \<noteq> bit result 15
         then cpu_setbit R_STS STS_DYNAMIC_OVERFLOW True
                (cpu_setbit R_STS STS_STATIC_OVERFLOW True r1)
         else cpu_setbit R_STS STS_DYNAMIC_OVERFLOW False r1)"

section \<open>Bits\<close>

text \<open>
  \<open>reg_bit i n r\<close> is bit \<open>n\<close> of register \<open>i\<close> as the code reads it: the combined status
  word for register 0, the current level's register otherwise.
\<close>

definition reg_bit :: "nat \<Rightarrow> nat \<Rightarrow> CpuRegs \<Rightarrow> bool" where
  "reg_bit i n r = bit (if i = R_STS then gSTSr r else cur i r) n"

lemma cpu_getbit_bit [bit_defs]: "cpu_getbit i n r = (if reg_bit i n r then 1 else 0)"
  by (simp add: cpu_getbit_def reg_bit_def getbit_eq Let_def)

lemma cpu_getbit_ne_0 [simp, bit_defs]: "cpu_getbit i n r \<noteq> 0 \<longleftrightarrow> reg_bit i n r"
  by (simp add: cpu_getbit_bit)

lemma bit_gSTSr: "bit (gSTSr r) n \<longleftrightarrow> (if n \<le> 7 then bit (cur 0 r) n else bit (reg_STS r) n)"
proof (cases "n < 16")
  case True
  have "\<forall>n<16. bit (gSTSr r) n \<longleftrightarrow> (if n \<le> 7 then bit (cur 0 r) n else bit (reg_STS r) n)"
    by (simp add: all_less_16 gSTSr_def cur_def bit_simps)
  with True show ?thesis by blast
next
  case False
  then show ?thesis using bit_imp_le_length[of "gSTSr r" n] bit_imp_le_length[of "reg_STS r" n] by auto
qed

lemma reg_bit_STS_low: "n \<le> 7 \<Longrightarrow> reg_bit 0 n r = bit (cur 0 r) n"
  by (simp add: reg_bit_def bit_gSTSr)

lemma bit_or_1: "bit (2 ^ n OR w :: u16) m \<longleftrightarrow> (m = n \<and> n < 16) \<or> bit w m"
  by (auto simp: bit_or_iff bit_2_pow)

lemma bit_clear_1: "bit ((2 ^ n XOR 0xFFFF) AND w :: u16) m \<longleftrightarrow> m \<noteq> n \<and> bit w m"
  by (auto simp: bit_and_iff bit_xor_iff bit_2_pow dest: bit_imp_le_length)

lemma cpu_setbit_reg_STS:
  "reg_STS (cpu_setbit i n v r) =
     (if i = 0 \<and> n > 7 then reg_STS (cpu_setbit_sts_msb n v r) else reg_STS r)"
  by (simp add: cpu_setbit_def Let_def)

lemma cpu_setbit_cur:
  "\<not> (i = 0 \<and> n > 7) \<Longrightarrow> cur j (cpu_setbit i n v r) =
     (if j = i then (if v then 2 ^ n OR cur i r else (2 ^ n XOR 0xFFFF) AND cur i r)
      else cur j r)"
  by (auto simp: cpu_setbit_def Let_def cur_def gPIL_def)

lemma cpu_setbit_gPIL [simp, acc]: "n \<le> 7 \<or> n > 11 \<or> i \<noteq> 0 \<Longrightarrow> gPIL (cpu_setbit i n v r) = gPIL r"
proof (cases "i = 0 \<and> n > 7")
  case False
  then show ?thesis by (auto simp: gPIL_def cpu_setbit_reg_STS)
next
  case True
  assume "n \<le> 7 \<or> n > 11 \<or> i \<noteq> 0"
  with True have n: "n > 11" by simp
  have "reg_STS (cpu_setbit i n v r) AND 0x0f00 = reg_STS r AND 0x0f00"
    using n True
    by (intro bit_word_eqI)
       (auto simp: cpu_setbit_reg_STS cpu_setbit_sts_msb_def bit_simps bit_2_pow bit_0x0F00)
  then show ?thesis by (simp add: gPIL_def)
qed

lemma reg_bit_setbit_low:
  assumes "\<not> (i = 0 \<and> n > 7)" and "n < 16"
  shows "reg_bit j m (cpu_setbit i n v r) = (if j = i \<and> m = n then v else reg_bit j m r)"
proof (cases "j = 0")
  case True
  with assms show ?thesis
    by (auto simp: reg_bit_def bit_gSTSr cpu_setbit_cur cpu_setbit_reg_STS bit_or_1 bit_clear_1)
next
  case False
  with assms show ?thesis
    by (auto simp: reg_bit_def cpu_setbit_cur bit_or_1 bit_clear_1)
qed

lemma cpu_setbit_sts_msb_sel [simp, acc]:
  "reg (cpu_setbit_sts_msb n v r) = reg r"
  "chkit (cpu_setbit_sts_msb n v r) = chkit r"
  by (simp_all add: cpu_setbit_sts_msb_def)

lemma reg_bit_setbit_msb:
  assumes "n > 11" and "n < 16"
  shows "reg_bit j m (cpu_setbit 0 n v r) = (if j = 0 \<and> m = n then v else reg_bit j m r)"
proof -
  have pil: "gPIL (cpu_setbit 0 n v r) = gPIL r" using assms by simp
  have reg: "reg (cpu_setbit 0 n v r) = reg r" using assms by (simp add: cpu_setbit_def)
  have sts: "bit (reg_STS (cpu_setbit 0 n v r)) m \<longleftrightarrow> (if m = n then v else bit (reg_STS r) m)" for m
    using assms
    by (auto simp: cpu_setbit_reg_STS cpu_setbit_sts_msb_def bit_simps bit_2_pow
        dest: bit_imp_le_length)
  show ?thesis
    using assms by (auto simp: reg_bit_def bit_gSTSr cur_def pil reg sts)
qed

end
