(* ===== verification/Interrupts.thy ===== *)
theory Interrupts
  imports Registers
begin

text \<open>
  The interrupt system of \<open>src/cpu/cpu.c\<close>: the internal interrupt code, the priority
  encoder over PIE and PID, the level switch, device interrupts, and \<open>cpu_interrupt\<close>,
  which raises an internal interrupt and, for a protection violation, a page fault or an
  illegal instruction, jumps out of the instruction. The test-and-set lock of
  \<open>cpu_mms.c\<close> is here because the trap path releases it.
\<close>

section \<open>Definitions\<close>

text \<open>The loops \<open>for (i = n; i >= 0; i--)\<close> that look for the highest set bit.\<close>

fun scan_down :: "nat \<Rightarrow> u16 \<Rightarrow> nat option" where
  "scan_down n w =
     (if bit w n then Some n
      else if n = 0 then None else scan_down (n - 1) w)"

declare scan_down.simps [simp del]

definition cpu_calc_iic :: "CpuRegs \<Rightarrow> u16" where
  "cpu_calc_iic r =
     (let priority_code = reg_IID r AND reg_IIE r
      in if priority_code = 0 then 0
         else case scan_down 10 priority_code of Some i \<Rightarrow> word_of_nat i | None \<Rightarrow> 0)"

definition recalc_internal_interrupt_bits :: "CpuRegs \<Rightarrow> CpuRegs" where
  "recalc_internal_interrupt_bits r =
     (let r1 = (if cpu_getbit R_STS STS_ERROR_INDICATOR r \<noteq> 0
                then r\<lparr>reg_IID := reg_IID r OR push_bit 5 1\<rparr> else r)
      in if reg_IID r1 AND reg_IIE r1 \<noteq> 0
         then r1\<lparr>reg_PID := reg_PID r1 OR push_bit 14 1,
                 reg_IIC := cpu_calc_iic r1, chkit := True\<rparr>
         else r1)"

definition calc_pk :: "CpuRegs \<Rightarrow> CpuRegs" where
  "calc_pk r =
     (let i = reg_PIE r AND reg_PID r
      in r\<lparr>myreg_PK := (case scan_down 15 i of Some lvl \<Rightarrow> word_of_nat lvl | None \<Rightarrow> 0)\<rparr>)"

definition check_and_switch :: "CpuRegs \<Rightarrow> bool \<times> CpuRegs" where
  "check_and_switch r =
     (if chkit r then
        (let r1 = recalc_internal_interrupt_bits (r\<lparr>chkit := False\<rparr>)
         in if \<not> STS_INTERRUPT_ON_IS_SET r1 then (False, r1)
            else (let r2 = calc_pk r1
                  in if unat (myreg_PK r2) \<noteq> gPIL r2
                     then (True, snd (cpu_set_pil (uint (myreg_PK r2)) r2))
                     else (False, r2)))
      else (False, r))"

definition cpu_device_interrupt :: "u16 \<Rightarrow> CpuRegs \<Rightarrow> CpuRegs" where
  "cpu_device_interrupt interrupt_bits r =
     (let valid_bits = interrupt_bits AND 0xBC00;
          tmp = reg_PID r;
          r1 = r\<lparr>reg_PID := reg_PID r AND NOT valid_bits\<rparr>;
          r2 = r1\<lparr>reg_PID := reg_PID r1 OR valid_bits\<rparr>
      in if tmp \<noteq> reg_PID r2 then r2\<lparr>chkit := True\<rparr> else r2)"

definition mms_tset_lock_begin :: "'d machine \<Rightarrow> 'd machine" where
  "mms_tset_lock_begin m =
     (let m1 = m\<lparr>s_tset_old_valid := False\<rparr>
      in if s_tset_lock_fn m1 \<and> \<not> s_tset_lock_held m1
         then m1\<lparr>tset_calls := tset_calls m1 @ [True], s_tset_lock_held := True\<rparr>
         else m1)"

text \<open>
  \<open>mms_set_tset_lock\<close> installs both callbacks or neither, so the unlock callback is
  present exactly when the lock callback is.
\<close>

definition mms_tset_lock_end :: "'d machine \<Rightarrow> 'd machine" where
  "mms_tset_lock_end m =
     (if s_tset_lock_held m then
        (let m1 = m\<lparr>s_tset_lock_held := False\<rparr>
         in if s_tset_lock_fn m1 then m1\<lparr>tset_calls := tset_calls m1 @ [False]\<rparr> else m1)
      else m)"

definition interrupt_regs :: "nat \<Rightarrow> u16 \<Rightarrow> CpuRegs \<Rightarrow> CpuRegs" where
  "interrupt_regs lvl sub r =
     (let r1 = (if lvl = 14 then
                  (let r0 = r\<lparr>reg_IID := reg_IID r OR sub\<rparr>
                   in if reg_IID r0 AND reg_IIE r0 \<noteq> 0
                      then r0\<lparr>reg_PID := reg_PID r0 OR push_bit 14 1\<rparr> else r0)
                else r\<lparr>reg_PID := reg_PID r OR push_bit lvl 1\<rparr>)
      in recalc_internal_interrupt_bits r1)"

definition cpu_interrupt :: "nat \<Rightarrow> u16 \<Rightarrow> (unit, 'd) exec" where
  "cpu_interrupt lvl sub m =
     (let m1 = g_reg_update (interrupt_regs lvl sub) m
      in if lvl = 14 \<and> sub AND (push_bit 2 1 OR push_bit 3 1 OR push_bit 4 1) \<noteq> 0
         then Trap (mms_tset_lock_end m1)
         else Done () m1)"

section \<open>The priority encoder\<close>

lemma scan_down_0: "scan_down 0 w = (if bit w 0 then Some 0 else None)"
  by (simp add: scan_down.simps)

lemma scan_down_Suc: "scan_down (Suc n) w = (if bit w (Suc n) then Some (Suc n) else scan_down n w)"
  by (simp add: scan_down.simps[of "Suc n"])

lemma scan_down_Some:
  "scan_down n w = Some i \<longleftrightarrow> i \<le> n \<and> bit w i \<and> (\<forall>j. i < j \<and> j \<le> n \<longrightarrow> \<not> bit w j)"
proof (induction n)
  case 0
  then show ?case by (auto simp: scan_down_0)
next
  case (Suc n)
  then show ?case by (auto simp: scan_down_Suc le_Suc_eq)
qed

lemma scan_down_None: "scan_down n w = None \<longleftrightarrow> (\<forall>j\<le>n. \<not> bit w j)"
  by (induction n) (auto simp: scan_down_0 scan_down_Suc le_Suc_eq)

lemma scan_down_le: "scan_down n w = Some i \<Longrightarrow> i \<le> n"
  by (simp add: scan_down_Some)

section \<open>Frames: what interrupt handling leaves alone\<close>

lemma recalc_sel [simp]:
  "reg (recalc_internal_interrupt_bits r) = reg r"
  "reg_STS (recalc_internal_interrupt_bits r) = reg_STS r"
  "reg_PIE (recalc_internal_interrupt_bits r) = reg_PIE r"
  "reg_IIE (recalc_internal_interrupt_bits r) = reg_IIE r"
  "reg_PCR (recalc_internal_interrupt_bits r) = reg_PCR r"
  "reg_PVL (recalc_internal_interrupt_bits r) = reg_PVL r"
  "reg_PES (recalc_internal_interrupt_bits r) = reg_PES r"
  "reg_PEA (recalc_internal_interrupt_bits r) = reg_PEA r"
  "reg_PGS (recalc_internal_interrupt_bits r) = reg_PGS r"
  "reg_ECCR (recalc_internal_interrupt_bits r) = reg_ECCR r"
  "mylock_PES (recalc_internal_interrupt_bits r) = mylock_PES r"
  "mylock_PEA (recalc_internal_interrupt_bits r) = mylock_PEA r"
  by (simp_all add: recalc_internal_interrupt_bits_def Let_def)

lemma interrupt_regs_sel [simp]:
  "reg (interrupt_regs l s r) = reg r"
  "reg_STS (interrupt_regs l s r) = reg_STS r"
  "reg_PIE (interrupt_regs l s r) = reg_PIE r"
  "reg_IIE (interrupt_regs l s r) = reg_IIE r"
  "reg_PCR (interrupt_regs l s r) = reg_PCR r"
  "reg_PVL (interrupt_regs l s r) = reg_PVL r"
  "reg_PES (interrupt_regs l s r) = reg_PES r"
  "reg_PEA (interrupt_regs l s r) = reg_PEA r"
  "reg_PGS (interrupt_regs l s r) = reg_PGS r"
  "reg_ECCR (interrupt_regs l s r) = reg_ECCR r"
  "mylock_PES (interrupt_regs l s r) = mylock_PES r"
  "mylock_PEA (interrupt_regs l s r) = mylock_PEA r"
  by (simp_all add: interrupt_regs_def Let_def)

lemma calc_pk_sel [simp]:
  "reg (calc_pk r) = reg r" "reg_STS (calc_pk r) = reg_STS r" "reg_PVL (calc_pk r) = reg_PVL r"
  "reg_PID (calc_pk r) = reg_PID r" "reg_PIE (calc_pk r) = reg_PIE r"
  "reg_PCR (calc_pk r) = reg_PCR r"
  by (simp_all add: calc_pk_def Let_def)

lemma mms_tset_lock_end_sel [simp]:
  "g_reg (mms_tset_lock_end m) = g_reg m" "n_Array (mms_tset_lock_end m) = n_Array m"
  "g_paging_tables (mms_tset_lock_end m) = g_paging_tables m"
  "s_memory_banks (mms_tset_lock_end m) = s_memory_banks m"
  "g_nd_memsize (mms_tset_lock_end m) = g_nd_memsize m"
  "g_mms_type (mms_tset_lock_end m) = g_mms_type m"
  "g_ecc_latch (mms_tset_lock_end m) = g_ecc_latch m"
  "devices (mms_tset_lock_end m) = devices m"
  "s_tset_lock_held (mms_tset_lock_end m) = False"
  "s_tset_lock_fn (mms_tset_lock_end m) = s_tset_lock_fn m"
  by (simp_all add: mms_tset_lock_end_def Let_def)

lemma calc_pk_lt_16: "unat (myreg_PK (calc_pk r)) < 16"
proof (cases "scan_down 15 (reg_PIE r AND reg_PID r)")
  case None
  then show ?thesis by (simp add: calc_pk_def)
next
  case (Some i)
  then have "i \<le> 15" by (rule scan_down_le)
  with Some show ?thesis by (simp add: calc_pk_def unsigned_of_nat take_bit_nat_eq_self)
qed

text \<open>Writing a level into \<open>reg_STS\<close> is read back as that level.\<close>

lemma gPIL_set_level:
  assumes "k < 16"
  shows "gPIL (r\<lparr>reg_STS := (s AND 0xF000) OR push_bit 8 (word_of_int (int k AND 0x0f))\<rparr>) = k"
proof -
  have "int k AND 0x0f = int k"
  proof -
    have "int k AND 15 = take_bit 4 (int k)" by (simp add: take_bit_eq_mask mask_eq_exp_minus_1)
    also have "\<dots> = int k" using assms by (simp add: take_bit_int_eq_self_iff)
    finally show ?thesis by simp
  qed
  then have w: "(word_of_int (int k AND 0x0f) :: u16) = word_of_nat k" by simp
  have small: "n < 4" if "bit k n" for n
  proof -
    from that have "bit (take_bit 4 k) n"
      using assms by (simp add: take_bit_nat_eq_self)
    then show "n < 4" by (simp add: bit_take_bit_iff)
  qed
  have "drop_bit 8 (((s AND 0xF000) OR push_bit 8 (word_of_nat k)) AND 0x0f00) = (word_of_nat k :: u16)"
    using small
    by (intro word16_bits) (auto simp: bit_simps bit_word_of_nat dest: small)
  then show ?thesis
    using assms by (simp add: gPIL_def w unsigned_of_nat take_bit_nat_eq_self)
qed


lemma cpu_set_pil_level:
  assumes "k < 16"
  shows "gPIL (snd (cpu_set_pil (int k) r)) = k"
    and "reg (snd (cpu_set_pil (int k) r)) = reg r"
    and "reg_PVL (snd (cpu_set_pil (int k) r)) =
           (if k = gPIL r then reg_PVL r else word_of_nat (gPIL r))"
  using assms gPIL_set_level[OF assms] by (auto simp: cpu_set_pil_def)

section \<open>What the level switch computes\<close>

text \<open>
  The levels that ask for the CPU: enabled in PIE and either detected in PID or, for level
  14, raised by an enabled internal interrupt (the Z indicator counts as cause 5).
\<close>

definition internal_request :: "CpuRegs \<Rightarrow> bool" where
  "internal_request r \<longleftrightarrow>
     (\<exists>n<16. bit (reg_IIE r) n \<and> (bit (reg_IID r) n \<or> n = 5 \<and> reg_bit 0 3 r))"

definition requesting :: "CpuRegs \<Rightarrow> nat set" where
  "requesting r =
     {l. l < 16 \<and> bit (reg_PIE r) l \<and> (bit (reg_PID r) l \<or> l = 14 \<and> internal_request r)}"

lemma word_and_ne_0: "(a AND b :: u16) \<noteq> 0 \<longleftrightarrow> (\<exists>n<16. bit a n \<and> bit b n)"
proof
  assume "a AND b \<noteq> 0"
  then obtain n where "bit (a AND b) n" by (auto simp: bit_eq_iff)
  then show "\<exists>n<16. bit a n \<and> bit b n"
    using bit_imp_le_length[of a n] by (auto simp: bit_and_iff)
next
  assume "\<exists>n<16. bit a n \<and> bit b n"
  then obtain n where "bit (a AND b) n" by (auto simp: bit_and_iff)
  then show "a AND b \<noteq> 0" by auto
qed

lemma recalc_PID:
  "l < 16 \<Longrightarrow> bit (reg_PID (recalc_internal_interrupt_bits r)) l \<longleftrightarrow>
     bit (reg_PID r) l \<or> l = 14 \<and> internal_request r"
proof -
  assume l: "l < 16"
  define d where "d = (if reg_bit 0 3 r then reg_IID r OR 2 ^ 5 else reg_IID r)"
  have d: "bit d n \<longleftrightarrow> bit (reg_IID r) n \<or> n = 5 \<and> reg_bit 0 3 r" if "n < 16" for n
    using that by (auto simp: d_def bit_or_iff)
  have "d AND reg_IIE r \<noteq> 0 \<longleftrightarrow> internal_request r"
    by (auto simp: word_and_ne_0 internal_request_def d)
  moreover have "reg_PID (recalc_internal_interrupt_bits r) =
      (if d AND reg_IIE r \<noteq> 0 then reg_PID r OR push_bit 14 1 else reg_PID r)"
    by (simp add: recalc_internal_interrupt_bits_def d_def Let_def)
  ultimately show ?thesis
    using l by (auto simp: bit_or_iff)
qed

lemma requesting_recalc:
  "{l. l < 16 \<and> bit (reg_PIE r AND reg_PID (recalc_internal_interrupt_bits r)) l} = requesting r"
  by (auto simp: requesting_def bit_and_iff recalc_PID)

lemma calc_pk_Max:
  "unat (myreg_PK (calc_pk r)) =
     (let S = {l. l < 16 \<and> bit (reg_PIE r AND reg_PID r) l} in if S = {} then 0 else Max S)"
proof (cases "scan_down 15 (reg_PIE r AND reg_PID r)")
  case None
  then have "{l. l < 16 \<and> bit (reg_PIE r AND reg_PID r) l} = {}"
    by (auto simp: scan_down_None)
  with None show ?thesis by (simp add: calc_pk_def Let_def)
next
  case (Some i)
  let ?S = "{l. l < 16 \<and> bit (reg_PIE r AND reg_PID r) l}"
  from Some have i: "i \<in> ?S" "\<And>j. j \<in> ?S \<Longrightarrow> j \<le> i"
    by (fastforce simp: scan_down_Some not_le[symmetric])+
  then have "Max ?S = i" by (intro Max_eqI) auto
  moreover have "?S \<noteq> {}" using i by blast
  moreover have "unat (myreg_PK (calc_pk r)) = i"
    using Some i by (simp add: calc_pk_def)
  ultimately show ?thesis by (simp only: Let_def if_False)
qed

lemma level_switch:
  assumes "chkit r" and "STS_INTERRUPT_ON_IS_SET r"
  shows "gPIL (snd (check_and_switch r)) = (if requesting r = {} then 0 else Max (requesting r))
    \<and> reg (snd (check_and_switch r)) = reg r
    \<and> fst (check_and_switch r) = (gPIL (snd (check_and_switch r)) \<noteq> gPIL r)
    \<and> reg_PVL (snd (check_and_switch r)) =
        (if fst (check_and_switch r) then word_of_nat (gPIL r) else reg_PVL r)"
proof -
  define r1 where "r1 = recalc_internal_interrupt_bits (r\<lparr>chkit := False\<rparr>)"
  define k where "k = unat (myreg_PK (calc_pk r1))"
  have r1: "reg r1 = reg r" "reg_STS r1 = reg_STS r" "reg_PIE r1 = reg_PIE r" "reg_PVL r1 = reg_PVL r"
    by (simp_all add: r1_def)
  have pil: "gPIL r1 = gPIL r" "gPIL (calc_pk r1) = gPIL r"
    by (simp_all add: gPIL_def r1)
  have ion: "STS_INTERRUPT_ON_IS_SET r1"
    using assms(2) by (simp add: STS_INTERRUPT_ON_IS_SET_def r1)
  have req: "requesting (r\<lparr>chkit := False\<rparr>) = requesting r"
    by (simp add: requesting_def internal_request_def reg_bit_def gSTSr_def cur_def gPIL_def)
  have k: "k = (if requesting r = {} then 0 else Max (requesting r))"
    using requesting_recalc[of "r\<lparr>chkit := False\<rparr>"] calc_pk_Max[of r1]
    by (simp add: k_def r1_def req Let_def)
  have k16: "k < 16" using calc_pk_lt_16 by (simp add: k_def)
  have kk: "uint (myreg_PK (calc_pk r1)) = int k" by (simp add: k_def)
  have run: "check_and_switch r =
      (if k \<noteq> gPIL r then (True, snd (cpu_set_pil (int k) (calc_pk r1))) else (False, calc_pk r1))"
    using assms(1) ion by (simp add: check_and_switch_def Let_def kk pil flip: r1_def k_def)
  show ?thesis
  proof (cases "k = gPIL r")
    case True
    then show ?thesis by (simp add: run pil r1 flip: k)
  next
    case False
    then show ?thesis
      by (simp add: run pil r1 cpu_set_pil_level[OF k16] flip: k)
  qed
qed

text \<open>C3
  With the interrupt system on and a pending check, the level switch leaves the CPU on the
  highest level that requests it (level 0 when none does), with every level's registers
  untouched and, when the level changes, the old level in PVL.
\<close>

theorem check_and_switch_level:
  assumes "chkit r" and "STS_INTERRUPT_ON_IS_SET r"
  shows "gPIL (snd (check_and_switch r)) = (if requesting r = {} then 0 else Max (requesting r))
    \<and> reg (snd (check_and_switch r)) = reg r
    \<and> fst (check_and_switch r) = (gPIL (snd (check_and_switch r)) \<noteq> gPIL r)
    \<and> reg_PVL (snd (check_and_switch r)) =
        (if fst (check_and_switch r) then word_of_nat (gPIL r) else reg_PVL r)"
  using level_switch [OF assms] .

theorem check_and_switch_level_witness:
  "gPIL (snd (check_and_switch (demo_regs\<lparr>reg_STS := 0x8100, reg_PIE := 0xFFFF, reg_PID := 0x0408, chkit := True\<rparr>))) = 10"
proof -
  define r where "r = demo_regs\<lparr>reg_STS := 0x8100, reg_PIE := 0xFFFF, reg_PID := 0x0408, chkit := True\<rparr>"
  have h: "chkit r" "STS_INTERRUPT_ON_IS_SET r" unfolding r_def by code_simp+
  have ir: "\<not> internal_request r" by (simp add: internal_request_def r_def demo_regs_def)
  have b: "\<forall>l<16. bit (0x408 :: u16) l \<longleftrightarrow> l = 3 \<or> l = 10" by (simp add: all_less_16)
  have sel: "reg_PIE r = 0xFFFF" "reg_PID r = 0x408" by (simp_all add: r_def)
  have m: "l \<in> requesting r \<longleftrightarrow> l = 3 \<or> l = 10" for l
  proof (cases "l < 16")
    case True
    then have "bit (0x408 :: u16) l \<longleftrightarrow> l = 3 \<or> l = 10" using b by blast
    moreover have "bit (0xFFFF :: u16) l" using True by simp
    ultimately show ?thesis unfolding requesting_def mem_Collect_eq sel using True ir by blast
  qed (auto simp: requesting_def)
  have "requesting r = {3, 10}" using m by blast
  then show ?thesis using check_and_switch_level[OF h] unfolding r_def[symmetric] by simp
qed

end
