(* ===== verification/Alu.thy ===== *)
theory Alu
  imports Interrupts
begin

text \<open>
  Register-to-register instructions of \<open>src/cpu/cpu_instr.c\<close>: the adder and its status
  bits, the register operations, the skip conditions, the bit instructions, the single and
  double shifts, and the privileged transfers between A and the internal registers.
  \<open>nd120\<close> is \<open>versn_is_nd120()\<close>, a constant of the configured CPU type; the display panel
  is not configured (\<open>s_pap\<close> is \<open>NULL\<close>), so its callbacks do nothing.
\<close>

section \<open>The adder\<close>

definition do_add :: "u16 \<Rightarrow> u16 \<Rightarrow> u16 \<Rightarrow> CpuRegs \<Rightarrow> u16 \<times> CpuRegs" where
  "do_add a b k r =
     (let tmp = uint a + uint b + uint k;
          r1 = cpu_setbit R_STS STS_CARRY (tmp AND 0xffff0000 \<noteq> 0) r;
          is_diff = (bit a 15 \<noteq> bit b 15);
          r2 = (if \<not> is_diff \<and> bit a 15 \<noteq> bit tmp 15
                then cpu_setbit R_STS STS_DYNAMIC_OVERFLOW True
                       (cpu_setbit R_STS STS_STATIC_OVERFLOW True r1)
                else cpu_setbit R_STS STS_DYNAMIC_OVERFLOW False r1)
      in (word_of_int tmp, r2))"

section \<open>Register operations\<close>

definition field :: "u16 \<Rightarrow> nat \<Rightarrow> u16 \<Rightarrow> nat" where
  "field msk k instr = unat (drop_bit k (instr AND msk))"

text \<open>A register-field value 0 names no register: it reads as 0 and a write to it is dropped.\<close>

definition put_reg :: "nat \<Rightarrow> u16 \<Rightarrow> CpuRegs \<Rightarrow> CpuRegs" where
  "put_reg i v r = (if i \<noteq> 0 then set_cur i v r else r)"

definition regop_logical :: "u16 \<Rightarrow> nat \<Rightarrow> nat \<Rightarrow> u16 \<Rightarrow> u16 \<Rightarrow> CpuRegs \<Rightarrow> CpuRegs" where
  "regop_logical operand sr dr source destination r =
     (let cm1 = field 0x0080 7 operand \<noteq> 0;
          cld = field 0x0040 6 operand \<noteq> 0;
          src = (if cm1 then NOT source else source);
          op = field 0x0300 8 operand
      in if op = 0 then
           (let old_dr = (if dr = 0 then 0 else cur dr r);
                new_sr = (if cld then 0 else old_dr)
            in put_reg sr new_sr (put_reg dr src r))
         else if op = 1 then put_reg dr (destination AND src) r
         else if op = 2
         then put_reg dr (if cm1 then destination OR NOT source else destination XOR source) r
         else put_reg dr (destination OR src) r)"

definition regop_arith :: "u16 \<Rightarrow> nat \<Rightarrow> u16 \<Rightarrow> u16 \<Rightarrow> CpuRegs \<Rightarrow> CpuRegs" where
  "regop_arith operand dr source destination r =
     (let op = field 0x0380 7 operand;
          (tmp, r1) =
            (if op = 0 then do_add destination source 0 r
             else if op = 1 then do_add destination (NOT source) 0 r
             else if op = 2 then do_add destination source 1 r
             else if op = 3 then do_add destination (NOT source) 1 r
             else if op = 4 then do_add destination source (cpu_getbit R_STS STS_CARRY r) r
             else if op = 5 then do_add destination (NOT source) (cpu_getbit R_STS STS_CARRY r) r
             else (if dr = 0 then 0 else cur dr r, r))
      in put_reg dr tmp r1)"

definition regop :: "u16 \<Rightarrow> CpuRegs \<Rightarrow> CpuRegs" where
  "regop operand r =
     (let rad = field 0x0400 10 operand;
          cld = field 0x0040 6 operand \<noteq> 0;
          sr = field 0x0038 3 operand;
          dr = field 0x0007 0 operand;
          source = (if sr = 0 then 0 else cur sr r);
          destination = (if cld then 0 else if dr = 0 then 0 else cur dr r)
      in if rad = 0 then regop_logical operand sr dr source destination r
         else regop_arith operand dr source destination r)"

section \<open>Skip conditions\<close>

definition is_skip :: "u16 \<Rightarrow> CpuRegs \<Rightarrow> bool" where
  "is_skip instr r =
     (let sr = unat (drop_bit 3 instr AND 0x07);
          dr = unat (drop_bit 0 instr AND 0x07);
          source = (if sr = 0 then 0 else cur sr r);
          desti = (if dr = 0 then 0 else cur dr r);
          z = (uint desti - uint source = 0);
          sgr = desti - source;
          ovf = (desti AND NOT source AND NOT sgr) OR (NOT desti AND source AND sgr);
          o' = (ovf <s 0);
          c = \<not> (uint desti - uint source < 0);
          s = (drop_bit 15 (desti - source) AND 0x01 \<noteq> 0);
          op = unat (drop_bit 8 instr AND 0x07)
      in if op = 0 then z
         else if op = 1 then \<not> s
         else if op = 2 then s = o'
         else if op = 3 then c
         else if op = 4 then \<not> z
         else if op = 5 then s
         else if op = 6 then s \<noteq> o'
         else \<not> c)"

section \<open>Bit instructions\<close>

definition skip_next :: "CpuRegs \<Rightarrow> CpuRegs" where
  "skip_next r = set_cur R_P (cur R_P r + 1) r"

definition do_bops :: "u16 \<Rightarrow> CpuRegs \<Rightarrow> CpuRegs" where
  "do_bops operand r =
     (let bn = field 0x0078 3 operand;
          dr = field 0x0007 0 operand;
          op = field 0x0780 7 operand;
          b = cpu_getbit dr bn r;
          k = cpu_getbit R_STS STS_BIT_ACCUMULATOR r;
          setk = cpu_setbit R_STS STS_BIT_ACCUMULATOR
      in if op = 0 then cpu_setbit dr bn False r
         else if op = 1 then cpu_setbit dr bn True r
         else if op = 2 then cpu_setbit dr bn (b XOR 1 \<noteq> 0) r
         else if op = 3 then cpu_setbit dr bn (k \<noteq> 0) r
         else if op = 4 then (if b = 0 then skip_next r else r)
         else if op = 5 then (if b \<noteq> 0 then skip_next r else r)
         else if op = 6 then (if b XOR 1 = k then skip_next r else r)
         else if op = 7 then (if b = k then skip_next r else r)
         else if op = 8 then setk True (cpu_setbit dr bn (k XOR 1 \<noteq> 0) r)
         else if op = 9 then setk False (cpu_setbit dr bn (k \<noteq> 0) r)
         else if op = 10 then setk (b XOR 1 \<noteq> 0) r
         else if op = 11 then setk (b \<noteq> 0) r
         else if op = 12 then setk ((b XOR 1) AND k \<noteq> 0) r
         else if op = 13 then setk (b AND k \<noteq> 0) r
         else if op = 14 then setk ((b XOR 1) OR k \<noteq> 0) r
         else setk (b OR k \<noteq> 0) r)"

section \<open>Shifts\<close>

text \<open>
  Both C loops shift one place at a time; \<open>width\<close> is 16 for \<open>shift_reg\<close> and 32 for
  \<open>shift_double_reg\<close>. The loop state is the register and the bit shifted out last.
\<close>

definition shift_count :: "u16 \<Rightarrow> nat" where
  "shift_count instr =
     (if bit instr 5 then unat ((NOT ((instr AND 0x003F) OR 0xFFC0) + 1) AND 0x3F)
      else unat (instr AND 0x003F))"

definition shift_type :: "u16 \<Rightarrow> nat" where
  "shift_type instr = unat (drop_bit 9 instr AND 0x03)"

definition shift_step16 :: "bool \<Rightarrow> nat \<Rightarrow> u16 \<Rightarrow> u16 \<times> u16 \<Rightarrow> u16 \<times> u16" where
  "shift_step16 isneg ty m st =
     (let w = fst st;
          tmp = (if isneg then w AND 0x01 else drop_bit 15 w AND 0x01);
          msb = drop_bit 15 w AND 1;
          w = (if isneg then drop_bit 1 w else push_bit 1 w)
      in (if ty = 0 then (if isneg then (w AND 0x7fff) OR push_bit 15 msb else w AND 0xfffe)
          else if ty = 1 then (if isneg then (w AND 0x7fff) OR push_bit 15 tmp else (w AND 0xfffe) OR tmp)
          else if ty = 2 then (if isneg then w AND 0x7fff else w AND 0xfffe)
          else (if isneg then (w AND 0x7fff) OR push_bit 15 m else (w AND 0xfffe) OR m),
          tmp))"

definition shift_reg :: "u16 \<Rightarrow> u16 \<Rightarrow> CpuRegs \<Rightarrow> u16 \<times> CpuRegs" where
  "shift_reg w instr r =
     (let m = cpu_getbit R_STS STS_SHIFT_OUT r;
          (w', tmp) = (shift_step16 (bit instr 5) (shift_type instr) m ^^ shift_count instr) (w, m)
      in (w', cpu_setbit R_STS STS_SHIFT_OUT (tmp \<noteq> 0) r))"

definition shift_step32 :: "bool \<Rightarrow> nat \<Rightarrow> u32 \<Rightarrow> u32 \<times> u32 \<Rightarrow> u32 \<times> u32" where
  "shift_step32 isneg ty m st =
     (let w = fst st;
          tmp = (if isneg then w AND 0x01 else drop_bit 31 w AND 0x01);
          msb = drop_bit 31 w AND 1;
          w = (if isneg then drop_bit 1 w else push_bit 1 w)
      in (if ty = 0 then (if isneg then (w AND 0x7fffffff) OR push_bit 31 msb else w AND 0xfffffffe)
          else if ty = 1
          then (if isneg then (w AND 0x7fffffff) OR push_bit 31 tmp else (w AND 0xfffffffe) OR tmp)
          else if ty = 2 then (if isneg then w AND 0x7fffffff else w AND 0xfffffffe)
          else (if isneg then (w AND 0x7fffffff) OR push_bit 31 m else (w AND 0xfffffffe) OR m),
          tmp))"

definition shift_double_reg :: "u32 \<Rightarrow> u16 \<Rightarrow> CpuRegs \<Rightarrow> u32 \<times> CpuRegs" where
  "shift_double_reg w instr r =
     (let m = ucast (cpu_getbit R_STS STS_SHIFT_OUT r);
          (w', tmp) = (shift_step32 (bit instr 5) (shift_type instr) m ^^ shift_count instr) (w, m)
      in (w', cpu_setbit R_STS STS_SHIFT_OUT (tmp \<noteq> 0) r))"

definition opcode_shift_group :: "u16 \<Rightarrow> CpuRegs \<Rightarrow> CpuRegs" where
  "opcode_shift_group operand r =
     (let op = unat (drop_bit 7 operand AND 0x03)
      in if op = 0 then (let (w, r') = shift_reg (cur R_T r) operand r in set_cur R_T w r')
         else if op = 1 then (let (w, r') = shift_reg (cur R_D r) operand r in set_cur R_D w r')
         else if op = 2 then (let (w, r') = shift_reg (cur R_A r) operand r in set_cur R_A w r')
         else (let (w, r') = shift_double_reg (push_bit 16 (ucast (cur R_A r)) OR ucast (cur R_D r)) operand r
               in set_cur R_D (ucast (w AND 0xFFFF)) (set_cur R_A (ucast (drop_bit 16 w)) r')))"

section \<open>What shifting computes\<close>

text \<open>
  Bit \<open>i\<close> of a register shifted \<open>n\<close> places, by direction and type: 0 plain (arithmetic to
  the right), 1 rotation, 2 zero end input, 3 link (the shift-out indicator) end input.
\<close>

definition shifted_bit :: "bool \<Rightarrow> nat \<Rightarrow> bool \<Rightarrow> nat \<Rightarrow> 'a::len word \<Rightarrow> nat \<Rightarrow> bool" where
  "shifted_bit neg ty link n w i =
     (let W = LENGTH('a) in
      if neg
      then (if ty = 1 then bit w ((i + n) mod W)
            else if i + n < W then bit w (i + n)
            else if ty = 0 then bit w (W - 1) else if ty = 2 then False else link)
      else (if ty = 1 then bit w (nat ((int i - int n) mod int W))
            else if n \<le> i then bit w (i - n)
            else if ty = 3 then link else False))"

definition end_input :: "bool \<Rightarrow> nat \<Rightarrow> 'a::len word \<Rightarrow> 'a word \<Rightarrow> bool" where
  "end_input neg ty m w =
     (if ty = 0 then neg \<and> bit w (LENGTH('a) - 1)
      else if ty = 1 then bit w (if neg then 0 else LENGTH('a) - 1)
      else if ty = 2 then False else bit m 0)"

locale shifter =
  fixes step :: "bool \<Rightarrow> nat \<Rightarrow> 'a::len word \<Rightarrow> 'a word \<times> 'a word \<Rightarrow> 'a word \<times> 'a word"
  assumes step_bit: "m \<in> {0, 1} \<Longrightarrow> ty < 4 \<Longrightarrow> i < LENGTH('a) \<Longrightarrow>
      bit (fst (step neg ty m st)) i \<longleftrightarrow>
        (if neg then (if Suc i = LENGTH('a) then end_input neg ty m (fst st) else bit (fst st) (Suc i))
         else (if i = 0 then end_input neg ty m (fst st) else bit (fst st) (i - 1)))"
    and step_out: "snd (step neg ty m st) =
        (if bit (fst st) (if neg then 0 else LENGTH('a) - 1) then 1 else 0)"
begin

lemma shifted_0: "i < LENGTH('a) \<Longrightarrow> shifted_bit neg ty link 0 w i = bit w i" for w :: "'a word"
  by (simp add: shifted_bit_def Let_def)

lemma shifted_Suc_right:
  fixes w :: "'a word"
  assumes "i < LENGTH('a)" "ty < 4"
  shows "shifted_bit True ty link (Suc n) w i =
    (if Suc i = LENGTH('a)
     then (if ty = 0 then shifted_bit True ty link n w (LENGTH('a) - 1)
           else if ty = 1 then shifted_bit True ty link n w 0 else if ty = 2 then False else link)
     else shifted_bit True ty link n w (Suc i))"
proof (cases "Suc i = LENGTH('a)")
  case True
  have "(i + Suc n) mod LENGTH('a) = n mod LENGTH('a)"
    using True by (metis add.commute add_Suc_shift mod_add_self2)
  moreover have "LENGTH('a) - Suc 0 = i" using True by simp
  moreover have "n = 0 \<or> \<not> i + n < LENGTH('a)" using True by linarith
  ultimately show ?thesis
    using True assms by (cases "n = 0") (simp_all add: shifted_bit_def Let_def)
next
  case False
  then show ?thesis using assms by (auto simp: shifted_bit_def Let_def)
qed

lemma mod_shift_left: "i > 0 \<Longrightarrow> (int i - int (Suc n)) mod k = (int (i - 1) - int n) mod k"
  by (simp add: of_nat_diff algebra_simps)

lemma shifted_Suc_left:
  fixes w :: "'a word"
  assumes "i < LENGTH('a)" "ty < 4"
  shows "shifted_bit False ty link (Suc n) w i =
    (if i = 0
     then (if ty = 1 then shifted_bit False ty link n w (LENGTH('a) - 1) else if ty = 3 then link else False)
     else shifted_bit False ty link n w (i - 1))"
proof (cases "i = 0")
  case True
  have "(int 0 - int (Suc n)) mod int LENGTH('a) = (int (LENGTH('a) - 1) - int n) mod int LENGTH('a)"
  proof -
    have "(int (LENGTH('a) - 1) - int n) = (int 0 - int (Suc n)) + int LENGTH('a)"
      using len_gt_0[where 'a = 'a] by (simp add: of_nat_diff Suc_le_eq)
    then show ?thesis by (simp only: mod_add_self2)
  qed
  with True show ?thesis by (auto simp: shifted_bit_def Let_def)
next
  case False
  then show ?thesis using assms mod_shift_left[of i n "int LENGTH('a)"]
    by (auto simp: shifted_bit_def Let_def)
qed

lemma steps_bits:
  assumes "m \<in> {0, 1}" "ty < 4" "i < LENGTH('a)"
  shows "bit (fst ((step neg ty m ^^ n) (w, x))) i = shifted_bit neg ty (m = 1) n w i"
  using assms(3)
proof (induction n arbitrary: i)
  case 0
  then show ?case by (simp add: shifted_0)
next
  case (Suc n)
  let ?st = "(step neg ty m ^^ n) (w, x)"
  have m: "bit m 0 \<longleftrightarrow> m = 1" using assms(1) by auto
  have L: "LENGTH('a) - 1 < LENGTH('a)" "0 < LENGTH('a)" by simp_all
  show ?case
  proof (cases neg)
    case True
    have "Suc i < LENGTH('a)" if "Suc i \<noteq> LENGTH('a)" using that Suc.prems by simp
    then show ?thesis
      using Suc.IH L assms(1,2) Suc.prems True
      by (auto simp: step_bit shifted_Suc_right end_input_def m)
  next
    case False
    have "i - 1 < LENGTH('a)" using Suc.prems by simp
    then show ?thesis
      using Suc.IH L assms(1,2) Suc.prems False
      by (auto simp: step_bit shifted_Suc_left end_input_def m)
  qed
qed

text \<open>The last bit shifted out, and \<open>m\<close> itself when nothing is shifted.\<close>

lemma steps_out:
  assumes "m \<in> {0, 1}" "ty < 4"
  shows "snd ((step neg ty m ^^ n) (w, m)) \<noteq> 0 \<longleftrightarrow>
    (if n = 0 then m = 1
     else shifted_bit neg ty (m = 1) (n - 1) w (if neg then 0 else LENGTH('a) - 1))"
proof (cases n)
  case 0
  then show ?thesis using assms(1) by auto
next
  case (Suc k)
  then show ?thesis
    using steps_bits[OF assms, of "if neg then 0 else LENGTH('a) - 1" k neg w m]
    by (simp add: step_out)
qed

end

lemma bit_shift_masks:
  "bit (0x7fff :: int) n \<longleftrightarrow> n < 15" "bit (0xfffe :: int) n \<longleftrightarrow> 1 \<le> n \<and> n < 16"
  "bit (0x7fffffff :: int) n \<longleftrightarrow> n < 31" "bit (0xfffffffe :: int) n \<longleftrightarrow> 1 \<le> n \<and> n < 32"
proof -
  have "(0x7fff :: int) = mask 15" "(0xfffe :: int) = push_bit 1 (mask 15)"
    "(0x7fffffff :: int) = mask 31" "(0xfffffffe :: int) = push_bit 1 (mask 31)"
    by (simp_all add: mask_eq_exp_minus_1)
  then show "bit (0x7fff :: int) n \<longleftrightarrow> n < 15" "bit (0xfffe :: int) n \<longleftrightarrow> 1 \<le> n \<and> n < 16"
    "bit (0x7fffffff :: int) n \<longleftrightarrow> n < 31" "bit (0xfffffffe :: int) n \<longleftrightarrow> 1 \<le> n \<and> n < 32"
    by (simp_all only: bit_mask_iff bit_push_bit_iff) auto
qed

lemma bit_times_2: "bit (x * 2 :: 'a::len word) n \<longleftrightarrow> 0 < n \<and> n < LENGTH('a) \<and> bit x (n - 1)"
  using bit_push_bit_iff[of 1 x n] by (auto simp: push_bit_eq_mult)

lemma type_cases: "ty < (4::nat) \<Longrightarrow> ty = 0 \<or> ty = 1 \<or> ty = 2 \<or> ty = 3"
  by auto

interpretation single: shifter shift_step16
proof
  fix m w :: u16 and ty i :: nat and neg :: bool and st :: "u16 \<times> u16"
  show "snd (shift_step16 neg ty m st) = (if bit (fst st) (if neg then 0 else LENGTH(16) - 1) then 1 else 0)"
    by (auto simp: shift_step16_def Let_def and_one_eq mod_2_eq_odd bit_iff_odd_drop_bit)
  assume "m \<in> {0, 1}" "ty < 4" "i < LENGTH(16)"
  then show "bit (fst (shift_step16 neg ty m st)) i \<longleftrightarrow>
        (if neg then (if Suc i = LENGTH(16) then end_input neg ty m (fst st) else bit (fst st) (Suc i))
         else (if i = 0 then end_input neg ty m (fst st) else bit (fst st) (i - 1)))"
    using type_cases[of ty]
    by (auto simp: shift_step16_def end_input_def Let_def bit_simps bit_shift_masks bit_times_2)
qed

interpretation double: shifter shift_step32
proof
  fix m w :: u32 and ty i :: nat and neg :: bool and st :: "u32 \<times> u32"
  show "snd (shift_step32 neg ty m st) = (if bit (fst st) (if neg then 0 else LENGTH(32) - 1) then 1 else 0)"
    by (auto simp: shift_step32_def Let_def and_one_eq mod_2_eq_odd bit_iff_odd_drop_bit)
  assume "m \<in> {0, 1}" "ty < 4" "i < LENGTH(32)"
  then show "bit (fst (shift_step32 neg ty m st)) i \<longleftrightarrow>
        (if neg then (if Suc i = LENGTH(32) then end_input neg ty m (fst st) else bit (fst st) (Suc i))
         else (if i = 0 then end_input neg ty m (fst st) else bit (fst st) (i - 1)))"
    using type_cases[of ty]
    by (auto simp: shift_step32_def end_input_def Let_def bit_simps bit_shift_masks bit_times_2)
qed

lemma cpu_getbit_01: "cpu_getbit i n r \<in> {0, 1}"
  by (simp add: cpu_getbit_bit)

lemma cpu_getbit_eq_1: "cpu_getbit i n r = 1 \<longleftrightarrow> reg_bit i n r"
  by (simp add: cpu_getbit_bit)

lemma shift_type_lt: "shift_type instr < 4"
  using and_mask_lt[of "3 :: u16" 2 "drop_bit 9 instr"] by (simp add: shift_type_def mask_eq_exp_minus_1)

text \<open>The count: 0 to 31 places to the left, 1 to 32 to the right.\<close>

lemma shift_count_eq:
  "shift_count instr = (if bit instr 5 then 32 - unat (take_bit 5 instr) else unat (take_bit 5 instr))"
proof -
  have m: "unat (instr AND 0x3F) = unat (take_bit 5 instr) + (if bit instr 5 then 32 else 0)"
  proof -
    have "instr AND 0x3F = take_bit 6 instr"
      by (simp add: take_bit_eq_mask mask_eq_exp_minus_1)
    also have "\<dots> = take_bit 5 instr OR (if bit instr 5 then push_bit 5 1 else 0)"
      by (rule word16_bits) (simp add: bit_simps)
    also have "\<dots> = (if bit instr 5 then push_bit 5 1 else 0) + take_bit 5 instr"
    proof -
      have "unat (take_bit 5 instr) < 2 ^ 5"
        unfolding unsigned_take_bit_eq by (rule take_bit_nat_less_exp)
      then show ?thesis
        using push_or_add[of "take_bit 5 instr" 5 1] by (simp add: or.commute)
    qed
    finally show ?thesis
      using take_bit_nat_less_exp[of 5 "unat instr"]
      by (simp add: unat_word_ariths unsigned_take_bit_eq)
  qed
  show ?thesis
  proof (cases "bit instr 5")
    case False
    then show ?thesis by (simp add: shift_count_def m)
  next
    case True
    define y where "y = instr AND 0x3F"
    have y: "32 \<le> unat y" "unat y < 64"
      using m True take_bit_nat_less_exp[of 5 "unat instr"] by (simp_all add: unsigned_take_bit_eq y_def)
    have "list_all (\<lambda>k. unat ((NOT ((word_of_nat k :: u16) OR 0xFFC0) + 1) AND 0x3F) = 64 - k) [32..<64]"
      by code_simp
    then have all: "\<forall>k\<in>{32..<64}. unat ((NOT ((word_of_nat k :: u16) OR 0xFFC0) + 1) AND 0x3F) = 64 - k"
      by (simp only: list_all_iff set_upt)
    have "unat y \<in> {32..<64}" using y by simp
    moreover have "word_of_nat (unat y) = y" by simp
    ultimately have "unat ((NOT (y OR 0xFFC0) + 1) AND 0x3F) = 64 - unat y"
      using all by metis
    moreover have "shift_count instr = unat ((NOT (y OR 0xFFC0) + 1) AND 0x3F)"
      by (simp only: shift_count_def True if_True y_def)
    ultimately show ?thesis using True m y by (simp add: y_def)
  qed
qed

section \<open>Status bits after an operation\<close>

text \<open>Everything but bits \<open>B\<close> of the current level's status register is as before.\<close>

definition only_status :: "nat set \<Rightarrow> CpuRegs \<Rightarrow> CpuRegs \<Rightarrow> bool" where
  "only_status B r r' \<longleftrightarrow>
     reg_STS r' = reg_STS r \<and> (\<forall>i\<noteq>0. cur i r' = cur i r) \<and> (\<forall>l i. l \<noteq> gPIL r \<longrightarrow> reg r' l i = reg r l i)
     \<and> (\<forall>n. n \<notin> B \<longrightarrow> reg_bit 0 n r' = reg_bit 0 n r)"

lemma only_status_refl: "only_status B r r"
  by (simp add: only_status_def)

lemma only_status_setbit:
  assumes "only_status B r r'" "n \<in> B" "n \<le> 7"
  shows "only_status B r (cpu_setbit 0 n v r')"
proof -
  have g: "gPIL r' = gPIL r" using assms(1) by (simp add: only_status_def gPIL_def)
  have "reg_STS (cpu_setbit 0 n v r') = reg_STS r'" using assms(3) by (simp add: cpu_setbit_reg_STS)
  moreover have "cur i (cpu_setbit 0 n v r') = cur i r'" if "i \<noteq> 0" for i
    using assms(3) that by (simp add: cpu_setbit_cur)
  moreover have "reg (cpu_setbit 0 n v r') l i = reg r' l i" if "l \<noteq> gPIL r" for l i
    using assms(3) that g by (simp add: cpu_setbit_def Let_def)
  moreover have "reg_bit 0 k (cpu_setbit 0 n v r') = reg_bit 0 k r'" if "k \<notin> B" for k
    using assms(2,3) that by (auto simp: reg_bit_setbit_low)
  ultimately show ?thesis using assms(1) by (simp add: only_status_def)
qed

lemma sint_16: "sint (a :: u16) = uint a - (if bit a 15 then 65536 else 0)"
proof -
  have t: "take_bit 16 (uint a) = uint a"
    using uint_lt2p[of a] by (simp add: take_bit_int_eq_self_iff)
  have "sint a = signed_take_bit 15 (uint a)" by (simp add: sint_uint)
  also have "\<dots> = take_bit 16 (uint a) - 65536 * of_bool (bit (uint a) 15)"
    by (simp add: signed_take_bit_eq_take_bit_minus)
  finally show ?thesis using t by (simp add: bit_uint_iff)
qed

lemma uint_16: "0 \<le> uint (a :: u16)" "uint a < 65536"
  using uint_lt2p[of a] by simp_all

lemma bit_15_int: "0 \<le> x \<Longrightarrow> x < 131072 \<Longrightarrow> bit (x :: int) 15 \<longleftrightarrow> 32768 \<le> x \<and> x < 65536 \<or> 98304 \<le> x"
proof -
  assume x: "0 \<le> x" "x < 131072"
  define q where "q = x div 32768"
  define m where "m = x mod 32768"
  have e: "x = 32768 * q + m" "0 \<le> m" "m < 32768" by (simp_all add: q_def m_def)
  then have "q = 0 \<or> q = 1 \<or> q = 2 \<or> q = 3" using x by linarith
  then have "odd q \<longleftrightarrow> 32768 \<le> x \<and> x < 65536 \<or> 98304 \<le> x"
    using e by (elim disjE) simp_all
  then show ?thesis by (simp add: bit_iff_odd q_def)
qed

lemma bit_15: "bit (a :: u16) 15 \<longleftrightarrow> 32768 \<le> uint a"
  using bit_15_int[of "uint a"] uint_16[of a] by (simp add: bit_uint_iff)

lemma high_int: "0 \<le> x \<Longrightarrow> x < 131072 \<Longrightarrow> x AND 0xffff0000 \<noteq> 0 \<longleftrightarrow> 65536 \<le> (x :: int)"
proof -
  assume x: "0 \<le> x" "x < 131072"
  have c: "(0xffff0000 :: int) = push_bit 16 (mask 16)" by (simp add: mask_eq_exp_minus_1)
  have "x AND 0xffff0000 = push_bit 16 (take_bit 16 (drop_bit 16 x))"
    unfolding c
    by (intro bit_eqI)
       (simp only: bit_and_iff bit_push_bit_iff bit_mask_iff bit_take_bit_iff bit_drop_bit_eq, auto)
  moreover have "take_bit 16 (drop_bit 16 x) = drop_bit 16 x"
  proof -
    have "0 \<le> x div 65536" "x div 65536 < 65536" using x by linarith+
    then show ?thesis by (simp add: drop_bit_eq_div take_bit_int_eq_self_iff)
  qed
  moreover have "x div 65536 \<noteq> 0 \<longleftrightarrow> 65536 \<le> x" using x by linarith
  ultimately show ?thesis by (simp add: drop_bit_eq_div)
qed

text \<open>The sign tests over the integers.\<close>

lemma add_signs_int:
  fixes A B K :: int
  assumes "0 \<le> A" "A < 65536" "0 \<le> B" "B < 65536" "K = 0 \<or> K = 1"
  shows "(32768 \<le> A) = (32768 \<le> B) \<and>
      (32768 \<le> A) \<noteq> (32768 \<le> A + B + K \<and> A + B + K < 65536 \<or> 98304 \<le> A + B + K) \<longleftrightarrow>
    \<not> (- 32768 \<le> A - (if 32768 \<le> A then 65536 else 0) + (B - (if 32768 \<le> B then 65536 else 0)) + K \<and>
       A - (if 32768 \<le> A then 65536 else 0) + (B - (if 32768 \<le> B then 65536 else 0)) + K \<le> 32767)"
  using assms by auto

lemma sub_signs_int:
  fixes D S :: int
  assumes "0 \<le> D" "D < 65536" "0 \<le> S" "S < 65536"
  defines "G \<equiv> (if S \<le> D then D - S else D - S + 65536)"
  shows "D - (if 32768 \<le> D then 65536 else 0) < S - (if 32768 \<le> S then 65536 else 0) \<longleftrightarrow>
    (32768 \<le> G) \<noteq> (32768 \<le> D \<and> \<not> 32768 \<le> S \<and> \<not> 32768 \<le> G \<or> \<not> 32768 \<le> D \<and> 32768 \<le> S \<and> 32768 \<le> G)"
  using assms by auto

lemma add_overflow:
  fixes a b k :: u16
  assumes "k \<in> {0, 1}"
  shows "bit a 15 = bit b 15 \<and> bit a 15 \<noteq> bit (uint a + uint b + uint k) 15 \<longleftrightarrow>
    \<not> (- 32768 \<le> sint a + sint b + uint k \<and> sint a + sint b + uint k \<le> 32767)"
proof -
  have k: "uint k = 0 \<or> uint k = 1" using assms by auto
  have t: "bit (uint a + uint b + uint k) 15 \<longleftrightarrow>
      32768 \<le> uint a + uint b + uint k \<and> uint a + uint b + uint k < 65536 \<or> 98304 \<le> uint a + uint b + uint k"
    using uint_16[of a] uint_16[of b] k by (intro bit_15_int) auto
  show ?thesis
    unfolding t sint_16 bit_15 by (rule add_signs_int[OF uint_16 uint_16 k])
qed

lemma do_add_flags:
  assumes "k \<in> {0, 1}"
  shows "reg_bit 0 6 (snd (do_add a b k r)) \<longleftrightarrow> 65536 \<le> uint a + uint b + uint k"
    and "reg_bit 0 4 (snd (do_add a b k r)) \<longleftrightarrow>
           \<not> (- 32768 \<le> sint a + sint b + uint k \<and> sint a + sint b + uint k \<le> 32767)"
    and "reg_bit 0 5 (snd (do_add a b k r)) \<longleftrightarrow> reg_bit 0 5 r \<or>
           \<not> (- 32768 \<le> sint a + sint b + uint k \<and> sint a + sint b + uint k \<le> 32767)"
    and "only_status {4, 5, 6} r (snd (do_add a b k r))"
    and "uint (fst (do_add a b k r)) = (uint a + uint b + uint k) mod 65536"
proof -
  let ?t = "uint a + uint b + uint k"
  have "uint k = 0 \<or> uint k = 1" using assms by auto
  then have c: "?t AND 0xffff0000 \<noteq> 0 \<longleftrightarrow> 65536 \<le> ?t"
    using uint_16[of a] uint_16[of b] by (intro high_int) auto
  note o = add_overflow[OF assms, of a b]
  show "reg_bit 0 6 (snd (do_add a b k r)) \<longleftrightarrow> 65536 \<le> ?t"
    by (simp add: do_add_def Let_def reg_bit_setbit_low c)
  show "reg_bit 0 4 (snd (do_add a b k r)) \<longleftrightarrow>
           \<not> (- 32768 \<le> sint a + sint b + uint k \<and> sint a + sint b + uint k \<le> 32767)"
    unfolding o[symmetric] by (auto simp: do_add_def Let_def reg_bit_setbit_low)
  show "reg_bit 0 5 (snd (do_add a b k r)) \<longleftrightarrow> reg_bit 0 5 r \<or>
           \<not> (- 32768 \<le> sint a + sint b + uint k \<and> sint a + sint b + uint k \<le> 32767)"
    unfolding o[symmetric] by (auto simp: do_add_def Let_def reg_bit_setbit_low)
  show "only_status {4, 5, 6} r (snd (do_add a b k r))"
    by (simp add: do_add_def Let_def only_status_setbit only_status_refl)
  show "uint (fst (do_add a b k r)) = ?t mod 65536"
  proof -
    have "fst (do_add a b k r) = word_of_int ?t" by (simp add: do_add_def Let_def)
    then have "uint (fst (do_add a b k r)) = ?t mod 2 ^ LENGTH(16)" by (simp only: uint_word_of_int)
    then show ?thesis by simp
  qed
qed

lemma sless_0_bit: "(w :: u16) <s 0 \<longleftrightarrow> bit w 15"
  using uint_16[of w] by (auto simp: word_sless_alt sint_16 bit_15)

lemma uint_diff_16:
  "uint (d - s :: u16) = (if uint s \<le> uint d then uint d - uint s else uint d - uint s + 65536)"
proof (cases "uint s \<le> uint d")
  case True
  then have "(uint d - uint s) mod 65536 = uint d - uint s"
    using uint_16[of d] uint_16[of s] by (intro mod_pos_pos_trivial) linarith+
  then show ?thesis using True by (simp add: uint_word_ariths)
next
  case False
  have "(uint d - uint s) mod 65536 = (uint d - uint s + 65536) mod 65536" by simp
  also have "\<dots> = uint d - uint s + 65536"
    using False uint_16[of d] uint_16[of s] by (intro mod_pos_pos_trivial) linarith+
  finally show ?thesis using False by (simp add: uint_word_ariths)
qed

lemma skip_table:
  "op \<in> {0, 1, 2, 3, 4, 5, 6, 7 :: nat} \<Longrightarrow>
   (if op = 0 then z else if op = 1 then \<not> s else if op = 2 then s = o' else if op = 3 then \<not> c
    else if op = 4 then nz else if op = 5 then s else if op = 6 then s \<noteq> o' else \<not> \<not> c) =
   ([z, \<not> s, \<not> (s \<noteq> o'), \<not> c, nz, s, s \<noteq> o', c] ! op)"
  by auto

section \<open>Properties\<close>

text \<open>
  The adder is right on every input: the sum is the integer sum modulo 2^16, the carry is
  set exactly when the unsigned sum does not fit, the dynamic overflow exactly when the
  signed sum does not, the static overflow is sticky, and no other status bit, register,
  level or privileged status changes.
\<close>

theorem do_add_correct:
  assumes "k \<in> {0, 1}"
  shows "uint (fst (do_add a b k r)) = (uint a + uint b + uint k) mod 65536
    \<and> (reg_bit 0 STS_CARRY (snd (do_add a b k r)) \<longleftrightarrow> 65536 \<le> uint a + uint b + uint k)
    \<and> (reg_bit 0 STS_DYNAMIC_OVERFLOW (snd (do_add a b k r)) \<longleftrightarrow>
         sint a + sint b + uint k < - 32768 \<or> 32767 < sint a + sint b + uint k)
    \<and> (reg_bit 0 STS_STATIC_OVERFLOW (snd (do_add a b k r)) \<longleftrightarrow>
         reg_bit 0 STS_STATIC_OVERFLOW r \<or> sint a + sint b + uint k < - 32768 \<or> 32767 < sint a + sint b + uint k)
    \<and> only_status {4, 5, 6} r (snd (do_add a b k r))"
  using do_add_flags[OF assms] by auto

theorem do_add_correct_witness:
  "reg_bit 0 STS_DYNAMIC_OVERFLOW (snd (do_add 0x7FFF 1 0 demo_regs))"
  using do_add_correct[of 0 "0x7FFF" 1 demo_regs] by (simp add: sint_16)

text \<open>
  The skip conditions are the comparisons they stand for: EQL/UEQ equality, GRE/LST signed
  comparison of the destination with the source (overflow included), MGRE/MLST unsigned
  comparison, and GEQ/LSS the sign of the wrapped 16-bit difference. Register 0 compares as 0.
\<close>

theorem is_skip_meaning:
  fixes instr :: u16 and r :: CpuRegs
  defines "sr \<equiv> unat (drop_bit 3 instr AND 0x07)" and "dr \<equiv> unat (instr AND 0x07)"
    and "op \<equiv> unat (drop_bit 8 instr AND 0x07)"
  defines "s \<equiv> (if sr = 0 then 0 else cur sr r)" and "d \<equiv> (if dr = 0 then 0 else cur dr r)"
  shows "is_skip instr r = ([d = s, 0 \<le> sint (d - s), sint s \<le> sint d, s \<le> d,
                             d \<noteq> s, sint (d - s) < 0, sint d < sint s, d < s] ! op)"
proof -
  have op: "op < 8"
    using and_mask_lt[of "7 :: u16" 3 "drop_bit 8 instr"] by (simp add: op_def mask_eq_exp_minus_1)
  have g: "uint (d - s) = (if uint s \<le> uint d then uint d - uint s else uint d - uint s + 65536)"
    by (rule uint_diff_16)
  let ?ovf = "(d AND NOT s AND NOT (d - s)) OR (NOT d AND s AND (d - s))"
  have ovf: "?ovf <s 0 \<longleftrightarrow> bit d 15 \<and> \<not> bit s 15 \<and> \<not> bit (d - s) 15 \<or> \<not> bit d 15 \<and> bit s 15 \<and> bit (d - s) 15"
    unfolding sless_0_bit by (simp add: bit_simps)
  have lst: "sint d < sint s \<longleftrightarrow> bit (d - s) 15 \<noteq> (?ovf <s 0)"
    unfolding ovf sint_16 bit_15 g by (rule sub_signs_int[OF uint_16 uint_16])
  have sg: "sint (d - s) < 0 \<longleftrightarrow> bit (d - s) 15"
    unfolding sint_16 bit_15 using uint_16[of "d - s"] by auto
  have z: "uint d - uint s = 0 \<longleftrightarrow> d = s" by (simp add: word_uint_eq_iff)
  have c: "uint d - uint s < 0 \<longleftrightarrow> d < s" by (simp add: word_less_def)
  have le: "s \<le> d \<longleftrightarrow> \<not> d < s" "sint s \<le> sint d \<longleftrightarrow> \<not> sint d < sint s" "0 \<le> sint (d - s) \<longleftrightarrow> \<not> sint (d - s) < 0"
    by auto
  have run: "is_skip instr r =
     (if op = 0 then d = s else if op = 1 then \<not> bit (d - s) 15
      else if op = 2 then bit (d - s) 15 = (?ovf <s 0) else if op = 3 then \<not> d < s
      else if op = 4 then d \<noteq> s else if op = 5 then bit (d - s) 15
      else if op = 6 then bit (d - s) 15 \<noteq> (?ovf <s 0) else \<not> \<not> d < s)"
    unfolding is_skip_def Let_def drop_bit_0 id_apply getbit_ne_0
    unfolding sr_def[symmetric] dr_def[symmetric] op_def[symmetric]
    unfolding s_def[symmetric] d_def[symmetric] z c ..
  have "op \<in> {0, 1, 2, 3, 4, 5, 6, 7}" using op by auto
  then show ?thesis
    unfolding le lst sg run by (rule skip_table)
qed

text \<open>
  Adding the complement with carry-in 1, as RSUB and SUB do, subtracts: the result is the
  16-bit difference, and the carry says that no borrow was needed.
\<close>

theorem do_add_subtracts:
  "fst (do_add a (NOT b) 1 r) = a - b \<and>
   (reg_bit 0 STS_CARRY (snd (do_add a (NOT b) 1 r)) \<longleftrightarrow> b \<le> a)"
proof -
  have n: "uint (NOT b) = 65535 - uint b"
  proof -
    have "NOT b = - b - 1" by (simp add: not_eq_complement)
    then have e: "NOT b = word_of_int (65535 - uint b)" by simp
    have "(65535 - uint b) mod 2 ^ LENGTH(16) = 65535 - uint b"
      using uint_16[of b] by (intro mod_pos_pos_trivial; simp; linarith)
    then show ?thesis unfolding e uint_word_of_int .
  qed
  have "fst (do_add a (NOT b) 1 r) = word_of_int (uint a + uint (NOT b) + uint (1 :: u16))"
    by (simp add: do_add_def Let_def)
  also have "\<dots> = a - b" by (simp add: n)
  finally show ?thesis
    using do_add_flags(1)[of 1 a "NOT b" r] by (simp add: n word_le_def)
qed

section \<open>Shifts as word operations\<close>

definition shifted :: "bool \<Rightarrow> nat \<Rightarrow> bool \<Rightarrow> nat \<Rightarrow> 'a::len word \<Rightarrow> 'a word" where
  "shifted neg ty link n w =
     (if neg
      then (if ty = 0 then signed_drop_bit n w else if ty = 1 then word_rotr n w
            else if ty = 2 then drop_bit n w
            else drop_bit n w OR (if link then NOT (mask (LENGTH('a) - n)) else 0))
      else (if ty = 1 then word_rotl n w
            else push_bit n w OR (if ty = 3 \<and> link then mask n else 0)))"

lemma mod_diff_nat: "0 < L \<Longrightarrow> nat ((int i - int n) mod int L) = (i + (L - n mod L)) mod L"
proof -
  assume L: "0 < L"
  then have "n mod L \<le> L" by (simp add: less_imp_le)
  then have "int (i + (L - n mod L)) = int i + (int L - int n mod int L)"
    by (simp add: of_nat_diff zmod_int)
  then have "int ((i + (L - n mod L)) mod L) = (int i + (int L - int n mod int L)) mod int L"
    by (simp only: zmod_int)
  also have "\<dots> = (int i - int n mod int L + int L) mod int L" by (simp add: algebra_simps)
  also have "\<dots> = (int i - int n) mod int L" by (simp add: mod_diff_right_eq)
  finally show ?thesis by (metis nat_int)
qed

lemma bit_shifted:
  fixes w :: "'a::len word"
  assumes "i < LENGTH('a)" "ty < 4"
  shows "bit (shifted neg ty link n w) i = shifted_bit neg ty link n w i"
  using assms type_cases[OF assms(2)]
  by (auto simp: shifted_def shifted_bit_def Let_def bit_simps bit_word_rotl_iff bit_word_rotr_iff mod_diff_nat
      bit_mask_iff add.commute dest: bit_imp_le_length)

lemma shift_reg_run:
  "fst (shift_reg w instr r) =
     shifted (bit instr 5) (shift_type instr) (reg_bit 0 STS_SHIFT_OUT r) (shift_count instr) w"
  "snd (shift_reg w instr r) = cpu_setbit R_STS STS_SHIFT_OUT
     (if shift_count instr = 0 then reg_bit 0 STS_SHIFT_OUT r
      else bit (shifted (bit instr 5) (shift_type instr) (reg_bit 0 STS_SHIFT_OUT r) (shift_count instr - 1) w)
               (if bit instr 5 then 0 else 15)) r"
proof -
  let ?m = "cpu_getbit R_STS STS_SHIFT_OUT r"
  let ?st = "(shift_step16 (bit instr 5) (shift_type instr) ?m ^^ shift_count instr) (w, ?m)"
  have run: "shift_reg w instr r = (fst ?st, cpu_setbit R_STS STS_SHIFT_OUT (snd ?st \<noteq> 0) r)"
    by (simp add: shift_reg_def Let_def split: prod.split)
  have m: "?m \<in> {0, 1}" "?m = 1 \<longleftrightarrow> reg_bit 0 STS_SHIFT_OUT r"
    using cpu_getbit_01 cpu_getbit_eq_1 by blast+
  note b = single.steps_bits[OF m(1) shift_type_lt, unfolded m(2)]
  show "fst (shift_reg w instr r) =
     shifted (bit instr 5) (shift_type instr) (reg_bit 0 STS_SHIFT_OUT r) (shift_count instr) w"
    unfolding run fst_conv by (rule bit_word_eqI) (simp add: b bit_shifted shift_type_lt)
  have "snd ?st \<noteq> 0 \<longleftrightarrow> (if shift_count instr = 0 then reg_bit 0 STS_SHIFT_OUT r
      else bit (shifted (bit instr 5) (shift_type instr) (reg_bit 0 STS_SHIFT_OUT r) (shift_count instr - 1) w)
               (if bit instr 5 then 0 else 15))"
    using single.steps_out[OF m(1) shift_type_lt, unfolded m(2), where neg = "bit instr 5" and w = w]
    by (simp add: bit_shifted shift_type_lt)
  then show "snd (shift_reg w instr r) = cpu_setbit R_STS STS_SHIFT_OUT
     (if shift_count instr = 0 then reg_bit 0 STS_SHIFT_OUT r
      else bit (shifted (bit instr 5) (shift_type instr) (reg_bit 0 STS_SHIFT_OUT r) (shift_count instr - 1) w)
               (if bit instr 5 then 0 else 15)) r"
    unfolding run snd_conv by (simp only:)
qed

lemma shift_double_run:
  "fst (shift_double_reg w instr r) =
     shifted (bit instr 5) (shift_type instr) (reg_bit 0 STS_SHIFT_OUT r) (shift_count instr) w"
  "snd (shift_double_reg w instr r) = cpu_setbit R_STS STS_SHIFT_OUT
     (if shift_count instr = 0 then reg_bit 0 STS_SHIFT_OUT r
      else bit (shifted (bit instr 5) (shift_type instr) (reg_bit 0 STS_SHIFT_OUT r) (shift_count instr - 1) w)
               (if bit instr 5 then 0 else 31)) r"
proof -
  let ?m = "ucast (cpu_getbit R_STS STS_SHIFT_OUT r) :: u32"
  let ?st = "(shift_step32 (bit instr 5) (shift_type instr) ?m ^^ shift_count instr) (w, ?m)"
  have run: "shift_double_reg w instr r = (fst ?st, cpu_setbit R_STS STS_SHIFT_OUT (snd ?st \<noteq> 0) r)"
    by (simp add: shift_double_reg_def Let_def split: prod.split)
  have m: "?m \<in> {0, 1}" "?m = 1 \<longleftrightarrow> reg_bit 0 STS_SHIFT_OUT r"
    by (auto simp: cpu_getbit_bit)
  note b = double.steps_bits[OF m(1) shift_type_lt, unfolded m(2)]
  show "fst (shift_double_reg w instr r) =
     shifted (bit instr 5) (shift_type instr) (reg_bit 0 STS_SHIFT_OUT r) (shift_count instr) w"
    unfolding run fst_conv by (rule bit_word_eqI) (simp add: b bit_shifted shift_type_lt)
  have "snd ?st \<noteq> 0 \<longleftrightarrow> (if shift_count instr = 0 then reg_bit 0 STS_SHIFT_OUT r
      else bit (shifted (bit instr 5) (shift_type instr) (reg_bit 0 STS_SHIFT_OUT r) (shift_count instr - 1) w)
               (if bit instr 5 then 0 else 31))"
    using double.steps_out[OF m(1) shift_type_lt, unfolded m(2), where neg = "bit instr 5" and w = w]
    by (simp add: bit_shifted shift_type_lt)
  then show "snd (shift_double_reg w instr r) = cpu_setbit R_STS STS_SHIFT_OUT
     (if shift_count instr = 0 then reg_bit 0 STS_SHIFT_OUT r
      else bit (shifted (bit instr 5) (shift_type instr) (reg_bit 0 STS_SHIFT_OUT r) (shift_count instr - 1) w)
               (if bit instr 5 then 0 else 31)) r"
    unfolding run snd_conv by (simp only:)
qed

text \<open>C26
  The place-by-place shift loops compute the word shifts: arithmetic, rotating, zero-filling
  or link-filling by the count of the instruction, 0 to 31 to the left and 1 to 32 to the
  right, for a single register and for the 32-bit pair; the shift-out indicator is the bit
  shifted out last, and is kept when the count is 0.
\<close>

theorem shifts_are_word_shifts:
  fixes instr :: u16 and r :: CpuRegs
  defines "n \<equiv> (if bit instr 5 then 32 - unat (take_bit 5 instr) else unat (take_bit 5 instr))"
    and "sh \<equiv> shifted (bit instr 5) (shift_type instr) (reg_bit 0 STS_SHIFT_OUT r)"
    and "sh2 \<equiv> shifted (bit instr 5) (shift_type instr) (reg_bit 0 STS_SHIFT_OUT r)"
  shows "fst (shift_reg w instr r) = sh n w \<and> fst (shift_double_reg d instr r) = sh2 n d
    \<and> reg_bit 0 STS_SHIFT_OUT (snd (shift_reg w instr r)) =
        (if n = 0 then reg_bit 0 STS_SHIFT_OUT r else bit (sh (n - 1) w) (if bit instr 5 then 0 else 15))
    \<and> reg_bit 0 STS_SHIFT_OUT (snd (shift_double_reg d instr r)) =
        (if n = 0 then reg_bit 0 STS_SHIFT_OUT r else bit (sh2 (n - 1) d) (if bit instr 5 then 0 else 31))
    \<and> only_status {7} r (snd (shift_reg w instr r)) \<and> only_status {7} r (snd (shift_double_reg d instr r))"
  unfolding n_def sh_def sh2_def shift_count_eq[symmetric]
  by (simp add: shift_reg_run shift_double_run reg_bit_setbit_low only_status_setbit only_status_refl)

theorem shifts_are_word_shifts_witness:
  "fst (shift_reg 0x8001 0x003F demo_regs) = 0xC000"
proof -
  have "bit (0x003F :: u16) 5" "unat (take_bit 5 (0x003F :: u16)) = 31" "shift_type 0x003F = 0"
    by code_simp+
  then show ?thesis
    using shifts_are_word_shifts[of "0x8001" "0x003F" demo_regs 0]
    by (simp add: shifted_def)
qed

section \<open>Register and bit instructions\<close>

lemma field_lt:
  "field 0x0078 3 x < 16" "field 0x0780 7 x < 16" "field 0x0007 0 x < 8" "field 0x0038 3 x < 8"
  "field 0x0300 8 x < 4" "field 0x0380 7 x < 8"
proof -
  have f: "unat (drop_bit k (x AND c)) < 2 ^ n" if "c = push_bit k (mask n)" for c k n
  proof -
    have "drop_bit k (x AND c) = drop_bit k x AND drop_bit k c" by simp
    moreover have "drop_bit k c AND mask n = drop_bit k c"
      unfolding that by (rule bit_word_eqI) (auto simp: bit_simps)
    ultimately have "drop_bit k (x AND c) = (drop_bit k x AND drop_bit k c) AND mask n"
      by (simp add: and.assoc)
    then show ?thesis using and_mask_lt[of "mask n" n "drop_bit k x AND drop_bit k c"] by simp
  qed
  show "field 0x0078 3 x < 16" "field 0x0780 7 x < 16" "field 0x0007 0 x < 8" "field 0x0038 3 x < 8"
    "field 0x0300 8 x < 4" "field 0x0380 7 x < 8"
    using f[of "0x0078" 3 4] f[of "0x0780" 7 4] f[of "0x0007" 0 3] f[of "0x0038" 3 3] f[of "0x0300" 8 2]
      f[of "0x0380" 7 3]
    by (simp_all add: field_def mask_eq_exp_minus_1)
qed

lemma put_reg_cur [simp]: "cur j (put_reg i v r) = (if j = i \<and> i \<noteq> 0 then v else cur j r)"
  by (simp add: put_reg_def)

lemma put_reg_sel [simp]:
  "reg_STS (put_reg i v r) = reg_STS r" "gPIL (put_reg i v r) = gPIL r"
  "l \<noteq> gPIL r \<Longrightarrow> reg (put_reg i v r) l = reg r l"
  by (simp_all add: put_reg_def set_cur_def)

lemma reg_bit_put_reg [simp]: "reg_bit 0 n (put_reg i v r) = reg_bit 0 n r"
  by (auto simp: reg_bit_def bit_gSTSr)

lemma only_status_frame:
  assumes "only_status B r r'"
  shows "gPIL r' = gPIL r" "i \<noteq> 0 \<Longrightarrow> cur i r' = cur i r" "l \<noteq> gPIL r \<Longrightarrow> reg r' l i = reg r l i"
    "n \<notin> B \<Longrightarrow> reg_bit 0 n r' = reg_bit 0 n r" "reg_STS r' = reg_STS r"
  using assms by (auto simp: only_status_def gPIL_def)

text \<open>The value an arithmetic register operation puts in its destination, and its status effect.\<close>

definition carry_in :: "nat \<Rightarrow> CpuRegs \<Rightarrow> u16" where
  "carry_in op r = (if op < 2 then 0 else if op < 4 then 1 else cpu_getbit R_STS STS_CARRY r)"

lemma regop_arith_eq:
  "regop_arith operand dr source destination r =
     (if field 0x0380 7 operand < 6
      then put_reg dr (fst (do_add destination (if odd (field 0x0380 7 operand) then NOT source else source)
                              (carry_in (field 0x0380 7 operand) r) r))
                      (snd (do_add destination (if odd (field 0x0380 7 operand) then NOT source else source)
                              (carry_in (field 0x0380 7 operand) r) r))
      else put_reg dr (if dr = 0 then 0 else cur dr r) r)"
proof -
  have "field 0x0380 7 operand \<in> {0, 1, 2, 3, 4, 5, 6, 7}" using field_lt(6)[of operand] by auto
  then show ?thesis
    unfolding regop_arith_def Let_def
    by (elim insertE) (simp_all add: carry_in_def split_def)
qed

text \<open>
  A register operation computes its documented function: SWAP exchanges (or copies), RAND,
  REXO and RORA are the bitwise operations on the possibly complemented source, RADD adds
  the source with the chosen carry-in, and the undefined codes change nothing. Only the
  destination, for SWAP the source, and the carry and overflow bits can change; register
  field 0 names no register, so the status register itself is never written.
\<close>

theorem regop_result:
  fixes operand :: u16 and r :: CpuRegs
  defines "sr \<equiv> field 0x0038 3 operand" and "dr \<equiv> field 0x0007 0 operand"
    and "lop \<equiv> field 0x0300 8 operand" and "aop \<equiv> field 0x0380 7 operand"
    and "arith \<equiv> field 0x0400 10 operand \<noteq> 0"
  defines "s \<equiv> (if sr = 0 then 0 else cur sr r)"
    and "y \<equiv> (if field 0x0040 6 operand \<noteq> 0 then 0 else if dr = 0 then 0 else cur dr r)"
  defines "x \<equiv> (if field 0x0080 7 operand \<noteq> 0 then NOT s else s)"
  assumes "dr \<noteq> 0" and "sr \<noteq> dr"
  shows "cur dr (regop operand r) =
      (if arith then (if aop < 6 then y + (if odd aop then NOT s else s) + carry_in aop r else cur dr r)
       else [x, y AND x, if field 0x0080 7 operand \<noteq> 0 then y OR NOT s else y XOR s, y OR x] ! lop)
    \<and> (sr \<noteq> 0 \<longrightarrow> cur sr (regop operand r) = (if \<not> arith \<and> lop = 0 then y else cur sr r))
    \<and> (\<forall>i. i \<noteq> 0 \<and> i \<noteq> sr \<and> i \<noteq> dr \<longrightarrow> cur i (regop operand r) = cur i r)
    \<and> reg_STS (regop operand r) = reg_STS r
    \<and> (\<forall>n. n \<notin> {4, 5, 6} \<or> \<not> arith \<longrightarrow> reg_bit 0 n (regop operand r) = reg_bit 0 n r)
    \<and> (\<forall>l i. l \<noteq> gPIL r \<longrightarrow> reg (regop operand r) l i = reg r l i)"
proof (cases arith)
  case True
  have c: "carry_in aop r \<in> {0, 1}" using cpu_getbit_01 by (auto simp: carry_in_def)
  have v: "fst (do_add a b k r) = a + b + k" for a b k by (simp add: do_add_def Let_def)
  have run: "regop operand r = regop_arith operand dr s y r"
    using True unfolding regop_def Let_def arith_def
    unfolding sr_def[symmetric] dr_def[symmetric] s_def[symmetric] y_def[symmetric] by simp
  note f = only_status_frame[OF do_add_flags(4)[OF c, where a = y and b = "if odd aop then NOT s else s" and r = r]]
  show ?thesis
    using True assms(9,10) f
    by (simp add: run regop_arith_eq v flip: aop_def)
next
  case False
  have "lop \<in> {0, 1, 2, 3}" using field_lt(5)[of operand] by (auto simp: lop_def)
  moreover have run: "regop operand r = regop_logical operand sr dr s y r"
    using False unfolding regop_def Let_def arith_def
    unfolding sr_def[symmetric] dr_def[symmetric] s_def[symmetric] y_def[symmetric] by simp
  ultimately show ?thesis
    using False assms(9,10)
    unfolding run regop_logical_def Let_def lop_def[symmetric]
    by (elim insertE) (simp_all add: x_def y_def)
qed

text \<open>
  The registers of the witnesses: level 0, A = 7, D = 3, all else 0. \<open>0xC50D\<close> is RADD with
  A as destination and D as source field.
\<close>

definition ad_regs :: CpuRegs where
  "ad_regs = demo_regs\<lparr>reg := (\<lambda>_ i. if i = 5 then 7 else if i = 1 then 3 else 0)\<rparr>"

theorem regop_result_witness:
  "cur 5 (regop 0xC50D ad_regs) = 11"
proof -
  have f: "field 0x0038 3 0xC50D = 1" "field 0x0007 0 0xC50D = 5" "field 0x0300 8 0xC50D = 1"
    "field 0x0380 7 0xC50D = 2" "field 0x0400 10 0xC50D = 1" "field 0x0040 6 0xC50D = 0"
    "cur 1 ad_regs = 3" "cur 5 ad_regs = 7"
    by code_simp+
  then show ?thesis
    using regop_result[of "0xC50D" ad_regs] by (simp add: carry_in_def)
qed

text \<open>
  The bit instructions as functions of the addressed bit \<open>b\<close> and the accumulator \<open>k\<close>: the
  new accumulator, the new bit, and whether the next instruction is skipped.
\<close>

definition bop_k :: "nat \<Rightarrow> bool \<Rightarrow> bool \<Rightarrow> bool" where
  "bop_k op b k = [k, k, k, k, k, k, k, k, True, False, \<not> b, b, \<not> b \<and> k, b \<and> k, \<not> b \<or> k, b \<or> k] ! op"

definition bop_b :: "nat \<Rightarrow> bool \<Rightarrow> bool \<Rightarrow> bool" where
  "bop_b op b k = [False, True, \<not> b, k, b, b, b, b, \<not> k, k, b, b, b, b, b, b] ! op"

definition bop_skip :: "nat \<Rightarrow> bool \<Rightarrow> bool \<Rightarrow> bool" where
  "bop_skip op b k = (op = 4 \<and> \<not> b \<or> op = 5 \<and> b \<or> op = 6 \<and> b \<noteq> k \<or> op = 7 \<and> b = k)"

lemma getbit_logic:
  fixes x y :: u16
  assumes "x = of_bool a" "y = of_bool b"
  shows "x XOR 1 \<noteq> 0 \<longleftrightarrow> \<not> a" "x XOR 1 = y \<longleftrightarrow> a \<noteq> b" "x = y \<longleftrightarrow> a = b" "x \<noteq> 0 \<longleftrightarrow> a" "x = 0 \<longleftrightarrow> \<not> a"
    "(x XOR 1) AND y \<noteq> 0 \<longleftrightarrow> \<not> a \<and> b" "x AND y \<noteq> 0 \<longleftrightarrow> a \<and> b" "(x XOR 1) OR y \<noteq> 0 \<longleftrightarrow> \<not> a \<or> b"
    "x OR y \<noteq> 0 \<longleftrightarrow> a \<or> b"
  using assms by (cases a; cases b; simp)+

lemma do_bops_run:
  fixes operand :: u16 and r :: CpuRegs
  defines "op \<equiv> field 0x0780 7 operand" and "dr \<equiv> field 0x0007 0 operand" and "bn \<equiv> field 0x0078 3 operand"
  defines "b \<equiv> reg_bit dr bn r" and "k \<equiv> reg_bit 0 STS_BIT_ACCUMULATOR r"
  shows "do_bops operand r =
    (if op < 4 then cpu_setbit dr bn (bop_b op b k) r
     else if op < 8 then (if bop_skip op b k then skip_next r else r)
     else if op < 10 then cpu_setbit 0 2 (bop_k op b k) (cpu_setbit dr bn (bop_b op b k) r)
     else cpu_setbit 0 2 (bop_k op b k) r)"
proof -
  have g: "cpu_getbit dr bn r = of_bool b" "cpu_getbit 0 STS_BIT_ACCUMULATOR r = of_bool k"
    by (simp_all add: cpu_getbit_bit b_def k_def)
  note l = getbit_logic[OF g(1) g(2)] getbit_logic[OF g(2) g(1)]
  have "op \<in> {0, 1, 2, 3, 4, 5, 6, 7, 8, 9, 10, 11, 12, 13, 14, 15}"
    unfolding op_def using field_lt(2) by (rule lt_16_cases)
  then show ?thesis
    unfolding do_bops_def Let_def op_def[symmetric] dr_def[symmetric] bn_def[symmetric] l
    by (elim insertE) (simp_all add: bop_b_def bop_k_def bop_skip_def)
qed

text \<open>
  The sixteen bit instructions compute the documented function of the addressed bit and the
  bit accumulator, whenever the addressed bit is a register bit or a program status bit
  other than the accumulator itself: the accumulator and the bit get their new values, the
  program counter advances exactly when the skip condition holds, and no other bit of any
  register of the level changes.
\<close>

theorem do_bops_meaning:
  fixes operand :: u16 and r :: CpuRegs
  defines "op \<equiv> field 0x0780 7 operand" and "dr \<equiv> field 0x0007 0 operand" and "bn \<equiv> field 0x0078 3 operand"
  defines "b \<equiv> reg_bit dr bn r" and "k \<equiv> reg_bit 0 STS_BIT_ACCUMULATOR r"
  assumes "dr = 0 \<longrightarrow> bn \<le> 7 \<and> bn \<noteq> STS_BIT_ACCUMULATOR" and "dr \<noteq> R_P"
  shows "reg_bit 0 STS_BIT_ACCUMULATOR (do_bops operand r) = bop_k op b k
    \<and> reg_bit dr bn (do_bops operand r) = bop_b op b k
    \<and> cur R_P (do_bops operand r) = (if bop_skip op b k then cur R_P r + 1 else cur R_P r)
    \<and> (\<forall>i n. i \<noteq> R_P \<and> (i, n) \<noteq> (dr, bn) \<and> (i, n) \<noteq> (0, STS_BIT_ACCUMULATOR) \<longrightarrow>
         reg_bit i n (do_bops operand r) = reg_bit i n r)
    \<and> reg_STS (do_bops operand r) = reg_STS r"
proof -
  have bn: "bn < 16" using field_lt(1)[of operand] by (simp add: bn_def)
  have d: "\<not> (dr = 0 \<and> bn > 7)" using assms(6) by auto
  have s: "reg_bit i n (skip_next r) = reg_bit i n r" if "i \<noteq> R_P" for i n
    using that by (auto simp: skip_next_def reg_bit_def bit_gSTSr)
  have "op \<in> {0, 1, 2, 3, 4, 5, 6, 7, 8, 9, 10, 11, 12, 13, 14, 15}"
    unfolding op_def using field_lt(2) by (rule lt_16_cases)
  then have idle: "8 > op \<Longrightarrow> bop_k op b k = k" "\<not> op < 4 \<Longrightarrow> op < 8 \<or> 10 \<le> op \<Longrightarrow> bop_b op b k = b"
    "op < 4 \<or> 8 \<le> op \<Longrightarrow> \<not> bop_skip op b k"
    by (auto simp: bop_k_def bop_b_def bop_skip_def)
  have ne: "(dr, bn) \<noteq> (0, STS_BIT_ACCUMULATOR)" using assms(6) by auto
  have set: "reg_bit j m (cpu_setbit dr bn v q) = (if j = dr \<and> m = bn then v else reg_bit j m q)"
    "cur R_P (cpu_setbit dr bn v q) = cur R_P q" "reg_STS (cpu_setbit dr bn v q) = reg_STS q"
    for j m v q
    using reg_bit_setbit_low[OF d bn] d assms(7) by (auto simp: cpu_setbit_cur cpu_setbit_reg_STS)
  have setk: "reg_bit j m (cpu_setbit 0 2 v q) = (if j = 0 \<and> m = 2 then v else reg_bit j m q)"
    "cur R_P (cpu_setbit 0 2 v q) = cur R_P q" "reg_STS (cpu_setbit 0 2 v q) = reg_STS q" for j m v q
    by (simp_all add: reg_bit_setbit_low cpu_setbit_cur cpu_setbit_reg_STS)
  have run: "do_bops operand r =
    (if op < 4 then cpu_setbit dr bn (bop_b op b k) r
     else if op < 8 then (if bop_skip op b k then skip_next r else r)
     else if op < 10 then cpu_setbit 0 2 (bop_k op b k) (cpu_setbit dr bn (bop_b op b k) r)
     else cpu_setbit 0 2 (bop_k op b k) r)"
    unfolding op_def dr_def bn_def b_def k_def by (rule do_bops_run)
  have rb: "reg_bit dr bn r = b" "reg_bit 0 2 r = k" by (simp_all add: b_def k_def)
  have ne': "\<not> (dr = 0 \<and> bn = 2)" "\<not> (0 = dr \<and> 2 = bn)" using ne by auto
  consider "op < 4" | "\<not> op < 4" "op < 8" | "\<not> op < 8" "op < 10" | "\<not> op < 10" by linarith
  then show ?thesis
  proof cases
    case 1
    then have "do_bops operand r = cpu_setbit dr bn (bop_b op b k) r" by (simp only: run if_True)
    with 1 idle ne' show ?thesis by (auto simp: set rb)
  next
    case 2
    then have "do_bops operand r = (if bop_skip op b k then skip_next r else r)"
      by (simp only: run if_True if_False)
    moreover have "cur R_P (skip_next r) = cur R_P r + 1" "reg_STS (skip_next r) = reg_STS r"
      by (simp_all add: skip_next_def)
    ultimately show ?thesis using 2 idle(1,2) ne' assms(7) by (cases "bop_skip op b k") (simp_all add: s rb)
  next
    case 3
    then have "do_bops operand r = cpu_setbit 0 2 (bop_k op b k) (cpu_setbit dr bn (bop_b op b k) r)"
      using run by auto
    with 3 idle ne' show ?thesis by (auto simp: set setk rb)
  next
    case 4
    then have "do_bops operand r = cpu_setbit 0 2 (bop_k op b k) r" using run by auto
    with 4 idle ne' show ?thesis by (auto simp: set setk rb)
  qed
qed

text \<open>\<open>0xFCAD\<close> (BSTA 50 DA): store the accumulator in bit 5 of A and clear it.\<close>

theorem do_bops_meaning_witness:
  "reg_bit 5 5 (do_bops 0xFCAD ad_regs) = reg_bit 0 STS_BIT_ACCUMULATOR ad_regs"
proof -
  have f: "field 0x0078 3 0xFCAD = 5" "field 0x0007 0 0xFCAD = 5" "field 0x0780 7 0xFCAD = 9" by code_simp+
  have "reg_bit 5 5 (do_bops 0xFCAD ad_regs) =
      bop_b 9 (reg_bit 5 5 ad_regs) (reg_bit 0 STS_BIT_ACCUMULATOR ad_regs)"
    using do_bops_meaning[of "0xFCAD" ad_regs] by (simp add: f)
  then show ?thesis by (simp add: bop_b_def)
qed

text \<open>
  The bit instructions are not confined to program status: addressed at the status register
  with a bit number above 11, BSET changes the privileged half of the status word, here
  switching paging off, with no privilege check.
\<close>

theorem bset_reaches_paging_bit:
  "\<not> STS_PAGING_ON_IS_SET (do_bops 0xF870 r)"
proof -
  have f: "field 0x0078 3 0xF870 = 14" "field 0x0007 0 0xF870 = 0" "field 0x0780 7 0xF870 = 0" by code_simp+
  then have "do_bops 0xF870 r = cpu_setbit 0 14 False r" by (simp add: do_bops_def)
  then show ?thesis
    using reg_bit_setbit_msb[of 14 0 14 False r] by (simp add: paging_bit reg_bit_def bit_gSTSr)
qed

end
