(* ===== verification/MemoryBanks.thy ===== *)
theory MemoryBanks
  imports CpuState
begin

text \<open>
  The registered physical memory banks of \<open>src/cpu/cpu_mms.c\<close>: what kind of memory answers
  at a physical word address. The C table is an array of sixteen slots with a count; here it
  is the list of its used slots, in slot order. Registration refuses an overlap, so a lookup
  has at most one answer; a device strapped over local memory splits the local bank.
\<close>

section \<open>Definitions\<close>

abbreviation (input) ND_MEMORY_BANK_MAX :: nat where "ND_MEMORY_BANK_MAX \<equiv> 16"

definition end_word :: "'d NdMemoryBank \<Rightarrow> u32" where
  "end_word b = start_word b + length_word b"

definition overlaps :: "u32 \<Rightarrow> u32 \<Rightarrow> 'd NdMemoryBank \<Rightarrow> bool" where
  "overlaps start fin b \<longleftrightarrow> start < end_word b \<and> fin > start_word b"

definition mms_memory_bank_register_backed ::
  "u32 \<Rightarrow> u32 \<Rightarrow> NDMemoryType \<Rightarrow> (u32 \<Rightarrow> 'd \<Rightarrow> u16 \<times> 'd) option
   \<Rightarrow> (u32 \<Rightarrow> u16 \<Rightarrow> WriteMode \<Rightarrow> 'd \<Rightarrow> 'd) option \<Rightarrow> 'd NdMemoryBank list
   \<Rightarrow> bool \<times> 'd NdMemoryBank list" where
  "mms_memory_bank_register_backed start len ty rd wr banks =
     (if len = 0 then (False, banks)
      else if length banks \<ge> ND_MEMORY_BANK_MAX then (False, banks)
      else if start + len < start then (False, banks)
      else if \<exists>b\<in>set banks. overlaps start (start + len) b then (False, banks)
      else (True, banks @ [\<lparr>start_word = start, length_word = len, bank_type = ty,
                             bank_read = rd, bank_write = wr, bank_exchange = None\<rparr>]))"

definition mms_memory_bank_register ::
  "u32 \<Rightarrow> u32 \<Rightarrow> NDMemoryType \<Rightarrow> 'd NdMemoryBank list \<Rightarrow> bool \<times> 'd NdMemoryBank list" where
  "mms_memory_bank_register start len ty banks =
     mms_memory_bank_register_backed start len ty None None banks"

definition mms_memory_banks_init :: "u32 \<Rightarrow> 'd NdMemoryBank list" where
  "mms_memory_banks_init memsize =
     (if memsize > 0 then snd (mms_memory_bank_register 0 memsize ND_MEM_LOCAL []) else [])"

fun mms_memory_bank_unregister ::
  "u32 \<Rightarrow> 'd NdMemoryBank list \<Rightarrow> bool \<times> 'd NdMemoryBank list" where
  "mms_memory_bank_unregister start [] = (False, [])"
| "mms_memory_bank_unregister start (b # bs) =
     (if start_word b \<noteq> start
      then (let (ok, bs') = mms_memory_bank_unregister start bs in (ok, b # bs'))
      else (True, bs))"

fun mms_memory_bank_set_exchange ::
  "u32 \<Rightarrow> (u32 \<Rightarrow> u16 \<Rightarrow> 'd \<Rightarrow> u16 \<times> 'd) option \<Rightarrow> 'd NdMemoryBank list
   \<Rightarrow> bool \<times> 'd NdMemoryBank list" where
  "mms_memory_bank_set_exchange start ex [] = (False, [])"
| "mms_memory_bank_set_exchange start ex (b # bs) =
     (if start_word b = start then (True, b\<lparr>bank_exchange := ex\<rparr> # bs)
      else (let (ok, bs') = mms_memory_bank_set_exchange start ex bs in (ok, b # bs')))"

text \<open>
  The scan of \<open>mms_memory_bank_register_over_local\<close>: \<open>None\<close> is its early
  \<open>return false\<close>, \<open>Some hit\<close> the index of the one plain local bank that contains the
  range, or no bank.
\<close>

definition plain_local_around :: "u32 \<Rightarrow> u32 \<Rightarrow> 'd NdMemoryBank \<Rightarrow> bool" where
  "plain_local_around start fin b \<longleftrightarrow>
     bank_type b = ND_MEM_LOCAL \<and> bank_read b = None \<and> bank_write b = None \<and>
     \<not> start < start_word b \<and> \<not> fin > end_word b"

fun over_local_scan ::
  "u32 \<Rightarrow> u32 \<Rightarrow> nat \<Rightarrow> nat option \<Rightarrow> 'd NdMemoryBank list \<Rightarrow> nat option option" where
  "over_local_scan start fin i hit [] = Some hit"
| "over_local_scan start fin i hit (b # bs) =
     (if overlaps start fin b then
        (if hit \<noteq> None \<or> \<not> plain_local_around start fin b then None
         else over_local_scan start fin (Suc i) (Some i) bs)
      else over_local_scan start fin (Suc i) hit bs)"

definition mms_memory_bank_register_over_local ::
  "u32 \<Rightarrow> u32 \<Rightarrow> NDMemoryType \<Rightarrow> (u32 \<Rightarrow> 'd \<Rightarrow> u16 \<times> 'd) option
   \<Rightarrow> (u32 \<Rightarrow> u16 \<Rightarrow> WriteMode \<Rightarrow> 'd \<Rightarrow> 'd) option \<Rightarrow> 'd NdMemoryBank list
   \<Rightarrow> bool \<times> 'd NdMemoryBank list" where
  "mms_memory_bank_register_over_local start len ty rd wr banks =
     (let fin = start + len in
      if len = 0 \<or> fin < start then (False, banks)
      else case over_local_scan start fin 0 None banks of
        None \<Rightarrow> (False, banks)
      | Some None \<Rightarrow> mms_memory_bank_register_backed start len ty rd wr banks
      | Some (Some hit) \<Rightarrow>
          (let ls = start_word (banks ! hit);
               le = end_word (banks ! hit);
               extra = 1 + (if fin < le then 1 else 0) - (if start = ls then 1 else 0)
           in if length banks + extra > ND_MEMORY_BANK_MAX then (False, banks)
              else
                (let kept = (if start > ls
                             then banks[hit := (banks ! hit)\<lparr>length_word := start - ls\<rparr>]
                             else take hit banks @ drop (Suc hit) banks);
                     new = \<lparr>start_word = start, length_word = len, bank_type = ty,
                            bank_read = rd, bank_write = wr, bank_exchange = None\<rparr>;
                     tail = (if fin < le
                             then [\<lparr>start_word = fin, length_word = le - fin,
                                    bank_type = ND_MEM_LOCAL, bank_read = None,
                                    bank_write = None, bank_exchange = None\<rparr>]
                             else [])
                 in (True, kept @ [new] @ tail))))"

fun start_length :: "u32 \<Rightarrow> 'd NdMemoryBank list \<Rightarrow> u32" where
  "start_length start [] = 0"
| "start_length start (b # bs) =
     (if start_word b = start then length_word b else start_length start bs)"

definition mms_memory_bank_unregister_over_local ::
  "u32 \<Rightarrow> u32 \<Rightarrow> 'd NdMemoryBank list \<Rightarrow> bool \<times> 'd NdMemoryBank list" where
  "mms_memory_bank_unregister_over_local memsize start banks =
     (let len = start_length start banks;
          (ok, banks1) = mms_memory_bank_unregister start banks
      in if \<not> ok then (False, banks1)
         else if start < memsize then
           (let fin = (if start + len > memsize then memsize else start + len)
            in (True, snd (mms_memory_bank_register start (fin - start) ND_MEM_LOCAL banks1)))
         else (True, banks1))"

definition mms_memory_bank_lookup :: "u32 \<Rightarrow> 'd NdMemoryBank list \<Rightarrow> 'd NdMemoryBank option" where
  "mms_memory_bank_lookup a banks = find (\<lambda>b. a \<ge> start_word b \<and> a < end_word b) banks"

definition mms_get_physical_memory_type :: "u32 \<Rightarrow> 'd NdMemoryBank list \<Rightarrow> NDMemoryType" where
  "mms_get_physical_memory_type a banks =
     (case mms_memory_bank_lookup a banks of None \<Rightarrow> ND_MEM_NONE | Some b \<Rightarrow> bank_type b)"

section \<open>Well-formed bank tables\<close>

text \<open>
  \<open>span b\<close> is the set of word addresses a bank claims, as numbers. The table invariant: at
  most sixteen slots, no empty or wrapping bank, no two banks with a common address.
\<close>

definition span :: "'d NdMemoryBank \<Rightarrow> nat set" where
  "span b = {unat (start_word b) ..< unat (start_word b) + unat (length_word b)}"

definition bank_ok :: "'d NdMemoryBank \<Rightarrow> bool" where
  "bank_ok b \<longleftrightarrow> length_word b \<noteq> 0 \<and> unat (start_word b) + unat (length_word b) < 2 ^ 32"

abbreviation (input) apart :: "'d NdMemoryBank \<Rightarrow> 'd NdMemoryBank \<Rightarrow> bool" where
  "apart b c \<equiv> span b \<inter> span c = {}"

definition banks_ok :: "'d NdMemoryBank list \<Rightarrow> bool" where
  "banks_ok bs \<longleftrightarrow> length bs \<le> 16 \<and> (\<forall>b\<in>set bs. bank_ok b) \<and> sorted_wrt apart bs"

lemma banks_ok_Nil: "banks_ok []"
  by (simp add: banks_ok_def)

lemma unat_add_nowrap: "\<not> (a + b < a) \<Longrightarrow> unat (a + b) = unat a + unat (b::u32)"
  by (simp add: not_less unat_plus_simple)

lemma nowrap_lt: "\<not> (a + b < a) \<Longrightarrow> unat a + unat b < 2 ^ 32" for a b :: u32
proof -
  assume "\<not> (a + b < a)"
  moreover have "unat (a + b) < 2 ^ LENGTH(32)" by (rule unsigned_less)
  ultimately show ?thesis by (simp add: unat_add_nowrap)
qed

lemma unat_end_word: "bank_ok b \<Longrightarrow> unat (end_word b) = unat (start_word b) + unat (length_word b)"
  by (simp add: bank_ok_def end_word_def unat_word_ariths)

lemma ivl_meet: "a < b \<Longrightarrow> c < d \<Longrightarrow> {a..<b} \<inter> {c..<d} \<noteq> {} \<longleftrightarrow> a < d \<and> c < b" for a b c d :: nat
proof
  assume "{a..<b} \<inter> {c..<d} \<noteq> {}"
  then obtain x where "x \<in> {a..<b}" "x \<in> {c..<d}" by blast
  then show "a < d \<and> c < b" by simp
next
  assume "a < b" "c < d" "a < d \<and> c < b"
  then have "max a c \<in> {a..<b} \<inter> {c..<d}" by simp
  then show "{a..<b} \<inter> {c..<d} \<noteq> {}" by blast
qed

lemma overlaps_span:
  assumes "bank_ok b" and "start < fin"
  shows "overlaps start fin b \<longleftrightarrow> {unat start ..< unat fin} \<inter> span b \<noteq> {}"
proof -
  have "0 < unat (length_word b)" using assms(1) by (simp add: bank_ok_def unat_gt_0)
  moreover have "unat start < unat fin" using assms(2) by (simp add: word_less_nat_alt)
  ultimately show ?thesis
    using assms by (auto simp: overlaps_def span_def unat_end_word word_less_nat_alt ivl_meet)
qed

lemma in_span:
  "bank_ok b \<Longrightarrow> a \<ge> start_word b \<and> a < end_word b \<longleftrightarrow> unat a \<in> span b"
  by (auto simp: span_def unat_end_word word_less_nat_alt word_le_nat_alt)

section \<open>Lookup\<close>

lemma banks_ok_unique:
  assumes "banks_ok bs" "b \<in> set bs" "c \<in> set bs" "x \<in> span b" "x \<in> span c"
  shows "b = c"
proof (rule ccontr)
  assume ne: "b \<noteq> c"
  obtain i j where i: "i < length bs" "bs ! i = b" and j: "j < length bs" "bs ! j = c"
    using assms(2,3) by (auto simp: in_set_conv_nth)
  have srt: "sorted_wrt apart bs" using assms(1) by (simp add: banks_ok_def)
  have "i < j \<or> j < i" using i j ne by (metis nat_neq_iff)
  then have "apart b c"
    using sorted_wrt_nth_less[OF srt, of i j] sorted_wrt_nth_less[OF srt, of j i] i j by auto
  with assms(4,5) show False by blast
qed

lemma lookup_iff:
  assumes "banks_ok bs"
  shows "mms_memory_bank_lookup a bs = Some b \<longleftrightarrow> b \<in> set bs \<and> unat a \<in> span b"
proof -
  have sp: "c \<in> set bs \<Longrightarrow> a \<ge> start_word c \<and> a < end_word c \<longleftrightarrow> unat a \<in> span c" for c
    using assms by (intro in_span) (simp add: banks_ok_def)
  show ?thesis
  proof
    assume "mms_memory_bank_lookup a bs = Some b"
    then have "b \<in> set bs" "a \<ge> start_word b \<and> a < end_word b"
      by (auto simp: mms_memory_bank_lookup_def find_Some_iff)
    then show "b \<in> set bs \<and> unat a \<in> span b" using sp by blast
  next
    assume b: "b \<in> set bs \<and> unat a \<in> span b"
    then have "a \<ge> start_word b \<and> a < end_word b" using sp by blast
    with b have "mms_memory_bank_lookup a bs \<noteq> None"
      by (auto simp: mms_memory_bank_lookup_def find_None_iff)
    then obtain c where c: "mms_memory_bank_lookup a bs = Some c" by auto
    then have "c \<in> set bs" "a \<ge> start_word c \<and> a < end_word c"
      by (auto simp: mms_memory_bank_lookup_def find_Some_iff)
    then have "c = b" using b sp assms banks_ok_unique by blast
    with c show "mms_memory_bank_lookup a bs = Some b" by simp
  qed
qed

lemma lookup_None:
  "banks_ok bs \<Longrightarrow> mms_memory_bank_lookup a bs = None \<longleftrightarrow> (\<forall>b\<in>set bs. unat a \<notin> span b)"
  using lookup_iff[of bs a] by (cases "mms_memory_bank_lookup a bs") auto

lemma type_at:
  "banks_ok bs \<Longrightarrow> b \<in> set bs \<Longrightarrow> unat a \<in> span b \<Longrightarrow> mms_get_physical_memory_type a bs = bank_type b"
  using lookup_iff[of bs a b] by (simp add: mms_get_physical_memory_type_def)

lemma type_none:
  "banks_ok bs \<Longrightarrow> \<forall>b\<in>set bs. unat a \<notin> span b \<Longrightarrow> mms_get_physical_memory_type a bs = ND_MEM_NONE"
  using lookup_None[of bs a] by (simp add: mms_get_physical_memory_type_def)

text \<open>Two tables whose banks around \<open>a\<close> agree report the same type there.\<close>

lemma type_cong:
  assumes "banks_ok bs" "banks_ok cs"
    and "\<And>b. b \<in> set bs \<Longrightarrow> unat a \<in> span b \<Longrightarrow>
           \<exists>c\<in>set cs. unat a \<in> span c \<and> bank_type c = bank_type b"
    and "\<And>c. c \<in> set cs \<Longrightarrow> unat a \<in> span c \<Longrightarrow>
           \<exists>b\<in>set bs. unat a \<in> span b \<and> bank_type c = bank_type b"
  shows "mms_get_physical_memory_type a bs = mms_get_physical_memory_type a cs"
proof (cases "\<exists>b\<in>set bs. unat a \<in> span b")
  case True
  then obtain b where b: "b \<in> set bs" "unat a \<in> span b" by blast
  then obtain c where "c \<in> set cs" "unat a \<in> span c" "bank_type c = bank_type b"
    using assms(3) by blast
  then show ?thesis using b assms(1,2) type_at by metis
next
  case False
  then show ?thesis using assms type_none by metis
qed

section \<open>Registration\<close>

lemma register_backed_success:
  assumes ok: "banks_ok banks" and reg: "fst (mms_memory_bank_register_backed start len ty rd wr banks)"
  shows "\<exists>b. snd (mms_memory_bank_register_backed start len ty rd wr banks) = banks @ [b]
           \<and> banks_ok (banks @ [b]) \<and> bank_type b = ty \<and> start_word b = start \<and> length_word b = len
           \<and> bank_read b = rd \<and> bank_write b = wr"
proof -
  let ?b = "\<lparr>start_word = start, length_word = len, bank_type = ty,
             bank_read = rd, bank_write = wr, bank_exchange = None\<rparr>"
  from reg have len: "len \<noteq> 0" and room: "length banks < 16" and nw: "\<not> start + len < start"
    and free: "\<forall>b\<in>set banks. \<not> overlaps start (start + len) b"
    by (auto simp: mms_memory_bank_register_backed_def split: if_splits)
  have bok: "bank_ok ?b" using len nowrap_lt[OF nw] by (simp add: bank_ok_def)
  have lt: "start < start + len"
    using len nw by (metis add_cancel_left_right linorder_neqE)
  have "apart b ?b" if "b \<in> set banks" for b
  proof -
    have "bank_ok b" using ok that by (simp add: banks_ok_def)
    then have "{unat start ..< unat (start + len)} \<inter> span b = {}"
      using free that overlaps_span[OF _ lt] by blast
    then show ?thesis by (auto simp: span_def unat_add_nowrap[OF nw])
  qed
  then have "banks_ok (banks @ [?b])"
    using ok room bok by (auto simp: banks_ok_def sorted_wrt_append)
  then show ?thesis
    using len room nw free by (intro exI[of _ ?b]) (simp add: mms_memory_bank_register_backed_def)
qed

lemma register_backed_fail:
  "\<not> fst (mms_memory_bank_register_backed start len ty rd wr banks) \<Longrightarrow>
   snd (mms_memory_bank_register_backed start len ty rd wr banks) = banks"
  by (auto simp: mms_memory_bank_register_backed_def split: if_splits)

lemma register_backed_ok:
  "banks_ok banks \<Longrightarrow> banks_ok (snd (mms_memory_bank_register_backed start len ty rd wr banks))"
  by (cases "fst (mms_memory_bank_register_backed start len ty rd wr banks)")
     (auto simp: register_backed_fail dest: register_backed_success)

lemma unregister_set: "set (snd (mms_memory_bank_unregister start banks)) \<subseteq> set banks"
  by (induction banks) (auto split: prod.splits)

lemma unregister_length: "length (snd (mms_memory_bank_unregister start banks)) \<le> length banks"
  by (induction banks) (auto split: prod.splits)

lemma unregister_sorted:
  "sorted_wrt P banks \<Longrightarrow> sorted_wrt P (snd (mms_memory_bank_unregister start banks))"
proof (induction banks)
  case (Cons b bs)
  then show ?case using unregister_set[of start bs] by (auto split: prod.splits)
qed simp

lemma unregister_ok: "banks_ok banks \<Longrightarrow> banks_ok (snd (mms_memory_bank_unregister start banks))"
  using unregister_set[of start banks] unregister_length[of start banks]
  by (auto simp: banks_ok_def unregister_sorted)

section \<open>A device strapped over local memory\<close>

lemma over_local_scan_hit:
  "over_local_scan start fin i (Some k) bs = Some r \<Longrightarrow>
   r = Some k \<and> (\<forall>b\<in>set bs. \<not> overlaps start fin b)"
  by (induction bs arbitrary: i) (auto split: if_splits)

lemma over_local_scan_free:
  "over_local_scan start fin i None bs = Some None \<Longrightarrow> \<forall>b\<in>set bs. \<not> overlaps start fin b"
  by (induction bs arbitrary: i) (auto split: if_splits dest: over_local_scan_hit)

lemma over_local_scan_Some:
  "over_local_scan start fin i None bs = Some (Some k) \<Longrightarrow>
   \<exists>pre h post. bs = pre @ h # post \<and> k = i + length pre \<and> overlaps start fin h
     \<and> plain_local_around start fin h \<and> (\<forall>b\<in>set pre \<union> set post. \<not> overlaps start fin b)"
proof (induction bs arbitrary: i)
  case (Cons b bs)
  show ?case
  proof (cases "overlaps start fin b")
    case True
    with Cons.prems have "plain_local_around start fin b" "over_local_scan start fin (Suc i) (Some i) bs = Some (Some k)"
      by (auto split: if_splits)
    with True show ?thesis
      using over_local_scan_hit[of start fin "Suc i" i bs "Some k"]
      by (intro exI[of _ "[]"] exI[of _ b] exI[of _ bs]) auto
  next
    case False
    with Cons.prems Cons.IH[of "Suc i"] obtain pre h post where
      "bs = pre @ h # post" "k = Suc i + length pre" "overlaps start fin h"
      "plain_local_around start fin h" "\<forall>b\<in>set pre \<union> set post. \<not> overlaps start fin b"
      by auto
    with False show ?thesis
      by (intro exI[of _ "b # pre"] exI[of _ h] exI[of _ post]) auto
  qed
qed simp

text \<open>
  The pieces that replace the local bank \<open>h\<close>: what is left below the range, the new bank,
  what is left above.
\<close>

definition low_piece :: "u32 \<Rightarrow> 'd NdMemoryBank \<Rightarrow> 'd NdMemoryBank list" where
  "low_piece start h =
     (if start > start_word h then [h\<lparr>length_word := start - start_word h\<rparr>] else [])"

definition high_piece :: "u32 \<Rightarrow> 'd NdMemoryBank \<Rightarrow> 'd NdMemoryBank list" where
  "high_piece fin h =
     (if fin < end_word h
      then [\<lparr>start_word = fin, length_word = end_word h - fin, bank_type = ND_MEM_LOCAL,
             bank_read = None, bank_write = None, bank_exchange = None\<rparr>]
      else [])"

definition new_piece where
  "new_piece start len ty rd wr = \<lparr>start_word = start, length_word = len, bank_type = ty,
     bank_read = rd, bank_write = wr, bank_exchange = None\<rparr>"

lemma register_over_local_hit:
  assumes "len \<noteq> 0" "\<not> start + len < start"
    and "over_local_scan start (start + len) 0 None banks = Some (Some (length pre))"
    and "banks = pre @ h # post" "start_word h \<le> start"
  shows "mms_memory_bank_register_over_local start len ty rd wr banks =
    (let res = pre @ low_piece start h @ post @ [new_piece start len ty rd wr] @ high_piece (start + len) h
     in if length res > 16 then (False, banks) else (True, res))"
proof -
  have hit: "banks ! length pre = h" "take (length pre) banks @ drop (Suc (length pre)) banks = pre @ post"
    "\<And>x. banks[length pre := x] = pre @ x # post"
    by (simp_all add: assms(4) list_update_append)
  have "mms_memory_bank_register_over_local start len ty rd wr banks =
     (if length banks + (1 + (if start + len < end_word h then 1 else 0)
                           - (if start = start_word h then 1 else 0)) > 16
      then (False, banks)
      else (True, (if start > start_word h then pre @ h\<lparr>length_word := start - start_word h\<rparr> # post
                   else pre @ post) @ [new_piece start len ty rd wr] @ high_piece (start + len) h))"
    using assms(1,2)
    by (simp only: mms_memory_bank_register_over_local_def Let_def assms(3) option.case hit
        new_piece_def high_piece_def simp_thms if_False)
  also have "\<dots> = (let res = pre @ low_piece start h @ post @ [new_piece start len ty rd wr]
                               @ high_piece (start + len) h
                    in if length res > 16 then (False, banks) else (True, res))"
  proof -
    have "start = start_word h \<longleftrightarrow> \<not> start_word h < start" using assms(5) by auto
    then show ?thesis by (cases "start_word h < start") (auto simp: low_piece_def high_piece_def assms(4))
  qed
  finally show ?thesis .
qed

lemma register_over_local_split:
  assumes "fst (mms_memory_bank_register_over_local start len ty rd wr banks)"
    and "\<not> fst (mms_memory_bank_register_backed start len ty rd wr banks)
         \<or> over_local_scan start (start + len) 0 None banks \<noteq> Some None"
  obtains pre h post where "banks = pre @ h # post" "overlaps start (start + len) h"
    "plain_local_around start (start + len) h"
    "snd (mms_memory_bank_register_over_local start len ty rd wr banks) =
       pre @ low_piece start h @ post @ [new_piece start len ty rd wr] @ high_piece (start + len) h"
    "length (pre @ low_piece start h @ post @ [new_piece start len ty rd wr]
              @ high_piece (start + len) h) \<le> 16"
    "len \<noteq> 0" "\<not> start + len < start"
proof -
  let ?fin = "start + len"
  have "\<not> (len = 0 \<or> ?fin < start)"
  proof
    assume "len = 0 \<or> ?fin < start"
    with assms(1) show False by (simp add: mms_memory_bank_register_over_local_def)
  qed
  then have len: "len \<noteq> 0" "\<not> ?fin < start" by simp_all
  have "over_local_scan start ?fin 0 None banks \<noteq> None"
  proof
    assume "over_local_scan start ?fin 0 None banks = None"
    with assms(1) len show False by (simp add: mms_memory_bank_register_over_local_def)
  qed
  moreover have "over_local_scan start ?fin 0 None banks \<noteq> Some None"
  proof
    assume "over_local_scan start ?fin 0 None banks = Some None"
    with assms len show False by (simp add: mms_memory_bank_register_over_local_def)
  qed
  ultimately obtain k where k: "over_local_scan start ?fin 0 None banks = Some (Some k)" by auto
  then obtain pre h post where sp: "banks = pre @ h # post" "k = length pre"
      "overlaps start ?fin h" "plain_local_around start ?fin h"
    using over_local_scan_Some[OF k] by auto
  have "start_word h \<le> start" using sp(4) by (auto simp: plain_local_around_def)
  with sp k have "mms_memory_bank_register_over_local start len ty rd wr banks =
    (let res = pre @ low_piece start h @ post @ [new_piece start len ty rd wr] @ high_piece ?fin h
     in if length res > 16 then (False, banks) else (True, res))"
    by (intro register_over_local_hit[OF len]) simp_all
  with assms(1) have eq: "snd (mms_memory_bank_register_over_local start len ty rd wr banks) =
       pre @ low_piece start h @ post @ [new_piece start len ty rd wr] @ high_piece ?fin h"
    "length (pre @ low_piece start h @ post @ [new_piece start len ty rd wr] @ high_piece ?fin h) \<le> 16"
    by (auto simp: Let_def split: if_splits)
  with that sp len eq show thesis by blast
qed

lemma apart_replace:
  assumes "sorted_wrt apart (pre @ h # post)" and "sorted_wrt apart (low @ ns)"
    and "\<And>n. n \<in> set low \<union> set ns \<Longrightarrow> span n \<subseteq> span h"
  shows "sorted_wrt apart (pre @ low @ post @ ns)"
proof -
  have "apart b h" if "b \<in> set pre" for b using assms(1) that by (simp add: sorted_wrt_append)
  moreover have "apart h b" if "b \<in> set post" for b using assms(1) that by (simp add: sorted_wrt_append)
  moreover have "apart b c" if "b \<in> set pre" "c \<in> set post" for b c
    using assms(1) that by (simp add: sorted_wrt_append)
  ultimately show ?thesis
    using assms by (simp add: sorted_wrt_append) blast
qed

text \<open>The pieces lie inside \<open>h\<close>, apart from one another, and cover it.\<close>

lemma pieces:
  fixes h :: "'d NdMemoryBank" and rd :: "(u32 \<Rightarrow> 'd \<Rightarrow> u16 \<times> 'd) option"
    and wr :: "(u32 \<Rightarrow> u16 \<Rightarrow> WriteMode \<Rightarrow> 'd \<Rightarrow> 'd) option" and ty :: NDMemoryType
  assumes h: "bank_ok h" and pl: "plain_local_around start (start + len) h"
    and len: "len \<noteq> 0" and nw: "\<not> start + len < start"
  defines "low \<equiv> low_piece start h" and "ns \<equiv> new_piece start len ty rd wr # high_piece (start + len) h"
  shows "\<forall>n\<in>set (low @ ns). bank_ok n \<and> span n \<subseteq> span h"
    and "sorted_wrt apart (low @ ns)"
    and "(\<Union>n\<in>set (low @ ns). span n) = span h"
    and "\<forall>n\<in>set low \<union> set (tl ns). bank_type n = ND_MEM_LOCAL"
    and "span (hd ns) = {unat start ..< unat (start + len)}"
proof -
  have fin: "unat (start + len) = unat start + unat len" by (rule unat_add_nowrap[OF nw])
  have e: "unat (end_word h) = unat (start_word h) + unat (length_word h)"
    using h by (rule unat_end_word)
  have b: "start_word h \<le> start" "start + len \<le> end_word h" "bank_type h = ND_MEM_LOCAL"
    using pl by (auto simp: plain_local_around_def not_less)
  then have bn: "unat (start_word h) \<le> unat start"
      "unat start + unat len \<le> unat (start_word h) + unat (length_word h)"
    by (simp_all add: word_le_nat_alt fin e)
  have lp: "0 < unat len" using len by (simp add: unat_gt_0)
  have hb: "unat (start_word h) + unat (length_word h) < 2 ^ 32" using h by (simp add: bank_ok_def)
  have d1: "unat (start - start_word h) = unat start - unat (start_word h)"
    using b(1) by (simp add: unat_sub)
  have d2: "unat (end_word h - (start + len)) =
      unat (start_word h) + unat (length_word h) - (unat start + unat len)"
    using b(2) by (simp add: unat_sub fin e)
  have nz: "x \<noteq> 0 \<longleftrightarrow> 0 < unat x" for x :: u32 by (simp add: unat_gt_0)
  have facts: "low = (if unat (start_word h) < unat start then [h\<lparr>length_word := start - start_word h\<rparr>] else [])"
    "high_piece (start + len) h = (if unat start + unat len < unat (start_word h) + unat (length_word h)
      then [\<lparr>start_word = start + len, length_word = end_word h - (start + len), bank_type = ND_MEM_LOCAL,
             bank_read = None, bank_write = None, bank_exchange = None\<rparr>] else [])"
    by (simp_all add: low_def low_piece_def high_piece_def word_less_nat_alt fin e)
  let ?low = "h\<lparr>length_word := start - start_word h\<rparr>"
  let ?new = "new_piece start len ty rd wr"
  let ?high = "\<lparr>start_word = start + len, length_word = end_word h - (start + len), bank_type = ND_MEM_LOCAL,
             bank_read = None, bank_write = None, bank_exchange = None\<rparr> :: 'd NdMemoryBank"
  have span: "span ?low = {unat (start_word h) ..< unat start}"
    "span ?new = {unat start ..< unat start + unat len}"
    "span ?high = {unat start + unat len ..< unat (start_word h) + unat (length_word h)}"
    "span h = {unat (start_word h) ..< unat (start_word h) + unat (length_word h)}"
    using bn by (simp_all add: span_def new_piece_def d1 d2 fin)
  have bok: "unat (start_word h) < unat start \<Longrightarrow> bank_ok ?low" "bank_ok ?new"
    "unat start + unat len < unat (start_word h) + unat (length_word h) \<Longrightarrow> bank_ok ?high"
    using bn lp hb e fin by (auto simp: bank_ok_def new_piece_def d1 d2 unat_gt_0 len)
  show "\<forall>n\<in>set (low @ ns). bank_ok n \<and> span n \<subseteq> span h"
    using bn bok by (auto simp: ns_def facts span)
  show "sorted_wrt apart (low @ ns)"
    using bn by (simp add: ns_def facts span ivl_disj_int)
  show "(\<Union>n\<in>set (low @ ns). span n) = span h"
    using bn by (auto simp: ns_def facts span)
  show "\<forall>n\<in>set low \<union> set (tl ns). bank_type n = ND_MEM_LOCAL"
    using b(3) by (auto simp: ns_def facts)
  show "span (hd ns) = {unat start ..< unat (start + len)}"
    by (simp add: ns_def span fin)
qed

lemma register_over_local_backed:
  assumes "fst (mms_memory_bank_register_over_local start len ty rd wr banks)"
    and "over_local_scan start (start + len) 0 None banks = Some None"
  shows "mms_memory_bank_register_over_local start len ty rd wr banks =
           mms_memory_bank_register_backed start len ty rd wr banks"
  using assms by (auto simp: mms_memory_bank_register_over_local_def Let_def split: if_splits)

lemma if_pair_fail:
  "\<not> fst (if c then (False, x) else (True, y)) \<Longrightarrow> snd (if c then (False, x) else (True, y)) = x"
  by (cases c) simp_all

lemma register_over_local_fail:
  assumes "\<not> fst (mms_memory_bank_register_over_local start len ty rd wr banks)"
  shows "snd (mms_memory_bank_register_over_local start len ty rd wr banks) = banks"
proof (cases "len = 0 \<or> start + len < start")
  case True
  then show ?thesis by (simp add: mms_memory_bank_register_over_local_def)
next
  case False
  show ?thesis
  proof (cases "over_local_scan start (start + len) 0 None banks")
    case None
    with False show ?thesis by (simp add: mms_memory_bank_register_over_local_def)
  next
    case (Some hit)
    show ?thesis
    proof (cases hit)
      case None
      with Some False assms show ?thesis
        by (simp add: mms_memory_bank_register_over_local_def register_backed_fail)
    next
      fix k assume "hit = Some k"
      with Some False have "over_local_scan start (start + len) 0 None banks = Some (Some k)" by simp
      with False assms show ?thesis
        unfolding mms_memory_bank_register_over_local_def Let_def
        by (simp only: if_False option.case) (erule if_pair_fail)
    qed
  qed
qed

text \<open>
  Both ways of strapping a device in: the new table is the old one with at most one bank
  replaced by pieces of itself and the new bank.
\<close>

lemma register_over_local_result:
  assumes ok: "banks_ok banks"
    and reg: "fst (mms_memory_bank_register_over_local start len ty rd wr banks)"
  defines "res \<equiv> snd (mms_memory_bank_register_over_local start len ty rd wr banks)"
  shows "banks_ok res"
    and "\<exists>b\<in>set res. bank_type b = ty \<and> span b = {unat start ..< unat start + unat len}
            \<and> start_word b = start \<and> length_word b = len"
    and "unat a \<notin> {unat start ..< unat start + unat len} \<Longrightarrow>
         mms_get_physical_memory_type a res = mms_get_physical_memory_type a banks"
proof -
  have "banks_ok res \<and> (\<exists>b\<in>set res. bank_type b = ty \<and> span b = {unat start ..< unat start + unat len}
            \<and> start_word b = start \<and> length_word b = len)
     \<and> (unat a \<notin> {unat start ..< unat start + unat len} \<longrightarrow>
         mms_get_physical_memory_type a res = mms_get_physical_memory_type a banks)"
  proof (cases "over_local_scan start (start + len) 0 None banks = Some None")
    case True
    with reg have eq: "mms_memory_bank_register_over_local start len ty rd wr banks =
           mms_memory_bank_register_backed start len ty rd wr banks"
      by (rule register_over_local_backed)
    with ok reg obtain b where b: "res = banks @ [b]" "banks_ok (banks @ [b])" "bank_type b = ty"
        "start_word b = start" "length_word b = len"
      using register_backed_success[of banks start len ty rd wr] by (auto simp: res_def)
    then have "span b = {unat start ..< unat start + unat len}" by (simp add: span_def)
    then show ?thesis using b ok by (auto intro!: type_cong)
  next
    case False
    with reg obtain pre h post where sp: "banks = pre @ h # post"
      "plain_local_around start (start + len) h"
      "res = pre @ low_piece start h @ post @ [new_piece start len ty rd wr] @ high_piece (start + len) h"
      "length (pre @ low_piece start h @ post @ [new_piece start len ty rd wr]
              @ high_piece (start + len) h) \<le> 16"
      "len \<noteq> 0" "\<not> start + len < start"
      by (elim register_over_local_split) (auto simp: res_def)
    have h: "bank_ok h" and srt: "sorted_wrt apart (pre @ h # post)"
      using ok sp(1) by (auto simp: banks_ok_def)
    note p = pieces[OF h sp(2) sp(5,6), of ty rd wr]
    have fin: "unat (start + len) = unat start + unat len" by (rule unat_add_nowrap[OF sp(6)])
    have "sorted_wrt apart res"
      unfolding sp(3) using p(1,2) srt by (intro apart_replace) auto
    moreover have "\<forall>b\<in>set res. bank_ok b"
      using ok sp(1,3) p(1) by (auto simp: banks_ok_def)
    ultimately have rok: "banks_ok res" using sp(3,4) by (simp add: banks_ok_def)
    have new: "span (new_piece start len ty rd wr) = {unat start ..< unat start + unat len}"
      using p(5) fin by simp
    have lt: "bank_type h = ND_MEM_LOCAL" using sp(2) by (simp add: plain_local_around_def)
    have "mms_get_physical_memory_type a res = mms_get_physical_memory_type a banks"
      if out: "unat a \<notin> {unat start ..< unat start + unat len}"
    proof (rule type_cong[OF rok ok])
      fix b assume b: "b \<in> set res" "unat a \<in> span b"
      then have "b \<noteq> new_piece start len ty rd wr" using new out by auto
      then consider "b \<in> set pre \<union> set post" | "b \<in> set (low_piece start h) \<union> set (high_piece (start + len) h)"
        using b(1) sp(3) by auto
      then show "\<exists>c\<in>set banks. unat a \<in> span c \<and> bank_type c = bank_type b"
        using b(2) sp(1) p(1,4) lt by cases fastforce+
    next
      fix c assume c: "c \<in> set banks" "unat a \<in> span c"
      show "\<exists>b\<in>set res. unat a \<in> span b \<and> bank_type c = bank_type b"
      proof (cases "c = h")
        case True
        with c(2) p(3) obtain n where n: "unat a \<in> span n"
          "n \<in> set (low_piece start h) \<or> n = new_piece start len ty rd wr \<or> n \<in> set (high_piece (start + len) h)"
          by (auto simp del: UN_simps)
        then have "n \<in> set (low_piece start h) \<union> set (high_piece (start + len) h)"
          using new out by auto
        then show ?thesis using n(1) p(4) sp(3) True lt by auto
      next
        case False
        then show ?thesis using c sp(1,3) by auto
      qed
    qed
    moreover have "new_piece start len ty rd wr \<in> set res" using sp(3) by simp
    ultimately show ?thesis using rok new
      by (intro conjI impI bexI[of _ "new_piece start len ty rd wr"]) (simp_all add: new_piece_def)
  qed
  then show "banks_ok res"
    and "\<exists>b\<in>set res. bank_type b = ty \<and> span b = {unat start ..< unat start + unat len}
            \<and> start_word b = start \<and> length_word b = len"
    and "unat a \<notin> {unat start ..< unat start + unat len} \<Longrightarrow>
         mms_get_physical_memory_type a res = mms_get_physical_memory_type a banks"
    by auto
qed

lemma register_over_local_ok:
  "banks_ok banks \<Longrightarrow> banks_ok (snd (mms_memory_bank_register_over_local start len ty rd wr banks))"
  by (cases "fst (mms_memory_bank_register_over_local start len ty rd wr banks)")
     (simp_all add: register_over_local_fail register_over_local_result(1))

section \<open>Removing a bank\<close>

lemma unregister_split:
  "\<exists>b\<in>set bs. start_word b = s \<Longrightarrow>
   \<exists>pre b post. bs = pre @ b # post \<and> start_word b = s
     \<and> mms_memory_bank_unregister s bs = (True, pre @ post) \<and> start_length s bs = length_word b"
proof (induction bs)
  case (Cons c bs)
  show ?case
  proof (cases "start_word c = s")
    case True
    then show ?thesis by (intro exI[of _ "[]"]) auto
  next
    case False
    with Cons obtain pre b post where "bs = pre @ b # post" "start_word b = s"
      "mms_memory_bank_unregister s bs = (True, pre @ post)" "start_length s bs = length_word b" by auto
    with False show ?thesis by (intro exI[of _ "c # pre"] exI[of _ b] exI[of _ post]) simp
  qed
qed simp

lemma span_start: "bank_ok b \<Longrightarrow> unat (start_word b) \<in> span b"
  by (simp add: bank_ok_def span_def unat_gt_0)

lemma unregister_exact:
  assumes ok: "banks_ok bs" and b: "b \<in> set bs"
  obtains pre post where "bs = pre @ b # post"
    "mms_memory_bank_unregister (start_word b) bs = (True, pre @ post)"
    "start_length (start_word b) bs = length_word b"
proof -
  obtain pre c post where c: "bs = pre @ c # post" "start_word c = start_word b"
    "mms_memory_bank_unregister (start_word b) bs = (True, pre @ post)"
    "start_length (start_word b) bs = length_word c"
    using unregister_split[of bs "start_word b"] b by blast
  have "c = b"
    using ok b c(1) span_start[of c] span_start[of b] c(2)
    by (intro banks_ok_unique[OF ok, of c b "unat (start_word b)"]) (auto simp: banks_ok_def)
  with c that show thesis by blast
qed

lemma unregister_over_local_ok:
  "banks_ok banks \<Longrightarrow> banks_ok (snd (mms_memory_bank_unregister_over_local memsize start banks))"
  using unregister_ok[of banks start]
  by (auto simp: mms_memory_bank_unregister_over_local_def Let_def mms_memory_bank_register_def
      register_backed_ok split: prod.splits)

lemma set_exchange_all2:
  "list_all2 (\<lambda>b c. start_word c = start_word b \<and> length_word c = length_word b \<and> bank_type c = bank_type b)
     bs (snd (mms_memory_bank_set_exchange start ex bs))"
proof (induction bs)
  case (Cons b bs)
  then show ?case
    by (auto split: prod.splits intro!: list_all2_refl)
qed simp

lemma list_all2_back: "list_all2 R xs ys \<Longrightarrow> d \<in> set ys \<Longrightarrow> \<exists>b\<in>set xs. R b d"
  by (induction rule: list_all2_induct) auto

lemma sorted_wrt_all2:
  "list_all2 R xs ys \<Longrightarrow> sorted_wrt P xs \<Longrightarrow> (\<And>a b c d. R a c \<Longrightarrow> R b d \<Longrightarrow> P a b \<Longrightarrow> Q c d) \<Longrightarrow>
   sorted_wrt Q ys"
proof (induction rule: list_all2_induct)
  case (Cons x xs y ys)
  have "\<forall>d\<in>set ys. Q y d"
  proof
    fix d assume "d \<in> set ys"
    then obtain b where "b \<in> set xs" "R b d"
      using list_all2_back[OF Cons.hyps(2)] by blast
    then show "Q y d" using Cons.prems Cons.hyps(1) by auto
  qed
  then show ?case using Cons by simp
qed simp

lemma set_exchange_ok: "banks_ok bs \<Longrightarrow> banks_ok (snd (mms_memory_bank_set_exchange start ex bs))"
proof -
  assume ok: "banks_ok bs"
  let ?R = "\<lambda>b c :: 'a NdMemoryBank. start_word c = start_word b \<and> length_word c = length_word b \<and> bank_type c = bank_type b"
  let ?bs' = "snd (mms_memory_bank_set_exchange start ex bs)"
  have R: "list_all2 ?R bs ?bs'" by (rule set_exchange_all2)
  have "bank_ok c" if c: "c \<in> set ?bs'" for c
  proof -
    obtain b where "b \<in> set bs" "?R b c"
      using list_all2_back[OF R c] by blast
    then show "bank_ok c" using ok by (auto simp: banks_ok_def bank_ok_def)
  qed
  moreover have "sorted_wrt apart ?bs'"
    by (rule sorted_wrt_all2[OF R]) (use ok in \<open>auto simp: banks_ok_def span_def\<close>)
  ultimately show ?thesis
    using ok list_all2_lengthD[OF R] by (simp add: banks_ok_def)
qed

lemma init_ok: "banks_ok (mms_memory_banks_init memsize)"
  by (simp add: mms_memory_banks_init_def mms_memory_bank_register_def register_backed_ok banks_ok_Nil)

text \<open>The bank table of the witnesses: 64 Kwords of local memory.\<close>

lemma init_64K: "(mms_memory_banks_init 0x10000 :: unit NdMemoryBank list) =
    [\<lparr>start_word = 0, length_word = 0x10000, bank_type = ND_MEM_LOCAL,
      bank_read = None, bank_write = None, bank_exchange = None\<rparr>]"
  by (simp add: mms_memory_banks_init_def mms_memory_bank_register_def mms_memory_bank_register_backed_def)

lemma strap_64K:
  "fst (mms_memory_bank_register_over_local 0x8000 0x100 ND_MEM_MPM5 None None
     (mms_memory_banks_init 0x10000 :: unit NdMemoryBank list))"
  by (simp add: init_64K mms_memory_bank_register_over_local_def overlaps_def plain_local_around_def
      end_word_def)

section \<open>Properties\<close>

text \<open>C24
  Every operation on the bank table keeps it well-formed: at most sixteen banks, none
  empty or wrapping, no two claiming the same word. A fresh table is well-formed.
\<close>

theorem bank_operations_ok:
  assumes "banks_ok banks"
  shows "banks_ok (mms_memory_banks_init memsize :: 'd NdMemoryBank list)
    \<and> banks_ok (snd (mms_memory_bank_register_backed start len ty rd wr banks))
    \<and> banks_ok (snd (mms_memory_bank_unregister start banks))
    \<and> banks_ok (snd (mms_memory_bank_set_exchange start ex banks))
    \<and> banks_ok (snd (mms_memory_bank_register_over_local start len ty rd wr banks))
    \<and> banks_ok (snd (mms_memory_bank_unregister_over_local memsize start banks))"
  using assms
  by (simp add: init_ok register_backed_ok unregister_ok set_exchange_ok
      register_over_local_ok unregister_over_local_ok)

theorem bank_operations_ok_witness:
  "banks_ok (snd (mms_memory_bank_register_over_local 0x100 0x40 ND_MEM_MPM5 None None
     (mms_memory_banks_init 0x10000) :: bool \<times> unit NdMemoryBank list))"
  using bank_operations_ok[OF init_ok, where 'd = unit] by blast

text \<open>
  Registration refuses exactly what would make the table ambiguous: a new bank is accepted
  if and only if it is not empty, a slot is free, it does not run past the 32-bit address
  space, and no word of it already has a memory type.
\<close>

theorem register_accepts_iff:
  assumes "banks_ok banks" and "\<forall>b\<in>set banks. bank_type b \<noteq> ND_MEM_NONE"
  shows "fst (mms_memory_bank_register_backed start len ty rd wr banks) \<longleftrightarrow>
     len \<noteq> 0 \<and> length banks < 16 \<and> unat start + unat len < 2 ^ 32 \<and>
     (\<forall>a. unat a \<in> {unat start ..< unat start + unat len} \<longrightarrow>
        mms_get_physical_memory_type a banks = ND_MEM_NONE)"
proof -
  have wrap: "\<not> start + len < start \<longleftrightarrow> unat start + unat len < 2 ^ 32"
    using nowrap_lt[of start len] by (auto simp: not_less word_le_nat_alt unat_word_ariths)
  have free: "\<not> overlaps start (start + len) b \<longleftrightarrow>
      {unat start ..< unat start + unat len} \<inter> span b = {}"
    if "b \<in> set banks" "len \<noteq> 0" "\<not> start + len < start" for b
  proof -
    have "start < start + len"
      using that(2,3) by (metis add_cancel_left_right linorder_neqE)
    then show ?thesis
      using overlaps_span[of b start "start + len"] assms(1) that
      by (simp add: banks_ok_def unat_add_nowrap[OF that(3)])
  qed
  have typed: "mms_get_physical_memory_type a banks = ND_MEM_NONE \<longleftrightarrow> (\<forall>b\<in>set banks. unat a \<notin> span b)" for a
    using type_none[OF assms(1)] type_at[OF assms(1)] assms(2) by metis
  have "(\<forall>a. unat a \<in> {unat start ..< unat start + unat len} \<longrightarrow>
        mms_get_physical_memory_type a banks = ND_MEM_NONE) \<longleftrightarrow>
      (\<forall>b\<in>set banks. {unat start ..< unat start + unat len} \<inter> span b = {})"
    if "unat start + unat len < 2 ^ 32"
  proof -
    have "\<exists>a :: u32. unat a = x" if "x \<in> {unat start ..< unat start + unat len}" for x
      using that \<open>unat start + unat len < 2 ^ 32\<close> by (intro exI[of _ "word_of_nat x"]) simp
    then show ?thesis unfolding typed by blast
  qed
  then show ?thesis
    using wrap free by (auto simp: mms_memory_bank_register_backed_def)
qed

theorem register_accepts_iff_witness:
  "fst (mms_memory_bank_register_backed 0x10000 0x100 ND_MEM_MPM5 None None
     (mms_memory_banks_init 0x10000) :: bool \<times> unit NdMemoryBank list) =
   (\<forall>a :: u32. unat a \<in> {65536 ..< 65792} \<longrightarrow>
     mms_get_physical_memory_type a (mms_memory_banks_init 0x10000 :: unit NdMemoryBank list) = ND_MEM_NONE)"
proof -
  have ok: "banks_ok (mms_memory_banks_init 0x10000 :: unit NdMemoryBank list)" by (rule init_ok)
  show ?thesis
    using register_accepts_iff[OF ok, where start = "0x10000" and len = "0x100" and ty = ND_MEM_MPM5
        and rd = None and wr = None] by (simp add: init_64K)
qed

text \<open>
  Strapping a device over local memory changes the memory type of exactly the words of its
  range: inside it the new type answers, everywhere else what answered before.
\<close>

theorem over_local_types:
  assumes "banks_ok banks"
    and "fst (mms_memory_bank_register_over_local start len ty rd wr banks)"
  shows "mms_get_physical_memory_type a
           (snd (mms_memory_bank_register_over_local start len ty rd wr banks)) =
         (if unat start \<le> unat a \<and> unat a < unat start + unat len then ty
          else mms_get_physical_memory_type a banks)"
proof (cases "unat a \<in> {unat start ..< unat start + unat len}")
  case True
  obtain b where b: "b \<in> set (snd (mms_memory_bank_register_over_local start len ty rd wr banks))"
    "bank_type b = ty" "span b = {unat start ..< unat start + unat len}"
    using register_over_local_result(2)[OF assms] by blast
  show ?thesis
    using type_at[OF register_over_local_result(1)[OF assms] b(1), of a] True b(2,3) by simp
next
  case False
  then show ?thesis using register_over_local_result(3)[OF assms] by auto
qed

theorem over_local_types_witness:
  "mms_get_physical_memory_type 0x80ff
     (snd (mms_memory_bank_register_over_local 0x8000 0x100 ND_MEM_MPM5 None None
       (mms_memory_banks_init 0x10000 :: unit NdMemoryBank list))) = ND_MEM_MPM5"
  using over_local_types[OF init_ok strap_64K, of "0x80ff"] by simp

text \<open>
  Removing a device that was strapped over local memory gives the memory back: every word
  has the type it had before, the words of the range being local memory again.
\<close>

theorem over_local_undo:
  assumes ok: "banks_ok banks"
    and reg: "fst (mms_memory_bank_register_over_local start len ty rd wr banks)"
    and loc: "\<forall>a. unat start \<le> unat a \<and> unat a < unat start + unat len \<longrightarrow>
                mms_get_physical_memory_type a banks = ND_MEM_LOCAL"
    and mem: "unat start + unat len \<le> unat memsize"
  defines "strapped \<equiv> snd (mms_memory_bank_register_over_local start len ty rd wr banks)"
  shows "fst (mms_memory_bank_unregister_over_local memsize start strapped)
    \<and> mms_get_physical_memory_type a (snd (mms_memory_bank_unregister_over_local memsize start strapped))
        = mms_get_physical_memory_type a banks"
proof -
  have sok: "banks_ok strapped" unfolding strapped_def by (rule register_over_local_result(1)[OF ok reg])
  obtain b where b: "b \<in> set strapped" "span b = {unat start ..< unat start + unat len}"
    "start_word b = start" "length_word b = len" "bank_type b = ty"
    using register_over_local_result(2)[OF ok reg] unfolding strapped_def by blast
  then have bok: "bank_ok b" using sok by (simp add: banks_ok_def)
  obtain pre post where sp: "strapped = pre @ b # post"
    "mms_memory_bank_unregister start strapped = (True, pre @ post)" "start_length start strapped = len"
    using unregister_exact[OF sok b(1)] b(3,4) by metis
  have len: "0 < unat len" using bok b(4) by (simp add: bank_ok_def unat_gt_0)
  have fin: "unat (start + len) = unat start + unat len"
    using bok b(3,4) by (simp add: bank_ok_def unat_word_ariths)
  let ?new = "\<lparr>start_word = start, length_word = len, bank_type = ND_MEM_LOCAL,
               bank_read = None, bank_write = None, bank_exchange = None\<rparr>"
  have pok: "banks_ok (pre @ post)" using unregister_ok[OF sok, of start] sp(2) by simp
  have "apart b c" if "c \<in> set (pre @ post)" for c
    using sok sp(1) that by (auto simp: banks_ok_def sorted_wrt_append)
  then have free: "\<not> overlaps start (start + len) c" if "c \<in> set (pre @ post)" for c
    using overlaps_span[of c start "start + len"] pok that b(2) fin len
    by (simp add: banks_ok_def word_less_nat_alt)
  have room: "length (pre @ post) < 16" using sok sp(1) by (simp add: banks_ok_def)
  have res: "mms_memory_bank_unregister_over_local memsize start strapped = (True, pre @ post @ [?new])"
  proof -
    have "start < memsize" "\<not> start + len > memsize"
      using mem len by (simp_all add: word_less_nat_alt fin)
    moreover have "len \<noteq> 0" "\<not> start + len < start"
      using len by (auto simp: word_less_nat_alt fin)
    ultimately show ?thesis
      using free room
      by (simp add: mms_memory_bank_unregister_over_local_def sp(2,3) mms_memory_bank_register_def
          mms_memory_bank_register_backed_def)
  qed
  have rok: "banks_ok (pre @ post @ [?new])"
    using unregister_over_local_ok[OF sok, of memsize start] by (simp add: res)
  have new: "span ?new = span b" by (simp add: span_def b(3,4))
  have "mms_get_physical_memory_type a (pre @ post @ [?new]) = mms_get_physical_memory_type a banks"
  proof (cases "unat a \<in> span b")
    case True
    then have "unat a \<in> span ?new" by (simp only: new)
    then have "mms_get_physical_memory_type a (pre @ post @ [?new]) = ND_MEM_LOCAL"
      using type_at[OF rok, of ?new a] by simp
    then show ?thesis using loc b(2) True by simp
  next
    case False
    then have "mms_get_physical_memory_type a (pre @ post @ [?new]) = mms_get_physical_memory_type a strapped"
      by (intro type_cong[OF rok sok]) (use sp(1) new in auto)
    also have "\<dots> = mms_get_physical_memory_type a banks"
      using False b(2) register_over_local_result(3)[OF ok reg] by (simp add: strapped_def)
    finally show ?thesis .
  qed
  then show ?thesis by (simp add: res)
qed

theorem over_local_undo_witness:
  "fst (mms_memory_bank_unregister_over_local 0x10000 0x8000
     (snd (mms_memory_bank_register_over_local 0x8000 0x100 ND_MEM_MPM5 None None
       (mms_memory_banks_init 0x10000 :: unit NdMemoryBank list))))"
proof -
  have "mms_get_physical_memory_type a (mms_memory_banks_init 0x10000 :: unit NdMemoryBank list) = ND_MEM_LOCAL"
    if "unat (0x8000::u32) \<le> unat a \<and> unat a < unat (0x8000::u32) + unat (0x100::u32)" for a
    using that by (simp add: init_64K mms_get_physical_memory_type_def mms_memory_bank_lookup_def
        end_word_def word_less_nat_alt)
  then show ?thesis
    using over_local_undo[OF init_ok strap_64K, of "0x10000"] by simp
qed

end
