(* ===== verification/Paging.thy ===== *)
theory Paging
  imports CpuState
begin

text \<open>
  The page tables of \<open>src/cpu/cpu_mms.c\<close>: their shadow RAM, the address of an entry in
  it under the normal (16-bit entries) and extended (32-bit entries) addressing modes, and
  reading and updating entries. The shadow RAM is also memory of the CPU, in the last words
  of the first 64 Kwords; \<open>mms_read\<close> and \<open>mms_write\<close> are that side of it.
\<close>

section \<open>Definitions\<close>

abbreviation (input) SHADOW_RAM_NORMAL_MODE_4PT :: u32 where "SHADOW_RAM_NORMAL_MODE_4PT \<equiv> 0xFF00"
abbreviation (input) SHADOW_RAM_EXTENDED_MODE_4PT :: u32 where "SHADOW_RAM_EXTENDED_MODE_4PT \<equiv> 0xFE00"
abbreviation (input) SHADOW_RAM_EXTENDED_MODE_16PT :: u32 where "SHADOW_RAM_EXTENDED_MODE_16PT \<equiv> 0xF800"

abbreviation (input) PGU_FLAG :: u32 where "PGU_FLAG \<equiv> push_bit 27 1"
abbreviation (input) WIP_FLAG :: u32 where "WIP_FLAG \<equiv> push_bit 28 1"

definition sexi :: "'d machine \<Rightarrow> bool" where
  "sexi m = STS_EXTENDED_ADDRESSING_IS_SET (g_reg m)"

text \<open>\<open>mms_create_paging_tables\<close>; \<open>calloc\<close> is taken to succeed.\<close>

definition mms_create_paging_tables :: "'d machine \<Rightarrow> bool \<times> 'd machine" where
  "mms_create_paging_tables m =
     (True, m\<lparr>g_paging_tables :=
        (if g_mms_type m = MMS1
         then \<lparr>mmsType = g_mms_type m, shadowRam = replicate 512 0,
               shadowRamAddress = SHADOW_RAM_EXTENDED_MODE_4PT, isInitialized = True\<rparr>
         else \<lparr>mmsType = g_mms_type m, shadowRam = replicate 2048 0,
               shadowRamAddress = SHADOW_RAM_EXTENDED_MODE_16PT, isInitialized = True\<rparr>)\<rparr>)"

definition convert_from_16_bit_pte :: "u16 \<Rightarrow> u32" where
  "convert_from_16_bit_pte v = push_bit 16 (ucast (v AND 0xFE00)) OR ucast (v AND 0x01FF)"

definition convert_to_16_bit_pte :: "u32 \<Rightarrow> u16" where
  "convert_to_16_bit_pte e = ucast (drop_bit 16 (e AND 0xFE000000) OR (e AND 0x000001FF))"

definition mms_get_pt_shadow_address :: "u32 \<Rightarrow> u32 \<Rightarrow> PageTableMode \<Rightarrow> 'd machine \<Rightarrow> u16" where
  "mms_get_pt_shadow_address page_table vpn ptm m =
     (let base = shadowRamAddress (g_paging_tables m);
          offset = (if sexi m
                    then (case ptm of Four \<Rightarrow> SHADOW_RAM_EXTENDED_MODE_4PT - base
                                    | Sixteen \<Rightarrow> SHADOW_RAM_EXTENDED_MODE_16PT - base)
                    else SHADOW_RAM_NORMAL_MODE_4PT - base);
          pta = push_bit 6 page_table OR vpn;
          pta = (if sexi m then push_bit 1 pta else pta)
      in ucast (pta + offset))"

text \<open>
  The tests \<open>!g_paging_tables.shadowRam\<close> ask whether the RAM has been allocated; before
  \<open>mms_create_paging_tables\<close> the list is empty.
\<close>

definition mms_write :: "u32 \<Rightarrow> u16 \<Rightarrow> 'd machine \<Rightarrow> 'd machine" where
  "mms_write address v m =
     (let pt = g_paging_tables m in
      if shadowRam pt = [] then m
      else if address < shadowRamAddress pt \<or> address > 0xFFFF then m
      else m\<lparr>g_paging_tables := pt\<lparr>shadowRam :=
             (shadowRam pt)[unat (address - shadowRamAddress pt) := v]\<rparr>\<rparr>)"

definition mms_read :: "u32 \<Rightarrow> 'd machine \<Rightarrow> u16" where
  "mms_read address m =
     (let pt = g_paging_tables m in
      if shadowRam pt = [] then 0
      else if address < shadowRamAddress pt \<or> address > 0xFFFF then 0
      else shadowRam pt ! unat (address - shadowRamAddress pt))"

definition mms_get_page_table_entry :: "u32 \<Rightarrow> u32 \<Rightarrow> PageTableMode \<Rightarrow> 'd machine \<Rightarrow> u32" where
  "mms_get_page_table_entry page_table vpn ptm m =
     (let ram = shadowRam (g_paging_tables m);
          i = unat (mms_get_pt_shadow_address page_table vpn ptm m)
      in if ram = [] then 0
         else if page_table \<ge> 16 then 0
         else if sexi m then push_bit 16 (ucast (ram ! i)) OR ucast (ram ! (i + 1))
         else if page_table \<le> 3 then convert_from_16_bit_pte (ram ! i)
         else 0)"

definition mms_get_page_table_entry_for_debugger ::
  "u32 \<Rightarrow> u32 \<Rightarrow> PageTableMode \<Rightarrow> 'd machine \<Rightarrow> u32" where
  "mms_get_page_table_entry_for_debugger page_table vpn ptm m =
     (let ram = shadowRam (g_paging_tables m); base = shadowRamAddress (g_paging_tables m)
      in if ram = [] then 0
         else if page_table \<ge> 16 then 0
         else if g_mms_type m = MMS2
         then (let i = unat (push_bit 1 (push_bit 6 page_table OR vpn) + (SHADOW_RAM_EXTENDED_MODE_16PT - base))
               in push_bit 16 (ucast (ram ! i)) OR ucast (ram ! (i + 1)))
         else if page_table \<le> 3
         then (let i = unat ((push_bit 6 page_table OR vpn) + (SHADOW_RAM_NORMAL_MODE_4PT - base))
               in convert_from_16_bit_pte (ram ! i))
         else 0)"

definition mms_update_page_table_entry ::
  "u32 \<Rightarrow> u32 \<Rightarrow> PageTableMode \<Rightarrow> u32 \<Rightarrow> 'd machine \<Rightarrow> bool \<times> 'd machine" where
  "mms_update_page_table_entry page_table vpn ptm e m =
     (let pt = g_paging_tables m; ram = shadowRam pt;
          i = unat (mms_get_pt_shadow_address page_table vpn ptm m)
      in if ram = [] then (False, m)
         else if page_table \<ge> 16 then (False, m)
         else if sexi m
         then (True, m\<lparr>g_paging_tables := pt\<lparr>shadowRam :=
                      ram[i := ucast (drop_bit 16 e), i + 1 := ucast e]\<rparr>\<rparr>)
         else (True, m\<lparr>g_paging_tables := pt\<lparr>shadowRam := ram[i := convert_to_16_bit_pte e]\<rparr>\<rparr>))"

definition mms_set_page_used :: "u32 \<Rightarrow> u32 \<Rightarrow> PageTableMode \<Rightarrow> u32 \<Rightarrow> 'd machine \<Rightarrow> u32 \<times> 'd machine" where
  "mms_set_page_used page_table vpn ptm e m =
     (if e AND PGU_FLAG = 0
      then (e OR PGU_FLAG, snd (mms_update_page_table_entry page_table vpn ptm (e OR PGU_FLAG) m))
      else (e, m))"

definition mms_set_page_written :: "u32 \<Rightarrow> u32 \<Rightarrow> PageTableMode \<Rightarrow> u32 \<Rightarrow> 'd machine \<Rightarrow> u32 \<times> 'd machine" where
  "mms_set_page_written page_table vpn ptm e m =
     (if shadowRam (g_paging_tables m) = [] then (e, m)
      else if page_table \<ge> 16 then (e, m)
      else if e AND WIP_FLAG = 0
      then (e OR WIP_FLAG, snd (mms_update_page_table_entry page_table vpn ptm (e OR WIP_FLAG) m))
      else (e, m))"

section \<open>Where an entry lives\<close>

text \<open>
  \<open>paging_ok\<close>: the tables were created for the installed memory-management system.
  \<open>table_ok\<close>: the table numbers a translation can ask for in the current mode.
\<close>

definition paging_ok :: "'d machine \<Rightarrow> bool" where
  "paging_ok m \<longleftrightarrow> isInitialized (g_paging_tables m) \<and> mmsType (g_paging_tables m) = g_mms_type m \<and>
     (case g_mms_type m of
        MMS1 \<Rightarrow> shadowRamAddress (g_paging_tables m) = 0xFE00 \<and> length (shadowRam (g_paging_tables m)) = 512
      | MMS2 \<Rightarrow> shadowRamAddress (g_paging_tables m) = 0xF800 \<and> length (shadowRam (g_paging_tables m)) = 2048)"

definition table_ok :: "'d machine \<Rightarrow> u32 \<Rightarrow> PageTableMode \<Rightarrow> bool" where
  "table_ok m page_table ptm \<longleftrightarrow>
     page_table < (if sexi m \<and> ptm = Sixteen then 16 else 4) \<and> (ptm = Sixteen \<longrightarrow> g_mms_type m = MMS2)"

text \<open>The CPU address of an entry's first word, as a number: the window base plus its place in it.\<close>

definition window_address :: "'d machine \<Rightarrow> u32 \<Rightarrow> u32 \<Rightarrow> PageTableMode \<Rightarrow> nat" where
  "window_address m page_table vpn ptm =
     (if sexi m then (if ptm = Four then 0xFE00 else 0xF800) + 2 * (64 * unat page_table + unat vpn)
      else 0xFF00 + (64 * unat page_table + unat vpn))"

definition entry_index :: "'d machine \<Rightarrow> u32 \<Rightarrow> u32 \<Rightarrow> PageTableMode \<Rightarrow> nat" where
  "entry_index m page_table vpn ptm =
     window_address m page_table vpn ptm - unat (shadowRamAddress (g_paging_tables m))"

lemma shadow_address:
  assumes "paging_ok m" "table_ok m page_table ptm" "vpn < 64"
  shows "unat (mms_get_pt_shadow_address page_table vpn ptm m) = entry_index m page_table vpn ptm"
    and "unat (shadowRamAddress (g_paging_tables m)) \<le> window_address m page_table vpn ptm"
    and "entry_index m page_table vpn ptm + (if sexi m then 1 else 0) < length (shadowRam (g_paging_tables m))"
proof -
  have v: "unat vpn < 64" using assms(3) by (simp add: word_less_nat_alt)
  define w where "w = push_bit 6 page_table OR vpn"
  have t: "unat page_table < (if sexi m \<and> ptm = Sixteen then 16 else 4)"
    using assms(2) by (auto simp: table_ok_def word_less_nat_alt split: if_splits)
  have "w = page_table * 64 + vpn"
    using push_or_add[of vpn 6 page_table] v by (simp add: w_def push_bit_eq_mult)
  moreover have "unat page_table < 16" using t by (simp split: if_splits)
  ultimately have w: "unat w = 64 * unat page_table + unat vpn"
    using v by (simp add: unat_word_ariths)
  have base: "shadowRamAddress (g_paging_tables m) = (if g_mms_type m = MMS1 then 0xFE00 else 0xF800)"
    "length (shadowRam (g_paging_tables m)) = (if g_mms_type m = MMS1 then 512 else 2048)"
    using assms(1) by (auto simp: paging_ok_def split: MMSType.splits)
  have md: "ptm = Sixteen \<Longrightarrow> g_mms_type m = MMS2" using assms(2) by (simp add: table_ok_def)
  have sa: "mms_get_pt_shadow_address page_table vpn ptm m =
      ucast ((if sexi m then w * 2 else w) +
             ((if sexi m then (if ptm = Four then 0xFE00 else 0xF800) else 0xFF00)
               - shadowRamAddress (g_paging_tables m)))"
    by (cases ptm) (simp_all add: mms_get_pt_shadow_address_def w_def push_bit_eq_mult)
  show "unat (mms_get_pt_shadow_address page_table vpn ptm m) = entry_index m page_table vpn ptm"
    unfolding sa using v t md
    by (cases "sexi m"; cases ptm; cases "g_mms_type m")
       (auto simp: entry_index_def window_address_def base
         unsigned_ucast_eq take_bit_eq_mod unat_word_ariths w)
  show "unat (shadowRamAddress (g_paging_tables m)) \<le> window_address m page_table vpn ptm"
    using md by (cases ptm; cases "g_mms_type m") (auto simp: window_address_def base)
  show "entry_index m page_table vpn ptm + (if sexi m then 1 else 0) < length (shadowRam (g_paging_tables m))"
    using v t md
    by (cases "sexi m"; cases ptm; cases "g_mms_type m")
       (auto simp: entry_index_def window_address_def base)
qed

section \<open>Reading back an entry\<close>

text \<open>The bits of an entry that survive: all 32 in extended mode, flags and 9 page bits otherwise.\<close>

definition pte_visible :: "'d machine \<Rightarrow> u32 \<Rightarrow> u32" where
  "pte_visible m e = (if sexi m then e else e AND 0xFE0001FF)"

lemma convert_from_to: "convert_from_16_bit_pte (convert_to_16_bit_pte e) = e AND 0xFE0001FF"
  by (rule word32_bits) (simp add: convert_from_16_bit_pte_def convert_to_16_bit_pte_def bit_simps)

lemma convert_to_from: "convert_to_16_bit_pte (convert_from_16_bit_pte v) = v"
  by (rule word16_bits) (simp add: convert_from_16_bit_pte_def convert_to_16_bit_pte_def bit_simps)

lemma join_halves: "push_bit 16 (ucast (ucast (drop_bit 16 e) :: u16)) OR ucast (ucast e :: u16) = (e :: u32)"
  by (rule word32_bits) (simp add: bit_simps)

lemma get_entry:
  assumes "paging_ok m" "table_ok m pt ptm" "vpn < 64"
  shows "mms_get_page_table_entry pt vpn ptm m =
    (let ram = shadowRam (g_paging_tables m); i = entry_index m pt vpn ptm
     in if sexi m then push_bit 16 (ucast (ram ! i)) OR ucast (ram ! (i + 1))
        else convert_from_16_bit_pte (ram ! i))"
proof -
  have "shadowRam (g_paging_tables m) \<noteq> []"
    using shadow_address(3)[OF assms] by auto
  moreover have "pt < 16" "sexi m \<or> pt \<le> 3"
    using assms(2) by (auto simp: table_ok_def word_less_nat_alt word_le_nat_alt split: if_splits)
  ultimately show ?thesis
    by (auto simp: mms_get_page_table_entry_def shadow_address(1)[OF assms] Let_def)
qed

lemma update_entry:
  assumes "paging_ok m" "table_ok m pt ptm" "vpn < 64"
  shows "mms_update_page_table_entry pt vpn ptm e m =
    (True, m\<lparr>g_paging_tables := (g_paging_tables m)\<lparr>shadowRam :=
       (let ram = shadowRam (g_paging_tables m); i = entry_index m pt vpn ptm
        in if sexi m then ram[i := ucast (drop_bit 16 e), i + 1 := ucast e]
           else ram[i := convert_to_16_bit_pte e])\<rparr>\<rparr>)"
proof -
  have "shadowRam (g_paging_tables m) \<noteq> []"
    using shadow_address(3)[OF assms] by auto
  moreover have "pt < 16"
    using assms(2) by (auto simp: table_ok_def word_less_nat_alt split: if_splits)
  ultimately show ?thesis
    by (auto simp: mms_update_page_table_entry_def shadow_address(1)[OF assms] Let_def)
qed

lemma entry_index_ram [simp]:
  "entry_index (m\<lparr>g_paging_tables := (g_paging_tables m)\<lparr>shadowRam := ram\<rparr>\<rparr>) = entry_index m"
  by (intro ext) (simp add: entry_index_def window_address_def sexi_def)

lemma sexi_tables [simp]: "sexi (m\<lparr>g_paging_tables := t\<rparr>) = sexi m"
  by (simp add: sexi_def)

lemma paging_ok_ram:
  "length ram = length (shadowRam (g_paging_tables m)) \<Longrightarrow>
   paging_ok (m\<lparr>g_paging_tables := (g_paging_tables m)\<lparr>shadowRam := ram\<rparr>\<rparr>) = paging_ok m"
  by (cases "g_mms_type m") (simp_all add: paging_ok_def)

lemma table_ok_ram [simp]: "table_ok (m\<lparr>g_paging_tables := t\<rparr>) = table_ok m"
  by (intro ext) (simp add: table_ok_def)

lemma update_paging_ok:
  "paging_ok m \<Longrightarrow> paging_ok (snd (mms_update_page_table_entry pt vpn ptm e m))"
  by (simp add: mms_update_page_table_entry_def Let_def paging_ok_ram)

text \<open>Entries of one mode do not overlap.\<close>

lemma entry_index_apart:
  assumes "paging_ok m" "table_ok m pt ptm" "vpn < 64" "table_ok m pt' ptm" "vpn' < 64"
    and "(pt, vpn) \<noteq> (pt', vpn')"
  shows "entry_index m pt vpn ptm \<noteq> entry_index m pt' vpn' ptm"
    and "sexi m \<Longrightarrow> entry_index m pt vpn ptm \<noteq> entry_index m pt' vpn' ptm + 1"
proof -
  have v: "unat vpn < 64" "unat vpn' < 64" using assms(3,5) by (simp_all add: word_less_nat_alt)
  have ne: "64 * unat pt + unat vpn \<noteq> 64 * unat pt' + unat vpn'"
  proof
    assume eq: "64 * unat pt + unat vpn = 64 * unat pt' + unat vpn'"
    have "unat pt = (64 * unat pt + unat vpn) div 64" using v(1) by simp
    moreover have "unat pt' = (64 * unat pt' + unat vpn') div 64" using v(2) by simp
    ultimately have "unat pt = unat pt'" by (simp add: eq)
    with eq have "unat vpn = unat vpn'" by simp
    with \<open>unat pt = unat pt'\<close> assms(6) show False by (simp add: word_unat_eq_iff)
  qed
  let ?b = "unat (shadowRamAddress (g_paging_tables m))"
  have le: "?b \<le> window_address m pt vpn ptm" "?b \<le> window_address m pt' vpn' ptm"
    using shadow_address(2) assms by blast+
  have w: "window_address m pt vpn ptm \<noteq> window_address m pt' vpn' ptm"
    using ne by (auto simp: window_address_def)
  then show "entry_index m pt vpn ptm \<noteq> entry_index m pt' vpn' ptm"
    using le by (simp add: entry_index_def)
  show "entry_index m pt vpn ptm \<noteq> entry_index m pt' vpn' ptm + 1" if "sexi m"
  proof -
    have "even (window_address m pt vpn ptm)" "even (window_address m pt' vpn' ptm)"
      using that by (simp_all add: window_address_def)
    then have "window_address m pt vpn ptm \<noteq> Suc (window_address m pt' vpn' ptm)"
      by (metis even_Suc)
    then show ?thesis using le by (simp add: entry_index_def)
  qed
qed

lemma get_after_update:
  assumes "paging_ok m" "table_ok m pt ptm" "vpn < 64" "table_ok m pt' ptm" "vpn' < 64"
  shows "mms_get_page_table_entry pt' vpn' ptm (snd (mms_update_page_table_entry pt vpn ptm e m)) =
    (if pt' = pt \<and> vpn' = vpn then pte_visible m e else mms_get_page_table_entry pt' vpn' ptm m)"
proof -
  let ?m = "snd (mms_update_page_table_entry pt vpn ptm e m)"
  have ok: "paging_ok ?m" using assms(1) by (rule update_paging_ok)
  have t: "table_ok ?m pt' ptm" using assms(4) by (simp add: update_entry[OF assms(1-3)])
  have len: "entry_index m pt vpn ptm < length (shadowRam (g_paging_tables m))"
    "sexi m \<Longrightarrow> entry_index m pt vpn ptm + 1 < length (shadowRam (g_paging_tables m))"
    using shadow_address(3)[OF assms(1-3)] by (auto split: if_splits)
  show ?thesis
  proof (cases "pt' = pt \<and> vpn' = vpn")
    case True
    then show ?thesis
      unfolding get_entry[OF ok t assms(5)] using len
      by (simp add: update_entry[OF assms(1-3)] pte_visible_def Let_def
          join_halves convert_from_to)
  next
    case False
    then have ne: "(pt, vpn) \<noteq> (pt', vpn')" "(pt', vpn') \<noteq> (pt, vpn)" by auto
    note ap = entry_index_apart[OF assms(1,2,3,4,5) ne(1)] entry_index_apart[OF assms(1,4,5,2,3) ne(2)]
    have "sexi m \<Longrightarrow> Suc (entry_index m pt vpn ptm) \<noteq> entry_index m pt' vpn' ptm"
      "sexi m \<Longrightarrow> entry_index m pt vpn ptm \<noteq> Suc (entry_index m pt' vpn' ptm)"
      using ap not_sym by force+
    with False show ?thesis
      unfolding get_entry[OF ok t assms(5)] get_entry[OF assms(1,4,5)] if_not_P[OF False]
      using ap(1) by (simp add: update_entry[OF assms(1-3)] Let_def)
  qed
qed

lemma create_ok: "paging_ok (snd (mms_create_paging_tables m))"
  by (cases "g_mms_type m") (simp_all add: mms_create_paging_tables_def paging_ok_def)

text \<open>The CPU's own view of the shadow RAM.\<close>

lemma mms_write_eq:
  assumes "paging_ok m" "unat (shadowRamAddress (g_paging_tables m)) \<le> a" "a < 0x10000"
  shows "mms_write (word_of_nat a) v m = m\<lparr>g_paging_tables := (g_paging_tables m)\<lparr>shadowRam :=
           (shadowRam (g_paging_tables m))[a - unat (shadowRamAddress (g_paging_tables m)) := v]\<rparr>\<rparr>"
    and "mms_read (word_of_nat a) m =
           shadowRam (g_paging_tables m) ! (a - unat (shadowRamAddress (g_paging_tables m)))"
    and "a - unat (shadowRamAddress (g_paging_tables m)) < length (shadowRam (g_paging_tables m))"
proof -
  let ?b = "shadowRamAddress (g_paging_tables m)"
  have u: "unat (word_of_nat a :: u32) = a" using assms(3) by simp
  have ne: "shadowRam (g_paging_tables m) \<noteq> []"
    using assms(1) by (auto simp: paging_ok_def split: MMSType.splits)
  have le: "?b \<le> word_of_nat a" using assms(2) by (simp add: word_le_nat_alt u)
  moreover have "(word_of_nat a :: u32) \<le> 0xFFFF"
    using assms(3) by (simp add: word_le_nat_alt u)
  ultimately have c: "\<not> (word_of_nat a < ?b \<or> word_of_nat a > (0xFFFF :: u32))" by auto
  have d: "unat (word_of_nat a - ?b) = a - unat ?b"
    using le by (simp add: unat_sub u)
  show "mms_write (word_of_nat a) v m = m\<lparr>g_paging_tables := (g_paging_tables m)\<lparr>shadowRam :=
           (shadowRam (g_paging_tables m))[a - unat ?b := v]\<rparr>\<rparr>"
    using ne c d by (auto simp: mms_write_def Let_def)
  show "mms_read (word_of_nat a) m = shadowRam (g_paging_tables m) ! (a - unat ?b)"
    using ne c d by (auto simp: mms_read_def Let_def)
  show "a - unat ?b < length (shadowRam (g_paging_tables m))"
    using assms by (auto simp: paging_ok_def split: MMSType.splits)
qed

lemma mms_write_paging_ok: "paging_ok m \<Longrightarrow> paging_ok (mms_write a v m)"
  by (simp add: mms_write_def Let_def paging_ok_ram)

lemma window_address_lt:
  assumes "paging_ok m" "table_ok m pt ptm" "vpn < 64"
  shows "window_address m pt vpn ptm + (if sexi m then 1 else 0) < 0x10000"
proof -
  have "unat vpn < 64" "unat pt < (if sexi m \<and> ptm = Sixteen then 16 else 4)"
    using assms(2,3) by (auto simp: table_ok_def word_less_nat_alt split: if_splits)
  then show ?thesis
    by (cases ptm; cases "sexi m") (simp_all add: window_address_def)
qed

section \<open>Properties\<close>

text \<open>
  Every page-table entry a translation can ask for lies inside the shadow RAM: freshly
  created tables are well-formed, and in well-formed tables the index computed for an entry
  (and, in extended mode, for its second half) is below the allocated length.
\<close>

theorem shadow_address_in_bounds:
  "paging_ok (snd (mms_create_paging_tables m0)) \<and>
   (paging_ok m \<and> table_ok m pt ptm \<and> vpn < 64 \<longrightarrow>
      unat (mms_get_pt_shadow_address pt vpn ptm m) + (if sexi m then 1 else 0)
        < length (shadowRam (g_paging_tables m)))"
  using create_ok[of m0] shadow_address[of m pt ptm vpn] by simp

text \<open>A small machine for the witnesses: MMS-2, extended addressing, tables just created.\<close>

definition demo_machine :: "MMSType \<Rightarrow> unit machine" where
  "demo_machine mms = snd (mms_create_paging_tables
     \<lparr>g_reg = demo_regs, g_mms_type = mms,
      g_paging_tables = \<lparr>mmsType = MMS1, shadowRam = [], shadowRamAddress = 0, isInitialized = False\<rparr>,
      s_memory_banks = [\<lparr>start_word = 0, length_word = 0x10000, bank_type = ND_MEM_LOCAL,
                          bank_read = None, bank_write = None, bank_exchange = None\<rparr>],
      n_Array = (\<lambda>_. 0), g_nd_memsize = 0x10000, g_ecc_latch = (\<lambda>_. 0), g_dma_access = False,
      s_tset_lock_fn = True, s_tset_lock_held = False, s_tset_old = 0, s_tset_old_valid = False,
      tset_calls = [], g_current_cpu_type = ND110, g_current_fpp_type = FPP48, CurrentCPURunMode = CPU_RUNNING, g_cpu_exit_code = 0,
      devices = ()\<rparr>)"

lemma demo_ok: "paging_ok (demo_machine mms)"
  unfolding demo_machine_def by (rule create_ok)

lemma demo_sexi: "sexi (demo_machine mms)"
  by (simp add: demo_machine_def mms_create_paging_tables_def sexi_def extended_bit demo_regs_def)

lemma demo_table: "table_ok (demo_machine MMS2) 15 Sixteen"
  using demo_sexi[of MMS2] by (simp add: table_ok_def) (simp add: demo_machine_def mms_create_paging_tables_def)

theorem shadow_address_in_bounds_witness:
  "unat (mms_get_pt_shadow_address 15 63 Sixteen (demo_machine MMS2)) + 1
     < length (shadowRam (g_paging_tables (demo_machine MMS2)))"
  using shadow_address_in_bounds[of "demo_machine MMS2" "demo_machine MMS2" 15 Sixteen 63]
    demo_ok[of MMS2] demo_sexi[of MMS2] demo_table by simp

text \<open>
  A page-table update changes that entry and no other: reading any entry of the mode
  afterwards gives the new value for the updated one (in 16-bit mode, its flag, ring and low
  page bits) and the old value for every other.
\<close>

theorem page_table_update_exact:
  assumes "paging_ok m" "table_ok m pt ptm" "vpn < 64" "table_ok m pt' ptm" "vpn' < 64"
  shows "mms_get_page_table_entry pt' vpn' ptm (snd (mms_update_page_table_entry pt vpn ptm e m)) =
    (if pt' = pt \<and> vpn' = vpn then (if sexi m then e else e AND 0xFE0001FF)
     else mms_get_page_table_entry pt' vpn' ptm m)"
  using get_after_update[OF assms] by (simp add: pte_visible_def)

theorem page_table_update_exact_witness:
  "mms_get_page_table_entry 15 62 Sixteen
     (snd (mms_update_page_table_entry 15 63 Sixteen 0xE0000123 (demo_machine MMS2))) =
   mms_get_page_table_entry 15 62 Sixteen (demo_machine MMS2)"
  using page_table_update_exact[OF demo_ok demo_table, of 63 15 62] demo_table by simp

text \<open>
  The CPU's stores into the shadow window are what address translation reads: after storing
  the two halves of an entry at the entry's window address in extended mode, or its 16-bit
  form in normal mode, the translation's entry is the one stored.
\<close>

theorem window_store_is_entry:
  assumes "paging_ok m" "table_ok m pt ptm" "vpn < 64"
  defines "a \<equiv> window_address m pt vpn ptm"
  shows "if sexi m
     then mms_get_page_table_entry pt vpn ptm
            (mms_write (word_of_nat (a + 1)) lo (mms_write (word_of_nat a) hi m)) =
          push_bit 16 (ucast hi) OR ucast lo
     else mms_get_page_table_entry pt vpn ptm (mms_write (word_of_nat a) hi m) =
          convert_from_16_bit_pte hi"
proof -
  let ?b = "unat (shadowRamAddress (g_paging_tables m))"
  let ?m1 = "mms_write (word_of_nat a) hi m"
  have le: "?b \<le> a" and lt: "a + (if sexi m then 1 else 0) < 0x10000"
    using shadow_address(2)[OF assms(1-3)] window_address_lt[OF assms(1-3)] by (simp_all add: a_def)
  have i: "a - ?b = entry_index m pt vpn ptm" by (simp add: a_def entry_index_def)
  have len: "entry_index m pt vpn ptm + (if sexi m then 1 else 0) < length (shadowRam (g_paging_tables m))"
    by (rule shadow_address(3)[OF assms(1-3)])
  have m1: "?m1 = m\<lparr>g_paging_tables := (g_paging_tables m)\<lparr>shadowRam :=
      (shadowRam (g_paging_tables m))[entry_index m pt vpn ptm := hi]\<rparr>\<rparr>"
    using mms_write_eq(1)[OF assms(1) le] lt i by simp
  have ok1: "paging_ok ?m1" using assms(1) by (rule mms_write_paging_ok)
  have t1: "table_ok ?m1 pt ptm" using assms(2) by (simp add: m1)
  show ?thesis
  proof (cases "sexi m")
    case False
    then show ?thesis
      unfolding get_entry[OF ok1 t1 assms(3)] using len by (simp add: m1)
  next
    case True
    let ?m2 = "mms_write (word_of_nat (a + 1)) lo ?m1"
    have "a + 1 - ?b = entry_index m pt vpn ptm + 1" using i le by simp
    then have m2: "?m2 = ?m1\<lparr>g_paging_tables := (g_paging_tables ?m1)\<lparr>shadowRam :=
        (shadowRam (g_paging_tables ?m1))[entry_index m pt vpn ptm + 1 := lo]\<rparr>\<rparr>"
      using mms_write_eq(1)[OF ok1, of "a + 1"] le lt True by (simp add: m1)
    have ok2: "paging_ok ?m2" using ok1 by (rule mms_write_paging_ok)
    have t2: "table_ok ?m2 pt ptm" using assms(2) unfolding m2 by (simp add: m1)
    have "mms_get_page_table_entry pt vpn ptm ?m2 = push_bit 16 (ucast hi) OR ucast lo"
      unfolding get_entry[OF ok2 t2 assms(3)] unfolding m2 using len True by (simp add: m1 Let_def)
    with True show ?thesis by simp
  qed
qed

theorem window_store_is_entry_witness:
  "mms_get_page_table_entry 15 63 Sixteen
     (mms_write 0xFFFF 0x0123 (mms_write 0xFFFE 0xE000 (demo_machine MMS2))) = 0xE0000123"
  using window_store_is_entry[OF demo_ok demo_table, of 63 "0x0123" "0xE000"] demo_sexi[of MMS2]
  by (simp add: window_address_def)

end
