(* ===== verification/Mms.thy ===== *)
theory Mms
  imports Interrupts MemoryBanks Paging
begin

text \<open>
  Address translation and memory access of \<open>src/cpu/cpu_mms.c\<close>: page and ring protection,
  the fault registers, translation with its page-used and written-in-page bits, the physical
  read and write paths with the shadow window, backed banks and the ECC latch, the virtual
  accesses built from them, the debugger's side-effect-free accessors, and effective
  addresses (\<open>cpu.c\<close>). A C \<open>int\<close> physical address is an \<open>int\<close>; \<open>-1\<close> is "not mapped".
  Log output, hardware watchpoints (\<open>WITH_DEBUGGER\<close>) and the \<open>--trace\<close> dumps are left
  out: they only observe. \<open>_DEGRADE_\<close> is defined in \<open>cpu_types.h\<close>, so ring degradation
  is part of the model.
\<close>

section \<open>Faults\<close>

definition mms_handle_memory_out_of_range :: "u32 \<Rightarrow> (unit, 'd) exec" where
  "mms_handle_memory_out_of_range pa m =
     cpu_interrupt 14 (push_bit 9 1)
       (g_reg_update (\<lambda>r. cpu_set_pes (ucast (drop_bit 16 pa AND 0xFF))
                           (cpu_set_pea (ucast (pa AND 0xFFFF)) r)) m)"

definition mms_handle_mpv :: "u32 \<Rightarrow> (unit, 'd) exec" where
  "mms_handle_mpv va m = cpu_interrupt 14 (push_bit 2 1) m"

definition mms_handle_pf :: "u32 \<Rightarrow> (unit, 'd) exec" where
  "mms_handle_pf va m = cpu_interrupt 14 (push_bit 3 1) m"

definition mms_update_pgs :: "u32 \<Rightarrow> u32 \<Rightarrow> AccessMode \<Rightarrow> bool \<Rightarrow> CpuRegs \<Rightarrow> CpuRegs" where
  "mms_update_pgs page_table vpn am permit_violation r =
     (let tmp = ucast (push_bit 6 page_table OR vpn) :: u16;
          tmp = (if permit_violation then tmp OR push_bit 14 1 else tmp);
          tmp = (if has_FETCH am then (if has_READ am then tmp else tmp OR push_bit 15 1) else tmp)
      in cpu_set_pgs tmp r)"

definition mms_check_page_protection ::
  "u32 \<Rightarrow> u32 \<Rightarrow> u32 \<Rightarrow> AccessMode \<Rightarrow> u32 \<Rightarrow> (bool, 'd) exec" where
  "mms_check_page_protection vpn page_table e am va m =
     (let access_bits = (if has_READ am then push_bit 30 1 else 0)
                     OR (if has_WRITE am then push_bit 31 1 else 0)
                     OR (if has_FETCH am then push_bit 29 1 else 0) :: u32;
          pf_mask = push_bit 29 7
      in if e AND pf_mask = 0
         then bind_out (mms_handle_pf va) (\<lambda>_. Done False)
                (g_reg_update (mms_update_pgs page_table vpn am True) m)
         else if e AND access_bits = 0
         then bind_out (mms_handle_mpv va) (\<lambda>_. Done False)
                (g_reg_update (mms_update_pgs page_table vpn am True) m)
         else Done True m)"

section \<open>Translation\<close>

definition mms_is_address_shadow_memory :: "u32 \<Rightarrow> bool \<Rightarrow> 'd machine \<Rightarrow> bool" where
  "mms_is_address_shadow_memory addr privileged m =
     (if g_dma_access m then False
      else if addr > 0xFFFF then False
      else (let r = g_reg m;
                pcr = reg_PCR r (gPIL r);
                ring = pcr AND 0x03;
                mms2_enabled = bit pcr 2
            in if ring = 3 \<or> \<not> STS_PAGING_ON_IS_SET r \<or> privileged
               then (if STS_EXTENDED_ADDRESSING_IS_SET r
                     then (if g_mms_type m = MMS2 \<and> mms2_enabled
                           then addr \<ge> 0xF800 \<and> addr \<le> 0xFFFF
                           else addr \<ge> 0xFE00 \<and> addr \<le> 0xFFFF)
                     else addr \<ge> 0xFF00 \<and> addr \<le> 0xFFFF)
               else False))"

text \<open>The page table a PCR selects: the alternative one or the normal one, of 4 or 16.\<close>

definition select_page_table :: "bool \<Rightarrow> u16 \<Rightarrow> MMSType \<Rightarrow> u32 \<times> PageTableMode" where
  "select_page_table alt pcr mms =
     (if alt
      then (if bit pcr 2 \<and> mms = MMS2 then (ucast (drop_bit 7 pcr AND 0xF), Sixteen)
            else (ucast (drop_bit 7 pcr AND 0x03), Four))
      else (if bit pcr 2 \<and> mms = MMS2 then (ucast (drop_bit 11 pcr AND 0xF), Sixteen)
            else (ucast (drop_bit 9 pcr AND 0x03), Four)))"

definition page_table_ring :: "u32 \<Rightarrow> u16" where
  "page_table_ring e = ucast (drop_bit 25 e AND 0x03)"

definition physical_page :: "'d machine \<Rightarrow> u32 \<Rightarrow> u16" where
  "physical_page m e =
     (if STS_EXTENDED_ADDRESSING_IS_SET (g_reg m) then ucast (e AND 0x3FFF) else ucast (e AND 0x1FF))"

definition physical_of :: "'d machine \<Rightarrow> u32 \<Rightarrow> u32 \<Rightarrow> u32" where
  "physical_of m e dip = (push_bit 10 (ucast (physical_page m e)) OR dip) AND 0xFFFFFF"

text \<open>\<open>_DEGRADE_\<close>: a ring-3 fetch from a page of a lower ring drops the level to that ring.\<close>

definition degrade :: "AccessMode \<Rightarrow> u16 \<Rightarrow> u32 \<Rightarrow> CpuRegs \<Rightarrow> u16 \<times> CpuRegs" where
  "degrade am ring e r =
     (if has_FETCH am \<and> page_table_ring e < ring \<and> ring = 3
      then (page_table_ring e,
            r\<lparr>reg_PCR := (reg_PCR r)(gPIL r := (reg_PCR r (gPIL r) AND 0xFFFC) OR page_table_ring e)\<rparr>)
      else (ring, r))"

definition mark_page :: "u32 \<Rightarrow> u32 \<Rightarrow> PageTableMode \<Rightarrow> u32 \<Rightarrow> AccessMode \<Rightarrow> 'd machine \<Rightarrow> 'd machine" where
  "mark_page page_table vpn ptm e am m =
     (let (e1, m1) = mms_set_page_used page_table vpn ptm e m
      in if am = WRITE then snd (mms_set_page_written page_table vpn ptm e1 m1) else m1)"

definition mms_map_virtual_to_physical :: "u32 \<Rightarrow> AccessMode \<Rightarrow> bool \<Rightarrow> (int, 'd) exec" where
  "mms_map_virtual_to_physical virtual_address am use_apt m =
     (if \<not> isInitialized (g_paging_tables m) then Done (-1) m
      else
        (let va = virtual_address AND 0xFFFF;
             pcr = reg_PCR (g_reg m) (gPIL (g_reg m));
             ring = pcr AND 0x03
         in if ring = 3 \<and> mms_is_address_shadow_memory va False m then Done (uint va) m
            else if \<not> STS_PAGING_ON_IS_SET (g_reg m) then Done (uint (va AND 0xFFFF)) m
            else
              (let dip = va AND 0x3FF;
                   vpn = drop_bit 10 va AND 0x3F;
                   (page_table, ptm) =
                     select_page_table (STS_PAGE_TABLE_MODE_IS_SET (g_reg m) \<and> use_apt) pcr (g_mms_type m);
                   e = mms_get_page_table_entry page_table vpn ptm m
               in bind_out (mms_check_page_protection vpn page_table e am va)
                    (\<lambda>ok m. if \<not> ok then Done (-1) m
                      else
                        (let (ring, r) = degrade am ring e (g_reg m);
                             m = m\<lparr>g_reg := r\<rparr>
                         in if ring < page_table_ring e
                            then bind_out (mms_handle_mpv va) (\<lambda>_. Done (-1))
                                   (g_reg_update (mms_update_pgs page_table vpn am False) m)
                            else
                              (let pa = physical_of m e dip
                               in if mms_memory_bank_lookup pa (s_memory_banks m) = None
                                  then bind_out (mms_handle_memory_out_of_range pa) (\<lambda>_. Done (-1))
                                         (g_reg_update (mms_update_pgs page_table vpn am False) m)
                                  else Done (uint pa) (mark_page page_table vpn ptm e am m))))
                    m)))"

section \<open>Error-correction latch\<close>

text \<open>The three simulate bits of ECCR, packed as the code packs them.\<close>

definition ecc_sim_bits :: "u16 \<Rightarrow> u8" where
  "ecc_sim_bits eccr = (if bit eccr 0 then push_bit 0 1 else 0)
     OR (if bit eccr 1 then push_bit 1 1 else 0) OR (if bit eccr 4 then push_bit 4 1 else 0)"

definition nd_ecc_write_latch :: "int \<Rightarrow> 'd machine \<Rightarrow> 'd machine" where
  "nd_ecc_write_latch pa m =
     (let bits = ecc_sim_bits (reg_ECCR (g_reg m));
          latched = g_ecc_latch m (nat pa)
      in if pa < 0 \<or> word_of_int pa \<ge> g_nd_memsize m then m
         else if bits = 0 \<and> latched = 0 then m
         else if mms_get_physical_memory_type (word_of_int pa) (s_memory_banks m) \<noteq> ND_MEM_LOCAL then m
         else m\<lparr>g_ecc_latch := (g_ecc_latch m)(nat pa := bits)\<rparr>)"

definition ecc_count :: "u16 \<Rightarrow> nat" where
  "ecc_count eff = (if bit eff 0 then 1 else 0) + (if bit eff 1 then 1 else 0) + (if bit eff 4 then 1 else 0)"

definition ecc_error_code :: "u16 \<Rightarrow> u16" where
  "ecc_error_code eff =
     (if bit eff 4 then 0x0D else if bit eff 1 then 0x1C else if bit eff 0 then 3 else 0)"

definition consume_latch :: "u8 \<Rightarrow> int \<Rightarrow> 'd machine \<Rightarrow> 'd machine" where
  "consume_latch latched pa m =
     (if latched \<noteq> 0 then m\<lparr>g_ecc_latch := (g_ecc_latch m)(nat pa := 0)\<rparr> else m)"

definition nd_ecc_read_detect :: "int \<Rightarrow> (unit, 'd) exec" where
  "nd_ecc_read_detect pa m =
     (let eccr = reg_ECCR (g_reg m);
          live = ucast (eccr AND 0x13) :: u8;
          latched = g_ecc_latch m (nat pa)
      in if pa < 0 \<or> word_of_int pa \<ge> g_nd_memsize m then Done () m
         else if live = 0 \<and> latched = 0 then Done () m
         else if bit eccr 3 then Done () m
         else if mms_get_physical_memory_type (word_of_int pa) (s_memory_banks m) \<noteq> ND_MEM_LOCAL
         then Done () m
         else
           (let eff = ucast (live OR latched) :: u16
            in if ecc_count eff = 0 then Done () m
               else if ecc_count eff = 1 \<and> \<not> bit eccr 2 then Done () (consume_latch latched pa m)
               else
                 (let tmp_pea = word_of_int (pa AND 0xFFFF);
                      tmp_pes = word_of_int (drop_bit 16 pa AND 0xFF);
                      tmp_pes = (if ecc_count eff = 1 then tmp_pes OR push_bit 8 (ecc_error_code eff)
                                 else tmp_pes OR push_bit 13 1);
                      m1 = g_reg_update (\<lambda>r. cpu_set_pes tmp_pes (cpu_set_pea tmp_pea r)) m
                  in cpu_interrupt 14 (push_bit 8 1) (consume_latch latched pa m1))))"

section \<open>Physical memory\<close>

definition merge_word :: "WriteMode \<Rightarrow> u16 \<Rightarrow> u16 \<Rightarrow> u16" where
  "merge_word wm old v =
     (case wm of WRITEMODE_MSB \<Rightarrow> (old AND 0xFF) OR push_bit 8 v
               | WRITEMODE_LSB \<Rightarrow> (old AND 0xFF00) OR (v AND 0xFF)
               | WRITEMODE_WORD \<Rightarrow> v)"

definition backed_read :: "u32 \<Rightarrow> 'd machine \<Rightarrow> (u32 \<times> (u32 \<Rightarrow> 'd \<Rightarrow> u16 \<times> 'd)) option" where
  "backed_read a m =
     (case mms_memory_bank_lookup a (s_memory_banks m) of
        None \<Rightarrow> None
      | Some b \<Rightarrow> (case bank_read b of None \<Rightarrow> None | Some f \<Rightarrow> Some (a - start_word b, f)))"

definition mms_read_physical_memory :: "int \<Rightarrow> bool \<Rightarrow> (u16, 'd) exec" where
  "mms_read_physical_memory pa privileged m =
     (if pa < 0 then Done 0 m
      else if mms_is_address_shadow_memory (word_of_int pa) privileged m
      then Done (mms_read (word_of_int pa) m) m
      else case backed_read (word_of_int pa) m of
             Some (offset, f) \<Rightarrow>
               (let (v, d) = f offset (devices m) in Done v (m\<lparr>devices := d\<rparr>))
           | None \<Rightarrow>
               if word_of_int pa \<ge> g_nd_memsize m \<or> pa < 0
               then bind_out (mms_handle_memory_out_of_range (word_of_int pa)) (\<lambda>_. Done 0) m
               else bind_out (nd_ecc_read_detect pa) (\<lambda>_ m. Done (n_Array m (nat pa)) m) m)"

definition backed_write ::
  "u32 \<Rightarrow> 'd machine \<Rightarrow> (u32 \<times> (u32 \<Rightarrow> u16 \<Rightarrow> WriteMode \<Rightarrow> 'd \<Rightarrow> 'd)
                          \<times> (u32 \<Rightarrow> u16 \<Rightarrow> 'd \<Rightarrow> u16 \<times> 'd) option) option" where
  "backed_write a m =
     (case mms_memory_bank_lookup a (s_memory_banks m) of
        None \<Rightarrow> None
      | Some b \<Rightarrow> (case bank_write b of None \<Rightarrow> None
                  | Some f \<Rightarrow> Some (a - start_word b, f, bank_exchange b)))"

definition mms_write_physical_memory_wm :: "int \<Rightarrow> u16 \<Rightarrow> bool \<Rightarrow> WriteMode \<Rightarrow> (unit, 'd) exec" where
  "mms_write_physical_memory_wm pa v privileged wm m =
     (if mms_is_address_shadow_memory (word_of_int pa) privileged m
      then Done () (mms_write (word_of_int pa) (merge_word wm (mms_read (word_of_int pa) m) v) m)
      else case (if pa \<ge> 0 then backed_write (word_of_int pa) m else None) of
             Some (offset, f, ex) \<Rightarrow>
               (case (if s_tset_lock_held m \<and> wm = WRITEMODE_WORD then ex else None) of
                  Some x \<Rightarrow> (let (old, d) = x offset v (devices m)
                             in Done () (m\<lparr>s_tset_old := old, s_tset_old_valid := True, devices := d\<rparr>))
                | None \<Rightarrow> Done () (m\<lparr>devices := f offset v wm (devices m)\<rparr>))
           | None \<Rightarrow>
               if word_of_int pa \<ge> g_nd_memsize m \<or> pa < 0
               then mms_handle_memory_out_of_range (word_of_int pa) m
               else (let m1 = nd_ecc_write_latch pa m
                     in Done () (m1\<lparr>n_Array :=
                          (n_Array m1)(nat pa := merge_word wm (n_Array m1 (nat pa)) v)\<rparr>)))"

definition mms_write_physical_memory :: "int \<Rightarrow> u16 \<Rightarrow> bool \<Rightarrow> (unit, 'd) exec" where
  "mms_write_physical_memory pa v privileged = mms_write_physical_memory_wm pa v privileged WRITEMODE_WORD"

section \<open>Virtual memory\<close>

definition virtual_read :: "AccessMode \<Rightarrow> u32 \<Rightarrow> bool \<Rightarrow> (u16, 'd) exec" where
  "virtual_read am va use_apt =
     bind_out (mms_map_virtual_to_physical va am use_apt)
       (\<lambda>pa. if pa = -1 then Done 0 else mms_read_physical_memory pa False)"

definition mms_read_virtual_memory :: "u32 \<Rightarrow> bool \<Rightarrow> (u16, 'd) exec" where
  "mms_read_virtual_memory = virtual_read READ"

definition mms_read_indirect_virtual_memory :: "u32 \<Rightarrow> bool \<Rightarrow> (u16, 'd) exec" where
  "mms_read_indirect_virtual_memory = virtual_read READ_FETCH"

definition mms_fetch_virtual_memory :: "u32 \<Rightarrow> bool \<Rightarrow> (u16, 'd) exec" where
  "mms_fetch_virtual_memory = virtual_read FETCH"

definition mms_write_virtual_memory :: "u32 \<Rightarrow> u16 \<Rightarrow> bool \<Rightarrow> WriteMode \<Rightarrow> (unit, 'd) exec" where
  "mms_write_virtual_memory va v use_apt wm =
     bind_out (mms_map_virtual_to_physical va WRITE use_apt)
       (\<lambda>pa. if pa = -1 then Done () else mms_write_physical_memory_wm pa v False wm)"

definition cpu_memory_read :: "u16 \<Rightarrow> bool \<Rightarrow> (u16, 'd) exec" where
  "cpu_memory_read addr use_apt = mms_read_virtual_memory (ucast addr) use_apt"

definition cpu_memory_write :: "u16 \<Rightarrow> u16 \<Rightarrow> bool \<Rightarrow> WriteMode \<Rightarrow> (unit, 'd) exec" where
  "cpu_memory_write v addr use_apt byte_select = mms_write_virtual_memory (ucast addr) v use_apt byte_select"

section \<open>Effective addresses\<close>

definition cpu_sign_extend :: "u16 \<Rightarrow> u16" where
  "cpu_sign_extend x = (if bit x 7 then x OR 0xFF00 else x)"

definition cpu_get_effective_addr :: "u16 \<Rightarrow> (u16 \<times> bool, 'd) exec" where
  "cpu_get_effective_addr instr m =
     (let disp = cpu_sign_extend (instr AND 0xFF);
          p = cur R_P (g_reg m) - 1;
          b = cur R_B (g_reg m);
          x = cur R_X (g_reg m);
          mode = unat (drop_bit 8 instr AND 0x07)
      in if mode = 0 then Done (p + disp, False) m
         else if mode = 1 then Done (b + disp, True) m
         else if mode = 2
         then bind_out (mms_read_indirect_virtual_memory (ucast (p + disp)) False) (\<lambda>a. Done (a, True)) m
         else if mode = 3
         then bind_out (mms_read_indirect_virtual_memory (ucast (b + disp)) True) (\<lambda>a. Done (a, True)) m
         else if mode = 4 then Done (x + disp, True) m
         else if mode = 5 then Done (b + x + disp, True) m
         else if mode = 6
         then bind_out (mms_read_indirect_virtual_memory (ucast (p + disp)) False) (\<lambda>a m. Done (x + a, True) m) m
         else bind_out (mms_read_indirect_virtual_memory (ucast (b + disp)) True) (\<lambda>a m. Done (x + a, True) m) m)"

section \<open>The debugger's accessors\<close>

text \<open>\<open>None\<close> is the C result \<open>-1\<close>.\<close>

definition Dbg_ReadPhysicalMemory :: "u32 \<Rightarrow> 'd machine \<Rightarrow> u16 option" where
  "Dbg_ReadPhysicalMemory pa m = (if pa \<ge> g_nd_memsize m then None else Some (n_Array m (unat pa)))"

definition Dbg_WritePhysicalMemory :: "u32 \<Rightarrow> u16 \<Rightarrow> 'd machine \<Rightarrow> 'd machine option" where
  "Dbg_WritePhysicalMemory pa v m =
     (if pa \<ge> g_nd_memsize m then None else Some (m\<lparr>n_Array := (n_Array m)(unat pa := v)\<rparr>))"

definition dbg_map_virtual_to_physical :: "u32 \<Rightarrow> bool \<Rightarrow> int \<Rightarrow> 'd machine \<Rightarrow> u32 option" where
  "dbg_map_virtual_to_physical virtual_address use_apt pil m =
     (let va = virtual_address AND 0xFFFF in
      if \<not> isInitialized (g_paging_tables m) then None
      else
        (let level = (if pil \<ge> 0 \<and> pil \<le> 15 then nat pil else gPIL (g_reg m));
             pcr = reg_PCR (g_reg m) level;
             ring = pcr AND 0x03
         in if ring = 3 \<and> mms_is_address_shadow_memory va False m then Some va
            else if \<not> STS_PAGING_ON_IS_SET (g_reg m) then Some (va AND 0xFFFF)
            else
              (let dip = va AND 0x3FF;
                   vpn = drop_bit 10 va AND 0x3F;
                   (page_table, ptm) = select_page_table use_apt pcr (g_mms_type m);
                   e = mms_get_page_table_entry page_table vpn ptm m
               in if e AND push_bit 29 7 = 0 then None
                  else (let pa = physical_of m e dip
                        in if pa \<ge> g_nd_memsize m then None else Some pa))))"

definition dbg_read_virtual :: "u32 \<Rightarrow> bool \<Rightarrow> int \<Rightarrow> 'd machine \<Rightarrow> u16 option" where
  "dbg_read_virtual va use_apt pil m =
     (case dbg_map_virtual_to_physical va use_apt pil m of
        None \<Rightarrow> None | Some pa \<Rightarrow> Dbg_ReadPhysicalMemory pa m)"

definition dbg_write_virtual :: "u32 \<Rightarrow> u16 \<Rightarrow> bool \<Rightarrow> int \<Rightarrow> 'd machine \<Rightarrow> 'd machine option" where
  "dbg_write_virtual va v use_apt pil m =
     (case dbg_map_virtual_to_physical va use_apt pil m of
        None \<Rightarrow> None | Some pa \<Rightarrow> Dbg_WritePhysicalMemory pa v m)"

section \<open>Faults leave memory alone\<close>

text \<open>
  \<open>same_memory m m'\<close>: everything but registers and the test-and-set bookkeeping is equal.
  \<open>same_context r r'\<close>: the registers a program sees (all levels' register files, status,
  level, PCRs) are equal.
\<close>

definition same_memory :: "'d machine \<Rightarrow> 'd machine \<Rightarrow> bool" where
  "same_memory m m' \<longleftrightarrow> n_Array m' = n_Array m \<and> g_paging_tables m' = g_paging_tables m \<and>
     s_memory_banks m' = s_memory_banks m \<and> devices m' = devices m \<and> g_ecc_latch m' = g_ecc_latch m \<and>
     g_mms_type m' = g_mms_type m \<and> g_nd_memsize m' = g_nd_memsize m"

definition same_context :: "CpuRegs \<Rightarrow> CpuRegs \<Rightarrow> bool" where
  "same_context r r' \<longleftrightarrow> reg r' = reg r \<and> reg_STS r' = reg_STS r \<and> reg_PIE r' = reg_PIE r \<and>
     reg_PVL r' = reg_PVL r"

lemma same_memory_refl [simp, intro]: "same_memory m m"
  by (simp add: same_memory_def)

lemma same_memory_g_reg [simp]: "same_memory m (g_reg_update f m') = same_memory m m'"
  by (simp add: same_memory_def)

lemma same_memory_tset_end [simp]: "same_memory m (mms_tset_lock_end m') = same_memory m m'"
  by (simp add: same_memory_def)

lemma cpu_set_sel [simp]:
  "reg (cpu_set_pea a r) = reg r" "reg_STS (cpu_set_pea a r) = reg_STS r"
  "reg_PIE (cpu_set_pea a r) = reg_PIE r" "reg_PVL (cpu_set_pea a r) = reg_PVL r"
  "reg_PCR (cpu_set_pea a r) = reg_PCR r" "reg_PES (cpu_set_pea a r) = reg_PES r"
  "mylock_PES (cpu_set_pea a r) = mylock_PES r" "reg_ECCR (cpu_set_pea a r) = reg_ECCR r"
  "reg_IID (cpu_set_pea a r) = reg_IID r" "reg_PGS (cpu_set_pea a r) = reg_PGS r"
  "reg (cpu_set_pes a r) = reg r" "reg_STS (cpu_set_pes a r) = reg_STS r"
  "reg_PIE (cpu_set_pes a r) = reg_PIE r" "reg_PVL (cpu_set_pes a r) = reg_PVL r"
  "reg_PCR (cpu_set_pes a r) = reg_PCR r" "reg_PEA (cpu_set_pes a r) = reg_PEA r"
  "reg_IID (cpu_set_pes a r) = reg_IID r" "reg_ECCR (cpu_set_pes a r) = reg_ECCR r"
  "reg_PGS (cpu_set_pes a r) = reg_PGS r"
  by (simp_all add: cpu_set_pea_def cpu_set_pes_def)

lemma update_pgs_sel [simp]:
  "reg (mms_update_pgs pt vpn am pv r) = reg r" "reg_STS (mms_update_pgs pt vpn am pv r) = reg_STS r"
  "reg_PIE (mms_update_pgs pt vpn am pv r) = reg_PIE r" "reg_PVL (mms_update_pgs pt vpn am pv r) = reg_PVL r"
  "reg_PCR (mms_update_pgs pt vpn am pv r) = reg_PCR r" "reg_PEA (mms_update_pgs pt vpn am pv r) = reg_PEA r"
  "reg_PES (mms_update_pgs pt vpn am pv r) = reg_PES r" "reg_IID (mms_update_pgs pt vpn am pv r) = reg_IID r"
  "mylock_PEA (mms_update_pgs pt vpn am pv r) = mylock_PEA r"
  by (simp_all add: mms_update_pgs_def cpu_set_pgs_def set_gPGS_Lock_def Let_def)

lemma same_context_refl [simp, intro]: "same_context r r"
  by (simp add: same_context_def)

lemma same_context_simps [simp]:
  "same_context r (interrupt_regs l s r') = same_context r r'"
  "same_context r (cpu_set_pea a r') = same_context r r'"
  "same_context r (cpu_set_pes a r') = same_context r r'"
  "same_context r (mms_update_pgs pt vpn am pv r') = same_context r r'"
  "same_context r (r'\<lparr>reg_PCR := pcr\<rparr>) = same_context r r'"
  by (simp_all add: same_context_def)

lemma trap_bits: "(x AND (push_bit 2 1 OR push_bit 3 1 OR push_bit 4 1) :: u16) \<noteq> 0 \<longleftrightarrow>
    bit x 2 \<or> bit x 3 \<or> bit x 4"
  by (simp add: word_and_ne_0 ex_less_16)

lemma mms_handle_pf_eq:
  "mms_handle_pf va m = Trap (mms_tset_lock_end (g_reg_update (interrupt_regs 14 8) m))"
  by (simp add: mms_handle_pf_def cpu_interrupt_def Let_def)

lemma mms_handle_mpv_eq:
  "mms_handle_mpv va m = Trap (mms_tset_lock_end (g_reg_update (interrupt_regs 14 4) m))"
  by (simp add: mms_handle_mpv_def cpu_interrupt_def Let_def)

lemma mms_handle_memory_out_of_range_eq:
  "mms_handle_memory_out_of_range pa m =
     Done () (g_reg_update (\<lambda>r. interrupt_regs 14 512 (cpu_set_pes (ucast (drop_bit 16 pa AND 0xFF))
                                   (cpu_set_pea (ucast (pa AND 0xFFFF)) r))) m)"
  by (simp add: mms_handle_memory_out_of_range_def cpu_interrupt_def Let_def)

lemma interrupt_regs_IID: "bit (reg_IID (interrupt_regs 14 c r)) n \<longleftrightarrow>
    bit (reg_IID r OR c) n \<or> n = 5 \<and> reg_bit 0 3 r"
proof -
  have rb: "reg_bit 0 3 (r\<lparr>reg_IID := x, reg_PID := y\<rparr>) = reg_bit 0 3 r"
    "reg_bit 0 3 (r\<lparr>reg_IID := x\<rparr>) = reg_bit 0 3 r" for x y
    by (simp_all add: reg_bit_def gSTSr_def gPIL_def cur_def)
  show ?thesis
    by (auto simp: interrupt_regs_def recalc_internal_interrupt_bits_def Let_def rb bit_or_iff)
qed

section \<open>What a translation decides\<close>

text \<open>
  The specification side: which entry an address selects, whether it is present, whether it
  permits an access, and when an address is translated at all.
\<close>

definition pcr_of :: "'d machine \<Rightarrow> u16" where
  "pcr_of m = reg_PCR (g_reg m) (gPIL (g_reg m))"

definition translated :: "'d machine \<Rightarrow> u32 \<Rightarrow> bool" where
  "translated m va \<longleftrightarrow> isInitialized (g_paging_tables m) \<and> STS_PAGING_ON_IS_SET (g_reg m) \<and>
     \<not> (pcr_of m AND 0x03 = 3 \<and> mms_is_address_shadow_memory (va AND 0xFFFF) False m)"

definition va_table :: "'d machine \<Rightarrow> bool \<Rightarrow> u32" where
  "va_table m use_apt =
     fst (select_page_table (STS_PAGE_TABLE_MODE_IS_SET (g_reg m) \<and> use_apt) (pcr_of m) (g_mms_type m))"

definition va_mode :: "'d machine \<Rightarrow> bool \<Rightarrow> PageTableMode" where
  "va_mode m use_apt =
     snd (select_page_table (STS_PAGE_TABLE_MODE_IS_SET (g_reg m) \<and> use_apt) (pcr_of m) (g_mms_type m))"

definition va_page :: "u32 \<Rightarrow> u32" where
  "va_page va = drop_bit 10 (va AND 0xFFFF) AND 0x3F"

definition va_entry :: "'d machine \<Rightarrow> u32 \<Rightarrow> bool \<Rightarrow> u32" where
  "va_entry m va use_apt = mms_get_page_table_entry (va_table m use_apt) (va_page va) (va_mode m use_apt) m"

definition va_dip :: "u32 \<Rightarrow> u32" where
  "va_dip va = (va AND 0xFFFF) AND 0x3FF"

definition va_target :: "'d machine \<Rightarrow> u32 \<Rightarrow> bool \<Rightarrow> u32" where
  "va_target m va use_apt = physical_of m (va_entry m va use_apt) (va_dip va)"

definition present :: "u32 \<Rightarrow> bool" where
  "present e \<longleftrightarrow> bit e 29 \<or> bit e 30 \<or> bit e 31"

definition permits :: "AccessMode \<Rightarrow> u32 \<Rightarrow> bool" where
  "permits am e \<longleftrightarrow> has_READ am \<and> bit e 30 \<or> has_WRITE am \<and> bit e 31 \<or> has_FETCH am \<and> bit e 29"

definition fault :: "nat \<Rightarrow> 'd machine \<Rightarrow> 'd machine" where
  "fault cause m = mms_tset_lock_end (g_reg_update (interrupt_regs 14 (push_bit cause 1)) m)"

lemma and_eq_0_32: "(a AND b :: u32) = 0 \<longleftrightarrow> (\<forall>n<32. \<not> (bit a n \<and> bit b n))"
proof
  assume "a AND b = 0"
  then show "\<forall>n<32. \<not> (bit a n \<and> bit b n)" by (metis bit_and_iff bit_0_eq bot_apply bot_bool_def)
next
  assume "\<forall>n<32. \<not> (bit a n \<and> bit b n)"
  then show "a AND b = 0" by (intro word32_eqI) (simp add: bit_and_iff)
qed

lemma present_mask: "(e AND push_bit 29 7 :: u32) = 0 \<longleftrightarrow> \<not> present e"
  by (simp add: and_eq_0_32 all_less_32 all_less_16 present_def)

lemma permit_mask:
  "(e AND ((if has_READ am then push_bit 30 1 else 0) OR (if has_WRITE am then push_bit 31 1 else 0)
     OR (if has_FETCH am then push_bit 29 1 else 0)) :: u32) = 0 \<longleftrightarrow> \<not> permits am e"
  by (cases am) (auto simp add: and_eq_0_32 all_less_32 all_less_16 permits_def)

lemma check_page_protection_eq:
  "mms_check_page_protection vpn pt e am va m =
     (if \<not> present e then Trap (fault 3 (g_reg_update (mms_update_pgs pt vpn am True) m))
      else if \<not> permits am e then Trap (fault 2 (g_reg_update (mms_update_pgs pt vpn am True) m))
      else Done True m)"
  unfolding mms_check_page_protection_def Let_def present_mask permit_mask
  by (simp add: mms_handle_pf_eq mms_handle_mpv_eq fault_def bind_out_def)

lemma degrade_sel:
  assumes "degrade am ring e r = (ring', r')"
  shows "reg r' = reg r" "reg_STS r' = reg_STS r" "mylock_PES r' = mylock_PES r" "reg_PES r' = reg_PES r"
    "mylock_PEA r' = mylock_PEA r" "reg_PEA r' = reg_PEA r" "reg_IID r' = reg_IID r" "same_context r r'"
  using assms by (auto simp: degrade_def same_context_def split: if_splits)

lemma physical_of_cong:
  "reg_STS (g_reg m') = reg_STS (g_reg m) \<Longrightarrow> physical_of m' e d = physical_of m e d"
  by (simp add: physical_of_def physical_page_def STS_EXTENDED_ADDRESSING_IS_SET_def)

lemma map_translated:
  assumes "translated m va"
  shows "mms_map_virtual_to_physical va am apt m =
    (let pt = va_table m apt; ptm = va_mode m apt; vpn = va_page va; e = va_entry m va apt;
         (ring, r) = degrade am (pcr_of m AND 0x03) e (g_reg m);
         m1 = m\<lparr>g_reg := r\<rparr>; pa = va_target m va apt
     in if \<not> present e then Trap (fault 3 (g_reg_update (mms_update_pgs pt vpn am True) m))
        else if \<not> permits am e then Trap (fault 2 (g_reg_update (mms_update_pgs pt vpn am True) m))
        else if ring < page_table_ring e
        then Trap (fault 2 (g_reg_update (mms_update_pgs pt vpn am False) m1))
        else if mms_memory_bank_lookup pa (s_memory_banks m) = None
        then bind_out (mms_handle_memory_out_of_range pa) (\<lambda>_. Done (-1))
               (g_reg_update (mms_update_pgs pt vpn am False) m1)
        else Done (uint pa) (mark_page pt vpn ptm e am m1))"
proof -
  obtain ring r where d: "degrade am (pcr_of m AND 0x03) (va_entry m va apt) (g_reg m) = (ring, r)"
    by (cases "degrade am (pcr_of m AND 0x03) (va_entry m va apt) (g_reg m)")
  have ph: "physical_of (m\<lparr>g_reg := r\<rparr>) e dd = physical_of m e dd" for e dd
    using degrade_sel(2)[OF d] by (intro physical_of_cong) simp
  have sp: "select_page_table (STS_PAGE_TABLE_MODE_IS_SET (g_reg m) \<and> apt) (pcr_of m) (g_mms_type m)
      = (va_table m apt, va_mode m apt)"
    by (simp add: va_table_def va_mode_def)
  have t: "isInitialized (g_paging_tables m)" "STS_PAGING_ON_IS_SET (g_reg m)"
    "\<not> (pcr_of m AND 0x03 = 3 \<and> mms_is_address_shadow_memory (va AND 0xFFFF) False m)"
    using assms by (simp_all add: translated_def)
  show ?thesis
    unfolding mms_map_virtual_to_physical_def Let_def
    unfolding pcr_of_def[symmetric] va_page_def[symmetric] va_dip_def[symmetric] sp prod.case
    unfolding va_entry_def[symmetric] if_not_P[OF t(3)]
    using t(1,2) d
    by (simp add: check_page_protection_eq bind_out_def ph mms_handle_mpv_eq fault_def
        flip: va_target_def)
qed

section \<open>Marking the page\<close>

lemma select_table_range:
  "select_page_table alt pcr mms = (pt, ptm) \<Longrightarrow>
     pt < (if ptm = Sixteen then 16 else 4) \<and> (ptm = Sixteen \<longrightarrow> mms = MMS2)"
proof -
  have m4: "unat (x AND 3) < 4" for x :: u16
    using and_mask_lt[of "3" 2 x] by (simp add: mask_eq_exp_minus_1)
  have m16: "unat (x AND 0xF) < 16" for x :: u16
    using and_mask_lt[of "0xF" 4 x] by (simp add: mask_eq_exp_minus_1)
  have u: "unat (ucast x :: u32) = unat x" for x :: u16
    by (rule unat_ucast_16_32)
  assume "select_page_table alt pcr mms = (pt, ptm)"
  then show ?thesis
    using m4 m16 by (auto simp: select_page_table_def word_less_nat_alt u split: if_splits)
qed

text \<open>An entry with a permit bit is in a table of the current mode.\<close>

lemma present_table_ok:
  assumes "paging_ok m" "va_entry m va apt \<noteq> 0"
  shows "table_ok m (va_table m apt) (va_mode m apt)"
proof -
  obtain pt ptm where sp: "va_table m apt = pt" "va_mode m apt = ptm"
    "pt < (if ptm = Sixteen then 16 else 4)" "ptm = Sixteen \<longrightarrow> g_mms_type m = MMS2"
    using select_table_range[of "STS_PAGE_TABLE_MODE_IS_SET (g_reg m) \<and> apt" "pcr_of m" "g_mms_type m"
        "va_table m apt" "va_mode m apt"]
    by (simp add: va_table_def va_mode_def)
  have "pt < 4" if "\<not> sexi m"
    using assms(2) that sp
    by (auto simp: va_entry_def mms_get_page_table_entry_def Let_def word_le_nat_alt word_less_nat_alt
        split: if_splits)
  then show ?thesis using sp by (auto simp: table_ok_def)
qed

lemma va_page_lt: "va_page va < 64"
proof -
  have "unat (x AND 0x3F) < 64" for x :: u32
    using and_mask_lt[of "0x3F" 6 x] by (simp add: mask_eq_exp_minus_1)
  then show ?thesis by (simp add: va_page_def word_less_nat_alt)
qed

lemma visible_flags:
  assumes "pte_visible m e = e"
  shows "pte_visible m (e OR PGU_FLAG) = e OR PGU_FLAG" "pte_visible m (e OR WIP_FLAG) = e OR WIP_FLAG"
proof -
  have "\<not> sexi m \<Longrightarrow> e AND 0xFE0001FF = e" using assms by (simp add: pte_visible_def)
  moreover have "(x OR y) AND 0xFE0001FF = (x AND 0xFE0001FF) OR (y AND 0xFE0001FF)" for x y :: u32
    by (rule bit_word_eqI) (auto simp: bit_simps)
  ultimately show "pte_visible m (e OR PGU_FLAG) = e OR PGU_FLAG"
    "pte_visible m (e OR WIP_FLAG) = e OR WIP_FLAG"
    by (simp_all add: pte_visible_def)
qed

lemma visible_get:
  assumes "paging_ok m" "table_ok m pt ptm" "vpn < 64"
  shows "pte_visible m (mms_get_page_table_entry pt vpn ptm m) = mms_get_page_table_entry pt vpn ptm m"
proof -
  have "convert_from_16_bit_pte v AND 0xFE0001FF = convert_from_16_bit_pte v" for v
    using convert_from_to[of "convert_from_16_bit_pte v"] by (simp add: convert_to_from)
  then show ?thesis by (simp add: get_entry[OF assms] pte_visible_def Let_def)
qed

lemma or_idem_flag: "e AND 2 ^ k \<noteq> 0 \<Longrightarrow> e OR 2 ^ k = e" for e :: u32
proof -
  assume "e AND 2 ^ k \<noteq> 0"
  then have "bit e k" by (auto simp: and_eq_0_32 bit_2_pow)
  then show ?thesis by (intro bit_word_eqI) (auto simp: bit_or_iff bit_2_pow)
qed

definition flags_for :: "AccessMode \<Rightarrow> u32" where
  "flags_for am = (if am = WRITE then PGU_FLAG OR WIP_FLAG else PGU_FLAG)"

lemma used_entry:
  assumes ok: "paging_ok m" "table_ok m pt ptm" "vpn < 64"
    and e: "e = mms_get_page_table_entry pt vpn ptm m"
    and t: "table_ok m pt' ptm" "vpn' < 64"
  defines "r \<equiv> mms_set_page_used pt vpn ptm e m"
  shows "fst r = e OR PGU_FLAG" "paging_ok (snd r)" "table_ok (snd r) = table_ok m"
    "pte_visible (snd r) = pte_visible m"
    "mms_get_page_table_entry pt' vpn' ptm (snd r) =
       (if pt' = pt \<and> vpn' = vpn then e OR PGU_FLAG else mms_get_page_table_entry pt' vpn' ptm m)"
proof -
  have v: "pte_visible m (e OR PGU_FLAG) = e OR PGU_FLAG"
    using visible_flags(1) visible_get[OF ok] by (simp add: e)
  have idem: "e AND PGU_FLAG \<noteq> 0 \<Longrightarrow> e OR PGU_FLAG = e" using or_idem_flag[of e 27] by simp
  show "fst r = e OR PGU_FLAG" using idem by (simp add: r_def mms_set_page_used_def)
  show "paging_ok (snd r)" using ok(1) by (simp add: r_def mms_set_page_used_def update_paging_ok)
  show "table_ok (snd r) = table_ok m" by (simp add: r_def mms_set_page_used_def update_entry[OF ok])
  show "pte_visible (snd r) = pte_visible m"
    by (simp add: r_def mms_set_page_used_def update_entry[OF ok] pte_visible_def fun_eq_iff)
  show "mms_get_page_table_entry pt' vpn' ptm (snd r) =
       (if pt' = pt \<and> vpn' = vpn then e OR PGU_FLAG else mms_get_page_table_entry pt' vpn' ptm m)"
    using get_after_update[OF ok t, of "e OR PGU_FLAG"] v idem e
    by (auto simp: r_def mms_set_page_used_def)
qed

lemma written_entry:
  assumes ok: "paging_ok m" "table_ok m pt ptm" "vpn < 64"
    and e: "e = mms_get_page_table_entry pt vpn ptm m"
    and t: "table_ok m pt' ptm" "vpn' < 64"
  defines "r \<equiv> mms_set_page_written pt vpn ptm e m"
  shows "paging_ok (snd r)" "table_ok (snd r) = table_ok m"
    "mms_get_page_table_entry pt' vpn' ptm (snd r) =
       (if pt' = pt \<and> vpn' = vpn then e OR WIP_FLAG else mms_get_page_table_entry pt' vpn' ptm m)"
proof -
  have v: "pte_visible m (e OR WIP_FLAG) = e OR WIP_FLAG"
    using visible_flags(2) visible_get[OF ok] by (simp add: e)
  have idem: "e AND WIP_FLAG \<noteq> 0 \<Longrightarrow> e OR WIP_FLAG = e" using or_idem_flag[of e 28] by simp
  have g: "shadowRam (g_paging_tables m) \<noteq> []" "\<not> pt \<ge> 16"
    using shadow_address(3)[OF ok] ok(2)
    by (auto simp: table_ok_def word_less_nat_alt word_le_nat_alt split: if_splits)
  show "paging_ok (snd r)" using ok(1) by (simp add: r_def mms_set_page_written_def update_paging_ok)
  show "table_ok (snd r) = table_ok m" by (simp add: r_def mms_set_page_written_def update_entry[OF ok])
  show "mms_get_page_table_entry pt' vpn' ptm (snd r) =
       (if pt' = pt \<and> vpn' = vpn then e OR WIP_FLAG else mms_get_page_table_entry pt' vpn' ptm m)"
    using get_after_update[OF ok t, of "e OR WIP_FLAG"] v idem e g
    by (auto simp: r_def mms_set_page_written_def)
qed

lemma mark_page_entry:
  assumes ok: "paging_ok m" "table_ok m pt ptm" "vpn < 64"
    and e: "e = mms_get_page_table_entry pt vpn ptm m"
    and t: "table_ok m pt' ptm" "vpn' < 64"
  shows "paging_ok (mark_page pt vpn ptm e am m) \<and> table_ok (mark_page pt vpn ptm e am m) = table_ok m \<and>
    mms_get_page_table_entry pt' vpn' ptm (mark_page pt vpn ptm e am m) =
      (if pt' = pt \<and> vpn' = vpn then e OR flags_for am else mms_get_page_table_entry pt' vpn' ptm m)"
proof -
  obtain e1 m1 where r: "mms_set_page_used pt vpn ptm e m = (e1, m1)"
    by (cases "mms_set_page_used pt vpn ptm e m")
  note u = used_entry[OF ok e t, unfolded r, simplified] used_entry[OF ok e ok(2,3), unfolded r, simplified]
  have e1: "e1 = e OR PGU_FLAG" using u(1) by simp
  have e1': "e1 = mms_get_page_table_entry pt vpn ptm m1" using u(10) e1 by simp
  have t1: "table_ok m1 pt ptm" "table_ok m1 pt' ptm" using u(3) ok(2) t(1) by simp_all
  note w = written_entry[OF u(2) t1(1) ok(3) e1' t1(2) t(2)]
  show ?thesis
    using u w e1 by (auto simp: mark_page_def r flags_for_def or.assoc)
qed

lemma update_other [simp]:
  "g_reg (snd (mms_update_page_table_entry pt vpn ptm e m)) = g_reg m"
  "n_Array (snd (mms_update_page_table_entry pt vpn ptm e m)) = n_Array m"
  "s_memory_banks (snd (mms_update_page_table_entry pt vpn ptm e m)) = s_memory_banks m"
  "devices (snd (mms_update_page_table_entry pt vpn ptm e m)) = devices m"
  "g_ecc_latch (snd (mms_update_page_table_entry pt vpn ptm e m)) = g_ecc_latch m"
  "g_nd_memsize (snd (mms_update_page_table_entry pt vpn ptm e m)) = g_nd_memsize m"
  "g_mms_type (snd (mms_update_page_table_entry pt vpn ptm e m)) = g_mms_type m"
  "g_dma_access (snd (mms_update_page_table_entry pt vpn ptm e m)) = g_dma_access m"
  "tset_calls (snd (mms_update_page_table_entry pt vpn ptm e m)) = tset_calls m"
  "s_tset_lock_held (snd (mms_update_page_table_entry pt vpn ptm e m)) = s_tset_lock_held m"
  "isInitialized (g_paging_tables (snd (mms_update_page_table_entry pt vpn ptm e m))) =
     isInitialized (g_paging_tables m)"
  by (simp_all add: mms_update_page_table_entry_def Let_def)

lemma mark_page_other [simp]:
  "g_reg (mark_page pt vpn ptm e am m) = g_reg m"
  "n_Array (mark_page pt vpn ptm e am m) = n_Array m"
  "s_memory_banks (mark_page pt vpn ptm e am m) = s_memory_banks m"
  "devices (mark_page pt vpn ptm e am m) = devices m"
  "g_ecc_latch (mark_page pt vpn ptm e am m) = g_ecc_latch m"
  "g_nd_memsize (mark_page pt vpn ptm e am m) = g_nd_memsize m"
  "g_mms_type (mark_page pt vpn ptm e am m) = g_mms_type m"
  "g_dma_access (mark_page pt vpn ptm e am m) = g_dma_access m"
  "tset_calls (mark_page pt vpn ptm e am m) = tset_calls m"
  "s_tset_lock_held (mark_page pt vpn ptm e am m) = s_tset_lock_held m"
  "isInitialized (g_paging_tables (mark_page pt vpn ptm e am m)) = isInitialized (g_paging_tables m)"
  by (simp_all add: mark_page_def mms_set_page_used_def mms_set_page_written_def split_def Let_def)

section \<open>Rings\<close>

lemma ring_range: "unat (page_table_ring e) < 4" "unat (pcr_of m AND 0x03) < 4"
proof -
  have "unat (x AND 3) < 4" for x :: u16
    using and_mask_lt[of "3" 2 x] by (simp add: mask_eq_exp_minus_1)
  then show "unat (pcr_of m AND 0x03) < 4" by simp
  have "unat (x AND 3) < 4" for x :: u32
    using and_mask_lt[of "3" 2 x] by (simp add: mask_eq_exp_minus_1)
  moreover have "take_bit 16 n = n" if "n < 4" for n :: nat
    using that by (simp add: take_bit_nat_eq_self)
  ultimately show "unat (page_table_ring e) < 4"
    by (simp add: page_table_ring_def unsigned_ucast_eq)
qed

lemma new_pcr_ring:
  assumes "unat k < 4" shows "((p AND 0xFFFC) OR k) AND 0x03 = (k :: u16)"
    and "n \<ge> 2 \<Longrightarrow> bit ((p AND 0xFFFC) OR k) n \<longleftrightarrow> bit p n"
proof -
  have b: "bit k n \<Longrightarrow> n < 2" for n using bit_small[of k 2] assms by simp
  show "((p AND 0xFFFC) OR k) AND 0x03 = k"
    by (intro word16_bits) (auto simp: bit_simps dest: b)
  assume "n \<ge> 2"
  then show "bit ((p AND 0xFFFC) OR k) n \<longleftrightarrow> bit p n"
    using b[of n] bit_imp_le_length[of p n] by (auto simp: bit_or_iff bit_and_iff)
qed

lemma degrade_ring:
  assumes "degrade am (pcr_of m AND 0x03) e (g_reg m) = (ring, r)"
  shows "pcr_of (m\<lparr>g_reg := r\<rparr>) AND 0x03 = ring"
    and "n \<ge> 2 \<Longrightarrow> bit (pcr_of (m\<lparr>g_reg := r\<rparr>)) n = bit (pcr_of m) n"
    and "\<not> ring < page_table_ring e \<Longrightarrow> page_table_ring e \<le> pcr_of m AND 0x03"
    and "\<not> ring < page_table_ring e \<Longrightarrow>
          ring = (if has_FETCH am \<and> pcr_of m AND 0x03 = 3 then page_table_ring e else pcr_of m AND 0x03)"
proof -
  have g: "gPIL r = gPIL (g_reg m)" using degrade_sel(2)[OF assms] by (simp add: gPIL_def)
  show "pcr_of (m\<lparr>g_reg := r\<rparr>) AND 0x03 = ring"
    using assms g new_pcr_ring(1)[OF ring_range(1)]
    by (auto simp: degrade_def pcr_of_def split: if_splits)
  show "n \<ge> 2 \<Longrightarrow> bit (pcr_of (m\<lparr>g_reg := r\<rparr>)) n = bit (pcr_of m) n"
    using assms g new_pcr_ring(2)[OF ring_range(1)]
    by (auto simp: degrade_def pcr_of_def split: if_splits)
  have three: "page_table_ring e \<le> 3" using ring_range(1)[of e] by (simp add: word_le_nat_alt)
  then show "\<not> ring < page_table_ring e \<Longrightarrow> page_table_ring e \<le> pcr_of m AND 0x03"
    using assms by (auto simp: degrade_def split: if_splits)
  show "\<not> ring < page_table_ring e \<Longrightarrow>
          ring = (if has_FETCH am \<and> pcr_of m AND 0x03 = 3 then page_table_ring e else pcr_of m AND 0x03)"
    using assms three by (auto simp: degrade_def split: if_splits)
qed

lemma permits_present: "permits am e \<Longrightarrow> present e"
  by (auto simp: permits_def present_def)

lemma present_ne_0: "present e \<Longrightarrow> e \<noteq> 0"
  by (auto simp: present_def)

lemma map_success:
  assumes tr: "translated m va" and run: "mms_map_virtual_to_physical va am apt m = Done pa m'" and "pa \<noteq> -1"
  obtains ring r where "degrade am (pcr_of m AND 0x03) (va_entry m va apt) (g_reg m) = (ring, r)"
    "permits am (va_entry m va apt)" "\<not> ring < page_table_ring (va_entry m va apt)"
    "mms_memory_bank_lookup (va_target m va apt) (s_memory_banks m) \<noteq> None"
    "pa = uint (va_target m va apt)"
    "m' = mark_page (va_table m apt) (va_page va) (va_mode m apt) (va_entry m va apt) am (m\<lparr>g_reg := r\<rparr>)"
proof -
  obtain ring r where d: "degrade am (pcr_of m AND 0x03) (va_entry m va apt) (g_reg m) = (ring, r)"
    by (cases "degrade am (pcr_of m AND 0x03) (va_entry m va apt) (g_reg m)")
  show thesis
    using that[OF d] assms
    by (auto simp: map_translated Let_def d mms_handle_memory_out_of_range_eq split: if_splits)
qed

section \<open>Properties of translation\<close>



section \<open>A translation repeated\<close>

lemma get_entry_cong:
  "g_paging_tables m' = g_paging_tables m \<Longrightarrow> sexi m' = sexi m \<Longrightarrow>
   mms_get_page_table_entry pt vpn ptm m' = mms_get_page_table_entry pt vpn ptm m"
  by (simp add: mms_get_page_table_entry_def mms_get_pt_shadow_address_def Let_def)

lemma with_regs:
  assumes "reg_STS r = reg_STS (g_reg m)"
  shows "sexi (m\<lparr>g_reg := r\<rparr>) = sexi m" "paging_ok (m\<lparr>g_reg := r\<rparr>) = paging_ok m"
    "table_ok (m\<lparr>g_reg := r\<rparr>) = table_ok m"
  using assms by (auto simp: sexi_def extended_bit paging_ok_def table_ok_def fun_eq_iff split: MMSType.split)

lemma select_page_table_cong:
  assumes "\<And>n. n \<ge> 2 \<Longrightarrow> bit p n = bit q n"
  shows "select_page_table alt p mms = select_page_table alt q mms"
proof -
  have "drop_bit k p = drop_bit k q" if "k \<ge> 2" for k
    using that assms by (intro bit_word_eqI) (simp add: bit_drop_bit_eq)
  moreover have "bit p 2 = bit q 2" using assms by simp
  ultimately show ?thesis by (simp add: select_page_table_def)
qed

lemma flags_bit: "bit (flags_for am) n \<longleftrightarrow> n = 27 \<or> n = 28 \<and> am = WRITE"
proof -
  have "\<forall>n<32. bit (flags_for am) n \<longleftrightarrow> n = 27 \<or> n = 28 \<and> am = WRITE"
    by (cases am) (simp_all add: all_less_32 all_less_16 flags_for_def)
  then show ?thesis using bit_imp_le_length[of "flags_for am" n] by auto
qed

lemma flags_keep:
  "permits am' (e OR flags_for am) = permits am' e" "present (e OR flags_for am) = present e"
  "page_table_ring (e OR flags_for am) = page_table_ring e"
  "physical_of m (e OR flags_for am) d = physical_of m e d"
proof -
  show "permits am' (e OR flags_for am) = permits am' e" "present (e OR flags_for am) = present e"
    by (simp_all add: permits_def present_def bit_or_iff flags_bit)
  show "page_table_ring (e OR flags_for am) = page_table_ring e"
    unfolding page_table_ring_def
    by (intro arg_cong[of _ _ ucast] word32_bits) (simp add: bit_simps flags_bit)
  have "(e OR flags_for am) AND 0x3FFF = e AND 0x3FFF" "(e OR flags_for am) AND 0x1FF = e AND 0x1FF"
    by (rule word32_bits, simp add: bit_simps flags_bit)+
  then show "physical_of m (e OR flags_for am) d = physical_of m e d"
    by (simp add: physical_of_def physical_page_def)
qed

lemma mark_page_idem:
  assumes "e = e OR flags_for am"
  shows "mark_page pt vpn ptm e am m = m"
proof -
  have "bit e 27" "am = WRITE \<Longrightarrow> bit e 28"
    using arg_cong[OF assms, of "\<lambda>w. bit w 27"] arg_cong[OF assms, of "\<lambda>w. bit w 28"]
    by (simp_all add: bit_or_iff flags_bit)
  then have "e AND PGU_FLAG \<noteq> 0" "am = WRITE \<Longrightarrow> e AND WIP_FLAG \<noteq> 0"
    by (auto simp: and_eq_0_32 all_less_32 all_less_16)
  then show ?thesis
    by (auto simp: mark_page_def mms_set_page_used_def mms_set_page_written_def)
qed

lemma map_success_entry:
  assumes ok: "paging_ok m" and tr: "translated m va"
    and run: "mms_map_virtual_to_physical va am apt m = Done pa m'" and "pa \<noteq> -1"
  shows "paging_ok m' \<and> table_ok m' = table_ok m \<and>
    (table_ok m pt' (va_mode m apt) \<longrightarrow> vpn' < 64 \<longrightarrow>
     mms_get_page_table_entry pt' vpn' (va_mode m apt) m' =
       (if pt' = va_table m apt \<and> vpn' = va_page va then va_entry m va apt OR flags_for am
        else mms_get_page_table_entry pt' vpn' (va_mode m apt) m))"
  using tr run \<open>pa \<noteq> -1\<close>
proof (rule map_success)
  fix ring r
  assume d: "degrade am (pcr_of m AND 0x03) (va_entry m va apt) (g_reg m) = (ring, r)"
    and p: "permits am (va_entry m va apt)"
    and m': "m' = mark_page (va_table m apt) (va_page va) (va_mode m apt) (va_entry m va apt) am (m\<lparr>g_reg := r\<rparr>)"
  let ?m1 = "m\<lparr>g_reg := r\<rparr>"
  note sts = with_regs[OF degrade_sel(2)[OF d]]
  have ok1: "paging_ok ?m1" using ok sts(2) by simp
  have t1: "table_ok ?m1 (va_table m apt) (va_mode m apt)"
    using present_table_ok[OF ok present_ne_0[OF permits_present[OF p]]] sts(3) by simp
  have cong: "mms_get_page_table_entry pt vpn ptm ?m1 = mms_get_page_table_entry pt vpn ptm m" for pt vpn ptm
    using sts(1) by (intro get_entry_cong) simp_all
  have e: "va_entry m va apt = mms_get_page_table_entry (va_table m apt) (va_page va) (va_mode m apt) ?m1"
    by (simp add: cong va_entry_def)
  show ?thesis
    using mark_page_entry[OF ok1 t1 va_page_lt e, of pt' vpn' am]
      mark_page_entry[OF ok1 t1 va_page_lt e t1 va_page_lt, of am] sts(3) cong
    by (auto simp: m')
qed

text \<open>
  A successful translation marks its page and nothing else: the entry used gets the
  page-used flag, and the written-in-page flag when the access is a write; every other entry
  of the mode is as before, and the tables stay well-formed.
\<close>

theorem translation_marks_page:
  assumes "paging_ok m" and "translated m va"
    and "mms_map_virtual_to_physical va am apt m = Done pa m'" and "pa \<noteq> -1"
    and "table_ok m pt' (va_mode m apt)" and "vpn' < 64"
  shows "paging_ok m' \<and>
    mms_get_page_table_entry pt' vpn' (va_mode m apt) m' =
      (if pt' = va_table m apt \<and> vpn' = va_page va
       then va_entry m va apt OR push_bit 27 1 OR (if am = WRITE then push_bit 28 1 else 0)
       else mms_get_page_table_entry pt' vpn' (va_mode m apt) m)"
  using map_success_entry[OF assms(1-4)] assms(5,6) by (simp add: flags_for_def)

lemma map_eq_success:
  assumes "translated m va" and "permits am (va_entry m va apt)"
    and "degrade am (pcr_of m AND 0x03) (va_entry m va apt) (g_reg m) = (ring, r)"
    and "\<not> ring < page_table_ring (va_entry m va apt)"
    and "mms_memory_bank_lookup (va_target m va apt) (s_memory_banks m) \<noteq> None"
  shows "mms_map_virtual_to_physical va am apt m =
    Done (uint (va_target m va apt))
      (mark_page (va_table m apt) (va_page va) (va_mode m apt) (va_entry m va apt) am (m\<lparr>g_reg := r\<rparr>))"
  using assms permits_present[OF assms(2)] by (auto simp: map_translated Let_def)

lemma gPIL_reg_cong: "reg_STS r' = reg_STS r \<Longrightarrow> gPIL r' = gPIL r"
  by (simp add: gPIL_def)

lemma translated_again:
  assumes tr: "translated m va" and r: "reg_STS (g_reg m') = reg_STS (g_reg m)"
    and pcr: "\<And>n. n \<ge> 2 \<Longrightarrow> bit (pcr_of m') n = bit (pcr_of m) n"
    and ring: "pcr_of m' AND 0x03 = 3 \<longrightarrow> pcr_of m AND 0x03 = 3"
    and oth: "isInitialized (g_paging_tables m') = isInitialized (g_paging_tables m)"
      "g_dma_access m' = g_dma_access m" "g_mms_type m' = g_mms_type m"
  shows "translated m' va"
proof -
  have "mms_is_address_shadow_memory a False m' = mms_is_address_shadow_memory a False m"
    if "pcr_of m' AND 0x03 = 3" for a
    using that ring r pcr[of 2] oth
    by (simp add: mms_is_address_shadow_memory_def Let_def pcr_of_def STS_PAGING_ON_IS_SET_def
        STS_EXTENDED_ADDRESSING_IS_SET_def)
  then show ?thesis
    using tr ring oth(1) r by (auto simp: translated_def STS_PAGING_ON_IS_SET_def)
qed

text \<open>
  Translation is stable: after an access has been translated, translating it again gives the
  same physical address and changes nothing any more, although the first time may have
  marked the page and lowered the level's ring.
\<close>

theorem translation_stable:
  assumes ok: "paging_ok m" and tr: "translated m va"
    and run: "mms_map_virtual_to_physical va am apt m = Done pa m'" and ne: "pa \<noteq> -1"
  shows "mms_map_virtual_to_physical va am apt m' = Done pa m'"
  using tr run ne
proof (rule map_success)
  fix ring r
  let ?e = "va_entry m va apt"
  let ?m1 = "m\<lparr>g_reg := r\<rparr>"
  assume d: "degrade am (pcr_of m AND 0x03) ?e (g_reg m) = (ring, r)"
    and p: "permits am ?e" and rg: "\<not> ring < page_table_ring ?e"
    and bk: "mms_memory_bank_lookup (va_target m va apt) (s_memory_banks m) \<noteq> None"
    and pa: "pa = uint (va_target m va apt)"
    and m': "m' = mark_page (va_table m apt) (va_page va) (va_mode m apt) ?e am ?m1"
  have g: "g_reg m' = r" by (simp add: m')
  have pcr': "pcr_of m' = pcr_of ?m1" by (simp add: m' pcr_of_def)
  note dr = degrade_ring[OF d]
  have pil: "gPIL r = gPIL (g_reg m)" using degrade_sel(2)[OF d] by (rule gPIL_reg_cong)
  have sp: "select_page_table alt (pcr_of m') (g_mms_type m) = select_page_table alt (pcr_of m) (g_mms_type m)" for alt
    using dr(2) pcr' by (intro select_page_table_cong) simp
  have ptm: "STS_PAGE_TABLE_MODE_IS_SET r = STS_PAGE_TABLE_MODE_IS_SET (g_reg m)"
    using degrade_sel(1)[OF d] pil by (simp add: STS_PAGE_TABLE_MODE_IS_SET_def)
  have tb: "va_table m' apt = va_table m apt" "va_mode m' apt = va_mode m apt"
    using sp by (simp_all add: va_table_def va_mode_def g ptm m')
  have t: "table_ok m (va_table m apt) (va_mode m apt)"
    using present_table_ok[OF ok present_ne_0[OF permits_present[OF p]]] .
  have e': "va_entry m' va apt = ?e OR flags_for am"
    using map_success_entry[OF ok tr run ne, of "va_table m apt" "va_page va"] t va_page_lt
    by (simp add: va_entry_def tb)
  have tgt: "va_target m' va apt = va_target m va apt"
  proof -
    have "physical_of m' x y = physical_of m x y" for x y
      using degrade_sel(2)[OF d] by (intro physical_of_cong) (simp add: g)
    then show ?thesis by (simp add: va_target_def e' flags_keep(4))
  qed
  have tr': "translated m' va"
    using tr degrade_sel(2)[OF d] dr(1,2,4) rg pcr'
    by (intro translated_again[OF tr]) (auto simp: g m' split: if_splits)
  have d': "degrade am (pcr_of m' AND 0x03) (va_entry m' va apt) (g_reg m') = (ring, r)"
    using dr(1,4) rg pcr' by (auto simp: degrade_def e' flags_keep(3) g)
  have "mms_map_virtual_to_physical va am apt m' =
      Done (uint (va_target m' va apt))
        (mark_page (va_table m' apt) (va_page va) (va_mode m' apt) (va_entry m' va apt) am (m'\<lparr>g_reg := r\<rparr>))"
    using p rg bk by (intro map_eq_success[OF tr' _ d']) (simp_all add: e' flags_keep tgt, simp_all add: m')
  also have "\<dots> = Done pa m'"
    using g by (simp add: tgt pa mark_page_idem e' or.assoc)
  finally show ?thesis .
qed

text \<open>
  The fault address of a mapped out-of-range access is torn: with the fault registers
  unlocked, PEA receives the low half of the physical address, but recording the page status
  first takes the PES lock (\<open>gPGS_Lock\<close> is the PES lock), so the high half in PES keeps its
  old value whenever the page status is not zero.
\<close>

theorem out_of_range_PES_stale:
  assumes "translated m va" and "permits am (va_entry m va apt)"
    and "page_table_ring (va_entry m va apt) \<le> pcr_of m AND 0x03"
    and "mms_memory_bank_lookup (va_target m va apt) (s_memory_banks m) = None"
    and "\<not> mylock_PEA (g_reg m)" and "\<not> mylock_PES (g_reg m)"
    and "am = WRITE \<or> am = READ" and "ucast (push_bit 6 (va_table m apt) OR va_page va) \<noteq> (0 :: u16)"
  shows "let m' = final_state (mms_map_virtual_to_physical va am apt m) in
     reg_PEA (g_reg m') = ucast (va_target m va apt) \<and> reg_PES (g_reg m') = reg_PES (g_reg m)"
proof -
  obtain ring r where d: "degrade am (pcr_of m AND 0x03) (va_entry m va apt) (g_reg m) = (ring, r)"
    by (cases "degrade am (pcr_of m AND 0x03) (va_entry m va apt) (g_reg m)")
  have rr: "\<not> ring < page_table_ring (va_entry m va apt)"
    using d assms(3) by (auto simp: degrade_def split: if_splits)
  let ?s = "mms_update_pgs (va_table m apt) (va_page va) am False r"
  have lock: "mylock_PES ?s"
    using assms(6,7,8) degrade_sel(3)[OF d]
    by (auto simp: mms_update_pgs_def cpu_set_pgs_def gPGS_Lock_def set_gPGS_Lock_def Let_def)
  have low: "ucast (x AND 0xFFFF) = (ucast x :: u16)" for x :: u32
    by (rule word16_bits) (simp add: bit_simps)
  show ?thesis
    using assms(2,4,5) rr permits_present[OF assms(2)] lock degrade_sel[OF d]
    by (simp add: map_translated[OF assms(1)] Let_def d mms_handle_memory_out_of_range_eq low
        cpu_set_pea_def cpu_set_pes_def)
qed

section \<open>Error correction\<close>

lemma latch_other [simp]:
  "g_reg (nd_ecc_write_latch pa m) = g_reg m" "s_memory_banks (nd_ecc_write_latch pa m) = s_memory_banks m"
  "g_nd_memsize (nd_ecc_write_latch pa m) = g_nd_memsize m" "n_Array (nd_ecc_write_latch pa m) = n_Array m"
  "g_paging_tables (nd_ecc_write_latch pa m) = g_paging_tables m" "devices (nd_ecc_write_latch pa m) = devices m"
  "g_mms_type (nd_ecc_write_latch pa m) = g_mms_type m" "g_dma_access (nd_ecc_write_latch pa m) = g_dma_access m"
  "tset_calls (nd_ecc_write_latch pa m) = tset_calls m" "s_tset_lock_held (nd_ecc_write_latch pa m) = s_tset_lock_held m"
  by (simp_all add: nd_ecc_write_latch_def Let_def)

lemma latch_after_write:
  assumes "0 \<le> pa" "word_of_int pa < g_nd_memsize m"
    and "mms_get_physical_memory_type (word_of_int pa) (s_memory_banks m) = ND_MEM_LOCAL"
  shows "g_ecc_latch (nd_ecc_write_latch pa m) (nat pa) = ecc_sim_bits (reg_ECCR (g_reg m))"
  using assms by (auto simp: nd_ecc_write_latch_def Let_def)

lemma bit_ecc_sim: "bit (ecc_sim_bits c) n \<longleftrightarrow> n \<in> {0, 1, 4} \<and> bit c n"
proof (cases "n < 8")
  case True
  then have "n \<in> {0, 1, 2, 3, 4, 5, 6, 7}" by auto
  then show ?thesis by (auto simp: ecc_sim_bits_def)
next
  case False
  then show ?thesis using bit_imp_le_length[of "ecc_sim_bits c" n] by auto
qed

lemma interrupt_parity [simp]:
  "cpu_interrupt 14 256 m = Done () (g_reg_update (interrupt_regs 14 256) m)"
  by (simp add: cpu_interrupt_def Let_def)

lemma consume_latch_other [simp]:
  "g_reg (consume_latch l pa m) = g_reg m" "n_Array (consume_latch l pa m) = n_Array m"
  by (simp_all add: consume_latch_def)

text \<open>The simulated errors a word carries when it is read under \<open>eccr\<close>: latched or live.\<close>

definition errors_seen :: "u16 \<Rightarrow> u16 \<Rightarrow> nat" where
  "errors_seen written eccr = length (filter (\<lambda>n. bit written n \<or> bit eccr n) [0, 1, 4])"

lemma errors_seen_count:
  "errors_seen written eccr = ecc_count (ucast (ucast (eccr AND 0x13) OR ecc_sim_bits written :: u8))"
  by (simp add: errors_seen_def ecc_count_def bit_simps bit_ecc_sim)

lemma sim_live_0: "ucast (c AND 0x13 :: u16) = (0 :: u8) \<Longrightarrow> \<not> bit c 0 \<and> \<not> bit c 1 \<and> \<not> bit c 4"
proof -
  assume "ucast (c AND 0x13 :: u16) = (0 :: u8)"
  then have "\<forall>n. \<not> bit (ucast (c AND 0x13 :: u16) :: u8) n" by simp
  from this[rule_format, of 0] this[rule_format, of 1] this[rule_format, of 4]
  show ?thesis by (simp add: bit_simps)
qed

text \<open>
  The error-correction probe: write a word with simulate bits armed, change ECCR, read it
  back. A parity interrupt is raised exactly when the word is local memory, detection is not
  disabled, and the latched and live simulated errors are two or more, or one with
  interrupts enabled for all errors. The read never leaves the instruction, and detection
  alters no memory word.
\<close>

theorem ecc_probe:
  fixes m :: "'d machine" and eccr2 :: u16
  assumes "0 \<le> pa" and "word_of_int pa < g_nd_memsize m" and "\<not> bit (reg_IID (g_reg m)) 8"
  defines "m2 \<equiv> g_reg_update (reg_ECCR_update (\<lambda>_. eccr2)) (nd_ecc_write_latch pa m)"
  defines "k \<equiv> errors_seen (reg_ECCR (g_reg m)) eccr2"
  shows "(bit (reg_IID (g_reg (final_state (nd_ecc_read_detect pa m2)))) 8 \<longleftrightarrow>
      mms_get_physical_memory_type (word_of_int pa) (s_memory_banks m) = ND_MEM_LOCAL \<and>
      \<not> bit eccr2 3 \<and> (k \<ge> 2 \<or> k = 1 \<and> bit eccr2 2))
    \<and> \<not> trapped (nd_ecc_read_detect pa m2)
    \<and> n_Array (final_state (nd_ecc_read_detect pa m2)) = n_Array m"
proof (cases "mms_get_physical_memory_type (word_of_int pa) (s_memory_banks m) = ND_MEM_LOCAL")
  case False
  then show ?thesis
    using assms(1-3) by (simp add: nd_ecc_read_detect_def Let_def m2_def)
next
  case True
  have l: "g_ecc_latch m2 (nat pa) = ecc_sim_bits (reg_ECCR (g_reg m))"
    using latch_after_write[OF assms(1,2) True] by (simp add: m2_def)
  have k: "ecc_count (ucast (ucast (eccr2 AND 0x13) OR ecc_sim_bits (reg_ECCR (g_reg m)) :: u8)) = k"
    by (simp add: k_def errors_seen_count)
  have z: "k = 0" if "ucast (eccr2 AND 0x13) = (0 :: u8)" "ecc_sim_bits (reg_ECCR (g_reg m)) = 0"
    using that k by (simp add: ecc_count_def)
  have iid: "reg_IID (g_reg m2) = reg_IID (g_reg m)" "reg_ECCR (g_reg m2) = eccr2"
    "g_nd_memsize m2 = g_nd_memsize m" "s_memory_banks m2 = s_memory_banks m" "n_Array m2 = n_Array m"
    by (simp_all add: m2_def)
  show ?thesis
    using assms(1-3) True z
    by (auto simp: nd_ecc_read_detect_def Let_def l k iid interrupt_regs_IID bit_or_iff)
qed

section \<open>The debugger's view\<close>

text \<open>
  The debugger's side-effect-free translation agrees with the CPU's: whenever the CPU's
  translation succeeds with a target in installed memory, the debugger's, asked for the same
  space on the current level, gives the same physical address.
\<close>

theorem debugger_translation_agrees:
  assumes "translated m va" and "mms_map_virtual_to_physical va am apt m = Done pa m'" and "pa \<noteq> -1"
    and "va_target m va apt < g_nd_memsize m"
  shows "dbg_map_virtual_to_physical va (STS_PAGE_TABLE_MODE_IS_SET (g_reg m) \<and> apt) (-1) m
           = Some (word_of_int pa)"
  using assms(1-3)
proof (rule map_success)
  fix ring r
  assume p: "permits am (va_entry m va apt)" and pa: "pa = uint (va_target m va apt)"
  have sp: "select_page_table (STS_PAGE_TABLE_MODE_IS_SET (g_reg m) \<and> apt) (pcr_of m) (g_mms_type m)
      = (va_table m apt, va_mode m apt)"
    by (simp add: va_table_def va_mode_def)
  have t: "isInitialized (g_paging_tables m)" "STS_PAGING_ON_IS_SET (g_reg m)"
    "\<not> (pcr_of m AND 0x03 = 3 \<and> mms_is_address_shadow_memory (va AND 0xFFFF) False m)"
    using assms(1) by (simp_all add: translated_def)
  have lv: "(if (-1::int) \<ge> 0 \<and> (-1::int) \<le> 15 then nat (-1) else gPIL (g_reg m)) = gPIL (g_reg m)" by simp
  show ?thesis
    unfolding dbg_map_virtual_to_physical_def Let_def lv
    unfolding pcr_of_def[symmetric] va_page_def[symmetric] va_dip_def[symmetric] sp prod.case
    unfolding va_entry_def[symmetric] if_not_P[OF t(3)] va_target_def[symmetric] present_mask
    using t(1,2) permits_present[OF p] assms(4) pa by auto
qed

section \<open>Witnesses\<close>

text \<open>
  The demonstration machine with paging on, extended 16-table mode, ring 3 at level 0, and
  one page mapped: table 1, page 2, with entry \<open>e\<close>.
\<close>

definition mapped_machine :: "u32 \<Rightarrow> unit machine" where
  "mapped_machine e = snd (mms_update_page_table_entry 1 2 Sixteen e
     (g_reg_update (\<lambda>r. r\<lparr>reg_PCR := (\<lambda>_. 0x0807)\<rparr>) (demo_machine MMS2)))"

lemma mapped_paging_ok: "paging_ok (mapped_machine e)"
proof -
  have "paging_ok (g_reg_update f m) = paging_ok m" for f and m :: "unit machine"
    by (cases "g_mms_type m") (simp_all add: paging_ok_def)
  then show ?thesis by (simp add: mapped_machine_def update_paging_ok demo_ok)
qed

text \<open>A ring-3 fetch from a ring-1 page, page 5 of physical memory, and a write to an absent page.\<close>

lemma fetch_run:
  "translated (mapped_machine 0xE2000005) 0x0834"
  "returned (mms_map_virtual_to_physical 0x0834 FETCH True (mapped_machine 0xE2000005)) = Some 0x1434"
  "table_ok (mapped_machine 0xE2000005) 1 (va_mode (mapped_machine 0xE2000005) True)"
  by code_simp+

lemmas fetch_done = returned_Done[OF fetch_run(2)]

lemma absent_run:
  "translated (mapped_machine 0x00000005) 0x0834"
  "returned (mms_map_virtual_to_physical 0x0834 WRITE True (mapped_machine 0x00000005)) = None"
  by code_simp+

lemma beyond_run:
  "translated (mapped_machine 0xE2000105) 0x0834" "permits WRITE (va_entry (mapped_machine 0xE2000105) 0x0834 True)"
  "page_table_ring (va_entry (mapped_machine 0xE2000105) 0x0834 True) \<le> pcr_of (mapped_machine 0xE2000105) AND 0x03"
  "mms_memory_bank_lookup (va_target (mapped_machine 0xE2000105) 0x0834 True)
     (s_memory_banks (mapped_machine 0xE2000105)) = None"
  "\<not> mylock_PEA (g_reg (mapped_machine 0xE2000105))" "\<not> mylock_PES (g_reg (mapped_machine 0xE2000105))"
  "ucast (push_bit 6 (va_table (mapped_machine 0xE2000105) True) OR va_page 0x0834) \<noteq> (0 :: u16)"
  "reg_PES (g_reg (mapped_machine 0xE2000105)) = 0"
  "va_target (mapped_machine 0xE2000105) 0x0834 True = 0x41434"
  by code_simp+



theorem translation_marks_page_witness:
  "mms_get_page_table_entry 1 2 Sixteen
     (final_state (mms_map_virtual_to_physical 0x0834 FETCH True (mapped_machine 0xE2000005))) = 0xEA000005"
proof -
  have "va_mode (mapped_machine 0xE2000005) True = Sixteen" "va_table (mapped_machine 0xE2000005) True = 1"
    "va_page 0x0834 = 2" "va_entry (mapped_machine 0xE2000005) 0x0834 True = 0xE2000005" by code_simp+
  then show ?thesis
    using translation_marks_page[OF mapped_paging_ok fetch_run(1) fetch_done _ fetch_run(3), of 2] by simp
qed

theorem translation_stable_witness:
  "returned (mms_map_virtual_to_physical 0x0834 FETCH True
     (final_state (mms_map_virtual_to_physical 0x0834 FETCH True (mapped_machine 0xE2000005)))) = Some 0x1434"
  using translation_stable[OF mapped_paging_ok fetch_run(1) fetch_done] by simp

theorem out_of_range_PES_stale_witness:
  "let r = g_reg (final_state (mms_map_virtual_to_physical 0x0834 WRITE True (mapped_machine 0xE2000105)))
   in reg_PEA r = 0x1434 \<and> reg_PES r = 0"
proof -
  have "ucast (0x41434 :: u32) = (0x1434 :: u16)" by simp
  then show ?thesis
    using out_of_range_PES_stale[OF beyond_run(1-6) _ beyond_run(7)] beyond_run(8,9) by (simp add: Let_def)
qed

theorem ecc_probe_witness:
  "bit (reg_IID (g_reg (final_state (nd_ecc_read_detect 5
     (g_reg_update (reg_ECCR_update (\<lambda>_. 0))
       (nd_ecc_write_latch 5 (g_reg_update (\<lambda>r. r\<lparr>reg_ECCR := 3\<rparr>) (demo_machine MMS1)))))))) 8"
proof -
  let ?m = "g_reg_update (\<lambda>r. r\<lparr>reg_ECCR := 3\<rparr>) (demo_machine MMS1)"
  have "word_of_int 5 < g_nd_memsize ?m" "\<not> bit (reg_IID (g_reg ?m)) 8"
    "mms_get_physical_memory_type (word_of_int 5) (s_memory_banks ?m) = ND_MEM_LOCAL"
    "errors_seen (reg_ECCR (g_reg ?m)) 0 = 2" by code_simp+
  then show ?thesis using ecc_probe[of 5 ?m 0] by simp
qed

theorem debugger_translation_agrees_witness:
  "dbg_map_virtual_to_physical 0x0834 False (-1) (mapped_machine 0xE2000005) = Some 0x1434"
proof -
  have "va_target (mapped_machine 0xE2000005) 0x0834 True < g_nd_memsize (mapped_machine 0xE2000005)"
    "\<not> STS_PAGE_TABLE_MODE_IS_SET (g_reg (mapped_machine 0xE2000005))" by code_simp+
  then show ?thesis using debugger_translation_agrees[OF fetch_run(1) fetch_done] by simp
qed

end
