(* ===== verification/WordMemory.thy ===== *)
theory WordMemory
  imports Mms
begin

text \<open>
  The contract between the instructions and the memory system: a store of words that can be
  read and written without faulting at the addresses where it is \<open>ok\<close>. Sequences of stores
  and loads are followed once, inside the contract; the memory system provides it for the
  plain words of a machine with paging off (\<open>cpu_memory_read\<close>, \<open>cpu_memory_write\<close> down to
  the physical array), so every instruction that saves and restores a block of words can rest
  on the same facts.
\<close>

section \<open>Sequences of accesses\<close>

primrec store_seq :: "('a \<Rightarrow> 'v \<Rightarrow> 's \<Rightarrow> (unit, 's) outcome) \<Rightarrow> ('a \<times> 'v) list \<Rightarrow> 's \<Rightarrow> (unit, 's) outcome" where
  "store_seq wr [] = ret ()"
| "store_seq wr (p # ps) = bind_out (wr (fst p) (snd p)) (\<lambda>_. store_seq wr ps)"

primrec load_seq :: "('a \<Rightarrow> 's \<Rightarrow> ('v, 's) outcome) \<Rightarrow> 'a list \<Rightarrow> 's \<Rightarrow> ('v list, 's) outcome" where
  "load_seq rd [] = ret []"
| "load_seq rd (a # as) = bind_out (rd a) (\<lambda>v. bind_out (load_seq rd as) (\<lambda>vs. ret (v # vs)))"

section \<open>The contract\<close>

locale word_memory =
  fixes rd :: "'a \<Rightarrow> 's \<Rightarrow> ('v, 's) outcome"
    and wr :: "'a \<Rightarrow> 'v \<Rightarrow> 's \<Rightarrow> (unit, 's) outcome"
    and content :: "'s \<Rightarrow> 'a \<Rightarrow> 'v"
    and ok :: "'s \<Rightarrow> 'a \<Rightarrow> bool"
    and frame :: "'s \<Rightarrow> 'f"
  assumes rd_ok: "ok s a \<Longrightarrow> rd a s = Done (content s a) s"
    and wr_ok: "ok s a \<Longrightarrow> \<exists>s'. wr a v s = Done () s' \<and> content s' = (content s)(a := v)
                  \<and> ok s' = ok s \<and> frame s' = frame s"
begin

lemma wr_then:
  assumes "ok s a"
  obtains s' where "wr a v s = Done () s'" "content s' = (content s)(a := v)" "ok s' = ok s" "frame s' = frame s"
  using wr_ok[OF assms, of v] by blast

lemma read_after_write:
  assumes "ok s a" "ok s b"
  shows "bind_out (wr a v) (\<lambda>_. rd b) s = Done (if b = a then v else content s b) (final_state (wr a v s))"
proof -
  obtain s' where s': "wr a v s = Done () s'" "content s' = (content s)(a := v)" "ok s' = ok s"
    using wr_then[OF assms(1)] by metis
  then show ?thesis using assms rd_ok[of s' b] by simp
qed

lemma store_seq_ok:
  assumes "\<forall>p\<in>set ps. ok s (fst p)" and "distinct (map fst ps)"
  shows "\<exists>s'. store_seq wr ps s = Done () s' \<and> ok s' = ok s \<and> frame s' = frame s
           \<and> content s' = (\<lambda>a. case map_of ps a of Some v \<Rightarrow> v | None \<Rightarrow> content s a)"
  using assms
proof (induction ps arbitrary: s)
  case Nil
  then show ?case by simp
next
  case (Cons p ps)
  obtain s1 where s1: "wr (fst p) (snd p) s = Done () s1" "content s1 = (content s)(fst p := snd p)"
    "ok s1 = ok s" "frame s1 = frame s"
    using wr_then[of s "fst p" "snd p"] Cons.prems(1) by auto
  obtain s' where s': "store_seq wr ps s1 = Done () s'" "ok s' = ok s1" "frame s' = frame s1"
    "content s' = (\<lambda>a. case map_of ps a of Some v \<Rightarrow> v | None \<Rightarrow> content s1 a)"
    using Cons.IH[of s1] Cons.prems s1(3) by auto
  have "map_of ps (fst p) = None" using Cons.prems(2) by (simp add: map_of_eq_None_iff)
  then have "content s' = (\<lambda>a. case map_of (p # ps) a of Some v \<Rightarrow> v | None \<Rightarrow> content s a)"
    by (cases p) (auto simp: s'(4) s1(2) fun_eq_iff split: option.split)
  then show ?case using s1 s' by simp
qed

lemma load_seq_ok:
  "\<forall>a\<in>set as. ok s a \<Longrightarrow> load_seq rd as s = Done (map (content s) as) s"
proof (induction as)
  case (Cons a as)
  then show ?case using rd_ok[of s a] by simp
qed simp

text \<open>What was stored as a block is loaded back as that block.\<close>

lemma load_after_store:
  assumes "\<forall>p\<in>set ps. ok s (fst p)" and "distinct (map fst ps)"
  obtains s' where "store_seq wr ps s = Done () s'" "frame s' = frame s" "ok s' = ok s"
    "content s' = (\<lambda>a. case map_of ps a of Some v \<Rightarrow> v | None \<Rightarrow> content s a)"
    "load_seq rd (map fst ps) s' = Done (map snd ps) s'"
proof -
  obtain s' where s': "store_seq wr ps s = Done () s'" "ok s' = ok s" "frame s' = frame s"
    "content s' = (\<lambda>a. case map_of ps a of Some v \<Rightarrow> v | None \<Rightarrow> content s a)"
    using store_seq_ok[OF assms] by blast
  have "load_seq rd (map fst ps) s' = Done (map (content s') (map fst ps)) s'"
    using assms(1) s'(2) by (intro load_seq_ok) auto
  moreover have "map (content s') (map fst ps) = map snd ps"
    using assms(2) by (auto simp: s'(4) map_of_is_SomeI)
  ultimately show thesis using that s' by metis
qed

end

section \<open>Plain words of the MMS\<close>

text \<open>
  A word is plain when it is ordinary local storage: the machine translates without paging,
  the address is outside the shadow window and every backed bank, inside installed memory,
  and no simulated memory error is armed or latched there.
\<close>

definition plain_word :: "'d machine \<Rightarrow> u16 \<Rightarrow> bool" where
  "plain_word m a \<longleftrightarrow>
     isInitialized (g_paging_tables m) \<and> \<not> STS_PAGING_ON_IS_SET (g_reg m)
     \<and> \<not> mms_is_address_shadow_memory (ucast a) False m
     \<and> backed_read (ucast a) m = None \<and> backed_write (ucast a) m = None
     \<and> ucast a < g_nd_memsize m \<and> reg_ECCR (g_reg m) AND 0x13 = 0 \<and> g_ecc_latch m (unat a) = 0"

definition plain_content :: "'d machine \<Rightarrow> u16 \<Rightarrow> u16" where
  "plain_content m a = n_Array m (unat a)"

text \<open>Everything but the memory array.\<close>

definition sans_memory :: "'d machine \<Rightarrow> 'd machine" where
  "sans_memory m = m\<lparr>n_Array := (\<lambda>_. 0)\<rparr>"

lemma word_of_uint_16 [simp]: "word_of_int (uint (ucast (a :: u16) :: u32)) = (ucast a :: u32)"
  by simp

lemma low_16 [simp]: "(ucast (a :: u16) :: u32) AND 0xFFFF = ucast a"
  by (rule bit_word_eqI) (auto simp: bit_simps dest: bit_imp_le_length)

lemma uint_ucast_16_32 [simp]: "uint (ucast (a :: u16) :: u32) = uint a"
  using unat_ucast_16_32[of a] by (simp only: uint_nat)

lemma uint_not_minus_1 [simp]: "uint (w :: 'a::len word) \<noteq> - 1"
  using uint_ge_0[of w] by linarith

lemma plain_map:
  "plain_word m a \<Longrightarrow> mms_map_virtual_to_physical (ucast a) am apt m = Done (uint a) m"
  by (simp add: plain_word_def mms_map_virtual_to_physical_def Let_def)

lemma sim_bits_clear: "c AND 0x13 = 0 \<Longrightarrow> ecc_sim_bits c = 0" for c :: u16
proof -
  assume "c AND 0x13 = 0"
  then have "\<forall>n. \<not> bit (c AND 0x13) n" by simp
  from this[rule_format, of 0] this[rule_format, of 1] this[rule_format, of 4]
  show ?thesis by (simp add: ecc_sim_bits_def bit_simps)
qed

lemma nat_uint_16 [simp]: "nat (uint (a :: u16)) = unat a"
  by simp

lemma word_of_int_uint_16 [simp]: "(word_of_int (uint (a :: u16)) :: u32) = ucast a"
  by (metis uint_ucast_16_32 word_of_int_uint)

lemma plain_read:
  assumes "plain_word m a"
  shows "cpu_memory_read a apt m = Done (plain_content m a) m"
proof -
  have "nd_ecc_read_detect (uint a) m = Done () m"
    using assms by (simp add: nd_ecc_read_detect_def plain_word_def Let_def)
  then have "mms_read_physical_memory (uint a) False m = Done (plain_content m a) m"
    using assms by (auto simp: mms_read_physical_memory_def plain_word_def plain_content_def)
  then show ?thesis
    using assms by (simp add: cpu_memory_read_def mms_read_virtual_memory_def virtual_read_def plain_map)
qed

lemma plain_write:
  assumes "plain_word m a"
  shows "cpu_memory_write v a apt wm m =
     Done () (m\<lparr>n_Array := (n_Array m)(unat a := merge_word wm (n_Array m (unat a)) v)\<rparr>)"
proof -
  have "nd_ecc_write_latch (uint a) m = m"
    using assms sim_bits_clear[of "reg_ECCR (g_reg m)"]
    by (simp add: nd_ecc_write_latch_def plain_word_def Let_def)
  then have "mms_write_physical_memory_wm (uint a) v False wm m =
     Done () (m\<lparr>n_Array := (n_Array m)(unat a := merge_word wm (n_Array m (unat a)) v)\<rparr>)"
    using assms by (auto simp: mms_write_physical_memory_wm_def plain_word_def)
  then show ?thesis
    using assms by (simp add: cpu_memory_write_def mms_write_virtual_memory_def plain_map)
qed

lemma plain_word_array [simp]: "plain_word (m\<lparr>n_Array := f\<rparr>) = plain_word m"
  by (simp add: fun_eq_iff plain_word_def mms_is_address_shadow_memory_def Let_def
      backed_read_def backed_write_def)

lemma sans_memory_array [simp]: "sans_memory (m\<lparr>n_Array := f\<rparr>) = sans_memory m"
  by (simp add: sans_memory_def)

definition read_word :: "bool \<Rightarrow> u16 \<Rightarrow> (u16, 'd) exec" where
  "read_word apt a = cpu_memory_read a apt"

definition write_word :: "bool \<Rightarrow> u16 \<Rightarrow> u16 \<Rightarrow> (unit, 'd) exec" where
  "write_word apt a v = cpu_memory_write v a apt WRITEMODE_WORD"

interpretation plain: word_memory "read_word apt" "write_word apt" plain_content plain_word sans_memory
  for apt
proof unfold_locales
  fix s :: "'b machine" and a v
  assume ok: "plain_word s a"
  then show "read_word apt a s = Done (plain_content s a) s"
    by (simp add: read_word_def plain_read)
  show "\<exists>s'. write_word apt a v s = Done () s' \<and> plain_content s' = (plain_content s)(a := v)
          \<and> plain_word s' = plain_word s \<and> sans_memory s' = sans_memory s"
    using ok by (auto simp: write_word_def plain_write plain_content_def merge_word_def fun_eq_iff
        word_unat_eq_iff)
qed

end
