(* ===== verification/Instr.thy ===== *)
theory Instr
  imports Alu WordMemory
begin

text \<open>
  The memory-reference, arithmetic, jump and stack instructions of \<open>src/cpu/cpu_instr.c\<close>.
  Each is a whole opcode function: the effective address, every memory access in the code's
  order, and every register it assigns. An access that faults leaves the instruction, with
  whatever it had already done. \<open>instr\<close>/\<open>operand\<close> is the fetched instruction word.
\<close>

section \<open>Plumbing\<close>

definition on_regs :: "(CpuRegs \<Rightarrow> CpuRegs) \<Rightarrow> (unit, 'd) exec" where
  "on_regs f = modify (g_reg_update f)"

definition put :: "nat \<Rightarrow> u16 \<Rightarrow> (unit, 'd) exec" where
  "put i v = on_regs (set_cur i v)"

definition get :: "nat \<Rightarrow> (u16, 'd) exec" where
  "get i m = Done (cur i (g_reg m)) m"

definition seq :: "(unit, 'd) exec \<Rightarrow> ('a, 'd) exec \<Rightarrow> ('a, 'd) exec" where
  "seq f g = bind_out f (\<lambda>_. g)"

text \<open>\<open>gEA = cpu_get_effective_addr(operand, &gUseAPT)\<close>, then the body.\<close>

definition with_ea :: "u16 \<Rightarrow> (u16 \<Rightarrow> bool \<Rightarrow> (unit, 'd) exec) \<Rightarrow> (unit, 'd) exec" where
  "with_ea operand body =
     bind_out (cpu_get_effective_addr operand)
       (\<lambda>ea. seq (on_regs (\<lambda>r. r\<lparr>effectiveAddress := fst ea, useAPT := snd ea\<rparr>)) (body (fst ea) (snd ea)))"

definition load_into :: "nat \<Rightarrow> u16 \<Rightarrow> bool \<Rightarrow> (unit, 'd) exec" where
  "load_into i a apt = bind_out (cpu_memory_read a apt) (put i)"

definition store_from :: "nat \<Rightarrow> u16 \<Rightarrow> bool \<Rightarrow> (unit, 'd) exec" where
  "store_from i a apt = bind_out (get i) (\<lambda>v. cpu_memory_write v a apt WRITEMODE_WORD)"

section \<open>Load and store\<close>

definition opcode_std :: "u16 \<Rightarrow> (unit, 'd) exec" where
  "opcode_std operand = with_ea operand (\<lambda>ea apt. seq (store_from R_A (ea + 0) apt) (store_from R_D (ea + 1) apt))"

definition opcode_ldd :: "u16 \<Rightarrow> (unit, 'd) exec" where
  "opcode_ldd operand = with_ea operand (\<lambda>ea apt. seq (load_into R_A (ea + 0) apt) (load_into R_D (ea + 1) apt))"

definition opcode_lda :: "u16 \<Rightarrow> (unit, 'd) exec" where
  "opcode_lda operand = with_ea operand (load_into R_A)"

definition opcode_ldt :: "u16 \<Rightarrow> (unit, 'd) exec" where
  "opcode_ldt operand = with_ea operand (load_into R_T)"

definition opcode_ldx :: "u16 \<Rightarrow> (unit, 'd) exec" where
  "opcode_ldx operand = with_ea operand (load_into R_X)"

definition opcode_stz :: "u16 \<Rightarrow> (unit, 'd) exec" where
  "opcode_stz operand = with_ea operand (\<lambda>ea apt. cpu_memory_write 0 ea apt WRITEMODE_WORD)"

definition opcode_sta :: "u16 \<Rightarrow> (unit, 'd) exec" where
  "opcode_sta operand = with_ea operand (store_from R_A)"

definition opcode_stt :: "u16 \<Rightarrow> (unit, 'd) exec" where
  "opcode_stt operand = with_ea operand (store_from R_T)"

definition opcode_stx :: "u16 \<Rightarrow> (unit, 'd) exec" where
  "opcode_stx operand = with_ea operand (store_from R_X)"

definition opcode_min :: "u16 \<Rightarrow> (unit, 'd) exec" where
  "opcode_min operand = with_ea operand (\<lambda>ea apt.
     bind_out (cpu_memory_read ea apt) (\<lambda>v.
       let temp = v + 1 in
       seq (cpu_memory_write temp ea apt WRITEMODE_WORD)
           (if temp = 0 then on_regs skip_next else ret ())))"

definition opcode_stf :: "u16 \<Rightarrow> (unit, 'd) exec" where
  "opcode_stf operand = with_ea operand (\<lambda>ea apt.
     seq (store_from R_T (ea + 0) apt) (seq (store_from R_A (ea + 1) apt) (store_from R_D (ea + 2) apt)))"

definition opcode_ldf :: "u16 \<Rightarrow> (unit, 'd) exec" where
  "opcode_ldf operand = with_ea operand (\<lambda>ea apt.
     seq (load_into R_T (ea + 0) apt) (seq (load_into R_A (ea + 1) apt) (load_into R_D (ea + 2) apt)))"

section \<open>Arithmetic with memory and with arguments\<close>

definition add_into :: "nat \<Rightarrow> u16 \<Rightarrow> u16 \<Rightarrow> (unit, 'd) exec" where
  "add_into i b k = on_regs (\<lambda>r. set_cur i (fst (do_add (cur i r) b k r)) (snd (do_add (cur i r) b k r)))"

definition opcode_add :: "u16 \<Rightarrow> (unit, 'd) exec" where
  "opcode_add operand = with_ea operand (\<lambda>ea apt. bind_out (cpu_memory_read ea apt) (\<lambda>v. add_into R_A v 0))"

definition opcode_sub :: "u16 \<Rightarrow> (unit, 'd) exec" where
  "opcode_sub operand = with_ea operand (\<lambda>ea apt. bind_out (cpu_memory_read ea apt) (\<lambda>v. add_into R_A (NOT v) 1))"

definition opcode_and :: "u16 \<Rightarrow> (unit, 'd) exec" where
  "opcode_and operand = with_ea operand (\<lambda>ea apt.
     bind_out (cpu_memory_read ea apt) (\<lambda>v. on_regs (\<lambda>r. set_cur R_A (cur R_A r AND v) r)))"

definition opcode_ora :: "u16 \<Rightarrow> (unit, 'd) exec" where
  "opcode_ora operand = with_ea operand (\<lambda>ea apt.
     bind_out (cpu_memory_read ea apt) (\<lambda>v. on_regs (\<lambda>r. set_cur R_A (cur R_A r OR v) r)))"

definition set_argument :: "nat \<Rightarrow> u16 \<Rightarrow> (unit, 'd) exec" where
  "set_argument i operand = on_regs (cpu_setreg i (scast (cpu_sign_extend (operand AND 0xFF))))"

definition opcode_sab :: "u16 \<Rightarrow> (unit, 'd) exec" where "opcode_sab = set_argument R_B"
definition opcode_saa :: "u16 \<Rightarrow> (unit, 'd) exec" where "opcode_saa = set_argument R_A"
definition opcode_sat :: "u16 \<Rightarrow> (unit, 'd) exec" where "opcode_sat = set_argument R_T"
definition opcode_sax :: "u16 \<Rightarrow> (unit, 'd) exec" where "opcode_sax = set_argument R_X"

definition opcode_aab :: "u16 \<Rightarrow> (unit, 'd) exec" where
  "opcode_aab operand = add_into R_B (cpu_sign_extend (operand AND 0xFF)) 0"

definition opcode_aaa :: "u16 \<Rightarrow> (unit, 'd) exec" where
  "opcode_aaa operand = add_into R_A (cpu_sign_extend (operand AND 0xFF)) 0"

definition opcode_aat :: "u16 \<Rightarrow> (unit, 'd) exec" where
  "opcode_aat operand = add_into R_T (cpu_sign_extend (operand AND 0xFF)) 0"

definition opcode_aax :: "u16 \<Rightarrow> (unit, 'd) exec" where
  "opcode_aax operand = add_into R_X (cpu_sign_extend (operand AND 0xFF)) 0"

definition opcode_mix3 :: "u16 \<Rightarrow> (unit, 'd) exec" where
  "opcode_mix3 operand = on_regs (\<lambda>r. set_cur R_X ((cur R_A r - 1) * 3) r)"

section \<open>Jumps and skips\<close>

definition cjp :: "bool \<Rightarrow> u16 \<Rightarrow> CpuRegs \<Rightarrow> CpuRegs" where
  "cjp jmp_flag operand r =
     (if jmp_flag then set_cur R_P ((cur R_P r - 1) + cpu_sign_extend (operand AND 0xff)) r else r)"

definition opcode_jmp :: "u16 \<Rightarrow> (unit, 'd) exec" where
  "opcode_jmp operand = with_ea operand (\<lambda>ea apt. put R_P ea)"

definition opcode_jap :: "u16 \<Rightarrow> (unit, 'd) exec" where
  "opcode_jap operand = on_regs (\<lambda>r. cjp (push_bit 15 1 AND cur R_A r = 0) operand r)"

definition opcode_jan :: "u16 \<Rightarrow> (unit, 'd) exec" where
  "opcode_jan operand = on_regs (\<lambda>r. cjp (push_bit 15 1 AND cur R_A r \<noteq> 0) operand r)"

definition opcode_jaz :: "u16 \<Rightarrow> (unit, 'd) exec" where
  "opcode_jaz operand = on_regs (\<lambda>r. cjp (cur R_A r = 0) operand r)"

definition opcode_jaf :: "u16 \<Rightarrow> (unit, 'd) exec" where
  "opcode_jaf operand = on_regs (\<lambda>r. cjp (cur R_A r \<noteq> 0) operand r)"

definition inc_x :: "CpuRegs \<Rightarrow> CpuRegs" where
  "inc_x r = set_cur R_X (cur R_X r + 1) r"

definition opcode_jpc :: "u16 \<Rightarrow> (unit, 'd) exec" where
  "opcode_jpc operand = on_regs (\<lambda>r. let r1 = inc_x r in cjp (push_bit 15 1 AND cur R_X r1 = 0) operand r1)"

definition opcode_jnc :: "u16 \<Rightarrow> (unit, 'd) exec" where
  "opcode_jnc operand = on_regs (\<lambda>r. let r1 = inc_x r in cjp (cur R_X r1 AND push_bit 15 1 \<noteq> 0) operand r1)"

definition opcode_jxz :: "u16 \<Rightarrow> (unit, 'd) exec" where
  "opcode_jxz operand = on_regs (\<lambda>r. cjp (cur R_X r = 0) operand r)"

definition opcode_jxn :: "u16 \<Rightarrow> (unit, 'd) exec" where
  "opcode_jxn operand = on_regs (\<lambda>r. cjp (cur R_X r AND push_bit 15 1 \<noteq> 0) operand r)"

definition opcode_jpl :: "u16 \<Rightarrow> (unit, 'd) exec" where
  "opcode_jpl operand = with_ea operand (\<lambda>ea apt. on_regs (\<lambda>r.
     set_cur R_P ea
       (if drop_bit 8 operand AND 0x07 \<noteq> 5 then set_cur R_L (cur R_P r) r else r)))"

definition opcode_skp :: "u16 \<Rightarrow> (unit, 'd) exec" where
  "opcode_skp operand = on_regs (\<lambda>r. if is_skip operand r then skip_next r else r)"

section \<open>Stack frames\<close>

definition advance_p :: "u16 \<Rightarrow> (unit, 'd) exec" where
  "advance_p n = on_regs (\<lambda>r. set_cur R_P (cur R_P r + n) r)"

definition word_at :: "u16 \<Rightarrow> bool \<Rightarrow> (u16, 'd) exec" where
  "word_at a apt = cpu_memory_read a apt"

definition set_word :: "u16 \<Rightarrow> u16 \<Rightarrow> (unit, 'd) exec" where
  "set_word v a = cpu_memory_write v a True WRITEMODE_WORD"

definition opcode_init :: "u16 \<Rightarrow> (unit, 'd) exec" where
  "opcode_init operand =
     bind_out (get R_P) (\<lambda>p.
     bind_out (word_at (p + 0) False) (\<lambda>demand.
     bind_out (word_at (p + 1) False) (\<lambda>start.
     bind_out (word_at (p + 2) False) (\<lambda>maxsize.
     bind_out (word_at (p + 3) False) (\<lambda>flag m.
       let r = g_reg m in
       if uint start + 128 + uint demand - 122 > uint start + uint maxsize then advance_p 5 m
       else if flag AND 0x01 \<noteq> reg r (gPIL r) R_STS AND 0x01 then advance_p 5 m
       else
         seq (set_word (cur R_L r + 1) start)
        (seq (set_word (cur R_B r) (start + 1))
        (seq (set_word (start + maxsize) (start + 3))
        (seq (put R_B (start + 128))
        (seq (set_word (start + 128 + demand - 122) (start + 2))
             (advance_p 6))))) m)))))"

definition opcode_entr :: "u16 \<Rightarrow> (unit, 'd) exec" where
  "opcode_entr operand =
     bind_out (get R_P) (\<lambda>p.
     bind_out (word_at (p + 0) False) (\<lambda>demand.
     bind_out (get R_B) (\<lambda>old_b.
     bind_out (word_at (old_b - 125) True) (\<lambda>smax.
       if uint old_b + uint demand - 122 > uint smax then advance_p 1
       else
         bind_out (word_at (old_b - 126) True) (\<lambda>stp.
         bind_out (get R_L) (\<lambda>l.
           let b = stp + 128 in
           seq (put R_B b)
          (seq (set_word (l + 1) (b - 128))
          (seq (set_word old_b (b - 127))
          (seq (set_word smax (b - 125))
          (seq (set_word (b + demand - 122) (b - 126))
               (advance_p 2)))))))))))"

definition opcode_leave :: "u16 \<Rightarrow> (unit, 'd) exec" where
  "opcode_leave operand =
     bind_out (get R_B) (\<lambda>b.
     seq (bind_out (word_at (b - 128) True) (put R_P))
         (bind_out (word_at (b - 127) True) (put R_B)))"

definition opcode_eleav :: "u16 \<Rightarrow> (unit, 'd) exec" where
  "opcode_eleav operand =
     bind_out (get R_B) (\<lambda>b.
     bind_out (word_at (b - 128) True) (\<lambda>link.
     seq (set_word (link - 1) (b - 128))
    (seq (bind_out (get R_A) (\<lambda>a. set_word a (b - 123)))
    (seq (bind_out (word_at (b - 128) True) (put R_P))
         (bind_out (word_at (b - 127) True) (put R_B))))))"

section \<open>Multiplication and division\<close>

text \<open>A register field of these instructions: register 0 reads as 0.\<close>

definition operand_reg :: "nat \<Rightarrow> CpuRegs \<Rightarrow> u16" where
  "operand_reg i r = (if i \<noteq> 0 then reg r (gPIL r) i else 0)"

text \<open>
  Negating a double word latches the status of the negation of its low word: carry when it is
  zero, overflow when it is 0x8000 (the static overflow is only ever set).
\<close>

definition latch_negation :: "bool \<Rightarrow> bool \<Rightarrow> CpuRegs \<Rightarrow> CpuRegs" where
  "latch_negation low_zero ovf r =
     (let r1 = cpu_setbit R_STS STS_CARRY low_zero r;
          r2 = cpu_setbit R_STS STS_DYNAMIC_OVERFLOW ovf r1
      in if ovf then cpu_setbit R_STS STS_STATIC_OVERFLOW True r2 else r2)"

definition rmpy :: "u16 \<Rightarrow> CpuRegs \<Rightarrow> CpuRegs" where
  "rmpy instr r =
     (let source_value = sint (operand_reg (field 0x0038 3 instr) r);
          dest_value = sint (operand_reg (field 0x0007 0 instr) r);
          abs_src = (if source_value < 0 then - source_value else source_value);
          abs_dst = (if dest_value < 0 then - dest_value else dest_value);
          minus_cnt = (if source_value < 0 then 1 else 0) + (if dest_value < 0 then 1 else 0 :: nat);
          result = abs_src * abs_dst;
          (result, r) =
            (if minus_cnt = 1
             then (let low_word = result AND 0xFFFF
                   in (- result, latch_negation (low_word = 0) (low_word = 0x8000) r))
             else (result, r))
      in set_cur R_D (word_of_int (result AND 0xFFFF))
           (set_cur R_A (word_of_int (drop_bit 16 result AND 0xFFFF)) r))"

definition mpy :: "u16 \<Rightarrow> (unit, 'd) exec" where
  "mpy operand =
     bind_out (get R_A) (\<lambda>a.
     with_ea operand (\<lambda>ea apt.
     bind_out (cpu_memory_read ea apt) (\<lambda>v. on_regs (\<lambda>r.
       let r1 = cpu_setbit R_STS STS_DYNAMIC_OVERFLOW False r;
           result = sint a * sint v;
           r2 = (if \<bar>result\<bar> > 32767
                 then cpu_setbit R_STS STS_STATIC_OVERFLOW True (cpu_setbit R_STS STS_DYNAMIC_OVERFLOW True r1)
                 else r1)
       in set_cur R_A (word_of_int result) r2))))"

text \<open>
  \<open>dividend\<close> is the C expression \<open>((int)gA << 16) | (int)gD\<close>, a 32-bit word read as
  signed; the magnitudes are \<open>unsigned int\<close> and \<open>uint16_t\<close>.
\<close>

definition rdiv :: "u16 \<Rightarrow> CpuRegs \<Rightarrow> CpuRegs" where
  "rdiv instr r =
     (let dividend = push_bit 16 (ucast (cur R_A r)) OR ucast (cur R_D r) :: u32;
          divisor = operand_reg (field 0x0038 3 instr) r;
          dividend_negative = (dividend <s 0);
          orig_low = cur R_D r;
          r1 = (if dividend_negative
                then latch_negation (orig_low = 0) (orig_low = 0x8000) r
                else r);
          dividend_mag = (if dividend_negative then 0 - dividend else dividend);
          divisor_mag = (if divisor <s 0 then 0 - divisor else divisor);
          dividend_mag_high = ucast (drop_bit 16 dividend_mag) :: u16
      in if divisor_mag = 0 \<or> dividend_mag_high \<ge> divisor_mag
         then cpu_setbit R_STS STS_ERROR_INDICATOR True
                (set_cur R_D (ucast (dividend_mag AND 0xFFFF))
                  (set_cur R_A (dividend_mag_high - divisor_mag) r1))
         else
           (let quotient_mag = dividend_mag div ucast divisor_mag;
                remainder_mag = dividend_mag mod ucast divisor_mag;
                quotient_negative = (dividend_negative \<noteq> (divisor <s 0));
                r2 = set_cur R_A (if quotient_negative then ucast (0 - quotient_mag) else ucast quotient_mag) r1;
                r3 = set_cur R_D (if dividend_negative then ucast (0 - remainder_mag) else ucast remainder_mag) r2
            in if (if quotient_negative then quotient_mag > 0x8000 else quotient_mag > 0x7FFF)
               then cpu_setbit R_STS STS_ERROR_INDICATOR True r3 else r3))"

section \<open>Signed values of words\<close>

lemma take_neg: "take_bit 16 (- take_bit 32 k) = take_bit 16 (- k :: int)"
proof -
  have "take_bit 16 (- take_bit 32 k) = take_bit 16 (- take_bit 16 (take_bit 32 k))"
    by (simp only: take_bit_minus)
  also have "\<dots> = take_bit 16 (- k)" by (simp add: take_bit_minus)
  finally show ?thesis .
qed

lemma ucast_neg: "ucast (- w :: u32) = (word_of_int (- uint w) :: u16)"
  by transfer (simp add: take_neg)

lemma ucast_word_of_uint: "ucast (w :: u32) = (word_of_int (uint w) :: u16)"
  by simp

lemma join_words: "push_bit 16 (ucast (word_of_int (drop_bit 16 x AND 0xFFFF) :: u16)) OR
    ucast (word_of_int (x AND 0xFFFF) :: u16) = (word_of_int x :: u32)"
  by (rule word32_bits) (simp add: bit_simps bit_word_of_int_iff)

lemma sint_of_int_32: "- 2147483648 \<le> x \<Longrightarrow> x < 2147483648 \<Longrightarrow> sint (word_of_int x :: u32) = x"
  by (simp add: signed_of_int signed_take_bit_int_eq_self)

lemma sint_of_int_16: "- 32768 \<le> x \<Longrightarrow> x < 32768 \<Longrightarrow> sint (word_of_int x :: u16) = x"
  by (simp add: signed_of_int signed_take_bit_int_eq_self)

lemma sint_range_16: "- 32768 \<le> sint (a :: u16)" "sint a < 32768"
proof -
  define U where "U = uint a"
  have "0 \<le> U" "U < 65536" using uint_16[of a] by (simp_all add: U_def)
  moreover have "sint a = U - (if 32768 \<le> U then 65536 else 0)" by (simp add: sint_16 bit_15 U_def)
  ultimately show "- 32768 \<le> sint a" "sint a < 32768" by auto
qed

text \<open>The double accumulator as the 32-bit word the instructions see.\<close>

definition double_acc :: "CpuRegs \<Rightarrow> u32" where
  "double_acc r = push_bit 16 (ucast (cur R_A r)) OR ucast (cur R_D r)"

text \<open>Nothing but A, D and the status bits \<open>B\<close> of the level changes.\<close>

definition only_ad_status :: "nat set \<Rightarrow> CpuRegs \<Rightarrow> CpuRegs \<Rightarrow> bool" where
  "only_ad_status B r r' \<longleftrightarrow>
     reg_STS r' = reg_STS r \<and> (\<forall>i. i \<notin> {0, R_A, R_D} \<longrightarrow> cur i r' = cur i r)
     \<and> (\<forall>l i. l \<noteq> gPIL r \<longrightarrow> reg r' l i = reg r l i) \<and> (\<forall>n. n \<notin> B \<longrightarrow> reg_bit 0 n r' = reg_bit 0 n r)"

lemma only_ad_status_refl: "only_ad_status B r r"
  by (simp add: only_ad_status_def)

lemma gPIL_set_low [simp]: "n \<le> 7 \<Longrightarrow> gPIL (cpu_setbit 0 n v r) = gPIL r"
  by simp

lemma only_ad_status_setbit:
  assumes "only_ad_status B r q" "n \<in> B" "n \<le> 7"
  shows "only_ad_status B r (cpu_setbit 0 n v q)"
proof -
  have g: "gPIL q = gPIL r" using assms(1) by (simp add: only_ad_status_def gPIL_def)
  have "reg (cpu_setbit 0 n v q) l i = reg q l i" if "l \<noteq> gPIL r" for l i
    using assms(3) that g by (simp add: cpu_setbit_def Let_def)
  then show ?thesis
    using assms by (auto simp: only_ad_status_def cpu_setbit_reg_STS cpu_setbit_cur reg_bit_setbit_low)
qed

lemma only_ad_status_set_cur:
  assumes "only_ad_status B r q" "i \<in> {R_A, R_D}"
  shows "only_ad_status B r (set_cur i v q)"
proof -
  have g: "gPIL q = gPIL r" using assms(1) by (simp add: only_ad_status_def gPIL_def)
  have "reg_bit 0 n (set_cur i v q) = reg_bit 0 n q" for n
    using assms(2) by (auto simp: reg_bit_def bit_gSTSr)
  then show ?thesis using assms g by (auto simp: only_ad_status_def)
qed

lemma cur_setbit_low: "i \<noteq> 0 \<Longrightarrow> n \<le> 7 \<Longrightarrow> cur i (cpu_setbit 0 n v r) = cur i r"
  by (simp add: cpu_setbit_cur)

lemma latch_negation_status: "only_ad_status {4, 5, 6} r (latch_negation z v r)"
  by (simp add: latch_negation_def Let_def only_ad_status_setbit only_ad_status_refl)

section \<open>Properties of multiplication and division\<close>

text \<open>
  RMPY is exact: the double accumulator receives the full 32-bit signed product of the two
  registers, for every pair of operands including the most negative one; no register but A
  and D changes, and a product of operands of equal sign leaves all status bits alone.
\<close>

theorem rmpy_product:
  fixes instr :: u16 and r :: CpuRegs
  defines "s \<equiv> operand_reg (field 0x0038 3 instr) r" and "d \<equiv> operand_reg (field 0x0007 0 instr) r"
  shows "sint (double_acc (rmpy instr r)) = sint s * sint d
    \<and> only_ad_status (if sint s < 0 \<longleftrightarrow> sint d < 0 then {} else {4, 5, 6}) r (rmpy instr r)"
proof -
  define p where "p = (if sint s < 0 then - sint s else sint s) * (if sint d < 0 then - sint d else sint d)"
  have sgn: "sint s * sint d = (if sint s < 0 \<longleftrightarrow> sint d < 0 then p else - p)"
    by (auto simp: p_def)
  have "\<bar>sint s\<bar> \<le> 32768" "\<bar>sint d\<bar> \<le> 32768" using sint_range_16[of s] sint_range_16[of d] by auto
  then have "\<bar>sint s * sint d\<bar> \<le> 32768 * 32768"
    unfolding abs_mult by (intro mult_mono) auto
  then have rng: "- 2147483648 \<le> sint s * sint d" "sint s * sint d < 2147483648" by auto
  define q where "q = (if sint s < 0 \<longleftrightarrow> sint d < 0 then r
                       else latch_negation (p AND 0xFFFF = 0) (p AND 0xFFFF = 0x8000) r)"
  have q: "rmpy instr r = set_cur R_D (word_of_int ((sint s * sint d) AND 0xFFFF))
       (set_cur R_A (word_of_int (drop_bit 16 (sint s * sint d) AND 0xFFFF)) q)"
    unfolding rmpy_def s_def[symmetric] d_def[symmetric] Let_def p_def[symmetric] sgn q_def
    by (cases "sint s < 0"; cases "sint d < 0") simp_all
  have oq: "only_ad_status (if sint s < 0 \<longleftrightarrow> sint d < 0 then {} else {4, 5, 6}) r q"
    by (simp add: q_def only_ad_status_refl latch_negation_status)
  have "double_acc (rmpy instr r) = word_of_int (sint s * sint d)"
    unfolding q double_acc_def by (simp only: cur_set_cur) (simp add: join_words)
  then show ?thesis
    using sint_of_int_32[OF rng] oq by (simp add: q only_ad_status_set_cur)
qed

lemma sint_32_range: "- 2147483648 \<le> sint (w :: u32)" "sint w < 2147483648"
  using sint_ge[of w] sint_lt[of w] by simp_all

lemma magnitude_32: "uint (if w <s 0 then 0 - w else w :: u32) = \<bar>sint w\<bar>"
proof -
  have "(if w <s 0 then 0 - w else w) = word_of_int \<bar>sint w\<bar>"
    by (simp add: word_sless_alt)
  then show ?thesis
    using sint_32_range[of w] by (simp add: uint_word_of_int mod_pos_pos_trivial)
qed

lemma magnitude_16: "uint (if w <s 0 then 0 - w else w :: u16) = \<bar>sint w\<bar>"
proof -
  have "(if w <s 0 then 0 - w else w) = word_of_int \<bar>sint w\<bar>"
    by (simp add: word_sless_alt)
  then show ?thesis
    using sint_range_16[of w] by (simp add: uint_word_of_int mod_pos_pos_trivial)
qed

lemma uint_high: "uint (ucast (drop_bit 16 w) :: u16) = uint (w :: u32) div 65536"
proof -
  have a: "uint (drop_bit 16 w) = uint w div 65536"
    by (simp only: unsigned_drop_bit_eq drop_bit_eq_div uint_div) simp
  have b: "uint w < 4294967296" using uint_lt2p[of w] by simp
  have c: "0 \<le> uint w div 65536" "uint w div 65536 < 65536"
    using b by (simp_all only: pos_imp_zdiv_nonneg_iff zero_less_numeral uint_ge_0)
  have "uint (ucast (drop_bit 16 w) :: u16) = take_bit 16 (uint w div 65536)"
    by (simp only: unsigned_ucast_eq a) simp
  moreover have "take_bit 16 (uint w div 65536) = uint w div 65536"
    using c by (intro take_bit_int_eq_self) simp_all
  ultimately show ?thesis by simp
qed

text \<open>The integer facts behind the magnitude division.\<close>

lemma quotient_facts:
  fixes N V :: int
  assumes "V \<noteq> 0"
  defines "Q \<equiv> (if (N < 0) = (V < 0) then \<bar>N\<bar> div \<bar>V\<bar> else - (\<bar>N\<bar> div \<bar>V\<bar>))"
    and "R \<equiv> (if N < 0 then - (\<bar>N\<bar> mod \<bar>V\<bar>) else \<bar>N\<bar> mod \<bar>V\<bar>)"
  shows "V * Q + R = N" "\<bar>R\<bar> < \<bar>V\<bar>" "R = 0 \<or> (R < 0) = (N < 0)"
proof -
  define m where "m = \<bar>N\<bar> mod \<bar>V\<bar>"
  define q where "q = \<bar>N\<bar> div \<bar>V\<bar>"
  have e: "\<bar>V\<bar> * q + m = \<bar>N\<bar>" by (simp add: m_def q_def)
  have r: "0 \<le> m" "m < \<bar>V\<bar>" using assms(1) by (simp_all add: m_def)
  have Q: "Q = (if (N < 0) = (V < 0) then q else - q)" and R: "R = (if N < 0 then - m else m)"
    by (simp_all add: Q_def R_def m_def q_def)
  show "V * Q + R = N"
  proof (cases "N < 0")
    case True
    then show ?thesis using e unfolding Q R by (cases "V < 0") simp_all
  next
    case False
    then show ?thesis using e unfolding Q R by (cases "V < 0") simp_all
  qed
  show "\<bar>R\<bar> < \<bar>V\<bar>" "R = 0 \<or> (R < 0) = (N < 0)" using r by (auto simp: R)
qed

lemma quotient_small:
  fixes N V :: int
  assumes "V \<noteq> 0" and "\<bar>N\<bar> div \<bar>V\<bar> \<le> 32768"
  shows "\<bar>N\<bar> div 65536 < \<bar>V\<bar>"
proof -
  have "\<bar>N\<bar> < \<bar>V\<bar> * (\<bar>N\<bar> div \<bar>V\<bar>) + \<bar>V\<bar>"
    using assms(1) pos_mod_bound[of "\<bar>V\<bar>" "\<bar>N\<bar>"] mult_div_mod_eq[of "\<bar>V\<bar>" "\<bar>N\<bar>"] by linarith
  also have "\<dots> \<le> \<bar>V\<bar> * 32768 + \<bar>V\<bar>"
    using assms by (intro add_right_mono mult_left_mono) auto
  also have "\<dots> \<le> \<bar>V\<bar> * 65536" using assms(1) by simp
  finally show ?thesis by linarith
qed

lemma low_half: "ucast (w AND 0xFFFF :: u32) = (ucast w :: u16)"
  by (rule bit_word_eqI) (auto simp: bit_simps word16_bits bit_0xFFFF)

lemma neg_half: "ucast (0 - w :: u32) = (word_of_int (- uint w) :: u16)"
  using ucast_neg[of w] by simp

lemma only_ad_status_mono: "only_ad_status B r q \<Longrightarrow> B \<subseteq> C \<Longrightarrow> only_ad_status C r q"
  by (auto simp: only_ad_status_def)

lemma rdiv_quotient:
  fixes instr r
  defines "n \<equiv> double_acc r" and "d \<equiv> operand_reg (field 0x0038 3 instr) r"
  defines "N \<equiv> sint n" and "V \<equiv> sint d"
  defines "Q \<equiv> (if (N < 0) = (V < 0) then \<bar>N\<bar> div \<bar>V\<bar> else - (\<bar>N\<bar> div \<bar>V\<bar>))"
    and "R \<equiv> (if N < 0 then - (\<bar>N\<bar> mod \<bar>V\<bar>) else \<bar>N\<bar> mod \<bar>V\<bar>)"
  shows "rdiv instr r =
   (let r1 = (if N < 0 then latch_negation (cur R_D r = 0) (cur R_D r = 0x8000) r else r)
    in if V = 0 \<or> \<bar>V\<bar> \<le> \<bar>N\<bar> div 65536
       then cpu_setbit R_STS STS_ERROR_INDICATOR True
              (set_cur R_D (word_of_int \<bar>N\<bar>) (set_cur R_A (word_of_int (\<bar>N\<bar> div 65536 - \<bar>V\<bar>)) r1))
       else (let r2 = set_cur R_D (word_of_int R) (set_cur R_A (word_of_int Q) r1)
             in if Q < - 32768 \<or> 32767 < Q then cpu_setbit R_STS STS_ERROR_INDICATOR True r2 else r2))"
proof -
  define mag where "mag = (if n <s 0 then 0 - n else n)"
  define dm where "dm = (if d <s 0 then 0 - d else d)"
  have um: "uint mag = \<bar>N\<bar>" unfolding mag_def N_def by (rule magnitude_32)
  have ud: "uint dm = \<bar>V\<bar>" unfolding dm_def V_def by (rule magnitude_16)
  have n: "(n <s 0) = (N < 0)" by (simp add: N_def word_sless_alt)
  have v: "(d <s 0) = (V < 0)" by (simp add: V_def word_sless_alt)
  have hi: "uint (ucast (drop_bit 16 mag) :: u16) = \<bar>N\<bar> div 65536" by (simp only: uint_high um)
  have e: "(dm = 0) = (V = 0)" using ud by (auto simp: word_uint_eq_iff)
  have le: "(dm \<le> ucast (drop_bit 16 mag)) = (\<bar>V\<bar> \<le> \<bar>N\<bar> div 65536)"
    by (simp only: word_le_def hi ud)
  have A: "ucast (drop_bit 16 mag) - dm = (word_of_int (\<bar>N\<bar> div 65536 - \<bar>V\<bar>) :: u16)"
    by (simp only: flip: hi ud) simp
  have M: "ucast (mag AND 0xFFFF) = (word_of_int \<bar>N\<bar> :: u16)"
    unfolding low_half by (simp only: ucast_word_of_uint um)
  have uc: "uint (ucast dm :: u32) = \<bar>V\<bar>" using ud by simp
  have q: "uint (mag div ucast dm) = \<bar>N\<bar> div \<bar>V\<bar>" by (simp only: uint_div um uc)
  have m: "uint (mag mod ucast dm) = \<bar>N\<bar> mod \<bar>V\<bar>" by (simp only: uint_mod um uc)
  have z: "(mag div ucast dm > 0x8000) = (\<bar>N\<bar> div \<bar>V\<bar> > 32768)" "(mag div ucast dm > 0x7FFF) = (\<bar>N\<bar> div \<bar>V\<bar> > 32767)"
    by (simp_all only: word_less_def q) simp_all
  have nn: "0 \<le> \<bar>N\<bar> div \<bar>V\<bar>" by (cases "V = 0") (simp_all add: pos_imp_zdiv_nonneg_iff)
  have ov: "(if (N < 0) \<noteq> (V < 0) then \<bar>N\<bar> div \<bar>V\<bar> > 32768 else \<bar>N\<bar> div \<bar>V\<bar> > 32767)
      = (Q < - 32768 \<or> 32767 < Q)"
    using nn by (auto simp: Q_def)
  have wQ: "word_of_int Q = (if (N < 0) \<noteq> (V < 0) then word_of_int (- (\<bar>N\<bar> div \<bar>V\<bar>)) else word_of_int (\<bar>N\<bar> div \<bar>V\<bar>) :: u16)"
    by (simp add: Q_def)
  have wR: "word_of_int R = (if N < 0 then word_of_int (- (\<bar>N\<bar> mod \<bar>V\<bar>)) else word_of_int (\<bar>N\<bar> mod \<bar>V\<bar>) :: u16)"
    by (simp add: R_def)
  show ?thesis
    unfolding wQ wR ov[symmetric]
    unfolding rdiv_def n_def[unfolded double_acc_def, symmetric] d_def[symmetric] Let_def
    unfolding mag_def[symmetric] dm_def[symmetric]
    unfolding n v e le A M neg_half q m z
    unfolding ucast_word_of_uint q m
    by (rule refl)
qed
text \<open>C6
  RDIV divides exactly.  When the divisor is not zero and the quotient fits 16 signed bits, A
  receives the quotient truncated towards zero and D the remainder with the sign of the
  dividend: divisor times A plus D is the old double accumulator, and the Z flag keeps its
  value; minus 32768 counts as a quotient that fits.  In every other case Z is set.  No
  register besides A, D and the status bits Z, Q, O, C changes.\<close>
theorem rdiv_correct:
  fixes instr r
  defines "V \<equiv> sint (operand_reg (field 0x0038 3 instr) r)" and "N \<equiv> sint (double_acc r)"
  defines "Q \<equiv> (if (N < 0) = (V < 0) then \<bar>N\<bar> div \<bar>V\<bar> else - (\<bar>N\<bar> div \<bar>V\<bar>))"
    and "r' \<equiv> rdiv instr r"
  shows "(if V \<noteq> 0 \<and> - 32768 \<le> Q \<and> Q \<le> 32767
          then reg_bit 0 STS_ERROR_INDICATOR r' = reg_bit 0 STS_ERROR_INDICATOR r
               \<and> sint (cur R_A r') = Q \<and> V * Q + sint (cur R_D r') = N
               \<and> \<bar>sint (cur R_D r')\<bar> < \<bar>V\<bar>
               \<and> (sint (cur R_D r') = 0 \<or> (sint (cur R_D r') < 0) = (N < 0))
          else reg_bit 0 STS_ERROR_INDICATOR r')
         \<and> only_ad_status {3, 4, 5, 6} r r'"
proof -
  define R where "R = (if N < 0 then - (\<bar>N\<bar> mod \<bar>V\<bar>) else \<bar>N\<bar> mod \<bar>V\<bar>)"
  define r1 where "r1 = (if N < 0 then latch_negation (cur R_D r = 0) (cur R_D r = 0x8000) r else r)"
  note q = rdiv_quotient[of instr r, folded V_def N_def, folded Q_def R_def, folded r1_def, folded r'_def, unfolded Let_def]
  have s1: "only_ad_status {4, 5, 6} r r1" by (simp add: r1_def latch_negation_status only_ad_status_refl)
  have s: "only_ad_status {3, 4, 5, 6} r r'"
    using only_ad_status_mono[OF s1, of "{3, 4, 5, 6}"]
    by (simp add: q only_ad_status_set_cur only_ad_status_setbit)
  have z: "reg_bit 0 3 (set_cur R_D a (set_cur R_A b r1)) = reg_bit 0 3 r" for a b
    using only_ad_status_set_cur[OF only_ad_status_set_cur[OF s1]] by (simp add: only_ad_status_def)
  have V: "\<bar>V\<bar> \<le> 32768" using sint_range_16[of "operand_reg (field 0x0038 3 instr) r"] by (auto simp: V_def)
  show ?thesis
  proof (cases "V \<noteq> 0 \<and> - 32768 \<le> Q \<and> Q \<le> 32767")
    case True
    note f = quotient_facts[of V N, folded Q_def R_def]
    have "\<bar>N\<bar> div \<bar>V\<bar> \<le> 32768" using True by (auto simp: Q_def split: if_splits)
    then have "\<not> (V = 0 \<or> \<bar>V\<bar> \<le> \<bar>N\<bar> div 65536)" using True quotient_small[of V N] by auto
    then have e: "r' = set_cur R_D (word_of_int R) (set_cur R_A (word_of_int Q) r1)"
      using True by (simp add: q)
    have sR: "sint (word_of_int R :: u16) = R" using f(2)[OF conjunct1[OF True]] V by (intro sint_of_int_16) auto
    have sQ: "sint (word_of_int Q :: u16) = Q" using True by (intro sint_of_int_16) auto
    show ?thesis using True s f z by (simp add: e sR sQ)
  next
    case False
    then have "reg_bit 0 3 r'" by (auto simp: q reg_bit_setbit_low)
    then show ?thesis using s unfolding if_not_P[OF False] by simp
  qed
qed
section \<open>Instructions over plain memory\<close>

text \<open>
  In plain memory no access faults and none changes anything but the stored word, so an
  instruction's run is the rewriting of its accesses. Registers may change between two
  instructions as long as the status word and the ECC control register do not.
\<close>

definition same_mode :: "CpuRegs \<Rightarrow> CpuRegs \<Rightarrow> bool" where
  "same_mode r r' \<longleftrightarrow> reg_STS r' = reg_STS r \<and> reg_ECCR r' = reg_ECCR r \<and> reg_PCR r' = reg_PCR r"

lemma plain_word_regs:
  "same_mode (g_reg m) r \<Longrightarrow> plain_word (m\<lparr>g_reg := r\<rparr>) = plain_word m"
  by (simp add: fun_eq_iff plain_word_def STS_PAGING_ON_IS_SET_def STS_EXTENDED_ADDRESSING_IS_SET_def gPIL_def
      mms_is_address_shadow_memory_def Let_def backed_read_def backed_write_def same_mode_def)

lemma same_mode_simps [simp]:
  "same_mode r r"
  "same_mode r (set_cur i v r') = same_mode r r'"
  "same_mode r (r'\<lparr>effectiveAddress := ea, useAPT := apt\<rparr>) = same_mode r r'"
  by (simp_all add: same_mode_def set_cur_def set_reg_def)

lemma plain_content_regs [simp]: "plain_content (m\<lparr>g_reg := r\<rparr>) = plain_content m"
  by (simp add: fun_eq_iff plain_content_def)

definition store_word :: "u16 \<Rightarrow> u16 \<Rightarrow> 'd machine \<Rightarrow> 'd machine" where
  "store_word a v m = m\<lparr>n_Array := (n_Array m)(unat a := v)\<rparr>"

lemma store_word_sel [simp]:
  "g_reg (store_word a v m) = g_reg m"
  "plain_word (store_word a v m) = plain_word m"
  "plain_content (store_word a v m) = (plain_content m)(a := v)"
  "sans_memory (store_word a v m) = sans_memory m"
  by (auto simp: store_word_def plain_content_def fun_eq_iff word_unat_eq_iff)

lemma store_word_regs [simp]:
  "(store_word a v m)\<lparr>g_reg := r\<rparr> = store_word a v (m\<lparr>g_reg := r\<rparr>)"
  by (simp add: store_word_def)

lemma plain_write_word:
  "plain_word m a \<Longrightarrow> cpu_memory_write v a apt WRITEMODE_WORD m = Done () (store_word a v m)"
  by (simp add: plain_write merge_word_def store_word_def)

lemma run_get [simp]: "bind_out (get i) k m = k (cur i (g_reg m)) m"
  by (simp add: bind_out_def get_def)

lemma run_on_regs [simp]:
  "on_regs f m = Done () (m\<lparr>g_reg := f (g_reg m)\<rparr>)"
  "put i v m = Done () (m\<lparr>g_reg := set_cur i v (g_reg m)\<rparr>)"
  by (simp_all add: on_regs_def put_def modify_def)

lemma run_seq [simp]: "f m = Done () m' \<Longrightarrow> seq f g m = g m'"
  by (simp add: seq_def)

lemma run_with_ea:
  "cpu_get_effective_addr operand m = Done (ea, apt) m \<Longrightarrow>
     with_ea operand body m =
       body ea apt (m\<lparr>g_reg := (g_reg m)\<lparr>effectiveAddress := ea, useAPT := apt\<rparr>\<rparr>)"
  by (simp add: with_ea_def)

lemma cur_ea [simp]: "cur i (r\<lparr>effectiveAddress := ea, useAPT := apt\<rparr>) = cur i r"
  "gPIL (r\<lparr>effectiveAddress := ea, useAPT := apt\<rparr>) = gPIL r"
  by (simp_all add: cur_def gPIL_def)

lemma run_load:
  "plain_word m a \<Longrightarrow> load_into i a apt m = Done () (m\<lparr>g_reg := set_cur i (plain_content m a) (g_reg m)\<rparr>)"
  by (simp add: load_into_def plain_read)

lemma run_store:
  "plain_word m a \<Longrightarrow> store_from i a apt m = Done () (store_word a (cur i (g_reg m)) m)"
  by (simp add: store_from_def plain_write_word)

lemmas run_plain = run_with_ea run_load run_store plain_word_regs plain_write_word

text \<open>
  STF and LDF are inverse over plain memory. STF stores T, A and D in three consecutive words
  and changes nothing else; whatever the registers hold afterwards, an LDF whose effective
  address is the same word brings back the stored T, A and D, and changes no other register of
  the level and no memory.\<close>

theorem stf_ldf_roundtrip:
  assumes ea: "cpu_get_effective_addr st m = Done (ea, apt) m"
    and plain: "plain_word m ea" "plain_word m (ea + 1)" "plain_word m (ea + 2)"
  shows "\<exists>m1. opcode_stf st m = Done () m1
     \<and> plain_content m1 = (plain_content m)(ea := cur R_T (g_reg m), ea + 1 := cur R_A (g_reg m), ea + 2 := cur R_D (g_reg m))
     \<and> reg (g_reg m1) = reg (g_reg m)
     \<and> (\<forall>r ld apt'. same_mode (g_reg m) r
          \<and> cpu_get_effective_addr ld (m1\<lparr>g_reg := r\<rparr>) = Done (ea, apt') (m1\<lparr>g_reg := r\<rparr>) \<longrightarrow>
        (\<exists>m2. opcode_ldf ld (m1\<lparr>g_reg := r\<rparr>) = Done () m2 \<and> plain_content m2 = plain_content m1
           \<and> (\<forall>i. cur i (g_reg m2) = (if i \<in> {R_T, R_A, R_D} then cur i (g_reg m) else cur i r))))"
proof -
  note [simp] = plain plain_word_regs
  have n: "ea + 1 \<noteq> ea" "ea + 2 \<noteq> ea" "ea + 2 \<noteq> ea + 1" by simp_all
  define m1 where "m1 = store_word (ea + 2) (cur R_D (g_reg m)) (store_word (ea + 1) (cur R_A (g_reg m))
     (store_word ea (cur R_T (g_reg m)) (m\<lparr>g_reg := (g_reg m)\<lparr>effectiveAddress := ea, useAPT := apt\<rparr>\<rparr>)))"
  have "opcode_stf st m = Done () m1"
    by (simp add: opcode_stf_def run_with_ea[OF ea] run_store m1_def)
  moreover have "\<exists>m2. opcode_ldf ld (m1\<lparr>g_reg := r\<rparr>) = Done () m2 \<and> plain_content m2 = plain_content m1
           \<and> (\<forall>i. cur i (g_reg m2) = (if i \<in> {R_T, R_A, R_D} then cur i (g_reg m) else cur i r))"
    if "same_mode (g_reg m) r" "cpu_get_effective_addr ld (m1\<lparr>g_reg := r\<rparr>) = Done (ea, apt') (m1\<lparr>g_reg := r\<rparr>)"
    for r ld apt'
    using that(1) n unfolding opcode_ldf_def run_with_ea[OF that(2)] by (simp add: run_load m1_def)
  moreover have "plain_content m1 = (plain_content m)(ea := cur R_T (g_reg m), ea + 1 := cur R_A (g_reg m), ea + 2 := cur R_D (g_reg m))"
    "reg (g_reg m1) = reg (g_reg m)"
    by (simp_all add: m1_def)
  ultimately show ?thesis by blast
qed

text \<open>
  ENTR builds a frame that LEAVE undoes. When the demanded frame fits below SMAX, ENTR sets B
  to the new frame (STP plus 128), stores the return address L plus 1, the old B, the old SMAX
  and the next free address in it, and skips; LEAVE run later with that B, whatever the other
  registers hold, returns to L plus 1 with the old B. When the frame does not fit, ENTR only
  takes the error return and touches nothing else.\<close>

theorem entr_leave_roundtrip:
  fixes m :: "'d machine"
  defines "p \<equiv> cur R_P (g_reg m)" and "b0 \<equiv> cur R_B (g_reg m)" and "l \<equiv> cur R_L (g_reg m)"
  defines "demand \<equiv> plain_content m p" and "smax \<equiv> plain_content m (b0 - 125)"
    and "b \<equiv> plain_content m (b0 - 126) + 128"
  assumes plain: "\<forall>a \<in> {p, b0 - 125, b0 - 126, b - 128, b - 127, b - 126, b - 125}. plain_word m a"
  shows "if uint b0 + uint demand - 122 > uint smax
    then opcode_entr op m = Done () (m\<lparr>g_reg := set_cur R_P (p + 1) (g_reg m)\<rparr>)
    else \<exists>m1. opcode_entr op m = Done () m1
      \<and> g_reg m1 = set_cur R_P (p + 2) (set_cur R_B b (g_reg m))
      \<and> plain_content m1 = (plain_content m)(b - 128 := l + 1, b - 127 := b0, b - 125 := smax, b - 126 := b + demand - 122)
      \<and> (\<forall>r. same_mode (g_reg m) r \<and> cur R_B r = b \<longrightarrow>
           opcode_leave op' (m1\<lparr>g_reg := r\<rparr>) =
             Done () (m1\<lparr>g_reg := set_cur R_B b0 (set_cur R_P (l + 1) r)\<rparr>))"
proof -
  have [simp]: "plain_word m p" "plain_word m (b0 - 125)" "plain_word m (b0 - 126)" "plain_word m (b - 128)"
    "plain_word m (b - 127)" "plain_word m (b - 126)" "plain_word m (b - 125)"
    using plain by auto
  note fold = p_def[symmetric] b0_def[symmetric] l_def[symmetric]
  have rd: "word_at p False m = Done demand m" "word_at (b0 - 125) True m = Done smax m"
    "word_at (b0 - 126) True m = Done (b - 128) m"
    by (simp_all add: word_at_def plain_read demand_def smax_def b_def)
  show ?thesis
  proof (cases "uint b0 + uint demand - 122 > uint smax")
    case True
    then show ?thesis by (simp add: opcode_entr_def fold rd advance_p_def)
  next
    case False
    define m1 where "m1 = store_word (b - 126) (b + demand - 122) (store_word (b - 125) smax
       (store_word (b - 127) b0 (store_word (b - 128) (l + 1)
          (m\<lparr>g_reg := set_cur R_P (p + 2) (set_cur R_B b (g_reg m))\<rparr>))))"
    have n: "b - 128 \<noteq> b - 127" "b - 128 \<noteq> b - 126" "b - 128 \<noteq> b - 125" "b - 127 \<noteq> b - 126" "b - 127 \<noteq> b - 125" by simp_all
    have "opcode_entr op m = Done () m1"
      using False by (simp add: opcode_entr_def fold rd advance_p_def set_word_def plain_write_word
          plain_word_regs m1_def)
    moreover have "opcode_leave op' (m1\<lparr>g_reg := r\<rparr>) = Done () (m1\<lparr>g_reg := set_cur R_B b0 (set_cur R_P (l + 1) r)\<rparr>)"
      if "same_mode (g_reg m) r" "cur R_B r = b" for r
      using that n by (simp add: opcode_leave_def word_at_def plain_read plain_word_regs m1_def)
    ultimately show ?thesis using False by (simp add: m1_def)
  qed
qed

text \<open>A machine with paging off and no memory error armed: every low word is plain.\<close>

definition plain_machine :: "unit machine" where
  "plain_machine = (demo_machine MMS1)
     \<lparr>g_reg := demo_regs\<lparr>reg_STS := 0, reg := (\<lambda>l i. if i = R_B then 0x200 else if i = R_T then 7 else 5)\<rparr>,
      n_Array := (\<lambda>a. if a = 0x182 then 0x300 else if a = 0x183 then 0x1000 else 0)\<rparr>"

lemma plain_machine_facts:
  "plain_word plain_machine 0x200" "plain_word plain_machine 0x201" "plain_word plain_machine 0x202"
  by code_simp+

lemma plain_machine_ea: "cpu_get_effective_addr 0x100 plain_machine = Done (0x200, True) plain_machine"
proof -
  have "cur R_B (g_reg plain_machine) = 0x200" "cpu_sign_extend (0x100 AND 0xFF) = 0" by code_simp+
  then show ?thesis by (simp add: cpu_get_effective_addr_def Let_def)
qed

theorem stf_ldf_roundtrip_witness:
  "\<exists>m1. opcode_stf 0x100 plain_machine = Done () m1 \<and> plain_content m1 0x200 = 7"
  using stf_ldf_roundtrip[OF plain_machine_ea plain_machine_facts(1)] plain_machine_facts(2,3)
  by (fastforce simp: plain_machine_def cur_def)

lemma plain_frame_facts:
  "\<forall>a \<in> {cur R_P (g_reg plain_machine), cur R_B (g_reg plain_machine) - 125, cur R_B (g_reg plain_machine) - 126,
     plain_content plain_machine (cur R_B (g_reg plain_machine) - 126) + 128 - 128,
     plain_content plain_machine (cur R_B (g_reg plain_machine) - 126) + 128 - 127,
     plain_content plain_machine (cur R_B (g_reg plain_machine) - 126) + 128 - 126,
     plain_content plain_machine (cur R_B (g_reg plain_machine) - 126) + 128 - 125}. plain_word plain_machine a"
  "\<not> uint (cur R_B (g_reg plain_machine)) + uint (plain_content plain_machine (cur R_P (g_reg plain_machine))) - 122
     > uint (plain_content plain_machine (cur R_B (g_reg plain_machine) - 125))"
  by code_simp+

theorem entr_leave_roundtrip_witness:
  "\<exists>m1. opcode_entr 0 plain_machine = Done () m1 \<and> cur R_P (g_reg m1) = 7"
  using entr_leave_roundtrip[OF plain_frame_facts(1), of 0 0] unfolding if_not_P[OF plain_frame_facts(2)]
  apply (elim exE conjE)
  subgoal for m1
    by (rule exI[of _ m1]) (simp add: plain_machine_def cur_def gPIL_def)
  done

lemma sign_extend_byte: "cpu_sign_extend (instr AND 0xFF) = word_of_int (sint (ucast instr :: u8))"
proof -
  have "cpu_sign_extend (instr AND 0xFF) = scast (ucast instr :: u8)"
    by (rule word16_bits) (auto simp: cpu_sign_extend_def all_less_16 bit_simps)
  then show ?thesis by simp
qed

lemma mode_bits: "unat (drop_bit 8 instr AND 0x07) =
    (if bit instr 8 then 1 else 0) + (if bit instr 9 then 2 else 0) + (if bit instr 10 then 4 else 0)"
  for instr :: u16
proof -
  have "drop_bit 8 instr AND 0x07 =
    (if bit instr 8 then 1 else 0) + (if bit instr 9 then 2 else 0) + (if bit instr 10 then 4 else 0)"
    by (rule word16_bits) (auto simp: all_less_16 bit_simps)
  then show ?thesis by simp
qed

lemma plain_indirect:
  "plain_word m a \<Longrightarrow> mms_read_indirect_virtual_memory (ucast a) apt m = Done (plain_content m a) m"
  using plain_read[of m a apt]
  by (simp add: cpu_memory_read_def mms_read_virtual_memory_def mms_read_indirect_virtual_memory_def
      virtual_read_def plain_map)

text \<open>The effective address in plain memory: the displacement is added to P of the instruction, or
  to B, or to nothing; an indirect address is fetched from there through the program's own
  table or the alternative one; the index X is added last, after indirection. The
  alternative page table is used for everything but plain P-relative addresses, and
  computing the address changes nothing.\<close>

theorem effective_address:
  fixes instr m
  defines "base \<equiv> (if bit instr 8 then cur R_B (g_reg m)
                    else if bit instr 10 \<and> \<not> bit instr 9 then 0 else cur R_P (g_reg m) - 1)"
    and "index \<equiv> (if bit instr 10 then cur R_X (g_reg m) else 0)"
  defines "inner \<equiv> base + word_of_int (sint (ucast instr :: u8))"
  assumes "bit instr 9 \<longrightarrow> plain_word m inner"
  shows "cpu_get_effective_addr instr m =
     Done ((if bit instr 9 then plain_content m inner else inner) + index, bit instr 8 \<or> bit instr 9 \<or> bit instr 10) m"
proof -
  have d: "cpu_sign_extend (instr AND 0xFF) = word_of_int (sint (ucast instr :: u8))"
    by (rule sign_extend_byte)
  have mode: "unat (drop_bit 8 instr AND 0x07) = (if bit instr 8 then 1 else 0) + (if bit instr 9 then 2 else 0) + (if bit instr 10 then 4 else 0)"
    by (rule mode_bits)
  show ?thesis
    using assms(4) unfolding cpu_get_effective_addr_def Let_def mode d
    by (cases "bit instr 8"; cases "bit instr 9"; cases "bit instr 10")
      (simp_all add: base_def index_def inner_def plain_indirect add_ac)
qed

theorem effective_address_witness:
  "cpu_get_effective_addr 0x383 plain_machine = Done (0x1000, True) plain_machine"
proof -
  have b: "bit (0x383 :: u16) 8" "bit (0x383 :: u16) 9" "\<not> bit (0x383 :: u16) 10"
    "cur R_B (g_reg plain_machine) = 0x200" "word_of_int (sint (ucast (0x383 :: u16) :: u8)) = (0xFF83 :: u16)"
    "plain_word plain_machine 0x183" "plain_content plain_machine 0x183 = 0x1000"
    by code_simp+
  show ?thesis using effective_address[of "0x383" plain_machine] b(6) by (simp add: b)
qed

lemma sign_test: "push_bit 15 1 AND w = 0 \<longleftrightarrow> 0 \<le> sint w" for w :: u16
proof -
  have "push_bit 15 1 AND w = 0 \<longleftrightarrow> \<not> bit w 15"
    unfolding push_bit_of_1 by (simp only: and.commute[of _ w] and_exp_eq_0_iff_not_bit)
  also have "\<dots> \<longleftrightarrow> 0 \<le> sint w" using uint_16[of w] by (auto simp: sint_16 bit_15)
  finally show ?thesis .
qed

text \<open>
  The conditional jumps test what their names say, on signed values: JAP and JAN the sign of
  A, JAZ and JAF whether A is zero, JXZ and JXN the same for X; JPC and JNC first increment
  X, wrapping at 16 bits, and test the sign of the result. A jump taken goes to the
  instruction's own address plus the signed displacement; nothing else changes.\<close>

theorem conditional_jumps:
  fixes op m
  defines "a \<equiv> sint (cur R_A (g_reg m))" and "x \<equiv> sint (cur R_X (g_reg m))" and "x1 \<equiv> sint (cur R_X (g_reg m) + 1)"
    and "jump \<equiv> \<lambda>r. set_cur R_P (cur R_P r - 1 + word_of_int (sint (ucast op :: u8))) r"
  defines "run \<equiv> \<lambda>c f. Done () (m\<lparr>g_reg := (if c then jump (f (g_reg m)) else f (g_reg m))\<rparr>)"
  shows "opcode_jap op m = run (0 \<le> a) id \<and> opcode_jan op m = run (a < 0) id
    \<and> opcode_jaz op m = run (a = 0) id \<and> opcode_jaf op m = run (a \<noteq> 0) id
    \<and> opcode_jxz op m = run (x = 0) id \<and> opcode_jxn op m = run (x < 0) id
    \<and> opcode_jpc op m = run (0 \<le> x1) (\<lambda>r. set_cur R_X (word_of_int (x + 1)) r)
    \<and> opcode_jnc op m = run (x1 < 0) (\<lambda>r. set_cur R_X (word_of_int (x + 1)) r)"
proof -
  have sgn: "push_bit 15 1 AND w = 0 \<longleftrightarrow> 0 \<le> sint w" "w AND push_bit 15 1 = 0 \<longleftrightarrow> 0 \<le> sint w" for w :: u16
    by (simp_all only: and.commute[of w] sign_test)
  have z: "w = 0 \<longleftrightarrow> sint w = 0" for w :: u16 by (simp add: signed_eq_0_iff)
  show ?thesis
    unfolding opcode_jap_def opcode_jan_def opcode_jaz_def opcode_jaf_def opcode_jxz_def opcode_jxn_def
      opcode_jpc_def opcode_jnc_def run_on_regs cjp_def sign_extend_byte Let_def inc_x_def sgn
    by (simp_all add: run_def jump_def a_def x_def x1_def z not_le)
qed

text \<open>
  MPY in plain memory multiplies A by the addressed word as signed numbers: A receives the
  product modulo 65536, the dynamic overflow bit tells whether its magnitude exceeds 32767,
  and the static overflow bit is set by an overflow and never cleared. The product
  minus 32768, which fits 16 bits, is reported as an overflow.\<close>

theorem mpy_product:
  fixes m :: "'d machine"
  assumes ea: "cpu_get_effective_addr op m = Done (ea, apt) m" and plain: "plain_word m ea"
  defines "product \<equiv> sint (cur R_A (g_reg m)) * sint (plain_content m ea)"
  shows "\<exists>r'. mpy op m = Done () (m\<lparr>g_reg := r'\<rparr>) \<and> cur R_A r' = word_of_int product
    \<and> (- 32768 < product \<and> product < 32768 \<longrightarrow> sint (cur R_A r') = product)
    \<and> reg_bit 0 STS_DYNAMIC_OVERFLOW r' = (\<bar>product\<bar> \<ge> 32768)
    \<and> reg_bit 0 STS_STATIC_OVERFLOW r' = (reg_bit 0 STS_STATIC_OVERFLOW (g_reg m) \<or> \<bar>product\<bar> \<ge> 32768)
    \<and> only_ad_status {4, 5} (g_reg m) r'"
proof -
  define r0 where "r0 = (g_reg m)\<lparr>effectiveAddress := ea, useAPT := apt\<rparr>"
  define r1 where "r1 = cpu_setbit 0 4 False r0"
  define r' where "r' = set_cur R_A (word_of_int product)
     (if \<bar>product\<bar> > 32767 then cpu_setbit 0 5 True (cpu_setbit 0 4 True r1) else r1)"
  have run: "mpy op m = Done () (m\<lparr>g_reg := r'\<rparr>)"
    using plain by (simp add: mpy_def run_with_ea[OF ea] plain_read plain_word_regs product_def r'_def r1_def r0_def Let_def)
  have "only_ad_status {4, 5} (g_reg m) r0"
    by (simp add: only_ad_status_def r0_def reg_bit_def gSTSr_def)
  then have "only_ad_status {4, 5} (g_reg m) r'"
    by (simp add: r'_def r1_def only_ad_status_set_cur only_ad_status_setbit)
  moreover have "reg_bit 0 n (set_cur R_A v r) = reg_bit 0 n r" for n v r
    by (simp add: reg_bit_def bit_gSTSr)
  moreover have "reg_bit 0 n r0 = reg_bit 0 n (g_reg m)" for n
    by (simp add: r0_def reg_bit_def gSTSr_def)
  moreover have "\<bar>product\<bar> > 32767 \<longleftrightarrow> \<bar>product\<bar> \<ge> 32768" by auto
  ultimately show ?thesis
    unfolding run by (intro exI[of _ r'] conjI) (auto simp: r'_def r1_def reg_bit_setbit_low sint_of_int_16)
qed

theorem mpy_product_witness:
  "\<exists>r'. mpy 0x100 (store_word 0x200 0xFFFF plain_machine) =
      Done () ((store_word 0x200 0xFFFF plain_machine)\<lparr>g_reg := r'\<rparr>) \<and> sint (cur R_A r') = - 5"
proof -
  let ?m = "store_word 0x200 0xFFFF plain_machine"
  have b: "cur R_B (g_reg ?m) = 0x200" "cpu_sign_extend (0x100 AND 0xFF) = 0" by code_simp+
  then have ea: "cpu_get_effective_addr 0x100 ?m = Done (0x200, True) ?m"
    by (simp add: cpu_get_effective_addr_def Let_def)
  have p: "sint (cur R_A (g_reg ?m)) * sint (plain_content ?m 0x200) = - 5" by code_simp
  show ?thesis using mpy_product[OF ea] plain_machine_facts(1) unfolding p by auto
qed

text \<open>
  MIN in plain memory increments the addressed word modulo 65536 and skips the next
  instruction exactly when it becomes zero; the other words and the registers but P keep
  their values.\<close>

theorem min_counts:
  fixes m :: "'d machine"
  assumes ea: "cpu_get_effective_addr op m = Done (ea, apt) m" and plain: "plain_word m ea"
  defines "v \<equiv> plain_content m ea + 1"
  shows "\<exists>m'. opcode_min op m = Done () m' \<and> plain_content m' = (plain_content m)(ea := v)
    \<and> cur R_P (g_reg m') = cur R_P (g_reg m) + (if uint (plain_content m ea) = 0xFFFF then 1 else 0)
    \<and> (\<forall>i. i \<noteq> R_P \<longrightarrow> cur i (g_reg m') = cur i (g_reg m))"
proof -
  have "plain_content m ea + 1 = 0 \<longleftrightarrow> plain_content m ea = - 1"
    by (metis add.commute add_diff_cancel_left' diff_0 right_minus)
  also have "\<dots> \<longleftrightarrow> uint (plain_content m ea) = 0xFFFF"
    by (simp add: word_uint_eq_iff uint_word_ariths)
  finally show ?thesis
    using plain unfolding opcode_min_def run_with_ea[OF ea]
    by (simp add: plain_read plain_word_regs plain_write_word skip_next_def Let_def v_def ret_def)
qed

theorem min_counts_witness:
  "\<exists>m'. opcode_min 0x100 plain_machine = Done () m' \<and> plain_content m' 0x200 = 1"
proof -
  have p: "plain_content plain_machine 0x200 = 0" by code_simp
  show ?thesis using min_counts[OF plain_machine_ea plain_machine_facts(1)] unfolding p by auto
qed
end
