(* ===== verification/System.thy ===== *)
theory System
  imports Instr
begin

text \<open>
  The system instructions of \<open>src/cpu/cpu_instr.c\<close>: the privilege check, internal register
  transfers, the inter-level register instructions, register blocks, the test-and-set pair,
  the status switches, WAIT and MON, and the instructions that address physical memory
  directly (the T,X-relative family, EXAM and DEPO, the bit and byte instructions, the bank
  group and the page lists of the core map).
\<close>

section \<open>Privilege\<close>

definition check_priv :: "(bool, 'd) exec" where
  "check_priv m =
     (let r = g_reg m in
      if \<not> STS_PAGING_ON_IS_SET r then Done True m
      else (let pcr = reg_PCR r (gPIL r); ring = pcr AND 0x03
            in if ring = 2 \<or> ring = 3 then Done True m
               else bind_out (cpu_interrupt 14 (push_bit 6 1)) (\<lambda>_. ret False) m))"

text \<open>\<open>if (!check_priv()) { return; }\<close>, then the body.\<close>

definition privileged :: "(unit, 'd) exec \<Rightarrow> (unit, 'd) exec" where
  "privileged body = bind_out check_priv (\<lambda>ok. if ok then body else ret ())"

section \<open>Internal registers\<close>

definition do_mcl :: "u16 \<Rightarrow> (unit, 'd) exec" where
  "do_mcl instr = privileged (on_regs (\<lambda>r.
     let k = instr AND 0x0F; a = cur R_A r in
     if k = 1 then set_cur R_STS (cur R_STS r AND NOT (a AND 0x00FF)) r
     else if k = 6 then r\<lparr>reg_PID := reg_PID r AND NOT a, chkit := True\<rparr>
     else if k = 7 then r\<lparr>reg_PIE := reg_PIE r AND NOT a, chkit := True\<rparr>
     else r))"

definition do_mst :: "u16 \<Rightarrow> (unit, 'd) exec" where
  "do_mst instr = privileged (on_regs (\<lambda>r.
     let k = instr AND 0x0F; a = cur R_A r in
     if k = 1 then set_cur R_STS (cur R_STS r OR (a AND 0x00ff)) r
     else if k = 6 then r\<lparr>reg_PID := reg_PID r OR a, chkit := True\<rparr>
     else if k = 7 then r\<lparr>reg_PIE := reg_PIE r OR a, chkit := True\<rparr>
     else r))"

definition versn_is_nd120 :: "'d machine \<Rightarrow> bool" where
  "versn_is_nd120 m \<longleftrightarrow> g_current_cpu_type m = ND120CX"

text \<open>
  TRA: the internal register selected by the low four bits goes to A. Reading PGS clears it
  and releases its lock, reading IIC clears IIC and IID, reading PEA releases PEA and PES.
\<close>

definition tra_regs :: "u16 \<Rightarrow> 'd machine \<Rightarrow> CpuRegs \<Rightarrow> CpuRegs" where
  "tra_regs instr m r =
     (let k = instr AND 0x0F in
      if k = 0 then set_cur R_A (reg_PANS r) r
      else if k = 1
      then set_cur R_A ((reg r (gPIL r) R_STS AND 0x00FF) OR (reg_STS r AND 0xFF00)) r
      else if k = 2 then set_cur R_A (reg_OPR r) r
      else if k = 3 then (set_gPGS_Lock False (set_cur R_A (reg_PGS r) r))\<lparr>reg_PGS := 0\<rparr>
      else if k = 4 then set_cur R_A (push_bit 3 (reg_PVL r AND 0x0F) OR 0xd782) r
      else if k = 5
      then (let r1 = r\<lparr>reg_IIC := cpu_calc_iic r\<rparr>
            in (set_cur R_A (reg_IIC r1) r1)\<lparr>reg_IIC := 0, reg_IID := 0, chkit := True\<rparr>)
      else if k = 6 then set_cur R_A (reg_PID r) r
      else if k = 7 then set_cur R_A (reg_PIE r) r
      else if k = 8 then set_cur R_A (push_bit 2 1 OR push_bit 3 1) r
      else if k = 9 then set_cur R_A (push_bit (gPIL r) 1) r
      else if k = 10 then set_cur R_A (reg_ALD r) r
      else if k = 11 then set_cur R_A (reg_PES r) r
      else if k = 12
      then (let level = unat (drop_bit 3 (cur R_A r) AND 0x0f);
                a = reg_PCR r level;
                a = (if g_mms_type m = MMS1 then a AND NOT (push_bit 2 1) else a)
            in set_cur R_A (a AND NOT (push_bit 15 1)) r)
      else if k = 13
      then (set_cur R_A (reg_PEA r) r)\<lparr>mylock_PEA := False, mylock_PES := False\<rparr>
      else if k = 15 then set_cur R_A (0x13 OR (if versn_is_nd120 m then 0x8000 else 0)) r
      else r)"

definition do_tra :: "u16 \<Rightarrow> (unit, 'd) exec" where
  "do_tra instr = privileged (\<lambda>m. Done () (m\<lparr>g_reg := tra_regs instr m (g_reg m)\<rparr>))"

text \<open>
  TRR: A goes to the selected register. Writing PANC runs the operator panel
  (\<open>panel_process_terminal_panc\<close>, a device with the host's clock), which may change the panel
  registers: it is the parameter \<open>panc\<close>. Writing LMP clears PANS (\<open>devices/panel/panel.c\<close>).
\<close>

definition trr_regs :: "(CpuRegs \<Rightarrow> CpuRegs) \<Rightarrow> u16 \<Rightarrow> MMSType \<Rightarrow> CpuRegs \<Rightarrow> CpuRegs" where
  "trr_regs panc instr mms r =
     (let k = instr AND 0x0F; a = cur R_A r in
      if k = 0 then panc (r\<lparr>reg_PANC := a\<rparr>)
      else if k = 1 then set_cur R_STS ((cur R_STS r AND 0xff00) OR (a AND 0x00ff)) r
      else if k = 2 then r\<lparr>reg_LMP := a, reg_PANS := 0\<rparr>
      else if k = 3
      then (let level = unat (drop_bit 3 a AND 0x0f);
                temp = (if mms = MMS1 then a AND NOT (push_bit 2 1) else a);
                temp = temp AND NOT (push_bit 3 0x0f)
            in r\<lparr>reg_PCR := (reg_PCR r)(level := temp)\<rparr>)
      else if k = 5 then r\<lparr>reg_IIE := a, chkit := True\<rparr>
      else if k = 6 then r\<lparr>reg_PID := a, chkit := True\<rparr>
      else if k = 7 then r\<lparr>reg_PIE := a, chkit := True\<rparr>
      else if k = 8 then r\<lparr>reg_CCL := a\<rparr>
      else if k = 9 then r\<lparr>reg_LCIL := a\<rparr>
      else if k = 10 then r\<lparr>reg_UCIL := a\<rparr>
      else if k = 13 then r\<lparr>reg_ECCR := a\<rparr>
      else r)"

definition do_trr :: "(CpuRegs \<Rightarrow> CpuRegs) \<Rightarrow> u16 \<Rightarrow> (unit, 'd) exec" where
  "do_trr panc instr = privileged (\<lambda>m. Done () (m\<lparr>g_reg := trr_regs panc instr (g_mms_type m) (g_reg m)\<rparr>))"

definition do_wait :: "(unit, 'd) exec" where
  "do_wait = privileged (\<lambda>m.
     let r = g_reg m in
     if \<not> STS_INTERRUPT_ON_IS_SET r
     then Done () (m\<lparr>g_cpu_exit_code := sint (cur R_A r), CurrentCPURunMode := CPU_STOPPED\<rparr>)
     else if gPIL r = 0 then Done () m
     else Done () (m\<lparr>g_reg := r\<lparr>reg_PID := reg_PID r AND NOT (push_bit (gPIL r) 1), chkit := True\<rparr>\<rparr>))"

definition opcode_halt :: "(unit, 'd) exec" where
  "opcode_halt m = Done () (m\<lparr>g_cpu_exit_code := sint (cur R_A (g_reg m)), CurrentCPURunMode := CPU_STOPPED\<rparr>)"

definition opcode_mon :: "u16 \<Rightarrow> (unit, 'd) exec" where
  "opcode_mon operand m =
     (let monitor_number = operand AND 0x1ff in
      if gPIL (g_reg m) < 14
      then (let n = (if monitor_number AND push_bit 8 1 \<noteq> 0 then monitor_number OR 0xFE00 else monitor_number)
            in seq (on_regs (set_reg 14 R_T n))
                 (seq (cpu_interrupt 14 (push_bit 1 1)) (on_regs (\<lambda>r. r\<lparr>chkit := True\<rparr>))) m)
      else Done () m)"

section \<open>Status switches\<close>

definition sts_msb :: "nat \<Rightarrow> bool \<Rightarrow> (unit, 'd) exec" where
  "sts_msb n v = on_regs (cpu_setbit_sts_msb n v)"

abbreviation (input) STS_EXTENDED_ADDRESSING :: nat where "STS_EXTENDED_ADDRESSING \<equiv> 13"
abbreviation (input) STS_PAGING_ON :: nat where "STS_PAGING_ON \<equiv> 14"
abbreviation (input) STS_INTERRUPT_ON :: nat where "STS_INTERRUPT_ON \<equiv> 15"

definition recheck :: "(unit, 'd) exec" where
  "recheck = on_regs (\<lambda>r. r\<lparr>chkit := True\<rparr>)"

definition opcode_iof :: "(unit, 'd) exec" where
  "opcode_iof = privileged (sts_msb STS_INTERRUPT_ON False)"

definition opcode_ion :: "(unit, 'd) exec" where
  "opcode_ion = seq (sts_msb STS_INTERRUPT_ON True) recheck"

definition opcode_pof :: "(unit, 'd) exec" where
  "opcode_pof = privileged (sts_msb STS_PAGING_ON False)"

definition opcode_piof :: "(unit, 'd) exec" where
  "opcode_piof = privileged (seq (sts_msb STS_INTERRUPT_ON False) (sts_msb STS_PAGING_ON False))"

definition opcode_sex :: "(unit, 'd) exec" where
  "opcode_sex = privileged (sts_msb STS_EXTENDED_ADDRESSING True)"

definition opcode_rex :: "(unit, 'd) exec" where
  "opcode_rex = privileged (sts_msb STS_EXTENDED_ADDRESSING False)"

definition opcode_pon :: "(unit, 'd) exec" where
  "opcode_pon = sts_msb STS_PAGING_ON True"

definition opcode_pion :: "(unit, 'd) exec" where
  "opcode_pion = seq (sts_msb STS_INTERRUPT_ON True) (seq (sts_msb STS_PAGING_ON True) recheck)"

section \<open>Inter-level registers and register blocks\<close>

definition level_field :: "u16 \<Rightarrow> nat" where
  "level_field operand = unat (drop_bit 3 operand AND 0x0F)"

definition register_field :: "u16 \<Rightarrow> nat" where
  "register_field operand = unat (operand AND 0x07)"

definition opcode_irw :: "u16 \<Rightarrow> (unit, 'd) exec" where
  "opcode_irw operand = privileged (on_regs (\<lambda>r.
     let level = level_field operand; dr = register_field operand in
     if level = gPIL r \<and> dr = R_A then r
     else if level = gPIL r \<and> dr = R_P then r
     else if dr = R_STS then set_reg level R_STS (cur R_A r AND 0x00FF) r
     else set_reg level dr (cur R_A r) r))"

definition opcode_irr :: "u16 \<Rightarrow> (unit, 'd) exec" where
  "opcode_irr operand = privileged (on_regs (\<lambda>r.
     let level = level_field operand; sr = register_field operand in
     if sr = 0 then set_cur R_A (reg r level R_STS AND 0xFF) r
     else set_cur R_A (reg r level sr) r))"

definition block_level :: "u16 \<Rightarrow> nat" where
  "block_level operand = unat (drop_bit 3 (operand AND 0x0078))"

text \<open>The eight stores and loads of a register block, in the code's order.\<close>

definition do_srb :: "u16 \<Rightarrow> (unit, 'd) exec" where
  "do_srb operand = privileged (\<lambda>m.
     let lvl = block_level operand; addr = cur R_X (g_reg m);
         v = reg (g_reg m) lvl; sts_temp = v R_STS AND 0x00ff
     in store_seq (write_word True)
          [(addr, v R_P), (addr + 1, v R_X), (addr + 2, v R_T), (addr + 3, v R_A), (addr + 4, v R_D),
           (addr + 5, v R_L), (addr + 6, sts_temp), (addr + 7, v R_B)] m)"

definition load_reg :: "nat \<Rightarrow> nat \<Rightarrow> u16 \<Rightarrow> (unit, 'd) exec" where
  "load_reg lvl i a = bind_out (cpu_memory_read a True) (\<lambda>v. on_regs (set_reg lvl i v))"

definition do_lrb :: "u16 \<Rightarrow> (unit, 'd) exec" where
  "do_lrb operand = privileged (\<lambda>m.
     let lvl = block_level operand; addr = cur R_X (g_reg m) in
     (seq (if lvl \<noteq> gPIL (g_reg m) then load_reg lvl R_P addr else ret ())
     (seq (load_reg lvl R_X (addr + 1))
     (seq (load_reg lvl R_T (addr + 2))
     (seq (load_reg lvl R_A (addr + 3))
     (seq (load_reg lvl R_D (addr + 4))
     (seq (load_reg lvl R_L (addr + 5))
     (seq (bind_out (cpu_memory_read (addr + 6) True)
             (\<lambda>v. on_regs (\<lambda>r. set_reg lvl R_STS ((reg r lvl R_STS AND 0xff00) OR (v AND 0x00ff)) r)))
          (load_reg lvl R_B (addr + 7)))))))) m))"

definition opcode_srb :: "u16 \<Rightarrow> (unit, 'd) exec" where
  "opcode_srb operand = privileged (do_srb operand)"

definition opcode_lrb :: "u16 \<Rightarrow> (unit, 'd) exec" where
  "opcode_lrb operand = privileged (do_lrb operand)"

section \<open>Test and set\<close>

definition mms_tset_take_old :: "'d machine \<Rightarrow> u16 option \<times> 'd machine" where
  "mms_tset_take_old m =
     (if \<not> s_tset_old_valid m then (None, m) else (Some (s_tset_old m), m\<lparr>s_tset_old_valid := False\<rparr>))"

definition tset_take_into_A :: "(unit, 'd) exec" where
  "tset_take_into_A m =
     (case mms_tset_take_old m of
        (Some old, m') \<Rightarrow> put R_A old m'
      | (None, m') \<Rightarrow> Done () m')"

definition do_tset :: "(unit, 'd) exec" where
  "do_tset =
     seq (modify mms_tset_lock_begin)
    (seq (bind_out (get R_T) (\<lambda>t. bind_out (cpu_memory_read t True) (put R_A)))
    (seq (bind_out (get R_T) (\<lambda>t. cpu_memory_write 0xFFFF t True WRITEMODE_WORD))
    (seq tset_take_into_A
         (modify mms_tset_lock_end))))"

definition do_rdus :: "(unit, 'd) exec" where
  "do_rdus = bind_out (get R_T) (\<lambda>t. bind_out (cpu_memory_read t True) (put R_A))"

section \<open>Physical memory\<close>

text \<open>The C conversions between \<open>uint32_t\<close> addresses and the \<open>int\<close> parameter.\<close>

definition phys_read :: "u32 \<Rightarrow> (u16, 'd) exec" where
  "phys_read a = mms_read_physical_memory (sint a) True"

definition phys_write :: "u32 \<Rightarrow> u16 \<Rightarrow> (unit, 'd) exec" where
  "phys_write a v = mms_write_physical_memory (sint a) v True"

text \<open>A word in a 64 K bank: \<open>((bank & 0xFF) << 16) | offset\<close>.\<close>

definition bank_address :: "u16 \<Rightarrow> u16 \<Rightarrow> u32" where
  "bank_address bank offset = push_bit 16 (ucast (bank AND 0xFF)) OR ucast offset"

definition calc_el :: "u16 \<Rightarrow> CpuRegs \<Rightarrow> u32" where
  "calc_el displacement r = bank_address (cur R_T r) (cur R_X r + displacement) AND 0xFFFFFF"

definition displacement_field :: "u16 \<Rightarrow> u16" where
  "displacement_field operand = drop_bit 3 operand AND 0x07"

definition with_el :: "u16 \<Rightarrow> (u32 \<Rightarrow> (unit, 'd) exec) \<Rightarrow> (unit, 'd) exec" where
  "with_el operand body = privileged (\<lambda>m. body (calc_el (displacement_field operand) (g_reg m)) m)"

definition phys_load :: "nat \<Rightarrow> u32 \<Rightarrow> (unit, 'd) exec" where
  "phys_load i a = bind_out (phys_read a) (put i)"

definition phys_store :: "nat \<Rightarrow> u32 \<Rightarrow> (unit, 'd) exec" where
  "phys_store i a = bind_out (get i) (phys_write a)"

definition opcode_ldatx :: "u16 \<Rightarrow> (unit, 'd) exec" where "opcode_ldatx operand = with_el operand (phys_load R_A)"
definition opcode_ldxtx :: "u16 \<Rightarrow> (unit, 'd) exec" where "opcode_ldxtx operand = with_el operand (phys_load R_X)"

definition opcode_lddtx :: "u16 \<Rightarrow> (unit, 'd) exec" where
  "opcode_lddtx operand = with_el operand (\<lambda>el. seq (phys_load R_A el) (phys_load R_D (el + 1)))"

definition opcode_ldbtx :: "u16 \<Rightarrow> (unit, 'd) exec" where
  "opcode_ldbtx operand = with_el operand (\<lambda>el. bind_out (phys_read el) (\<lambda>temp. put R_B ((temp + temp) OR 0xFE00)))"

definition opcode_statx :: "u16 \<Rightarrow> (unit, 'd) exec" where "opcode_statx operand = with_el operand (phys_store R_A)"
definition opcode_stztx :: "u16 \<Rightarrow> (unit, 'd) exec" where "opcode_stztx operand = with_el operand (\<lambda>el. phys_write el 0)"

definition opcode_stdtx :: "u16 \<Rightarrow> (unit, 'd) exec" where
  "opcode_stdtx operand = with_el operand (\<lambda>el. seq (phys_store R_A el) (phys_store R_D (el + 1)))"

definition opcode_exam :: "(unit, 'd) exec" where
  "opcode_exam = privileged (\<lambda>m. phys_load R_T (bank_address (cur R_A (g_reg m)) (cur R_D (g_reg m))) m)"

definition opcode_depo :: "(unit, 'd) exec" where
  "opcode_depo = privileged (\<lambda>m. phys_store R_T (bank_address (cur R_A (g_reg m)) (cur R_D (g_reg m))) m)"

section \<open>Bits and bytes\<close>

definition load_K :: "nat \<Rightarrow> u16 \<Rightarrow> (unit, 'd) exec" where
  "load_K n word = on_regs (cpu_setbit R_STS STS_BIT_ACCUMULATOR (drop_bit n word AND 1 \<noteq> 0))"

definition with_K :: "nat \<Rightarrow> u16 \<Rightarrow> CpuRegs \<Rightarrow> u16" where
  "with_K n word r =
     (if drop_bit 2 (reg r (gPIL r) R_STS) AND 0x01 \<noteq> 0 then word OR push_bit n 1 else word AND NOT (push_bit n 1))"

definition bit_in_word :: "CpuRegs \<Rightarrow> nat" where
  "bit_in_word r = unat (cur R_A r AND 0x0F)"

definition bit_word_offset :: "CpuRegs \<Rightarrow> u16" where
  "bit_word_offset r = cur R_X r + drop_bit 4 (cur R_A r)"

definition bit_phys :: "CpuRegs \<Rightarrow> u32" where
  "bit_phys r = bank_address (cur R_T r) (bit_word_offset r)"

definition opcode_lbit :: "(unit, 'd) exec" where
  "opcode_lbit = privileged (\<lambda>m. let r = g_reg m in
     bind_out (mms_read_virtual_memory (ucast (bit_word_offset r)) True) (load_K (bit_in_word r)) m)"

definition opcode_lbitp :: "(unit, 'd) exec" where
  "opcode_lbitp = privileged (\<lambda>m. let r = g_reg m in
     bind_out (phys_read (bit_phys r)) (load_K (bit_in_word r)) m)"

definition opcode_sbit :: "(unit, 'd) exec" where
  "opcode_sbit = privileged (\<lambda>m. let r = g_reg m; a = bit_word_offset r; n = bit_in_word r in
     bind_out (mms_read_virtual_memory (ucast a) True)
       (\<lambda>word m. mms_write_virtual_memory (ucast a) (with_K n word (g_reg m)) True WRITEMODE_WORD m) m)"

definition opcode_sbitp :: "(unit, 'd) exec" where
  "opcode_sbitp = privileged (\<lambda>m. let r = g_reg m; a = bit_phys r; n = bit_in_word r in
     bind_out (phys_read a) (\<lambda>word m. phys_write a (with_K n word (g_reg m)) m) m)"

definition byte_phys :: "CpuRegs \<Rightarrow> u32" where
  "byte_phys r = bank_address (cur R_D r) (cur R_T r + drop_bit 1 (cur R_X r))"

definition odd_byte :: "CpuRegs \<Rightarrow> bool" where
  "odd_byte r \<longleftrightarrow> cur R_X r AND 1 \<noteq> 0"

definition opcode_lbytp :: "(unit, 'd) exec" where
  "opcode_lbytp = privileged (\<lambda>m.
     bind_out (phys_read (byte_phys (g_reg m)))
       (\<lambda>memval. on_regs (\<lambda>r. set_cur R_A (if odd_byte r then memval AND 0xFF else drop_bit 8 memval AND 0xFF) r)) m)"

definition opcode_sbytp :: "(unit, 'd) exec" where
  "opcode_sbytp = privileged (\<lambda>m. let a = byte_phys (g_reg m) in
     bind_out (phys_read a) (\<lambda>memval m.
       let b = cur R_A (g_reg m) AND 0xFF in
       phys_write a (if odd_byte (g_reg m) then (memval AND 0xFF00) OR b
                     else (memval AND 0x00FF) OR push_bit 8 b) m) m)"

definition opcode_tsetp :: "(unit, 'd) exec" where
  "opcode_tsetp = privileged (\<lambda>m. let a = bank_address (cur R_T (g_reg m)) (cur R_X (g_reg m)) in
     (seq (modify mms_tset_lock_begin)
     (seq (phys_load R_A a)
     (seq (phys_write a 0xFFFF)
     (seq tset_take_into_A
          (modify mms_tset_lock_end))))) m)"

definition opcode_rdusp :: "(unit, 'd) exec" where
  "opcode_rdusp = privileged (\<lambda>m. phys_load R_A (bank_address (cur R_T (g_reg m)) (cur R_X (g_reg m))) m)"

section \<open>The bank registers\<close>

definition nd110_bankgroup_phys :: "u16 \<Rightarrow> u16 \<Rightarrow> u16 \<Rightarrow> u32" where
  "nd110_bankgroup_phys bank index operand = bank_address bank (index + displacement_field operand)"

definition st_bank :: "u16 \<Rightarrow> CpuRegs \<Rightarrow> u32" where
  "st_bank operand r = nd110_bankgroup_phys (reg_STBNK r) (cur R_B r) operand"

definition cm_bank :: "u16 \<Rightarrow> CpuRegs \<Rightarrow> u32" where
  "cm_bank operand r = nd110_bankgroup_phys (reg_CMBUK r) (cur R_X r) operand"

definition at_bank :: "(CpuRegs \<Rightarrow> u32) \<Rightarrow> (u32 \<Rightarrow> (unit, 'd) exec) \<Rightarrow> (unit, 'd) exec" where
  "at_bank addr body = privileged (\<lambda>m. body (addr (g_reg m)) m)"

definition opcode_lasb :: "u16 \<Rightarrow> (unit, 'd) exec" where "opcode_lasb operand = at_bank (st_bank operand) (phys_load R_A)"
definition opcode_sasb :: "u16 \<Rightarrow> (unit, 'd) exec" where "opcode_sasb operand = at_bank (st_bank operand) (phys_store R_A)"
definition opcode_lacb :: "u16 \<Rightarrow> (unit, 'd) exec" where "opcode_lacb operand = at_bank (cm_bank operand) (phys_load R_A)"
definition opcode_sacb :: "u16 \<Rightarrow> (unit, 'd) exec" where "opcode_sacb operand = at_bank (cm_bank operand) (phys_store R_A)"
definition opcode_lxsb :: "u16 \<Rightarrow> (unit, 'd) exec" where "opcode_lxsb operand = at_bank (st_bank operand) (phys_load R_X)"
definition opcode_lxcb :: "u16 \<Rightarrow> (unit, 'd) exec" where "opcode_lxcb operand = at_bank (cm_bank operand) (phys_load R_X)"
definition opcode_szsb :: "u16 \<Rightarrow> (unit, 'd) exec" where "opcode_szsb operand = at_bank (st_bank operand) (\<lambda>a. phys_write a 0)"
definition opcode_szcb :: "u16 \<Rightarrow> (unit, 'd) exec" where "opcode_szcb operand = at_bank (cm_bank operand) (\<lambda>a. phys_write a 0)"

definition opcode_wglob :: "(unit, 'd) exec" where
  "opcode_wglob = privileged (on_regs (\<lambda>r.
     r\<lparr>reg_STBNK := cur R_T r, reg_STSRT := cur R_A r, reg_CMBUK := cur R_D r\<rparr>))"

definition opcode_rglob :: "(unit, 'd) exec" where
  "opcode_rglob = privileged (on_regs (\<lambda>r.
     set_cur R_D (reg_CMBUK r) (set_cur R_A (reg_STSRT r) (set_cur R_T (reg_STBNK r) r))))"

section \<open>The page lists of the core map\<close>

text \<open>
  A segment's pages are a doubly linked list: the head in word 7 of its segment-table entry,
  the forward and back links in words 0 and 1 of each core-map entry. The back link of the
  first page is the anchor marker of the segment.
\<close>

definition opcode_inspl :: "(unit, 'd) exec" where
  "opcode_inspl = privileged (\<lambda>m.
     let r = g_reg m;
         st = bank_address (reg_STBNK r); cm = bank_address (reg_CMBUK r);
         b_reg = cur R_B r; x_reg = cur R_X r; t_reg = cur R_T r
     in bind_out (phys_read (st (b_reg + 7))) (\<lambda>old_head.
        seq (phys_write (st (b_reg + 7)) x_reg)
       (seq (phys_write (cm x_reg) old_head)
       (bind_out
          (if old_head = 0
           then (\<lambda>m. let seg_index = drop_bit 1 (b_reg - reg_STSRT (g_reg m)) in ret (seg_index OR 3) m)
           else bind_out (phys_read (cm (old_head + 1))) (\<lambda>marker.
                  seq (phys_write (cm (old_head + 1)) x_reg) (ret marker)))
          (\<lambda>marker.
            seq (phys_write (cm (x_reg + 1)) marker)
                (phys_write (cm (x_reg + 3)) t_reg))))) m)"

definition opcode_rempl :: "(unit, 'd) exec" where
  "opcode_rempl = privileged (\<lambda>m.
     let r = g_reg m;
         st = bank_address (reg_STBNK r); cm = bank_address (reg_CMBUK r); x_reg = cur R_X r
     in bind_out (phys_read (cm x_reg)) (\<lambda>r1.
        bind_out (phys_read (cm (x_reg + 1))) (\<lambda>r2.
        seq (if r2 AND 3 \<noteq> 0
             then (\<lambda>m. phys_write (st ((reg_STSRT (g_reg m) + 2 * r2) OR 7)) r1 m)
             else phys_write (cm r2) r1)
       (seq (if r1 \<noteq> 0 then phys_write (cm (r1 + 1)) r2 else ret ())
       (seq (phys_write (cm x_reg) 0)
            (phys_write (cm (x_reg + 1)) 0))))) m)"
end
