(* ===== verification/SystemLaws.thy ===== *)
theory SystemLaws
  imports System
begin

text \<open>
  What the system instructions guarantee: the privilege check, plain physical words as a second
  provider of the word-memory contract, the round trips of the register, block, word, bit and
  byte instructions, and the discipline of the test-and-set lock.
\<close>

section \<open>Privilege\<close>

text \<open>Every instruction whose C function starts with the privilege check.\<close>

definition privileged_instructions :: "(CpuRegs \<Rightarrow> CpuRegs) \<Rightarrow> u16 \<Rightarrow> (unit, 'd) exec list" where
  "privileged_instructions panc op =
     [do_mcl op, do_mst op, do_tra op, do_trr panc op, do_wait, opcode_iof, opcode_pof, opcode_piof,
      opcode_sex, opcode_rex, opcode_irw op, opcode_irr op, do_srb op, do_lrb op, opcode_srb op, opcode_lrb op,
      opcode_ldatx op, opcode_ldxtx op, opcode_lddtx op, opcode_ldbtx op, opcode_statx op, opcode_stztx op,
      opcode_stdtx op, opcode_exam, opcode_depo, opcode_lbit, opcode_lbitp, opcode_sbit, opcode_sbitp,
      opcode_lbytp, opcode_sbytp, opcode_tsetp, opcode_rdusp, opcode_lasb op, opcode_sasb op, opcode_lacb op,
      opcode_sacb op, opcode_lxsb op, opcode_lxcb op, opcode_szsb op, opcode_szcb op, opcode_wglob,
      opcode_rglob, opcode_inspl, opcode_rempl]"

lemma check_priv_refuse:
  assumes "STS_PAGING_ON_IS_SET (g_reg m)" "pcr_of m AND 3 \<in> {0, 1}"
  shows "check_priv m = Done False (m\<lparr>g_reg := interrupt_regs 14 (push_bit 6 1) (g_reg m)\<rparr>)"
  using assms by (auto simp: check_priv_def pcr_of_def Let_def cpu_interrupt_def)

lemma privileged_refuse:
  assumes "STS_PAGING_ON_IS_SET (g_reg m)" "pcr_of m AND 3 \<in> {0, 1}"
  shows "privileged body m = Done () (m\<lparr>g_reg := interrupt_regs 14 (push_bit 6 1) (g_reg m)\<rparr>)"
  by (simp add: privileged_def check_priv_refuse[OF assms] bind_out_def ret_def)

lemma raised_pid:
  assumes "n < 16" "bit c n" "bit (reg_IIE (interrupt_regs 14 c r)) n"
  shows "bit (reg_PID (interrupt_regs 14 c r)) 14"
proof -
  have "internal_request (r\<lparr>reg_IID := reg_IID r OR c\<rparr>)"
    using assms by (auto simp: internal_request_def bit_or_iff)
  moreover have "(reg_IID r OR c) AND reg_IIE r \<noteq> 0"
    using assms by (auto simp: word_and_ne_0 bit_or_iff)
  ultimately show ?thesis
    by (simp add: interrupt_regs_def Let_def recalc_PID bit_or_iff)
qed

lemmas privileged_defs = do_mcl_def do_mst_def do_tra_def do_trr_def do_wait_def opcode_iof_def opcode_pof_def
  opcode_piof_def opcode_sex_def opcode_rex_def opcode_irw_def opcode_irr_def do_srb_def do_lrb_def
  opcode_srb_def opcode_lrb_def opcode_ldatx_def opcode_ldxtx_def opcode_lddtx_def opcode_ldbtx_def
  opcode_statx_def opcode_stztx_def opcode_stdtx_def with_el_def opcode_exam_def opcode_depo_def
  opcode_lbit_def opcode_lbitp_def opcode_sbit_def opcode_sbitp_def opcode_lbytp_def opcode_sbytp_def
  opcode_tsetp_def opcode_rdusp_def opcode_lasb_def opcode_sasb_def opcode_lacb_def opcode_sacb_def
  opcode_lxsb_def opcode_lxcb_def opcode_szsb_def opcode_szcb_def at_bank_def opcode_wglob_def
  opcode_rglob_def opcode_inspl_def opcode_rempl_def

text \<open>
  A privileged instruction in ring 0 or 1 has no effect but the report: with paging on, every
  one of them leaves memory, the page tables, all registers of all levels and the status word
  as they were and records cause 6 (privileged instruction) in IID; it does not trap out of
  the instruction.\<close>

theorem privileged_refused:
  assumes "STS_PAGING_ON_IS_SET (g_reg m)" and "pcr_of m AND 3 \<in> {0, 1}"
    and "f \<in> set (privileged_instructions panc op)"
  shows "\<exists>r. f m = Done () (m\<lparr>g_reg := r\<rparr>) \<and> same_context (g_reg m) r \<and> bit (reg_IID r) 6
    \<and> (\<forall>n. n \<noteq> 5 \<and> n \<noteq> 6 \<longrightarrow> bit (reg_IID r) n = bit (reg_IID (g_reg m)) n)
    \<and> (bit (reg_IIE r) 6 \<longrightarrow> bit (reg_PID r) 14)"
proof -
  define r where "r = interrupt_regs 14 (push_bit 6 1) (g_reg m)"
  have "f m = Done () (m\<lparr>g_reg := r\<rparr>)"
    using assms(3) unfolding privileged_instructions_def r_def
    by (auto simp: privileged_refuse[OF assms(1,2)] privileged_defs simp del: push_bit_numeral)
  moreover have "bit (reg_IID r) n = (bit (reg_IID (g_reg m)) n \<or> n = 6 \<or> n = 5 \<and> reg_bit 0 3 (g_reg m))" for n
    unfolding r_def interrupt_regs_IID by (auto simp: bit_or_iff)
  moreover have "bit (reg_IIE r) 6 \<longrightarrow> bit (reg_PID r) 14"
    unfolding r_def by (rule impI, rule raised_pid[of 6]) simp_all
  ultimately show ?thesis by (intro exI[of _ r]) (simp add: r_def)
qed

definition user_machine :: "unit machine" where
  "user_machine = (demo_machine MMS1)\<lparr>g_reg := demo_regs\<lparr>reg_STS := 0x4000\<rparr>\<rparr>"

theorem privileged_refused_witness:
  "\<exists>r. opcode_depo user_machine = Done () (user_machine\<lparr>g_reg := r\<rparr>) \<and> bit (reg_IID r) 6"
proof -
  have "STS_PAGING_ON_IS_SET (g_reg user_machine)" "pcr_of user_machine AND 3 \<in> {0, 1}" by code_simp+
  then show ?thesis
    using privileged_refused[of user_machine opcode_depo id 0]
    by (auto simp: privileged_instructions_def)
qed

section \<open>Plain physical words\<close>

text \<open>
  The physical instructions pass the privileged flag: the shadow window is then open to them,
  so a plain physical word lies outside it, outside backed banks, in installed memory and
  without an armed or latched memory error.
\<close>

definition plain_physical :: "'d machine \<Rightarrow> u32 \<Rightarrow> bool" where
  "plain_physical m a \<longleftrightarrow>
     0 \<le> sint a \<and> \<not> mms_is_address_shadow_memory a True m \<and> backed_read a m = None \<and> backed_write a m = None
     \<and> a < g_nd_memsize m \<and> reg_ECCR (g_reg m) AND 0x13 = 0 \<and> g_ecc_latch m (unat a) = 0"

definition phys_content :: "'d machine \<Rightarrow> u32 \<Rightarrow> u16" where
  "phys_content m a = n_Array m (unat a)"

definition store_phys :: "u32 \<Rightarrow> u16 \<Rightarrow> 'd machine \<Rightarrow> 'd machine" where
  "store_phys a v m = m\<lparr>n_Array := (n_Array m)(unat a := v)\<rparr>"

lemma nat_sint: "0 \<le> sint a \<Longrightarrow> nat (sint a) = unat a" for a :: u32
proof -
  assume "0 \<le> sint a"
  then have "take_bit 32 (sint a) = sint a"
    using sint_32_range[of a] by (intro take_bit_int_eq_self) auto
  then have "uint a = sint a" using uint_sint[of a] by simp
  then show ?thesis by (simp flip: \<open>uint a = sint a\<close>)
qed

lemma store_phys_sel [simp]:
  "g_reg (store_phys a v m) = g_reg m"
  "plain_physical (store_phys a v m) = plain_physical m"
  "phys_content (store_phys a v m) = (phys_content m)(a := v)"
  "sans_memory (store_phys a v m) = sans_memory m"
  "(store_phys a v m)\<lparr>g_reg := r\<rparr> = store_phys a v (m\<lparr>g_reg := r\<rparr>)"
  by (auto simp: store_phys_def plain_physical_def phys_content_def fun_eq_iff word_unat_eq_iff
      mms_is_address_shadow_memory_def Let_def backed_read_def backed_write_def)

lemma phys_content_regs [simp]: "phys_content (m\<lparr>g_reg := r\<rparr>) = phys_content m"
  by (simp add: fun_eq_iff phys_content_def)

lemma plain_physical_regs:
  "same_mode (g_reg m) r \<Longrightarrow> plain_physical (m\<lparr>g_reg := r\<rparr>) = plain_physical m"
  by (simp add: fun_eq_iff plain_physical_def STS_PAGING_ON_IS_SET_def STS_EXTENDED_ADDRESSING_IS_SET_def gPIL_def
      mms_is_address_shadow_memory_def Let_def backed_read_def backed_write_def same_mode_def)

lemma run_phys_read:
  assumes "plain_physical m a"
  shows "phys_read a m = Done (phys_content m a) m"
proof -
  have "nat (sint a) = unat a" using assms nat_sint by (simp add: plain_physical_def)
  moreover have "nd_ecc_read_detect (sint a) m = Done () m"
    using assms nat_sint[of a] by (simp add: nd_ecc_read_detect_def plain_physical_def Let_def)
  ultimately show ?thesis
    using assms by (auto simp: phys_read_def mms_read_physical_memory_def plain_physical_def phys_content_def)
qed

lemma run_phys_write: "plain_physical m a \<Longrightarrow> phys_write a v m = Done () (store_phys a v m)"
  using sim_bits_clear[of "reg_ECCR (g_reg m)"]
  by (auto simp: phys_write_def mms_write_physical_memory_def mms_write_physical_memory_wm_def plain_physical_def
      store_phys_def nat_sint nd_ecc_write_latch_def Let_def not_le merge_word_def)

interpretation physical: word_memory phys_read phys_write phys_content plain_physical sans_memory
proof unfold_locales
  fix s :: "'b machine" and a v
  assume ok: "plain_physical s a"
  then show "phys_read a s = Done (phys_content s a) s" by (rule run_phys_read)
  show "\<exists>s'. phys_write a v s = Done () s' \<and> phys_content s' = (phys_content s)(a := v)
          \<and> plain_physical s' = plain_physical s \<and> sans_memory s' = sans_memory s"
    using run_phys_write[OF ok] by auto
qed

lemma plain_check_priv [simp]: "plain_word m a \<Longrightarrow> check_priv m = Done True m"
  by (simp add: check_priv_def plain_word_def)

lemma privileged_run: "check_priv m = Done True m \<Longrightarrow> privileged body m = body m"
  by (simp add: privileged_def)

section \<open>Register blocks\<close>

lemma run_load_reg:
  "plain_word m a \<Longrightarrow> load_reg lvl i a m = Done () (m\<lparr>g_reg := set_reg lvl i (plain_content m a) (g_reg m)\<rparr>)"
  by (simp add: load_reg_def plain_read)

lemma same_mode_set_reg [simp]: "same_mode r (set_reg l i v r') = same_mode r r'"
  by (simp add: same_mode_def set_reg_def)

text \<open>C4
  SRB and LRB save and restore a level's registers. In plain memory SRB writes the block P, X,
  T, A, D, L, status byte, B at the address in X and changes no register; an LRB of the same
  level executed later, with X at the block and whatever the registers then hold, brings back
  the saved registers: all but P when the level is the current one, and only the low byte of
  the level's status. The registers of the other levels and memory keep their values.\<close>

theorem srb_lrb_roundtrip:
  fixes m :: "'d machine" and op :: u16
  defines "a \<equiv> cur R_X (g_reg m)" and "lvl \<equiv> block_level op" and "saved \<equiv> reg (g_reg m) (block_level op)"
  assumes plain: "\<forall>k \<in> {0, 1, 2, 3, 4, 5, 6, 7}. plain_word m (a + k)"
  shows "\<exists>m1. opcode_srb op m = Done () m1 \<and> g_reg m1 = g_reg m
    \<and> (\<forall>b. b \<notin> {a, a + 1, a + 2, a + 3, a + 4, a + 5, a + 6, a + 7} \<longrightarrow> plain_content m1 b = plain_content m b)
    \<and> (\<forall>r. same_mode (g_reg m) r \<and> cur R_X r = a \<longrightarrow>
        (\<exists>r'. opcode_lrb op (m1\<lparr>g_reg := r\<rparr>) = Done () (m1\<lparr>g_reg := r'\<rparr>)
           \<and> reg r' lvl = (reg r lvl)(R_P := (if lvl = gPIL r then reg r lvl R_P else saved R_P),
                 R_X := saved R_X, R_T := saved R_T, R_A := saved R_A, R_D := saved R_D, R_L := saved R_L,
                 R_STS := (reg r lvl R_STS AND 0xff00) OR (saved R_STS AND 0x00ff), R_B := saved R_B)
           \<and> (\<forall>l. l \<noteq> lvl \<longrightarrow> reg r' l = reg r l)))"
proof -
  have p: "plain_word m a" "plain_word m (a + 1)" "plain_word m (a + 2)" "plain_word m (a + 3)"
    "plain_word m (a + 4)" "plain_word m (a + 5)" "plain_word m (a + 6)" "plain_word m (a + 7)"
    using plain by simp_all
  define ps where "ps = [(a, saved R_P), (a + 1, saved R_X), (a + 2, saved R_T), (a + 3, saved R_A), (a + 4, saved R_D),
           (a + 5, saved R_L), (a + 6, saved R_STS AND 0x00ff), (a + 7, saved R_B)]"
  have "\<forall>q\<in>set ps. plain_word m (fst q)" "distinct (map fst ps)" using p by (simp_all add: ps_def)
  then obtain m1 where m1: "store_seq (write_word True) ps m = Done () m1" "plain_word m1 = plain_word m"
    "sans_memory m1 = sans_memory m"
    and content: "plain_content m1 = (\<lambda>b. case map_of ps b of Some v \<Rightarrow> v | None \<Rightarrow> plain_content m b)"
    using plain.store_seq_ok[where apt = True, of ps m] by blast
  have g: "g_reg m1 = g_reg m" using arg_cong[OF m1(3), of g_reg] by (simp add: sans_memory_def)
  have srb: "opcode_srb op m = Done () m1"
    using m1(1) p(1) unfolding opcode_srb_def do_srb_def
    by (simp add: privileged_run ps_def a_def saved_def Let_def)
  have c: "plain_content m1 a = saved R_P" "plain_content m1 (a + 1) = saved R_X" "plain_content m1 (a + 2) = saved R_T"
    "plain_content m1 (a + 3) = saved R_A" "plain_content m1 (a + 4) = saved R_D" "plain_content m1 (a + 5) = saved R_L"
    "plain_content m1 (a + 6) = saved R_STS AND 0x00ff" "plain_content m1 (a + 7) = saved R_B"
    by (simp_all add: content ps_def)
  have out: "plain_content m1 b = plain_content m b"
    if "b \<notin> {a, a + 1, a + 2, a + 3, a + 4, a + 5, a + 6, a + 7}" for b
    using that by (auto simp: content ps_def split: option.split)
  have lrb: "\<exists>r'. opcode_lrb op (m1\<lparr>g_reg := r\<rparr>) = Done () (m1\<lparr>g_reg := r'\<rparr>)
           \<and> reg r' lvl = (reg r lvl)(R_P := (if lvl = gPIL r then reg r lvl R_P else saved R_P),
                 R_X := saved R_X, R_T := saved R_T, R_A := saved R_A, R_D := saved R_D, R_L := saved R_L,
                 R_STS := (reg r lvl R_STS AND 0xff00) OR (saved R_STS AND 0x00ff), R_B := saved R_B)
           \<and> (\<forall>l. l \<noteq> lvl \<longrightarrow> reg r' l = reg r l)"
    if r: "same_mode (g_reg m) r" "cur R_X r = a" for r
  proof -
    have pw: "plain_word (m1\<lparr>g_reg := q\<rparr>) = plain_word m" if "same_mode (g_reg m) q" for q
      using plain_word_regs[of m1 q] that by (simp add: g m1(2))
    have cp: "check_priv (m1\<lparr>g_reg := r\<rparr>) = Done True (m1\<lparr>g_reg := r\<rparr>)"
      using plain_check_priv[of "m1\<lparr>g_reg := r\<rparr>" a] by (simp add: pw[OF r(1)] p)
    show ?thesis
      unfolding opcode_lrb_def privileged_run[OF cp] do_lrb_def Let_def
      using p r by (cases "lvl = gPIL r")
        (simp_all add: lvl_def[symmetric] run_load_reg pw c plain_read,
          (rule exI, rule conjI, rule refl, simp add: fun_eq_iff)+)
  qed
  show ?thesis using srb g out lrb by blast
qed

lemma plain_block_facts:
  "\<forall>k \<in> {0, 1, 2, 3, 4, 5, 6, 7}. plain_word plain_machine (cur R_X (g_reg plain_machine) + k)"
  by code_simp

theorem srb_lrb_roundtrip_witness:
  "\<exists>m1 r'. opcode_srb 0x18 plain_machine = Done () m1
     \<and> opcode_lrb 0x18 (m1\<lparr>g_reg := set_reg 3 R_B 9 (g_reg plain_machine)\<rparr>) = Done () (m1\<lparr>g_reg := r'\<rparr>)
     \<and> reg r' 3 R_B = 0x200"
proof -
  have l: "block_level 0x18 = 3" "gPIL (g_reg plain_machine) = 0" "reg (g_reg plain_machine) 3 R_B = 0x200"
    by code_simp+
  obtain m1 where m1: "opcode_srb 0x18 plain_machine = Done () m1"
    "\<And>r. same_mode (g_reg plain_machine) r \<Longrightarrow> cur R_X r = cur R_X (g_reg plain_machine) \<Longrightarrow>
       \<exists>r'. opcode_lrb 0x18 (m1\<lparr>g_reg := r\<rparr>) = Done () (m1\<lparr>g_reg := r'\<rparr>) \<and> reg r' 3 R_B = 0x200"
    using srb_lrb_roundtrip[OF plain_block_facts, of "0x18"] unfolding l(1,3) by fastforce
  have "cur R_X (set_reg 3 R_B 9 (g_reg plain_machine)) = cur R_X (g_reg plain_machine)"
    by (simp add: cur_def l)
  then show ?thesis using m1(1) m1(2)[of "set_reg 3 R_B 9 (g_reg plain_machine)"] by auto
qed

section \<open>Test and set\<close>

text \<open>The lock's callbacks, and what an access may do to them: nothing, unless it traps.\<close>

definition lock_view :: "'d machine \<Rightarrow> bool list \<times> bool \<times> bool" where
  "lock_view m = (tset_calls m, s_tset_lock_held m, s_tset_lock_fn m)"

definition keeps_lock :: "'d machine \<Rightarrow> ('a, 'd machine) outcome \<Rightarrow> bool" where
  "keeps_lock m res \<longleftrightarrow> (case res of Done _ m' \<Rightarrow> lock_view m' = lock_view m
                        | Trap m' \<Rightarrow> lock_view m' = lock_view (mms_tset_lock_end m))"

lemma lock_end_view: "lock_view m' = lock_view m \<Longrightarrow> lock_view (mms_tset_lock_end m') = lock_view (mms_tset_lock_end m)"
  by (auto simp: lock_view_def mms_tset_lock_end_def Let_def)

lemma lock_view_g_reg [simp]: "lock_view (g_reg_update f m) = lock_view m"
  by (simp add: lock_view_def)

lemma keeps_lock_Done [simp]: "keeps_lock m (Done x m') \<longleftrightarrow> lock_view m' = lock_view m"
  by (simp add: keeps_lock_def)

lemma keeps_lock_bind:
  assumes "keeps_lock m (f m)" and "\<And>x m'. f m = Done x m' \<Longrightarrow> lock_view m' = lock_view m \<Longrightarrow> keeps_lock m' (g x m')"
  shows "keeps_lock m (bind_out f g m)"
proof (cases "f m")
  case (Done x m')
  then have v: "lock_view m' = lock_view m" using assms(1) by simp
  from assms(2)[OF Done v] show ?thesis
    using v lock_end_view[OF v] by (cases "g x m'") (simp_all add: keeps_lock_def Done)
next
  case (Trap m')
  then show ?thesis using assms(1) by (simp add: keeps_lock_def)
qed

lemma keeps_lock_interrupt: "keeps_lock m (cpu_interrupt l c m)"
  by (auto simp: cpu_interrupt_def Let_def keeps_lock_def intro: lock_end_view)

lemma keeps_lock_out_of_range: "keeps_lock m (mms_handle_memory_out_of_range pa m)"
  by (simp add: mms_handle_memory_out_of_range_eq)

lemma lock_view_update:
  "lock_view (m\<lparr>g_ecc_latch := x\<rparr>) = lock_view m" "lock_view (m\<lparr>n_Array := y\<rparr>) = lock_view m"
  "lock_view (m\<lparr>devices := d\<rparr>) = lock_view m" "lock_view (m\<lparr>g_paging_tables := t\<rparr>) = lock_view m"
  "lock_view (m\<lparr>s_tset_old := o', s_tset_old_valid := b, devices := d\<rparr>) = lock_view m"
  "lock_view (m\<lparr>g_reg := r\<rparr>) = lock_view m" "lock_view (m\<lparr>s_tset_old_valid := b\<rparr>) = lock_view m"
  "lock_view (m\<lparr>s_tset_old := w\<rparr>) = lock_view m"
  by (simp_all add: lock_view_def)

lemma lock_view_paging:
  "lock_view (mms_write a v m) = lock_view m"
  "lock_view (snd (mms_update_page_table_entry pt vpn ptm e m)) = lock_view m"
  "lock_view (snd (mms_set_page_used pt vpn ptm e m)) = lock_view m"
  "lock_view (snd (mms_set_page_written pt vpn ptm e m)) = lock_view m"
proof -
  show u: "lock_view (snd (mms_update_page_table_entry pt vpn ptm e m)) = lock_view m" for pt vpn ptm e m
    by (simp add: mms_update_page_table_entry_def Let_def lock_view_update)
  show "lock_view (mms_write a v m) = lock_view m" by (simp add: mms_write_def Let_def lock_view_update)
  show "lock_view (snd (mms_set_page_used pt vpn ptm e m)) = lock_view m" by (simp add: mms_set_page_used_def u)
  show "lock_view (snd (mms_set_page_written pt vpn ptm e m)) = lock_view m" by (simp add: mms_set_page_written_def u)
qed

lemma lock_view_mark: "lock_view (mark_page pt vpn ptm e am m) = lock_view m"
proof -
  obtain e1 m1 where "mms_set_page_used pt vpn ptm e m = (e1, m1)" by (cases "mms_set_page_used pt vpn ptm e m")
  moreover from this have "lock_view m1 = lock_view m" using lock_view_paging(3)[of pt vpn ptm e m] by simp
  ultimately show ?thesis by (simp add: mark_page_def lock_view_paging)
qed

lemma lock_view_latch: "lock_view (nd_ecc_write_latch pa m) = lock_view m"
  "lock_view (consume_latch l pa m) = lock_view m"
  by (simp_all add: nd_ecc_write_latch_def consume_latch_def Let_def lock_view_update)

lemma keeps_lock_cong: "keeps_lock m' res \<Longrightarrow> lock_view m' = lock_view m \<Longrightarrow> keeps_lock m res"
  using lock_end_view[of m' m] by (auto simp: keeps_lock_def split: outcome.splits)

lemma keeps_lock_detect: "keeps_lock m (nd_ecc_read_detect pa m)"
proof -
  have i: "keeps_lock m (cpu_interrupt 14 c (consume_latch l pa (g_reg_update f m)))" for c l f
    by (rule keeps_lock_cong[OF keeps_lock_interrupt]) (simp add: lock_view_latch)
  show ?thesis by (simp add: nd_ecc_read_detect_def Let_def lock_view_latch i)
qed

lemma keeps_lock_fault: "keeps_lock m (Trap (fault c (g_reg_update f m)))"
  "lock_view m' = lock_view m \<Longrightarrow> keeps_lock m (Trap (fault c (g_reg_update f m')))"
  by (auto simp: keeps_lock_def fault_def intro!: lock_end_view)

lemma keeps_lock_read: "keeps_lock m (mms_read_physical_memory pa pr m)"
  by (auto simp: mms_read_physical_memory_def lock_view_update split: option.split prod.split
      intro!: keeps_lock_bind keeps_lock_detect keeps_lock_out_of_range)

lemma keeps_lock_write: "keeps_lock m (mms_write_physical_memory_wm pa v pr wm m)"
  by (auto simp: mms_write_physical_memory_wm_def lock_view_update lock_view_paging lock_view_latch Let_def
      split: option.split prod.split intro!: keeps_lock_bind keeps_lock_out_of_range)

lemma keeps_lock_map: "keeps_lock m (mms_map_virtual_to_physical va am apt m)"
proof (cases "translated m va")
  case True
  obtain ring r where d: "degrade am (pcr_of m AND 0x03) (va_entry m va apt) (g_reg m) = (ring, r)"
    by (cases "degrade am (pcr_of m AND 0x03) (va_entry m va apt) (g_reg m)")
  have "keeps_lock m (bind_out (mms_handle_memory_out_of_range pa) (\<lambda>_. Done (- 1 :: int)) (g_reg_update f m))" for pa f
    by (rule keeps_lock_cong[OF keeps_lock_bind[OF keeps_lock_out_of_range]]) (simp_all add: lock_view_update)
  then show ?thesis
    unfolding map_translated[OF True] Let_def d prod.case
    by (simp add: keeps_lock_fault lock_view_update lock_view_mark)
next
  case False
  then show ?thesis by (auto simp: mms_map_virtual_to_physical_def Let_def translated_def pcr_of_def)
qed

lemma keeps_lock_memory:
  "keeps_lock m (cpu_memory_read a apt m)" "keeps_lock m (cpu_memory_write v a apt wm m)"
  by (auto simp: cpu_memory_read_def cpu_memory_write_def mms_read_virtual_memory_def virtual_read_def
      mms_write_virtual_memory_def intro!: keeps_lock_bind keeps_lock_map keeps_lock_read keeps_lock_write)

lemma keeps_lock_phys: "keeps_lock m (phys_read a m)" "keeps_lock m (phys_write a v m)"
  by (simp_all add: phys_read_def phys_write_def mms_write_physical_memory_def keeps_lock_read keeps_lock_write)

lemma keeps_lock_regs [simp]: "keeps_lock m (put i v m)" "keeps_lock m (bind_out (get i) k m) = keeps_lock m (k (cur i (g_reg m)) m)"
  by (simp_all add: lock_view_update)

lemma keeps_lock_take: "keeps_lock m (tset_take_into_A m)"
  by (auto simp: tset_take_into_A_def mms_tset_take_old_def lock_view_update)

lemma locked_section:
  assumes "keeps_lock (mms_tset_lock_begin m) (body (mms_tset_lock_begin m))" and "\<not> s_tset_lock_held m"
  defines "m' \<equiv> final_state (seq (modify mms_tset_lock_begin) (seq body (modify mms_tset_lock_end)) m)"
  shows "\<not> s_tset_lock_held m' \<and> s_tset_lock_fn m' = s_tset_lock_fn m
    \<and> tset_calls m' = tset_calls m @ (if s_tset_lock_fn m then [True, False] else [])"
proof -
  have e: "lock_view (mms_tset_lock_end (mms_tset_lock_begin m)) =
      (tset_calls m @ (if s_tset_lock_fn m then [True, False] else []), False, s_tset_lock_fn m)"
    using assms(2) by (simp add: lock_view_def mms_tset_lock_end_def mms_tset_lock_begin_def Let_def)
  have "lock_view m' = lock_view (mms_tset_lock_end (mms_tset_lock_begin m))"
  proof (cases "body (mms_tset_lock_begin m)")
    case (Done x m1)
    then have "lock_view m1 = lock_view (mms_tset_lock_begin m)" using assms(1) by simp
    then show ?thesis using lock_end_view Done by (simp add: m'_def seq_def)
  next
    case (Trap m1)
    then show ?thesis using assms(1) by (simp add: m'_def seq_def keeps_lock_def)
  qed
  then show ?thesis unfolding e by (simp add: lock_view_def)
qed

lemma seq_assoc: "seq (seq f g) h = seq f (seq g h)"
  by (simp add: seq_def bind_out_assoc)

lemma keeps_lock_seq:
  "keeps_lock m (f m) \<Longrightarrow> (\<And>m'. lock_view m' = lock_view m \<Longrightarrow> keeps_lock m' (g m')) \<Longrightarrow> keeps_lock m (seq f g m)"
  unfolding seq_def by (rule keeps_lock_bind) auto


definition ring2_machine :: "unit machine" where
  "ring2_machine = (demo_machine MMS1)\<lparr>g_reg := demo_regs\<lparr>reg_STS := 0x4000, reg_PCR := (\<lambda>_. 2)\<rparr>\<rparr>"

lemma ring2_facts:
  "\<not> s_tset_lock_held ring2_machine" "s_tset_lock_fn ring2_machine" "tset_calls ring2_machine = []"
  "trapped (do_tset ring2_machine)"
  by code_simp+

lemma ring2_priv: "check_priv ring2_machine = Done True ring2_machine"
  by (simp add: check_priv_def ring2_machine_def Let_def)


text \<open>
  In a bank shared with another processor TSETP is one exchange: with the lock installed and
  free, the word is swapped for minus one by the bank's exchange operation, and A receives what
  that exchange returned, not what the earlier read saw; local memory is untouched.\<close>

theorem tsetp_exchange:
  fixes m :: "'d machine"
  defines "a \<equiv> bank_address (cur R_T (g_reg m)) (cur R_X (g_reg m))"
  assumes "check_priv m = Done True m" and "\<not> mms_is_address_shadow_memory a True m"
    and "mms_memory_bank_lookup a (s_memory_banks m) = Some b"
    and "bank_read b = Some rd" "bank_write b = Some wr" "bank_exchange b = Some ex"
    and "s_tset_lock_fn m" "\<not> s_tset_lock_held m" and "0 \<le> sint a"
  shows "\<exists>m'. opcode_tsetp m = Done () m'
    \<and> (let d1 = snd (rd (a - start_word b) (devices m));
           (old, d2) = ex (a - start_word b) 0xFFFF d1
       in cur R_A (g_reg m') = old \<and> devices m' = d2) \<and> n_Array m' = n_Array m"
proof -
  obtain v d1 where r: "rd (a - start_word b) (devices m) = (v, d1)" by fastforce
  obtain old d2 where x: "ex (a - start_word b) 0xFFFF d1 = (old, d2)" by fastforce
  have a: "word_of_int (sint a) = a" by simp
  have sh: "mms_is_address_shadow_memory a True (m\<lparr>s_tset_old_valid := False, tset_calls := c,
        s_tset_lock_held := True, devices := d, g_reg := set_cur i w (g_reg m)\<rparr>) = mms_is_address_shadow_memory a True m"
    for c d i w
    by (simp add: mms_is_address_shadow_memory_def Let_def STS_EXTENDED_ADDRESSING_IS_SET_def set_cur_def set_reg_def gPIL_def)
  have sh': "mms_is_address_shadow_memory a True (m\<lparr>s_tset_old_valid := False, tset_calls := c, s_tset_lock_held := True, devices := d\<rparr>)
      = mms_is_address_shadow_memory a True m"
     "mms_is_address_shadow_memory a True (m\<lparr>s_tset_old_valid := False, tset_calls := c, s_tset_lock_held := True\<rparr>)
      = mms_is_address_shadow_memory a True m" for c d
    by (simp_all add: mms_is_address_shadow_memory_def Let_def)
  show ?thesis
    using assms(3-)
    unfolding opcode_tsetp_def privileged_run[OF assms(2)] Let_def a_def[symmetric]
    by (simp add: mms_tset_lock_begin_def Let_def phys_load_def phys_read_def phys_write_def
      mms_read_physical_memory_def mms_write_physical_memory_def mms_write_physical_memory_wm_def
      backed_read_def backed_write_def a r x sh sh' tset_take_into_A_def mms_tset_take_old_def)
qed

definition shared_bank :: "(u16 list) NdMemoryBank" where
  "shared_bank = \<lparr>start_word = 0x10000, length_word = 0x100, bank_type = ND_MEM_MPM5,
     bank_read = Some (\<lambda>i s. (s ! unat i, s)),
     bank_write = Some (\<lambda>i v wm s. s[unat i := v]),
     bank_exchange = Some (\<lambda>i v s. (if s ! unat i = 7 then 0 else s ! unat i, s[unat i := v]))\<rparr>"

definition shared_machine :: "(u16 list) machine" where
  "shared_machine = \<lparr>g_reg = demo_regs\<lparr>reg_STS := 0, reg := (\<lambda>l i. if i = R_T then 1 else 0)\<rparr>, g_mms_type = MMS1,
     g_paging_tables = \<lparr>mmsType = MMS1, shadowRam = [], shadowRamAddress = 0, isInitialized = False\<rparr>,
     s_memory_banks = [shared_bank], n_Array = (\<lambda>_. 0), g_nd_memsize = 0x10000, g_ecc_latch = (\<lambda>_. 0),
     g_dma_access = False, s_tset_lock_fn = True, s_tset_lock_held = False, s_tset_old = 0,
     s_tset_old_valid = False, tset_calls = [], g_current_cpu_type = ND110, g_current_fpp_type = FPP48, CurrentCPURunMode = CPU_RUNNING,
     g_cpu_exit_code = 0, devices = [7]\<rparr>"

theorem tsetp_exchange_witness:
  "\<exists>m'. opcode_tsetp shared_machine = Done () m' \<and> cur R_A (g_reg m') = 0 \<and> devices m' = [0xFFFF]"
proof -
  let ?a = "bank_address (cur R_T (g_reg shared_machine)) (cur R_X (g_reg shared_machine))"
  have f: "?a = 0x10000" "\<not> mms_is_address_shadow_memory ?a True shared_machine"
    "s_tset_lock_fn shared_machine" "\<not> s_tset_lock_held shared_machine" "0 \<le> sint ?a"
    "devices shared_machine = [7]"
    by code_simp+
  have b: "mms_memory_bank_lookup ?a (s_memory_banks shared_machine) = Some shared_bank"
    unfolding f(1) by (simp add: shared_machine_def shared_bank_def mms_memory_bank_lookup_def end_word_def)
  have p: "check_priv shared_machine = Done True shared_machine"
    by (simp add: check_priv_def shared_machine_def STS_PAGING_ON_IS_SET_def)
  show ?thesis
    using tsetp_exchange[OF p f(2) b, of "\<lambda>i s. (s ! unat i, s)" "\<lambda>i v wm s. s[unat i := v]"
       "\<lambda>i v s. (if s ! unat i = 7 then 0 else s ! unat i, s[unat i := v])"] f
    by (auto simp: shared_bank_def)
qed
section \<open>Control registers and other levels\<close>

lemma level_lt: "level_field op < 16"
proof -
  have "drop_bit 3 op AND 0x0F = take_bit 4 (drop_bit 3 op)" by (rule word16_bits) (auto simp: all_less_16 bit_simps)
  then show ?thesis
    using take_bit_nat_less_exp[of 4 "unat (drop_bit 3 op)"] by (simp add: level_field_def unsigned_take_bit_eq)
qed

text \<open>
  The paging control registers read back. After TRR PCR with A naming a level in bits 3 to 6,
  TRA PCR with the same level in A gives the written ring, page-table numbers and, on a memory
  management system 2, the sixteen-table bit; the level field reads as zero, and so does bit
  15. No other level's control register changes.\<close>

theorem pcr_roundtrip:
  fixes m :: "'d machine" and a q :: u16 and panc :: "CpuRegs \<Rightarrow> CpuRegs"
  defines "r \<equiv> trr_regs panc 3 (g_mms_type m) (set_cur R_A a (g_reg m))"
  assumes "drop_bit 3 q AND 0x0f = drop_bit 3 a AND 0x0f"
  shows "cur R_A (tra_regs 12 m (set_cur R_A q r)) =
      a AND (if g_mms_type m = MMS1 then 0x7F83 else 0x7F87)
    \<and> (\<forall>l. l \<noteq> unat (drop_bit 3 a AND 0x0f) \<longrightarrow> reg_PCR r l = reg_PCR (g_reg m) l)"
proof -
  have n: "(((a AND - 5) AND - 121) AND - 5) AND - 32769 = a AND 0x7F83"
    "(a AND - 121) AND - 32769 = a AND 0x7F87"
    by (rule word16_bits; auto simp: all_less_16 bit_simps)+
  have pcr: "reg_PCR (set_cur i v s) = reg_PCR s" for i v s by (simp add: set_cur_def set_reg_def)
  show ?thesis
    using n assms(2) by (cases "g_mms_type m") (simp_all add: r_def tra_regs_def trr_regs_def Let_def pcr)
qed

theorem pcr_roundtrip_witness:
  "cur R_A (tra_regs 12 (demo_machine MMS1) (set_cur R_A 0x28 (trr_regs id 3 MMS1 (set_cur R_A 0x82F (g_reg (demo_machine MMS1))))))
     = 0x803"
proof -
  have f: "g_mms_type (demo_machine MMS1) = MMS1" "drop_bit 3 0x28 AND 0x0f = drop_bit 3 0x82F AND (0x0f :: u16)"
    "(0x82F :: u16) AND 0x7F83 = 0x803" by code_simp+
  show ?thesis using pcr_roundtrip[where panc = id and m = "demo_machine MMS1", OF f(2)] by (simp add: f)
qed

text \<open>
  IRW and IRR reach the registers of any level. A register written by IRW is read back by IRR:
  the value of A, or its low byte for the status register; no other register of any level
  changes. Writing A or P of the current level does nothing.\<close>

theorem irw_irr_roundtrip:
  fixes m :: "'d machine" and op :: u16
  defines "l \<equiv> level_field op" and "i \<equiv> register_field op" and "a \<equiv> cur R_A (g_reg m)"
  assumes "check_priv m = Done True m"
  shows "\<exists>r. opcode_irw op m = Done () (m\<lparr>g_reg := r\<rparr>)
    \<and> (if l = gPIL (g_reg m) \<and> i \<in> {R_A, R_P} then r = g_reg m
       else reg r l i = (if i = R_STS then a AND 0xFF else a))
    \<and> (\<forall>l' i'. (l', i') \<noteq> (l, i) \<longrightarrow> reg r l' i' = reg (g_reg m) l' i')
    \<and> opcode_irr op (m\<lparr>g_reg := r\<rparr>) = Done () (m\<lparr>g_reg := set_cur R_A (if i = R_STS then reg r l i AND 0xFF else reg r l i) r\<rparr>)"
proof -
  define r where "r = (if l = gPIL (g_reg m) \<and> i \<in> {R_A, R_P} then g_reg m
     else set_reg l i (if i = R_STS then a AND 0xFF else a) (g_reg m))"
  have w: "opcode_irw op m = Done () (m\<lparr>g_reg := r\<rparr>)"
    unfolding opcode_irw_def privileged_run[OF assms(4)] Let_def l_def[symmetric] i_def[symmetric]
    by (cases "i = R_A"; cases "i = R_P"; cases "i = R_STS") (simp_all add: r_def a_def)
  have p: "check_priv (m\<lparr>g_reg := r\<rparr>) = Done True (m\<lparr>g_reg := r\<rparr>)"
    using assms(4) by (auto simp: check_priv_def Let_def r_def set_reg_def gPIL_def STS_PAGING_ON_IS_SET_def
        cpu_interrupt_def split: if_splits)
  have q: "opcode_irr op (m\<lparr>g_reg := r\<rparr>) = Done () (m\<lparr>g_reg := set_cur R_A (if i = R_STS then reg r l i AND 0xFF else reg r l i) r\<rparr>)"
    unfolding opcode_irr_def privileged_run[OF p] by (simp add: l_def i_def Let_def)
  show ?thesis using w q by (intro exI[of _ r]) (auto simp: r_def)
qed

theorem irw_irr_roundtrip_witness:
  "\<exists>r. opcode_irw 0x2B ring2_machine = Done () (ring2_machine\<lparr>g_reg := r\<rparr>) \<and> reg r 5 R_B = 0"
proof -
  have f: "level_field 0x2B = 5" "register_field 0x2B = 3" "gPIL (g_reg ring2_machine) = 0"
    "cur R_A (g_reg ring2_machine) = 0" by code_simp+
  show ?thesis using irw_irr_roundtrip[OF ring2_priv, of "0x2B"] by (auto simp: f)
qed

text \<open>
  MON calls the monitor on level 14: below that level it puts the 9-bit call number, sign
  extended, in T of level 14, records cause 1 in IID and asks for a level check; no register of
  the caller's level and nothing in memory changes. On levels 14 and 15 it does nothing.\<close>

theorem monitor_call:
  fixes m :: "'d machine" and op :: u16
  shows "\<exists>r. opcode_mon op m = Done () (m\<lparr>g_reg := r\<rparr>)
    \<and> (if gPIL (g_reg m) < 14
       then reg r 14 R_T = word_of_int (signed_take_bit 8 (uint op)) \<and> bit (reg_IID r) 1 \<and> chkit r
            \<and> (\<forall>l i. (l, i) \<noteq> (14, R_T) \<longrightarrow> reg r l i = reg (g_reg m) l i) \<and> reg_STS r = reg_STS (g_reg m)
       else r = g_reg m)"
proof (cases "gPIL (g_reg m) < 14")
  case True
  define n where "n = (let k = op AND 0x1ff in if k AND push_bit 8 1 \<noteq> 0 then k OR 0xFE00 else k)"
  have "n = word_of_int (signed_take_bit 8 (uint op))"
    unfolding n_def Let_def by (rule word16_bits) (auto simp: all_less_16 bit_simps word_and_ne_0 ex_less_16 bit_uint_iff)
  moreover have "opcode_mon op m = Done () (m\<lparr>g_reg := (interrupt_regs 14 2 (set_reg 14 R_T n (g_reg m)))\<lparr>chkit := True\<rparr>\<rparr>)"
    using True by (simp add: opcode_mon_def n_def Let_def cpu_interrupt_def)
  moreover have "bit (reg_IID (interrupt_regs 14 2 s)) 1" for s
    by (simp add: interrupt_regs_IID bit_or_iff)
  ultimately show ?thesis using True by auto
next
  case False
  then show ?thesis by (auto simp: opcode_mon_def Let_def)
qed

theorem monitor_call_witness:
  "\<exists>r. opcode_mon 0xC1FF ring2_machine = Done () (ring2_machine\<lparr>g_reg := r\<rparr>) \<and> reg r 14 R_T = 0xFFFF"
proof -
  have f: "gPIL (g_reg ring2_machine) < 14" "word_of_int (signed_take_bit 8 (uint (0xC1FF :: u16))) = (0xFFFF :: u16)"
    by code_simp+
  show ?thesis using monitor_call[of "0xC1FF" ring2_machine] f by auto
qed

section \<open>Physical words, bits and bytes\<close>

definition priv_mode :: "CpuRegs \<Rightarrow> bool" where
  "priv_mode r \<longleftrightarrow> \<not> STS_PAGING_ON_IS_SET r \<or> reg_PCR r (gPIL r) AND 3 \<in> {2, 3}"

lemma priv_mode_run: "priv_mode (g_reg m) \<Longrightarrow> privileged body m = body m"
  by (auto simp: privileged_def check_priv_def priv_mode_def Let_def bind_out_def)

lemma priv_mode_same: "same_mode r r' \<Longrightarrow> priv_mode r' = priv_mode r"
  by (simp add: priv_mode_def same_mode_def STS_PAGING_ON_IS_SET_def gPIL_def)

lemma priv_mode_set [simp]: "priv_mode (set_cur i v r) = priv_mode r"
  using priv_mode_same[of r "set_cur i v r"] by simp

lemma run_phys_load: "plain_physical m a \<Longrightarrow> phys_load i a m = Done () (m\<lparr>g_reg := set_cur i (phys_content m a) (g_reg m)\<rparr>)"
  by (simp add: phys_load_def run_phys_read)

lemma run_phys_store: "plain_physical m a \<Longrightarrow> phys_store i a m = Done () (store_phys a (cur i (g_reg m)) m)"
  by (simp add: phys_store_def run_phys_write)

text \<open>
  STDTX and LDDTX are inverse on plain physical memory, and so are DEPO and EXAM: the store
  changes exactly the addressed words, and a later load through the same effective address
  (bank in T, or in A for EXAM; offset X plus displacement, or D) with any other register
  contents returns the stored registers.\<close>

theorem physical_roundtrip:
  fixes m :: "'d machine" and op :: u16
  defines "e \<equiv> calc_el (displacement_field op) (g_reg m)" and "d \<equiv> bank_address (cur R_A (g_reg m)) (cur R_D (g_reg m))"
  assumes "priv_mode (g_reg m)" "plain_physical m e" "plain_physical m (e + 1)" "plain_physical m d"
  shows "(\<exists>m1. opcode_stdtx op m = Done () m1
      \<and> phys_content m1 = (phys_content m)(e := cur R_A (g_reg m), e + 1 := cur R_D (g_reg m))
      \<and> (\<forall>r. same_mode (g_reg m) r \<and> calc_el (displacement_field op) r = e \<longrightarrow>
          opcode_lddtx op (m1\<lparr>g_reg := r\<rparr>) =
            Done () (m1\<lparr>g_reg := set_cur R_D (cur R_D (g_reg m)) (set_cur R_A (cur R_A (g_reg m)) r)\<rparr>)))
    \<and> (\<exists>m1. opcode_depo m = Done () m1 \<and> phys_content m1 = (phys_content m)(d := cur R_T (g_reg m))
      \<and> (\<forall>r. same_mode (g_reg m) r \<and> bank_address (cur R_A r) (cur R_D r) = d \<longrightarrow>
          opcode_exam (m1\<lparr>g_reg := r\<rparr>) = Done () (m1\<lparr>g_reg := set_cur R_T (cur R_T (g_reg m)) r\<rparr>)))"
proof -
  note p = assms(4-6)
  define m1 where "m1 = store_phys (e + 1) (cur R_D (g_reg m)) (store_phys e (cur R_A (g_reg m)) m)"
  define m2 where "m2 = store_phys d (cur R_T (g_reg m)) m"
  have x: "opcode_stdtx op m = Done () m1"
    unfolding opcode_stdtx_def with_el_def priv_mode_run[OF assms(3)] e_def[symmetric]
    by (simp add: run_phys_store p m1_def)
  have y: "opcode_depo m = Done () m2"
    unfolding opcode_depo_def priv_mode_run[OF assms(3)] d_def[symmetric] by (simp add: run_phys_store p m2_def)
  have pm: "priv_mode r" if "same_mode (g_reg m) r" for r using priv_mode_same[OF that] assms(3) by simp
  have "opcode_lddtx op (m1\<lparr>g_reg := r\<rparr>) =
      Done () (m1\<lparr>g_reg := set_cur R_D (cur R_D (g_reg m)) (set_cur R_A (cur R_A (g_reg m)) r)\<rparr>)"
    if "same_mode (g_reg m) r" "calc_el (displacement_field op) r = e" for r
    using that by (simp add: opcode_lddtx_def with_el_def priv_mode_run pm run_phys_load plain_physical_regs p m1_def)
  moreover have "opcode_exam (m2\<lparr>g_reg := r\<rparr>) = Done () (m2\<lparr>g_reg := set_cur R_T (cur R_T (g_reg m)) r\<rparr>)"
    if "same_mode (g_reg m) r" "bank_address (cur R_A r) (cur R_D r) = d" for r
    using that by (simp add: opcode_exam_def priv_mode_run pm run_phys_load plain_physical_regs p m2_def)
  ultimately show ?thesis using x y by (simp add: m1_def m2_def)
qed

lemma bit_index_lt: "bit_in_word r < 16"
proof -
  have "cur R_A r AND 0x0F = take_bit 4 (cur R_A r)" by (rule word16_bits) (auto simp: all_less_16 bit_simps)
  then show ?thesis
    using take_bit_nat_less_exp[of 4 "unat (cur R_A r)"] by (simp add: bit_in_word_def unsigned_take_bit_eq)
qed

lemma bit_with_K: "n < 16 \<Longrightarrow> bit (with_K n w r) k \<longleftrightarrow> (if k = n then reg_bit 0 2 r else bit w k)"
  by (auto simp: with_K_def getbit_ne_0 reg_bit_STS_low cur_def bit_or_iff bit_and_iff bit_not_iff bit_2_pow
      dest: bit_imp_le_length)

text \<open>
  The bit and byte instructions address their memory exactly. SBITP stores the one-bit
  accumulator K in bit A mod 16 of the word at bank T, offset X plus A div 16, and changes no
  other bit; a later LBITP with the same registers loads it into K. SBYTP stores the low byte
  of A as the even (high) or odd (low) byte of its word and keeps the other byte.\<close>

theorem bit_byte_store:
  fixes m :: "'d machine"
  defines "r \<equiv> g_reg m"
  assumes "priv_mode (g_reg m)" "plain_physical m (bit_phys (g_reg m))" "plain_physical m (byte_phys (g_reg m))"
  shows "\<exists>m1 m2. opcode_sbitp m = Done () m1 \<and> opcode_sbytp m = Done () m2
     \<and> (\<forall>a k. bit (phys_content m1 a) k =
          (if a = bit_phys r \<and> k = bit_in_word r then reg_bit 0 STS_BIT_ACCUMULATOR r else bit (phys_content m a) k))
     \<and> (\<forall>r'. same_mode r r' \<and> bit_phys r' = bit_phys r \<and> bit_in_word r' = bit_in_word r \<longrightarrow>
          opcode_lbitp (m1\<lparr>g_reg := r'\<rparr>) =
            Done () (m1\<lparr>g_reg := cpu_setbit R_STS STS_BIT_ACCUMULATOR (reg_bit 0 STS_BIT_ACCUMULATOR r) r'\<rparr>))
     \<and> (\<forall>a. a \<noteq> byte_phys r \<longrightarrow> phys_content m2 a = phys_content m a)
     \<and> phys_content m2 (byte_phys r) =
         (if odd_byte r then (phys_content m (byte_phys r) AND 0xFF00) OR (cur R_A r AND 0xFF)
          else (phys_content m (byte_phys r) AND 0xFF) OR push_bit 8 (cur R_A r AND 0xFF))"
proof -
  define w where "w = with_K (bit_in_word r) (phys_content m (bit_phys r)) r"
  define b where "b = (if odd_byte r then (phys_content m (byte_phys r) AND 0xFF00) OR (cur R_A r AND 0xFF)
          else (phys_content m (byte_phys r) AND 0xFF) OR push_bit 8 (cur R_A r AND 0xFF))"
  have 1: "opcode_sbitp m = Done () (store_phys (bit_phys r) w m)"
    using assms(3) unfolding opcode_sbitp_def priv_mode_run[OF assms(2)]
    by (simp add: Let_def w_def r_def run_phys_read run_phys_write)
  have 2: "opcode_sbytp m = Done () (store_phys (byte_phys r) b m)"
    using assms(4) unfolding opcode_sbytp_def priv_mode_run[OF assms(2)]
    by (simp add: Let_def b_def r_def run_phys_read run_phys_write)
  have 3: "opcode_lbitp (store_phys (bit_phys r) w (m\<lparr>g_reg := r'\<rparr>)) = Done () (store_phys (bit_phys r) w (m\<lparr>g_reg :=
      cpu_setbit R_STS STS_BIT_ACCUMULATOR (reg_bit 0 STS_BIT_ACCUMULATOR r) r'\<rparr>))"
    if "same_mode r r'" "bit_phys r' = bit_phys r" "bit_in_word r' = bit_in_word r" for r'
  proof -
    have k: "drop_bit (bit_in_word r) w AND 1 \<noteq> 0 \<longleftrightarrow> reg_bit 0 2 r"
      by (simp add: getbit_ne_0 w_def bit_with_K bit_index_lt)
    have "priv_mode r'" using assms(2) that(1) priv_mode_same unfolding r_def by blast
    then show ?thesis
      using assms(3) that unfolding opcode_lbitp_def
      by (simp add: priv_mode_run Let_def run_phys_read plain_physical_regs r_def[symmetric] load_K_def k)
  qed
  have 4: "bit w k \<longleftrightarrow> (if k = bit_in_word r then reg_bit 0 2 r else bit (phys_content m (bit_phys r)) k)" for k
    by (simp add: w_def bit_with_K bit_index_lt)
  show ?thesis
    using 1 2 by (intro exI[of _ "store_phys (bit_phys r) w m"] exI[of _ "store_phys (byte_phys r) b m"])
      (simp add: 3 4 b_def)
qed

definition bank0_machine :: "unit machine" where
  "bank0_machine = plain_machine\<lparr>g_reg := demo_regs\<lparr>reg_STS := 0, reg := (\<lambda>l i.
     if i = R_STS then 4 else if i = R_D then 0x300 else if i = R_X then 0x10 else if i = R_A then 0 else if i = R_T then 0 else 5)\<rparr>\<rparr>"

lemma bank0_facts:
  "priv_mode (g_reg bank0_machine)"
  "plain_physical bank0_machine (calc_el (displacement_field 0x18) (g_reg bank0_machine))"
  "plain_physical bank0_machine (calc_el (displacement_field 0x18) (g_reg bank0_machine) + 1)"
  "plain_physical bank0_machine (bank_address (cur R_A (g_reg bank0_machine)) (cur R_D (g_reg bank0_machine)))"
  "plain_physical bank0_machine (bit_phys (g_reg bank0_machine))"
  "plain_physical bank0_machine (byte_phys (g_reg bank0_machine))"
  "bit_phys (g_reg bank0_machine) = 0x10" "bit_in_word (g_reg bank0_machine) = 0"
  "reg_bit 0 2 (g_reg bank0_machine)" "calc_el (displacement_field 0x18) (g_reg bank0_machine) = 0x13"
  "cur R_D (g_reg bank0_machine) = 0x300"
  by code_simp+

theorem physical_roundtrip_witness:
  "\<exists>m1. opcode_stdtx 0x18 bank0_machine = Done () m1 \<and> phys_content m1 0x14 = 0x300"
  using physical_roundtrip[OF bank0_facts(1-4)] unfolding bank0_facts(10,11) by fastforce

theorem bit_byte_store_witness:
  "\<exists>m1. opcode_sbitp bank0_machine = Done () m1 \<and> bit (phys_content m1 0x10) 0"
  using bit_byte_store[OF bank0_facts(1,5,6)] unfolding bank0_facts(7,8) using bank0_facts(9) by fastforce


end
