(* ===== verification/PageLists.thy ===== *)
theory PageLists
  imports SystemLaws
begin

text \<open>
  The page lists of the core map: the doubly linked list of a segment's pages in physical
  memory, and INSPL and REMPL of \<open>src/cpu/cpu_instr.c\<close> as the insertion into and the removal
  from it.
\<close>

section \<open>Doubly linked segments\<close>

text \<open>
  \<open>dseg nx pv b h xs e\<close>: following \<open>nx\<close> from \<open>h\<close> visits exactly \<open>xs\<close> and arrives at \<open>e\<close>; the
  back link of the first node is \<open>b\<close>, of every other node its predecessor. Zero is no node.
\<close>

primrec dseg :: "(u16 \<Rightarrow> u16) \<Rightarrow> (u16 \<Rightarrow> u16) \<Rightarrow> u16 \<Rightarrow> u16 \<Rightarrow> u16 list \<Rightarrow> u16 \<Rightarrow> bool" where
  "dseg nx pv b h [] e \<longleftrightarrow> h = e"
| "dseg nx pv b h (x # xs) e \<longleftrightarrow> h = x \<and> x \<noteq> 0 \<and> pv x = b \<and> dseg nx pv x (nx x) xs e"

lemma dseg_append:
  "dseg nx pv b h (xs @ ys) e \<longleftrightarrow> (\<exists>k. dseg nx pv b h xs k \<and> dseg nx pv (last (b # xs)) k ys e)"
  by (induction xs arbitrary: b h) auto

lemma dseg_cong:
  "\<forall>x\<in>set xs. nx' x = nx x \<and> pv' x = pv x \<Longrightarrow> dseg nx' pv' b h xs e = dseg nx pv b h xs e"
  by (induction xs arbitrary: b h) auto

lemma dseg_0: "dseg nx pv b 0 xs 0 \<longleftrightarrow> xs = []"
  by (cases xs) auto

text \<open>Changing the back link of the first node, and the forward link of the last one.\<close>

lemma dseg_back:
  assumes "dseg nx pv b h xs e" "distinct xs" "\<forall>x\<in>set xs. nx' x = nx x"
    and "\<forall>x\<in>set xs. pv' x = (if x = h then b' else pv x)"
  shows "dseg nx' pv' b' h xs e"
proof (cases xs)
  case (Cons y ys)
  then have "dseg nx' pv' y (nx y) ys e = dseg nx pv y (nx y) ys e"
    using assms by (intro dseg_cong) auto
  then show ?thesis using assms Cons by simp
qed (use assms in simp)

lemma dseg_front:
  assumes "dseg nx pv b h (xs @ [p]) e" "distinct (xs @ [p])" "\<forall>x\<in>set xs. nx' x = nx x" "nx' p = e'"
    and "\<forall>x\<in>set (xs @ [p]). pv' x = pv x"
  shows "dseg nx' pv' b h (xs @ [p]) e'"
proof -
  have "dseg nx' pv' b h xs k = dseg nx pv b h xs k" for k
    using assms by (intro dseg_cong) auto
  then show ?thesis using assms by (auto simp: dseg_append)
qed

lemma dseg_links:
  "dseg nx pv b h xs e \<Longrightarrow> h \<in> insert e (set xs) \<and> (\<forall>y\<in>set xs. y \<noteq> 0 \<and> nx y \<in> insert e (set xs))"
  by (induction xs arbitrary: b h) auto

lemma dseg_remove:
  assumes "dseg nx pv b h xs 0" "distinct xs" "x \<in> set xs"
    and nx: "\<And>y. y \<in> set xs \<Longrightarrow> y \<noteq> x \<Longrightarrow> nx' y = (if nx y = x then nx x else nx y)"
    and pv: "\<And>y. y \<in> set xs \<Longrightarrow> y \<noteq> x \<Longrightarrow> pv' y = (if y = nx x then pv x else pv y)"
  shows "dseg nx' pv' b (if h = x then nx x else h) (remove1 x xs) 0"
proof -
  obtain ys zs where xs: "xs = ys @ x # zs" and x: "x \<notin> set ys"
    using assms(3) by (meson split_list_first)
  have seg: "dseg nx pv b h ys x" "pv x = last (b # ys)" "dseg nx pv x (nx x) zs 0"
    using assms(1) by (auto simp: xs dseg_append)
  have dis: "distinct ys" "distinct zs" "x \<notin> set zs" "set ys \<inter> set zs = {}"
    using assms(2) by (auto simp: xs)
  have zs: "\<And>y. y \<in> set zs \<Longrightarrow> y \<noteq> 0 \<and> nx y \<noteq> x" and nz: "nx x \<in> insert 0 (set zs)"
    using dseg_links[OF seg(3)] dis(3) assms(1) by (auto simp: xs dseg_append)
  have bk: "dseg nx' pv' (last (b # ys)) (nx x) zs 0"
  proof (rule dseg_back[OF seg(3) dis(2)])
    show "\<forall>y\<in>set zs. nx' y = nx y"
    proof
      fix y assume y: "y \<in> set zs"
      then have "y \<in> set xs" "y \<noteq> x" using dis(3) xs by auto
      then show "nx' y = nx y" using nx[of y] zs[OF y] by simp
    qed
    show "\<forall>y\<in>set zs. pv' y = (if y = nx x then last (b # ys) else pv y)"
    proof
      fix y assume y: "y \<in> set zs"
      then have "y \<in> set xs" "y \<noteq> x" using dis(3) xs by auto
      then show "pv' y = (if y = nx x then last (b # ys) else pv y)" using pv[of y] seg(2) by simp
    qed
  qed
  show ?thesis
  proof (cases ys rule: rev_cases)
    case Nil
    then show ?thesis using seg bk x by (simp add: xs)
  next
    case (snoc us p)
    have us: "\<And>y. y \<in> set us \<Longrightarrow> nx y \<noteq> x"
      using seg(1) dis(1) x dseg_links unfolding snoc dseg_append by fastforce
    have p: "nx p = x" "h \<noteq> x"
      using seg(1) x dseg_links[OF seg(1)] unfolding snoc dseg_append by (auto, cases us, auto)
    have "dseg nx' pv' b h ys (nx x)"
      unfolding snoc
    proof (rule dseg_front[OF seg(1)[unfolded snoc]])
      show "distinct (us @ [p])" using dis(1) snoc by simp
      show "\<forall>y\<in>set us. nx' y = nx y"
      proof
        fix y assume "y \<in> set us"
        then show "nx' y = nx y" using nx[of y] us[of y] x xs snoc by auto
      qed
      show "nx' p = nx x" using nx[of p] p(1) x xs snoc by auto
      show "\<forall>y\<in>set (us @ [p]). pv' y = pv y"
      proof
        fix y assume y: "y \<in> set (us @ [p])"
        then have "y \<noteq> 0" "y \<notin> set zs" "y \<noteq> x" using dseg_links[OF seg(1)] dis(4) x snoc by auto
        then show "pv' y = pv y" using pv[of y] y nz xs snoc by auto
      qed
    qed
    then show ?thesis using bk p x by (auto simp: xs dseg_append remove1_append)
  qed
qed

section \<open>The words of a page list\<close>

lemma bank_address_low: "ucast (bank_address k a) = a"
  by (rule word16_bits) (auto simp: bank_address_def all_less_16 bit_simps)

lemma bank_address_high: "ucast (drop_bit 16 (bank_address k a)) = k AND 0xFF"
  by (rule word16_bits) (auto simp: bank_address_def all_less_16 bit_simps dest: bit_imp_le_length)

lemma bank_address_inj: "bank_address k a = bank_address j b \<longleftrightarrow> k AND 0xFF = j AND 0xFF \<and> a = b"
proof
  assume e: "bank_address k a = bank_address j b"
  show "k AND 0xFF = j AND 0xFF \<and> a = b"
    using bank_address_low[of k a] bank_address_low[of j b] bank_address_high[of k a] bank_address_high[of j b]
    by (simp add: e)
qed (simp add: bank_address_def)

text \<open>Core-map entries are four words long and aligned: a link is never mistaken for a marker.\<close>

definition aligned :: "u16 \<Rightarrow> bool" where
  "aligned x \<longleftrightarrow> x AND 3 = 0"

lemma aligned_mod: "aligned x \<longleftrightarrow> unat x mod 4 = 0"
proof -
  have a: "x AND 3 = take_bit 2 x" by (simp add: take_bit_eq_mask mask_eq_exp_minus_1)
  have b: "unat (take_bit 2 x) = unat x mod 4" unfolding unsigned_take_bit_eq by (simp add: take_bit_eq_mod)
  show ?thesis by (simp only: aligned_def a b unat_eq_0[symmetric])
qed

lemma unat_add_mod_4: "unat (x + w :: u16) mod 4 = (unat x + unat w) mod 4"
  by (simp add: unat_word_ariths mod_mod_cancel)

lemma aligned_neq:
  assumes "aligned x" "aligned y"
  shows "x \<noteq> y + 1" "y + 1 \<noteq> x" "x \<noteq> y + 3" "y + 3 \<noteq> x" "x + 1 \<noteq> y + 3" "y + 3 \<noteq> x + 1"
proof -
  have "unat x mod 4 = 0" "unat y mod 4 = 0" using assms by (simp_all add: aligned_mod)
  moreover from this have "(unat x + 1) mod 4 = 1" "(unat y + 1) mod 4 = 1" "(unat y + 3) mod 4 = 3"
    by presburger+
  ultimately have m: "unat x mod 4 = 0" "unat (x + 1) mod 4 = 1" "unat (y + 1) mod 4 = 1" "unat (y + 3) mod 4 = 3"
    using unat_add_mod_4[of x 1] unat_add_mod_4[of y 1] unat_add_mod_4[of y 3] by simp_all
  have neq: "a \<noteq> b" if "unat a mod 4 \<noteq> unat b mod 4" for a b :: u16 using that by auto
  show "x \<noteq> y + 1" "x \<noteq> y + 3" "x + 1 \<noteq> y + 3" by (rule neq, unfold m, simp)+
  then show "y + 1 \<noteq> x" "y + 3 \<noteq> x" "y + 3 \<noteq> x + 1" by (blast dest: sym)+
qed

definition core_map :: "CpuRegs \<Rightarrow> u16 \<Rightarrow> u32" where "core_map r = bank_address (reg_CMBUK r)"
definition seg_table :: "CpuRegs \<Rightarrow> u16 \<Rightarrow> u32" where "seg_table r = bank_address (reg_STBNK r)"
definition next_link :: "'d machine \<Rightarrow> u16 \<Rightarrow> u16" where "next_link m x = phys_content m (core_map (g_reg m) x)"
definition back_link :: "'d machine \<Rightarrow> u16 \<Rightarrow> u16" where "back_link m x = phys_content m (core_map (g_reg m) (x + 1))"

definition marker :: "CpuRegs \<Rightarrow> u16 \<Rightarrow> u16" where
  "marker r b = drop_bit 1 (b - reg_STSRT r) OR 3"

text \<open>
  The list of pages of the segment whose segment-table entry is at \<open>b\<close>, as the code keeps it,
  and the layout it relies on: segment table and core map in different banks, entries aligned.
\<close>

definition page_list :: "'d machine \<Rightarrow> u16 \<Rightarrow> u16 list \<Rightarrow> bool" where
  "page_list m b xs \<longleftrightarrow> distinct xs \<and> (\<forall>x\<in>set xs. aligned x)
     \<and> dseg (next_link m) (back_link m) (marker (g_reg m) b) (phys_content m (seg_table (g_reg m) (b + 7))) xs 0"

definition list_words_plain :: "'d machine \<Rightarrow> u16 \<Rightarrow> u16 set \<Rightarrow> bool" where
  "list_words_plain m b X \<longleftrightarrow> plain_physical m (seg_table (g_reg m) (b + 7))
     \<and> reg_STBNK (g_reg m) AND 0xFF \<noteq> reg_CMBUK (g_reg m) AND 0xFF
     \<and> (\<forall>x\<in>X. plain_physical m (core_map (g_reg m) x) \<and> plain_physical m (core_map (g_reg m) (x + 1))
                \<and> plain_physical m (core_map (g_reg m) (x + 3)))"

lemma cm_st: "list_words_plain m b X \<Longrightarrow> core_map (g_reg m) x \<noteq> seg_table (g_reg m) y"
  "list_words_plain m b X \<Longrightarrow> seg_table (g_reg m) y \<noteq> core_map (g_reg m) x"
  by (auto simp: list_words_plain_def core_map_def seg_table_def bank_address_inj)

lemma cm_inj: "core_map r x = core_map r y \<longleftrightarrow> x = y"
  by (simp add: core_map_def bank_address_inj)

lemma head_of_list:
  "page_list m b xs \<Longrightarrow> phys_content m (seg_table (g_reg m) (b + 7)) = (if xs = [] then 0 else hd xs)
     \<and> (xs \<noteq> [] \<longrightarrow> back_link m (hd xs) = marker (g_reg m) b \<and> hd xs \<noteq> 0)"
  by (cases xs) (auto simp: page_list_def)

lemma page_list_links:
  "page_list m b xs \<Longrightarrow> \<forall>y\<in>set xs. y \<noteq> 0 \<and> next_link m y \<in> insert 0 (set xs)"
  unfolding page_list_def using dseg_links by blast

lemma dseg_inverse:
  "dseg nx pv b h xs 0 \<Longrightarrow> y \<in> set xs \<Longrightarrow> nx y \<noteq> 0 \<Longrightarrow> pv (nx y) = y"
proof (induction xs arbitrary: b h)
  case (Cons z zs)
  then show ?case by (cases zs) auto
qed simp

text \<open>Nothing links forward to the first node.\<close>

lemma dseg_head:
  assumes "dseg nx pv b h xs 0" "y \<in> set xs" "distinct xs" "h \<noteq> 0"
  shows "nx y \<noteq> h"
proof
  assume e: "nx y = h"
  obtain zs where xs: "xs = h # zs" using assms by (cases xs) auto
  have "dseg nx pv h (nx h) zs 0" using assms(1) xs by simp
  moreover have "nx y \<notin> insert 0 (set zs)" using assms(3,4) e xs by auto
  ultimately show False
    using assms(2) dseg_links xs e by (metis set_ConsD)
qed

lemma dseg_pred:
  "dseg nx pv b h xs 0 \<Longrightarrow> x \<in> set xs \<Longrightarrow> distinct xs \<Longrightarrow>
     (if x = h then pv x = b else pv x \<in> set xs \<and> nx (pv x) = x)"
proof (induction xs arbitrary: b h)
  case (Cons z zs)
  then show ?case by (cases zs) (auto split: if_splits)
qed simp

section \<open>INSPL and REMPL implement list operations\<close>

text \<open>INSPL is Cons on the page list: a new aligned page X goes in front of the segment's pages,
  its tag word gets T, and no register and no word outside the head slot, the new entry and the
  old first page's back link changes.\<close>

theorem inspl_conses:
  fixes m :: "'d machine"
  defines "r \<equiv> g_reg m"
  defines "b \<equiv> cur R_B r" and "x \<equiv> cur R_X r"
  assumes "priv_mode r" and list: "page_list m b xs" and plain: "list_words_plain m b (insert x (set xs))"
    and x: "aligned x" "x \<noteq> 0" "x \<notin> set xs"
  shows "\<exists>m'. opcode_inspl m = Done () m' \<and> g_reg m' = r \<and> page_list m' b (x # xs)
     \<and> phys_content m' (core_map r (x + 3)) = cur R_T r
     \<and> (\<forall>a. a \<notin> {seg_table r (b + 7), core_map r x, core_map r (x + 1), core_map r (x + 3)} \<union> (\<lambda>y. core_map r (y + 1)) ` set xs
           \<longrightarrow> phys_content m' a = phys_content m a)"
proof -
  define h where "h = (if xs = [] then 0 else hd xs)"
  define k where "k = marker r b"
  have hd: "phys_content m (seg_table r (b + 7)) = h" "h \<noteq> 0 \<longleftrightarrow> xs \<noteq> []" "h \<noteq> 0 \<Longrightarrow> back_link m h = k"
    using head_of_list[OF list] by (auto simp: h_def r_def k_def)
  have hs: "h \<noteq> 0 \<Longrightarrow> h \<in> set xs" by (auto simp: h_def split: if_splits)
  have al: "aligned y" if "y \<in> set xs" for y using list that by (simp add: page_list_def)
  have pl: "plain_physical m (seg_table r (b + 7))" "plain_physical m (core_map r x)" "plain_physical m (core_map r (x + 1))"
    "plain_physical m (core_map r (x + 3))" "h \<noteq> 0 \<Longrightarrow> plain_physical m (core_map r (h + 1))"
    using plain hs by (auto simp: list_words_plain_def r_def)
  have cs: "core_map r y \<noteq> seg_table r z" "seg_table r z \<noteq> core_map r y" for y z using cm_st[OF plain] by (auto simp: r_def)
  have hx: "h \<noteq> x" "h \<noteq> 0 \<Longrightarrow> aligned h" using x hs al by auto
  define m' where "m' = store_phys (core_map r (x + 3)) (cur R_T r) (store_phys (core_map r (x + 1)) k
     ((if h = 0 then id else store_phys (core_map r (h + 1)) x) (store_phys (core_map r x) h (store_phys (seg_table r (b + 7)) x m))))"
  have bk: "back_link m h = phys_content m (core_map r (h + 1))" by (simp add: back_link_def r_def)
  have run: "opcode_inspl m = Done () m'"
    using assms(4) pl hd hx aligned_neq[OF x(1) hx(2)] aligned_neq[OF hx(2) x(1)] cs
    unfolding opcode_inspl_def by (cases "h = 0")
      (simp_all add: priv_mode_run r_def[symmetric] Let_def core_map_def[symmetric] seg_table_def[symmetric] b_def[symmetric]
        x_def[symmetric] run_phys_read run_phys_write m'_def bk cm_inj marker_def k_def seq_def)
  have g: "g_reg m' = r" by (simp add: m'_def r_def)
  have content: "phys_content m' = (\<lambda>a. if a = core_map r (x + 3) then cur R_T r else if a = core_map r (x + 1) then k
      else if h \<noteq> 0 \<and> a = core_map r (h + 1) then x else if a = core_map r x then h
      else if a = seg_table r (b + 7) then x else phys_content m a)"
    by (cases "h = 0") (auto simp: m'_def fun_eq_iff)
  have nz: "y \<noteq> 0" if "y \<in> set xs" for y
    using page_list_links[OF list] that by blast
  have links: "next_link m' x = h" "back_link m' x = k"
    using hx aligned_neq[OF x(1) x(1)] aligned_neq[OF x(1) hx(2)]
    by (auto simp: next_link_def back_link_def g content cm_inj cs)
  have old: "next_link m' y = next_link m y \<and> back_link m' y = (if y = h then x else back_link m y)"
    if y: "y \<in> set xs" for y
  proof -
    have "y \<noteq> x" using y x by auto
    moreover have "h \<noteq> 0 \<Longrightarrow> y \<noteq> h + 1" using aligned_neq(1)[OF al[OF y] hx(2)] .
    ultimately show ?thesis
      using nz[OF y] aligned_neq[OF x(1) al[OF y]] aligned_neq[OF al[OF y] x(1)]
      by (auto simp: next_link_def back_link_def g content cm_inj cs r_def[symmetric])
  qed
  have "dseg (next_link m') (back_link m') x h xs 0"
  proof (rule dseg_back)
    show "dseg (next_link m) (back_link m) k h xs 0" "distinct xs"
      using list hd(1) by (simp_all add: page_list_def k_def r_def)
  qed (use old in auto)
  then have "page_list m' b (x # xs)"
    using list x links cs by (simp add: page_list_def g content k_def[symmetric])
  then show ?thesis
    using run g hs by (intro exI[of _ m']) (auto simp: content)
qed

lemma marker_tail: "marker r b AND 3 \<noteq> 0"
proof -
  have "bit (marker r b AND 3) 0" by (simp add: marker_def bit_or_iff bit_and_iff bit_0)
  then show ?thesis by auto
qed

lemma and_part:
  fixes w :: u16
  assumes "w AND 7 = 0"
  shows "w AND 6 = 0"
proof -
  have "w AND 6 = (w AND 7) AND 6" by (rule word16_bits) (auto simp: all_less_16 bit_simps)
  also have "\<dots> = 0" using \<open>w AND 7 = 0\<close> by (simp only: bit.conj_zero_left)
  finally show ?thesis .
qed

text \<open>With eight-word segment-table entries the marker leads back to the head slot.\<close>

lemma marker_slot:
  assumes "b AND 7 = 0" "reg_STSRT r AND 7 = 0"
  shows "(reg_STSRT r + 2 * marker r b) OR 7 = b + 7"
proof -
  define s where "s = reg_STSRT r"
  define d where "d = b - s"
  have m8: "w AND 7 = 0 \<longleftrightarrow> 8 dvd uint w" for w :: u16
  proof -
    have a: "w AND 7 = take_bit 3 w" by (simp add: take_bit_eq_mask mask_eq_exp_minus_1)
    have b: "uint (take_bit 3 w) = uint w mod 8" unfolding unsigned_take_bit_eq by (simp add: take_bit_eq_mod)
    show ?thesis by (simp only: a uint_0_iff[symmetric] b dvd_eq_mod_eq_0)
  qed
  have "8 dvd uint d"
    using assms unfolding m8 d_def s_def uint_word_ariths by (simp add: dvd_mod dvd_diff)
  then have d: "d AND 7 = 0" by (simp only: m8)
  have db: "\<not> bit d 0" "\<not> bit d 1" "\<not> bit d 2"
    using arg_cong[OF d, of "\<lambda>w. bit w 0"] arg_cong[OF d, of "\<lambda>w. bit w 1"] arg_cong[OF d, of "\<lambda>w. bit w 2"]
    by (simp_all add: bit_and_iff)
  have "2 * marker r b = d OR 6"
  proof -
    have "2 * marker r b = push_bit 1 (marker r b)" by (simp add: push_bit_eq_mult)
    also have "\<dots> = d OR 6"
      using db by (intro word16_bits) (auto simp: all_less_16 bit_simps bit_times_2 marker_def d_def s_def numeral_eq_Suc)
    finally show ?thesis .
  qed
  then have "s + 2 * marker r b = s + (d OR 6)" by simp
  also have "d OR 6 = d + 6"
    using d by (intro disjunctive_add_eq_or[symmetric] and_part) simp_all
  also have "s + (d + 6) = b + 6" by (simp add: d_def)
  also have "b + 6 = b OR 6"
    using assms(1) by (intro disjunctive_add_eq_or and_part) simp_all
  finally have "(s + 2 * marker r b) OR 7 = b OR 7"
    by (simp add: or.assoc)
  also have "\<dots> = b + 7" using assms(1) by (intro disjunctive_add_eq_or[symmetric])
  finally show ?thesis by (simp add: s_def)
qed

text \<open>C25
  REMPL is removal from the page list: the page in X, wherever it stands in its segment's list,
  is unlinked, its own two links are cleared, and the list is otherwise the same; when it is the
  first page the segment's head slot, found through the anchor marker alone, gets its
  successor. No register changes.\<close>

theorem rempl_removes:
  fixes m :: "'d machine"
  defines "r \<equiv> g_reg m"
  defines "x \<equiv> cur R_X r"
  assumes "priv_mode r" and list: "page_list m b xs" and plain: "list_words_plain m b (set xs)"
    and x: "x \<in> set xs" and al8: "b AND 7 = 0" "reg_STSRT r AND 7 = 0"
  shows "\<exists>m'. opcode_rempl m = Done () m' \<and> g_reg m' = r \<and> page_list m' b (remove1 x xs)
     \<and> next_link m' x = 0 \<and> back_link m' x = 0"
proof -
  define n p h where "n = next_link m x" and "p = back_link m x" and "h = phys_content m (seg_table r (b + 7))"
  have al: "aligned y" if "y \<in> set xs" for y using list that by (simp add: page_list_def)
  have seg: "dseg (next_link m) (back_link m) (marker r b) h xs 0" and dis: "distinct xs"
    using list by (simp_all add: page_list_def r_def h_def)
  have pd: "if x = h then p = marker r b else p \<in> set xs \<and> next_link m p = x"
    unfolding p_def by (rule dseg_pred[OF seg x dis])
  have nz: "y \<noteq> 0" if "y \<in> set xs" for y using page_list_links[OF list] that by blast
  have ns: "n \<noteq> 0 \<Longrightarrow> n \<in> set xs" using page_list_links[OF list] x by (auto simp: n_def)
  have tail: "p AND 3 \<noteq> 0 \<longleftrightarrow> x = h"
    using pd al marker_tail by (auto simp: aligned_def split: if_splits)
  have pl: "plain_physical m (seg_table r (b + 7))" "\<And>y. y \<in> set xs \<Longrightarrow> plain_physical m (core_map r y)"
    "\<And>y. y \<in> set xs \<Longrightarrow> plain_physical m (core_map r (y + 1))"
    using plain by (auto simp: list_words_plain_def r_def)
  have cs: "core_map r y \<noteq> seg_table r z" "seg_table r z \<noteq> core_map r y" for y z using cm_st[OF plain] by (auto simp: r_def)
  define m1 where "m1 = (if x = h then store_phys (seg_table r (b + 7)) n m else store_phys (core_map r p) n m)"
  define m' where "m' = store_phys (core_map r (x + 1)) 0 (store_phys (core_map r x) 0
     (if n \<noteq> 0 then store_phys (core_map r (n + 1)) p m1 else m1))"
  have "phys_content m (core_map r x) = n" "phys_content m (core_map r (x + 1)) = p"
    by (simp_all add: n_def p_def next_link_def back_link_def r_def)
  then have run: "opcode_rempl m = Done () m'"
    using assms(3) pl x pd tail marker_slot[OF al8] ns
    unfolding opcode_rempl_def by (cases "x = h"; cases "n = 0")
      (simp_all add: priv_mode_run r_def[symmetric] Let_def core_map_def[symmetric] seg_table_def[symmetric]
        x_def[symmetric] run_phys_read run_phys_write m'_def m1_def seq_def)
  have g: "g_reg m' = r" by (simp add: m'_def m1_def r_def)
  have content: "phys_content m' = (\<lambda>a. if a = core_map r (x + 1) then 0 else if a = core_map r x then 0
      else if n \<noteq> 0 \<and> a = core_map r (n + 1) then p
      else if x = h \<and> a = seg_table r (b + 7) \<or> x \<noteq> h \<and> a = core_map r p then n else phys_content m a)"
    by (auto simp: m'_def m1_def fun_eq_iff)
  have old: "next_link m' y = (if next_link m y = x then next_link m x else next_link m y)
      \<and> back_link m' y = (if y = next_link m x then back_link m x else back_link m y)"
    if y: "y \<in> set xs" "y \<noteq> x" for y
  proof -
    have "x \<noteq> 0" using nz x by auto
    then have "next_link m y = x \<longleftrightarrow> x \<noteq> h \<and> y = p"
      using dseg_inverse[OF seg y(1)] dseg_head[OF seg y(1) dis] pd \<open>x \<noteq> 0\<close> by (auto simp: p_def split: if_splits)
    moreover have "n \<noteq> 0 \<Longrightarrow> y \<noteq> n + 1" using aligned_neq(1)[OF al[OF y(1)] al[OF ns]] .
    moreover have "x \<noteq> h \<Longrightarrow> y + 1 \<noteq> p" using aligned_neq(1)[OF al al[OF y(1)], of p] pd by auto
    ultimately show ?thesis
      using y nz[OF y(1)] aligned_neq[OF al[OF x] al[OF y(1)]] aligned_neq[OF al[OF y(1)] al[OF x]]
      by (auto simp: next_link_def[of m'] back_link_def[of m'] g content cm_inj cs n_def[symmetric] p_def[symmetric])
        (auto simp: next_link_def back_link_def r_def n_def)
  qed
  have "dseg (next_link m') (back_link m') (marker r b) (if h = x then next_link m x else h) (remove1 x xs) 0"
    by (rule dseg_remove[OF seg dis x]) (use old in auto)
  moreover have "phys_content m' (seg_table r (b + 7)) = (if h = x then next_link m x else h)"
    using cs by (auto simp: content h_def n_def)
  ultimately have "page_list m' b (remove1 x xs)"
    using list by (auto simp: page_list_def g dest: notin_set_remove1 in_set_remove1)
  moreover have "next_link m' x = 0" "back_link m' x = 0"
    by (simp_all add: next_link_def back_link_def g content)
  ultimately show ?thesis using run g by blast
qed

section \<open>A concrete list\<close>

text \<open>One page at 80 (hex) in the list of the segment-table entry at 8, a second one at 40.\<close>

definition list_regs :: CpuRegs where
  "list_regs = demo_regs\<lparr>reg_STS := 0, reg_STBNK := 1, reg_CMBUK := 2,
     reg := (\<lambda>l i. if i = R_B then 8 else if i = R_X then 0x40 else if i = R_T then 9 else 0)\<rparr>"

definition list_machine :: "(nat \<Rightarrow> u16) \<Rightarrow> unit machine" where
  "list_machine mem = \<lparr>g_reg = list_regs, g_mms_type = MMS1,
     g_paging_tables = \<lparr>mmsType = MMS1, shadowRam = [], shadowRamAddress = 0, isInitialized = False\<rparr>,
     s_memory_banks = [], n_Array = mem, g_nd_memsize = 0x30000, g_ecc_latch = (\<lambda>_. 0),
     g_dma_access = False, s_tset_lock_fn = True, s_tset_lock_held = False, s_tset_old = 0,
     s_tset_old_valid = False, tset_calls = [], g_current_cpu_type = ND110, g_current_fpp_type = FPP48, CurrentCPURunMode = CPU_RUNNING,
     g_cpu_exit_code = 0, devices = ()\<rparr>"

definition one_page :: "nat \<Rightarrow> u16" where
  "one_page = (\<lambda>_. 0)(0x1000F := 0x80, 0x20081 := 7)"

definition two_pages :: "nat \<Rightarrow> u16" where
  "two_pages = (\<lambda>_. 0)(0x1000F := 0x40, 0x20040 := 0x80, 0x20041 := 7, 0x20081 := 0x40)"

lemma list_regs_facts:
  "priv_mode list_regs" "cur R_B list_regs = 8" "cur R_X list_regs = 0x40" "aligned 0x40"
  "reg_STSRT list_regs AND 7 = 0"
  by code_simp+

lemma list_machine_regs [simp]: "g_reg (list_machine mem) = list_regs"
  by (simp add: list_machine_def)

lemma list_words:
  "seg_table list_regs 15 = 0x1000F" "core_map list_regs 0x40 = 0x20040" "core_map list_regs 0x41 = 0x20041"
  "core_map list_regs 0x43 = 0x20043" "core_map list_regs 0x80 = 0x20080" "core_map list_regs 0x81 = 0x20081"
  "core_map list_regs 0x83 = 0x20083" "marker list_regs 8 = 7"
  by code_simp+

lemma list_machine_plain:
  "list_words_plain (list_machine mem) 8 {0x40, 0x80}"
proof -
  have "plain_physical (list_machine mem) a \<longleftrightarrow> 0 \<le> sint a \<and> a < 0x30000" if "a > 0xFFFF" for a
    using that by (simp add: plain_physical_def list_machine_def mms_is_address_shadow_memory_def backed_read_def
      backed_write_def mms_memory_bank_lookup_def list_regs_def demo_regs_def)
  then show ?thesis
    by (simp add: list_words_plain_def list_words) (simp add: list_regs_def)
qed

lemma list_machine_layout:
  "page_list (list_machine one_page) 8 [0x80]" "page_list (list_machine two_pages) 8 [0x40, 0x80]"
  by (simp_all add: page_list_def aligned_def next_link_def back_link_def phys_content_def list_words)
    (simp_all add: list_machine_def one_page_def two_pages_def)

theorem inspl_conses_witness:
  "\<exists>m'. opcode_inspl (list_machine one_page) = Done () m' \<and> page_list m' 8 [0x40, 0x80]"
  using inspl_conses[of "list_machine one_page" "[0x80]"] list_regs_facts list_machine_plain list_machine_layout by auto

theorem rempl_removes_witness:
  "\<exists>m'. opcode_rempl (list_machine two_pages) = Done () m' \<and> page_list m' 8 [0x80]"
  using rempl_removes[of "list_machine two_pages" 8 "[0x40, 0x80]"] list_regs_facts list_machine_plain list_machine_layout by auto

end
