(* ===== verification/Bcd.thy ===== *)
theory Bcd
  imports Instr
begin

text \<open>
  The commercial instructions of \<open>src/cpu/bcd.c\<close>: decimal operands in memory, the sign and
  magnitude of a packed field, and ADDD, SUBD, COMD and SHDE on them.
\<close>

section \<open>Operands\<close>

abbreviation (input) BCD_MAX_NIBBLES :: nat where "BCD_MAX_NIBBLES \<equiv> 32"
abbreviation (input) BCD_MAX_WORDS :: nat where "BCD_MAX_WORDS \<equiv> 10"
abbreviation (input) BCD_SIGN_POS :: int where "BCD_SIGN_POS \<equiv> 0x0C"
abbreviation (input) BCD_SIGN_NEG :: int where "BCD_SIGN_NEG \<equiv> 0x0D"
abbreviation (input) BCD_SIGN_UNS :: int where "BCD_SIGN_UNS \<equiv> 0x0F"

record BcdOperand =
  op_addr :: u16
  op_d2 :: u16
  starts_in_right_byte :: bool
  ascii_format :: nat
  rounding_on :: bool
  decimal_point :: nat
  field_length :: nat
  is_ascii :: bool
  op_words :: "u16 list"
  op_error :: bool
  error_code :: u8

definition bcd_byte_aligned_nibbles :: "BcdOperand \<Rightarrow> nat" where
  "bcd_byte_aligned_nibbles op = field_length op + field_length op mod 2"

definition bcd_mem_words :: "BcdOperand \<Rightarrow> nat" where
  "bcd_mem_words op =
     (if field_length op = 0 then 0
      else let n = (if \<not> is_ascii op
                    then (let m = bcd_byte_aligned_nibbles op; len = m div 4
                          in if len * 4 \<noteq> m then len + 1 else len)
                    else (let len = field_length op div 2
                          in if len * 2 \<noteq> field_length op then len + 1 else len));
               n = (if n = 0 then 1 else n)
           in if n > BCD_MAX_WORDS then BCD_MAX_WORDS else n)"

text \<open>Nibble and byte accessors. A byte access past the word array is undefined in C: \<open>None\<close>.\<close>

definition nibble_pos :: "BcdOperand \<Rightarrow> nat \<Rightarrow> nat" where
  "nibble_pos op i = i + (if starts_in_right_byte op then 2 else 0)"

definition bcd_get_nibble :: "BcdOperand \<Rightarrow> nat \<Rightarrow> int" where
  "bcd_get_nibble op i =
     (let p = nibble_pos op i
      in uint (drop_bit ((3 - p mod 4) * 4) (op_words op ! (p div 4)) AND 0x0F))"

definition bcd_set_nibble :: "nat \<Rightarrow> int \<Rightarrow> BcdOperand \<Rightarrow> BcdOperand" where
  "bcd_set_nibble i val op =
     (let p = nibble_pos op i; idx = p div 4; sh = (3 - p mod 4) * 4; w = op_words op ! idx
      in op\<lparr>op_words := (op_words op)[idx := (w AND NOT (push_bit sh 0x0F)) OR push_bit sh (word_of_int val AND 0x0F)]\<rparr>)"

definition byte_pos :: "BcdOperand \<Rightarrow> int \<Rightarrow> int" where
  "byte_pos op i = i + (if starts_in_right_byte op then 1 else 0)"

definition bcd_get_byte :: "BcdOperand \<Rightarrow> int \<Rightarrow> u8 option" where
  "bcd_get_byte op i =
     (let p = byte_pos op i
      in if 0 \<le> p div 2 \<and> p div 2 < int BCD_MAX_WORDS
         then (let w = op_words op ! nat (p div 2)
               in Some (if p mod 2 = 0 then ucast (drop_bit 8 w) else ucast (w AND 0x00FF)))
         else None)"

definition bcd_set_byte :: "int \<Rightarrow> u8 \<Rightarrow> BcdOperand \<Rightarrow> BcdOperand option" where
  "bcd_set_byte i val op =
     (let p = byte_pos op i
      in if 0 \<le> p div 2 \<and> p div 2 < int BCD_MAX_WORDS
         then (let idx = nat (p div 2); w = op_words op ! idx;
                   w = (if p mod 2 = 0 then (w AND 0x00FF) OR push_bit 8 (ucast val)
                        else (w AND 0xFF00) OR ucast val)
               in Some (op\<lparr>op_words := (op_words op)[idx := w]\<rparr>))
         else None)"

section \<open>Loading and storing\<close>

text \<open>The words are read from the last to the first and written from the first to the last.\<close>

primrec load_words :: "nat \<Rightarrow> BcdOperand \<Rightarrow> (BcdOperand, 'd) exec" where
  "load_words 0 op = ret op"
| "load_words (Suc i) op =
     bind_out (cpu_memory_read (op_addr op + of_nat i) True)
       (\<lambda>w. load_words i (op\<lparr>op_words := (op_words op)[i := w]\<rparr>))"

definition decode_descriptor :: "u16 \<Rightarrow> u16 \<Rightarrow> bool \<Rightarrow> BcdOperand" where
  "decode_descriptor d1 d2 ascii =
     \<lparr>op_addr = d1, op_d2 = d2, starts_in_right_byte = (drop_bit 15 d2 AND 1 \<noteq> 0),
      ascii_format = unat (drop_bit 11 d2 AND 0x07), rounding_on = (drop_bit 10 d2 AND 1 \<noteq> 0),
      decimal_point = unat (drop_bit 5 d2 AND 0x1F), field_length = unat (d2 AND 0x1F),
      is_ascii = ascii, op_words = replicate BCD_MAX_WORDS 0, op_error = False, error_code = 0\<rparr>"

definition bcd_get_operand :: "u16 \<Rightarrow> u16 \<Rightarrow> bool \<Rightarrow> (bool \<times> BcdOperand, 'd) exec" where
  "bcd_get_operand d1 d2 ascii =
     (let op = decode_descriptor d1 d2 ascii
      in if decimal_point op \<ge> field_length op \<and> decimal_point op \<noteq> 0
         then ret (False, op\<lparr>op_error := True\<rparr>)
         else if field_length op = 0 then ret (True, op)
         else bind_out (load_words (bcd_mem_words op) op) (\<lambda>op. ret (True, op)))"

primrec store_words :: "nat \<Rightarrow> nat \<Rightarrow> BcdOperand \<Rightarrow> (unit, 'd) exec" where
  "store_words i 0 op = ret ()"
| "store_words i (Suc n) op =
     seq (cpu_memory_write (op_words op ! i) (op_addr op + of_nat i) True WRITEMODE_WORD)
       (store_words (Suc i) n op)"

definition bcd_store_operand :: "BcdOperand \<Rightarrow> (unit, 'd) exec" where
  "bcd_store_operand op = (if field_length op = 0 then ret () else store_words 0 (bcd_mem_words op) op)"

section \<open>Sign and magnitude\<close>

definition bcd_decode_sign :: "BcdOperand \<Rightarrow> int \<times> bool" where
  "bcd_decode_sign op =
     (if field_length op = 0 then (1, False)
      else let sign_nib = bcd_get_nibble op (bcd_byte_aligned_nibbles op - 1)
           in if sign_nib = 0x0B \<or> sign_nib = 0x0D then (- 1, False)
              else if sign_nib = 0x0F then (1, True)
              else (1, False))"

definition bcd_digits :: "BcdOperand \<Rightarrow> nat" where
  "bcd_digits op = (if field_length op = 0 then 0 else bcd_byte_aligned_nibbles op - 1)"

definition bcd_extract_magnitude :: "BcdOperand \<Rightarrow> nat \<Rightarrow> int list" where
  "bcd_extract_magnitude op dst_len =
     (let digits = min (bcd_digits op) dst_len
      in replicate (dst_len - digits) 0 @ map (bcd_get_nibble op) [0..<digits])"

text \<open>
  The digit loops of the code run from the last digit to the first; the recursion does the
  same. A digit is stored through a \<open>uint8_t\<close>.
\<close>

definition u8_of :: "int \<Rightarrow> int" where
  "u8_of s = s mod 256"

fun bcd_add_magnitude :: "int list \<Rightarrow> int list \<Rightarrow> int list \<times> int" where
  "bcd_add_magnitude (a # as) (b # bs) =
     (let (r, carry) = bcd_add_magnitude as bs; s = a + b + carry
      in if s \<ge> 10 then (u8_of (s - 10) # r, 1) else (u8_of s # r, 0))"
| "bcd_add_magnitude _ _ = ([], 0)"

fun bcd_sub_magnitude :: "int list \<Rightarrow> int list \<Rightarrow> int list \<times> int" where
  "bcd_sub_magnitude (a # as) (b # bs) =
     (let (r, borrow) = bcd_sub_magnitude as bs; s = a - b - borrow
      in if s < 0 then (u8_of (s + 10) # r, 1) else (u8_of s # r, 0))"
| "bcd_sub_magnitude _ _ = ([], 0)"

fun bcd_cmp_magnitude :: "int list \<Rightarrow> int list \<Rightarrow> int" where
  "bcd_cmp_magnitude (a # as) (b # bs) =
     (if a \<noteq> b then (if a < b then - 1 else 1) else bcd_cmp_magnitude as bs)"
| "bcd_cmp_magnitude _ _ = 0"

text \<open>
  The fill loop of \<open>bcd_pack_magnitude_to_field\<close>: \<open>pos\<close> counts down to 0, \<open>n\<close> is the number
  of digits not yet placed; the digits left over are the overflow.
\<close>

primrec fill_field :: "nat \<Rightarrow> nat \<Rightarrow> int list \<Rightarrow> nat \<Rightarrow> nat \<Rightarrow> BcdOperand \<Rightarrow> nat \<times> BcdOperand" where
  "fill_field m cap ds 0 n op = (n, op)"
| "fill_field m cap ds (Suc pos) n op =
     (if m - 2 - pos < cap
      then fill_field m cap ds pos (n - 1) (bcd_set_nibble pos (if n > 0 then ds ! (n - 1) else 0) op)
      else fill_field m cap ds pos n (bcd_set_nibble pos 0 op))"

definition bcd_pack_magnitude_to_field :: "int list \<Rightarrow> int \<Rightarrow> BcdOperand \<Rightarrow> BcdOperand \<times> bool" where
  "bcd_pack_magnitude_to_field digits out_sign_nibble op =
     (if field_length op = 0 then (op, \<exists>d\<in>set digits. d \<noteq> 0)
      else let m = bcd_byte_aligned_nibbles op; cap = field_length op - 1;
               (n, op') = fill_field m cap digits (m - 1) (length digits) (bcd_set_nibble (m - 1) out_sign_nibble op)
           in (op', \<exists>d\<in>set (take n digits). d \<noteq> 0))"

section \<open>ADDD and SUBD\<close>

definition bcd_add_sub_field :: "BcdOperand \<Rightarrow> BcdOperand \<Rightarrow> int \<Rightarrow> BcdOperand \<times> bool" where
  "bcd_add_sub_field op1 op2 op2_sign_flip =
     (let s1 = fst (bcd_decode_sign op1); s2 = fst (bcd_decode_sign op2);
          op1_unsigned = (drop_bit 13 (op_d2 op1) AND 1 \<noteq> 0);
          eff_s2 = s2 * op2_sign_flip;
          cap = max (bcd_digits op1) (bcd_digits op2) + 1;
          a = bcd_extract_magnitude op1 cap; b = bcd_extract_magnitude op2 cap;
          (a, result_sign) =
            (if s1 = eff_s2 then (fst (bcd_add_magnitude a b), s1)
             else if bcd_cmp_magnitude a b \<ge> 0 then (fst (bcd_sub_magnitude a b), s1)
             else (fst (bcd_sub_magnitude b a), eff_s2));
          result_sign = (if \<forall>d\<in>set a. d = 0 then s1 else result_sign);
          out_sign = (if op1_unsigned then BCD_SIGN_UNS else if result_sign < 0 then BCD_SIGN_NEG else BCD_SIGN_POS)
      in bcd_pack_magnitude_to_field a out_sign op1)"

definition bcd_add_sub :: "BcdOperand \<Rightarrow> BcdOperand \<Rightarrow> int \<Rightarrow> (bool, 'd) exec" where
  "bcd_add_sub op1 op2 op2_sign_flip =
     (let (op1', overflow) = bcd_add_sub_field op1 op2 op2_sign_flip
      in seq (bcd_store_operand op1') (ret (\<not> overflow)))"

text \<open>\<open>if (!bcd_get_operand(...)) return;\<close>, for the operand in A,D and the one in X,T.\<close>

definition with_operand :: "nat \<Rightarrow> nat \<Rightarrow> bool \<Rightarrow> (BcdOperand \<Rightarrow> (unit, 'd) exec) \<Rightarrow> (unit, 'd) exec" where
  "with_operand i1 i2 ascii body =
     bind_out (get i1) (\<lambda>d1. bind_out (get i2) (\<lambda>d2.
     bind_out (bcd_get_operand d1 d2 ascii) (\<lambda>(ok, op). if ok then body op else ret ())))"

definition skip_if :: "(bool, 'd) exec \<Rightarrow> (unit, 'd) exec" where
  "skip_if f = bind_out f (\<lambda>ok. if ok then advance_p 1 else ret ())"

definition opcode_addd :: "(unit, 'd) exec" where
  "opcode_addd = with_operand R_A R_D False (\<lambda>op1. with_operand R_X R_T False (\<lambda>op2.
     skip_if (bcd_add_sub op1 op2 1)))"

definition opcode_subd :: "(unit, 'd) exec" where
  "opcode_subd = with_operand R_A R_D False (\<lambda>op1. with_operand R_X R_T False (\<lambda>op2.
     skip_if (bcd_add_sub op1 op2 (- 1))))"

section \<open>COMD\<close>

definition bcd_compare :: "BcdOperand \<Rightarrow> BcdOperand \<Rightarrow> int" where
  "bcd_compare op1 op2 =
     (let s1 = fst (bcd_decode_sign op1); s2 = fst (bcd_decode_sign op2);
          max_dp = max (decimal_point op1) (decimal_point op2);
          width = 2 * (BCD_MAX_NIBBLES + 2);
          a = bcd_extract_magnitude op1 (width - (max_dp - decimal_point op1)) @ replicate (max_dp - decimal_point op1) 0;
          b = bcd_extract_magnitude op2 (width - (max_dp - decimal_point op2)) @ replicate (max_dp - decimal_point op2) 0;
          s1 = (if \<forall>d\<in>set a. d = 0 then 0 else s1);
          s2 = (if \<forall>d\<in>set b. d = 0 then 0 else s2)
      in if s1 \<noteq> s2 then (if s1 < s2 then - 1 else 1)
         else let cmp = bcd_cmp_magnitude a b in if s1 < 0 then - cmp else cmp)"

definition opcode_comd :: "(unit, 'd) exec" where
  "opcode_comd = with_operand R_X R_T False (\<lambda>op2. with_operand R_A R_D False (\<lambda>op1.
     let cmp = bcd_compare op1 op2
     in seq (put R_A (if cmp > 0 then 1 else if cmp < 0 then 0xFFFF else 0)) (advance_p 1)))"

section \<open>SHDE\<close>

text \<open>The rounding loop: from the last kept digit upwards while there is a carry.\<close>

primrec round_up :: "int list \<Rightarrow> int list \<times> int" where
  "round_up [] = ([], 1)"
| "round_up (d # ds) =
     (let (r, carry) = round_up ds
      in if carry \<noteq> 0 then ((d + carry) mod 10 # r, (d + carry) div 10) else (d # r, 0))"

definition shift_digits :: "bool \<Rightarrow> int \<Rightarrow> int list \<Rightarrow> int list" where
  "shift_digits rounding count digits =
     (let src_digits = length digits
      in if count = 0 then digits
         else if count > 0
         then (let keep = nat (max 0 (int src_digits - count)); work = take keep digits
               in if rounding \<and> count \<le> int src_digits \<and> digits ! keep \<ge> 5
                  then (let (r, carry) = round_up work in if carry \<noteq> 0 then carry # r else r)
                  else work)
         else digits @ replicate (min (nat (- count)) (2 * BCD_MAX_NIBBLES + 4 - src_digits)) 0)"

definition bcd_shde_field :: "BcdOperand \<Rightarrow> BcdOperand \<Rightarrow> BcdOperand \<times> bool" where
  "bcd_shde_field dst src =
     (let src_sign = fst (bcd_decode_sign src);
          src_pad = bcd_byte_aligned_nibbles src - field_length src;
          src_digits = (if field_length src = 0 then 0 else field_length src - 1);
          dst_cap = field_length dst - 1;
          digits = map (\<lambda>i. bcd_get_nibble src (src_pad + i)) [0..<src_digits];
          count = int (decimal_point src) - int (decimal_point dst);
          work = shift_digits (rounding_on dst) count digits;
          mdst = bcd_byte_aligned_nibbles dst;
          overflow = (\<exists>d\<in>set (take (length work - dst_cap) work). d \<noteq> 0);
          dst1 = fold (\<lambda>pos. let slot = mdst - 2 - pos in
                   bcd_set_nibble pos (if slot < dst_cap \<and> slot < length work then work ! (length work - 1 - slot) else 0))
                 (rev [0..<mdst - 1]) dst;
          out_sign = (if drop_bit 13 (op_d2 dst) AND 1 \<noteq> 0 then BCD_SIGN_UNS
                      else if src_sign < 0 then BCD_SIGN_NEG else BCD_SIGN_POS)
      in (bcd_set_nibble (mdst - 1) out_sign dst1, overflow))"

definition bcd_shde :: "BcdOperand \<Rightarrow> BcdOperand \<Rightarrow> (bool, 'd) exec" where
  "bcd_shde dst src =
     (if field_length dst = 0 then ret False
      else let (dst', overflow) = bcd_shde_field dst src
           in seq (bcd_store_operand dst') (ret (\<not> overflow)))"

definition opcode_shde :: "(unit, 'd) exec" where
  "opcode_shde = with_operand R_X R_T False (\<lambda>op2. with_operand R_A R_D False (\<lambda>op1.
     skip_if (bcd_shde op2 op1)))"

section \<open>PACK and UPACK\<close>

abbreviation (input) BCD_ASCII_EMBEDDED_TRAILING :: nat where "BCD_ASCII_EMBEDDED_TRAILING \<equiv> 0"
abbreviation (input) BCD_ASCII_SEPARATE_TRAILING :: nat where "BCD_ASCII_SEPARATE_TRAILING \<equiv> 1"
abbreviation (input) BCD_ASCII_EMBEDDED_LEADING :: nat where "BCD_ASCII_EMBEDDED_LEADING \<equiv> 2"
abbreviation (input) BCD_ASCII_SEPARATE_LEADING :: nat where "BCD_ASCII_SEPARATE_LEADING \<equiv> 3"
abbreviation (input) BCD_ERR_ILLEGAL_CODE :: u16 where "BCD_ERR_ILLEGAL_CODE \<equiv> 2"
abbreviation (input) BCD_ERR_OVERFLOW :: u16 where "BCD_ERR_OVERFLOW \<equiv> 3"

text \<open>
  A conversion meets an illegal code, or an access past the operand's word array, whose
  effect C leaves undefined, or it gives a value.
\<close>

datatype 'a conversion = Undefined | Illegal | Converted 'a

text \<open>The operand's own error fields are not read after the report.\<close>

definition bcd_report_error :: "u16 \<Rightarrow> (unit, 'd) exec" where
  "bcd_report_error code = on_regs (\<lambda>r.
     let r1 = set_cur R_D ((cur R_D r AND NOT 0x1F) OR (code AND 0x1F)) r
     in if code = BCD_ERR_ILLEGAL_CODE
        then set_cur R_D (cur R_D r1 OR 0x8000) (set_cur R_A (cur R_A r1 OR 0x8000) r1) else r1)"

definition bcd_ascii_layout :: "nat \<Rightarrow> int \<Rightarrow> int \<times> int \<times> int" where
  "bcd_ascii_layout format len =
     (if format = BCD_ASCII_EMBEDDED_TRAILING then (len - 1, 0, len - 1)
      else if format = BCD_ASCII_SEPARATE_TRAILING then (len - 1, 0, len - 2)
      else if format = BCD_ASCII_EMBEDDED_LEADING then (0, 0, len - 1)
      else if format = BCD_ASCII_SEPARATE_LEADING then (0, 1, len - 1)
      else (- 1, 0, len - 1))"

definition separate_sign :: "BcdOperand \<Rightarrow> bool" where
  "separate_sign op \<longleftrightarrow> ascii_format op = BCD_ASCII_SEPARATE_TRAILING \<or> ascii_format op = BCD_ASCII_SEPARATE_LEADING"

definition embedded_sign :: "BcdOperand \<Rightarrow> bool" where
  "embedded_sign op \<longleftrightarrow> ascii_format op = BCD_ASCII_EMBEDDED_TRAILING \<or> ascii_format op = BCD_ASCII_EMBEDDED_LEADING"

text \<open>The byte that carries digit and sign: the overpunch table, or a plain digit.\<close>

definition overpunch_digit :: "u8 \<Rightarrow> (int \<times> int) option" where
  "overpunch_digit b =
     (if b = 0x7B then Some (0, 1)
      else if b = 0x7D then Some (0, - 1)
      else if 0x41 \<le> b \<and> b \<le> 0x49 then Some (uint b - 0x40, 1)
      else if 0x4A \<le> b \<and> b \<le> 0x52 then Some (uint b - 0x49, - 1)
      else if 0x30 \<le> b \<and> b \<le> 0x39 then Some (uint (b AND 0x0F), 1)
      else None)"

definition separate_sign_of :: "BcdOperand \<Rightarrow> int \<Rightarrow> int conversion" where
  "separate_sign_of src sign_byte =
     (if separate_sign src
      then (case bcd_get_byte src sign_byte of None \<Rightarrow> Undefined
            | Some sb \<Rightarrow> if sb = 0x2B then Converted 1 else if sb = 0x2D then Converted (- 1) else Illegal)
      else Converted 1)"

primrec read_digits :: "BcdOperand \<Rightarrow> int \<Rightarrow> int list \<Rightarrow> int list \<Rightarrow> int \<Rightarrow> (int list \<times> int) conversion" where
  "read_digits src sign_byte [] digits sign = Converted (digits, sign)"
| "read_digits src sign_byte (i # is) digits sign =
     (if length digits \<ge> BCD_MAX_NIBBLES then Converted (digits, sign)
      else case bcd_get_byte src i of None \<Rightarrow> Undefined
         | Some b \<Rightarrow>
             (if i = sign_byte \<and> embedded_sign src
              then (case overpunch_digit b of None \<Rightarrow> Illegal
                    | Some (digit, s) \<Rightarrow> read_digits src sign_byte is (digits @ [digit]) s)
              else if b < 0x30 \<or> b > 0x39 then Illegal
              else read_digits src sign_byte is (digits @ [uint (b AND 0x0F)]) sign))"

definition read_ascii :: "BcdOperand \<Rightarrow> (int list \<times> int) conversion" where
  "read_ascii src =
     (let (sign_byte, first, last) = bcd_ascii_layout (ascii_format src) (int (field_length src))
      in case separate_sign_of src sign_byte of Undefined \<Rightarrow> Undefined | Illegal \<Rightarrow> Illegal
         | Converted sign \<Rightarrow> read_digits src sign_byte [first..last] [] sign)"

text \<open>The second half of the conversion is the fill loop of \<open>bcd_pack_magnitude_to_field\<close>.\<close>

definition bcd_convert_to_packed :: "(bool, 'd) exec \<Rightarrow> BcdOperand \<Rightarrow> BcdOperand \<Rightarrow> (bool, 'd) exec" where
  "bcd_convert_to_packed ub dst src =
     (case read_ascii src of
        Undefined \<Rightarrow> ub
      | Illegal \<Rightarrow> seq (bcd_report_error BCD_ERR_ILLEGAL_CODE) (ret False)
      | Converted (digits, sign) \<Rightarrow>
          (let out_sign = (if drop_bit 13 (op_d2 dst) AND 1 \<noteq> 0 then BCD_SIGN_UNS
                           else if sign < 0 then BCD_SIGN_NEG else BCD_SIGN_POS);
               (dst', overflow) = bcd_pack_magnitude_to_field digits out_sign dst
           in seq (bcd_store_operand dst')
                (if overflow then seq (bcd_report_error BCD_ERR_OVERFLOW) (ret False) else ret True)))"

definition opcode_pack :: "(bool, 'd) exec \<Rightarrow> (unit, 'd) exec" where
  "opcode_pack ub = with_operand R_X R_T False (\<lambda>op2. with_operand R_A R_D True (\<lambda>op1.
     skip_if (bcd_convert_to_packed ub op2 op1)))"

definition unpacked_digit_byte :: "BcdOperand \<Rightarrow> int \<Rightarrow> int \<Rightarrow> bool \<Rightarrow> int \<Rightarrow> int \<Rightarrow> u8" where
  "unpacked_digit_byte dst pos sign_byte unsigned_req sign digit =
     (if pos = sign_byte \<and> \<not> unsigned_req \<and> embedded_sign dst
      then (if sign < 0 then (if digit = 0 then 0x7D else word_of_int (0x49 + digit))
            else (if digit = 0 then 0x7B else word_of_int (0x40 + digit)))
      else word_of_int (0x30 OR digit))"

primrec write_digits :: "int \<Rightarrow> bool \<Rightarrow> int \<Rightarrow> int list \<Rightarrow> int list \<Rightarrow> BcdOperand \<Rightarrow> BcdOperand option" where
  "write_digits sign_byte uns sign [] rest dst = Some dst"
| "write_digits sign_byte uns sign (pos # ps) rest dst =
     (let (digit, rest') = (case rest of [] \<Rightarrow> (0, []) | d # ds \<Rightarrow> (d, ds))
      in case bcd_set_byte pos (unpacked_digit_byte dst pos sign_byte uns sign digit) dst of
           None \<Rightarrow> None | Some dst' \<Rightarrow> write_digits sign_byte uns sign ps rest' dst')"

definition read_packed :: "BcdOperand \<Rightarrow> (int list \<times> int \<times> bool) conversion" where
  "read_packed src =
     (let m_src = bcd_byte_aligned_nibbles src; pad = m_src - field_length src
      in if m_src = 0 then Converted ([], 1, False)
         else let sign_nib = bcd_get_nibble src (m_src - 1);
                  digits = map (bcd_get_nibble src) [pad..<m_src - 1]
              in if sign_nib \<notin> {0x0A, 0x0B, 0x0C, 0x0D, 0x0E, 0x0F} \<or> (\<exists>d\<in>set digits. d > 9) then Illegal
                 else Converted (digits, if sign_nib = 0x0B \<or> sign_nib = 0x0D then - 1 else 1, sign_nib = 0x0F))"

text \<open>The digits are written from the last byte down, the last digit first.\<close>

definition write_ascii :: "BcdOperand \<Rightarrow> int list \<Rightarrow> int \<Rightarrow> bool \<Rightarrow> (BcdOperand \<times> bool) conversion" where
  "write_ascii dst digits sign unsigned_src =
     (let unsigned_req = unsigned_src \<or> drop_bit 13 (op_d2 dst) AND 1 \<noteq> 0;
          (sign_byte, first, last) = bcd_ascii_layout (ascii_format dst) (int (field_length dst));
          overflow = (int (length digits) > last - first + 1)
      in case write_digits sign_byte unsigned_req sign (rev [first..last]) (rev digits) dst of
           None \<Rightarrow> Undefined
         | Some dst1 \<Rightarrow>
             (if sign_byte \<ge> 0 \<and> separate_sign dst
              then (case bcd_set_byte sign_byte
                           (if unsigned_req then 0x30 else if sign < 0 then 0x2D else 0x2B) dst1 of
                      None \<Rightarrow> Undefined | Some dst2 \<Rightarrow> Converted (dst2, overflow))
              else Converted (dst1, overflow)))"

definition bcd_convert_to_unpacked :: "(bool, 'd) exec \<Rightarrow> BcdOperand \<Rightarrow> BcdOperand \<Rightarrow> (bool, 'd) exec" where
  "bcd_convert_to_unpacked ub dst src =
     (case read_packed src of
        Undefined \<Rightarrow> ub
      | Illegal \<Rightarrow> seq (bcd_report_error BCD_ERR_ILLEGAL_CODE) (ret False)
      | Converted (digits, sign, unsigned_src) \<Rightarrow>
          (case write_ascii dst digits sign unsigned_src of
             Undefined \<Rightarrow> ub
           | Illegal \<Rightarrow> ub
           | Converted (dst', overflow) \<Rightarrow>
               seq (bcd_store_operand dst')
                 (if overflow then seq (bcd_report_error BCD_ERR_OVERFLOW) (ret False) else ret True)))"

definition operand_or_report :: "nat \<Rightarrow> nat \<Rightarrow> bool \<Rightarrow> (BcdOperand \<Rightarrow> (unit, 'd) exec) \<Rightarrow> (unit, 'd) exec" where
  "operand_or_report i1 i2 ascii body =
     bind_out (get i1) (\<lambda>d1. bind_out (get i2) (\<lambda>d2.
     bind_out (bcd_get_operand d1 d2 ascii)
       (\<lambda>(ok, op). if ok then body op else bcd_report_error BCD_ERR_ILLEGAL_CODE)))"

definition opcode_unpack :: "(bool, 'd) exec \<Rightarrow> (unit, 'd) exec" where
  "opcode_unpack ub = operand_or_report R_A R_D False (\<lambda>op1. operand_or_report R_X R_T True (\<lambda>op2.
     if field_length op2 = 0 then ret () else skip_if (bcd_convert_to_unpacked ub op2 op1)))"

end
