(* ===== verification/BcdFields.thy ===== *)
theory BcdFields
  imports Bcd
begin

text \<open>
  Facts about packed decimal fields: digit lists and their values, the digit loops as
  arithmetic, nibbles of a field, packing a magnitude into a field, and operands that are
  loaded from and stored to plain memory.
\<close>

section \<open>Decimal digits\<close>

primrec dec_value :: "int list \<Rightarrow> int" where
  "dec_value [] = 0"
| "dec_value (d # ds) = d * 10 ^ length ds + dec_value ds"

definition decimal :: "int list \<Rightarrow> bool" where
  "decimal ds \<longleftrightarrow> (\<forall>d\<in>set ds. 0 \<le> d \<and> d \<le> 9)"

lemma decimal_simps [simp]:
  "decimal []" "decimal (d # ds) \<longleftrightarrow> 0 \<le> d \<and> d \<le> 9 \<and> decimal ds"
  "decimal (xs @ ys) \<longleftrightarrow> decimal xs \<and> decimal ys" "decimal (replicate n 0)"
  by (auto simp: decimal_def)

lemma decimal_take: "decimal ds \<Longrightarrow> decimal (take n ds)" "decimal ds \<Longrightarrow> decimal (drop n ds)"
  by (auto simp: decimal_def dest: in_set_takeD in_set_dropD)

lemma dec_value_append: "dec_value (xs @ ys) = dec_value xs * 10 ^ length ys + dec_value ys"
  by (induction xs) (simp_all add: power_add algebra_simps)

lemma dec_value_zeros [simp]: "dec_value (replicate n 0) = 0"
  by (induction n) simp_all

lemma dec_value_bounds: "decimal ds \<Longrightarrow> 0 \<le> dec_value ds \<and> dec_value ds < 10 ^ length ds"
proof (induction ds)
  case (Cons d ds)
  have "0 \<le> d * 10 ^ length ds" "d * 10 ^ length ds \<le> 9 * 10 ^ length ds"
    using Cons.prems by (simp_all only: decimal_simps mult_le_cancel_right) simp_all
  moreover have "0 \<le> dec_value ds" "dec_value ds < 10 ^ length ds" using Cons by simp_all
  ultimately show ?case unfolding dec_value.simps length_Cons power_Suc by (intro conjI; linarith)
qed simp

lemma dec_value_zero: "decimal ds \<Longrightarrow> dec_value ds = 0 \<longleftrightarrow> (\<forall>d\<in>set ds. d = 0)"
proof (induction ds)
  case (Cons d ds)
  have "0 \<le> d * 10 ^ length ds" using Cons.prems by simp
  then show ?case using Cons dec_value_bounds[of ds] by (auto simp: add_nonneg_eq_0_iff)
qed simp

text \<open>The last \<open>n\<close> digits are the remainder, the digits before them the quotient.\<close>

lemma dec_value_split:
  assumes "decimal ds"
  shows "dec_value (drop (length ds - n) ds) = dec_value ds mod 10 ^ n"
    "dec_value (take (length ds - n) ds) = dec_value ds div 10 ^ n"
proof -
  define hi lo where "hi = take (length ds - n) ds" and "lo = drop (length ds - n) ds"
  have lo: "0 \<le> dec_value lo" "dec_value lo < 10 ^ length lo"
    using dec_value_bounds[of lo] decimal_take(2)[OF assms] by (simp_all add: lo_def)
  have e: "dec_value ds = dec_value hi * 10 ^ length lo + dec_value lo"
    unfolding dec_value_append[symmetric] by (simp add: hi_def lo_def)
  have "dec_value lo = dec_value ds mod 10 ^ n \<and> dec_value hi = dec_value ds div 10 ^ n"
  proof (cases "n \<le> length ds")
    case True
    then have "length lo = n" by (simp add: lo_def)
    then show ?thesis using lo e by simp
  next
    case False
    then have "hi = []" "length lo \<le> n" by (simp_all add: hi_def lo_def)
    moreover have "(10 :: int) ^ length lo \<le> 10 ^ n" using \<open>length lo \<le> n\<close> by (intro power_increasing) simp_all
    ultimately have "dec_value lo < 10 ^ n" using lo(2) by linarith
    then show ?thesis using lo e \<open>hi = []\<close> by (simp add: mod_pos_pos_trivial div_pos_pos_trivial)
  qed
  then show "dec_value (drop (length ds - n) ds) = dec_value ds mod 10 ^ n"
    "dec_value (take (length ds - n) ds) = dec_value ds div 10 ^ n"
    by (simp_all add: hi_def lo_def)
qed

lemma u8_of_small [simp]: "0 \<le> s \<Longrightarrow> s < 256 \<Longrightarrow> u8_of s = s"
  by (simp add: u8_of_def)

lemma add_magnitude:
  "length a = length b \<Longrightarrow> decimal a \<Longrightarrow> decimal b \<Longrightarrow> bcd_add_magnitude a b = (r, c) \<Longrightarrow>
     decimal r \<and> length r = length a \<and> c \<in> {0, 1} \<and> c * 10 ^ length a + dec_value r = dec_value a + dec_value b"
proof (induction a b arbitrary: r c rule: bcd_add_magnitude.induct)
  case (1 a as b bs)
  obtain r' c' where e: "bcd_add_magnitude as bs = (r', c')" by fastforce
  have d: "0 \<le> a" "a \<le> 9" "0 \<le> b" "b \<le> 9" using "1.prems" by simp_all
  have ih: "decimal r'" "length r' = length as" "c' \<in> {0, 1}" "length as = length bs"
    "c' * 10 ^ length as + dec_value r' = dec_value as + dec_value bs"
    using "1.IH"[OF _ _ _ e] "1.prems"(1-3) by auto
  have rc: "(r, c) = (if a + b + c' \<ge> 10 then ((a + b + c' - 10) # r', 1) else ((a + b + c') # r', 0))"
    using d ih(3) "1.prems"(4) by (auto simp: e Let_def)
  show ?case
  proof (cases "a + b + c' \<ge> 10")
    case True
    then have "r = (a + b + c' - 10) # r'" "c = 1" using rc by simp_all
    moreover have "a + b + c' \<le> 19" using d ih(3) by auto
    ultimately show ?thesis using True ih(1,2,4,5) by (simp add: distrib_right left_diff_distrib)
  next
    case False
    then have "r = (a + b + c') # r'" "c = 0" using rc by simp_all
    moreover have "0 \<le> a + b + c'" using d ih(3) by auto
    ultimately show ?thesis using False ih(1,2,4,5) by (simp add: distrib_right left_diff_distrib)
  qed
qed simp_all

lemma sub_magnitude:
  "length a = length b \<Longrightarrow> decimal a \<Longrightarrow> decimal b \<Longrightarrow> bcd_sub_magnitude a b = (r, c) \<Longrightarrow>
     decimal r \<and> length r = length a \<and> c \<in> {0, 1} \<and> dec_value r - c * 10 ^ length a = dec_value a - dec_value b"
proof (induction a b arbitrary: r c rule: bcd_sub_magnitude.induct)
  case (1 a as b bs)
  obtain r' c' where e: "bcd_sub_magnitude as bs = (r', c')" by fastforce
  have d: "0 \<le> a" "a \<le> 9" "0 \<le> b" "b \<le> 9" using "1.prems" by simp_all
  have ih: "decimal r'" "length r' = length as" "c' \<in> {0, 1}" "length as = length bs"
    "dec_value r' - c' * 10 ^ length as = dec_value as - dec_value bs"
    using "1.IH"[OF _ _ _ e] "1.prems"(1-3) by auto
  have rc: "(r, c) = (if a - b - c' < 0 then ((a - b - c' + 10) # r', 1) else ((a - b - c') # r', 0))"
    using d ih(3) "1.prems"(4) by (auto simp: e Let_def)
  show ?case
  proof (cases "a - b - c' < 0")
    case True
    then have "r = (a - b - c' + 10) # r'" "c = 1" using rc by simp_all
    moreover have "- 10 \<le> a - b - c'" using d ih(3) by auto
    ultimately show ?thesis using True ih(1,2,4,5) by (simp add: distrib_right left_diff_distrib)
  next
    case False
    then have "r = (a - b - c') # r'" "c = 0" using rc by simp_all
    moreover have "a - b - c' \<le> 9" using d ih(3) by auto
    ultimately show ?thesis using False ih(1,2,4,5) by (simp add: distrib_right left_diff_distrib)
  qed
qed simp_all

lemma lead_digit: "x < y \<Longrightarrow> x * 10 ^ k + 10 ^ k \<le> y * 10 ^ k" for x y :: int and k :: nat
proof -
  assume "x < y"
  then have "(x + 1) * 10 ^ k \<le> y * 10 ^ k" by (intro mult_right_mono) simp_all
  then show ?thesis by (simp add: algebra_simps)
qed

lemma cmp_magnitude:
  "length a = length b \<Longrightarrow> decimal a \<Longrightarrow> decimal b \<Longrightarrow> bcd_cmp_magnitude a b = sgn (dec_value a - dec_value b)"
proof (induction a b rule: bcd_cmp_magnitude.induct)
  case (1 a as b bs)
  have b: "0 \<le> dec_value as" "dec_value as < 10 ^ length as" "0 \<le> dec_value bs" "dec_value bs < 10 ^ length as"
    using 1 dec_value_bounds[of as] dec_value_bounds[of bs] by simp_all
  have l: "length (b # bs) = length (a # as)" using 1 by simp
  consider "a = b" | "a < b" | "b < a" by linarith
  then show ?case
  proof cases
    case 2
    then have "dec_value (a # as) - dec_value (b # bs) < 0"
      using b lead_digit[OF 2, of "length as"] l unfolding dec_value.simps length_Cons by simp
    then show ?thesis using 2 by (simp only: bcd_cmp_magnitude.simps sgn_if) simp
  next
    case 3
    then have "dec_value (a # as) - dec_value (b # bs) > 0"
      using b lead_digit[OF 3, of "length as"] l unfolding dec_value.simps length_Cons by simp
    then show ?thesis using 3 by (simp only: bcd_cmp_magnitude.simps sgn_if) simp
  qed (use 1 in simp)
qed simp_all

text \<open>Adding with a spare leading position never carries out, and an ordered subtraction never borrows.\<close>

lemma add_exact:
  assumes "length a = length b" "decimal a" "decimal b" "dec_value a + dec_value b < 10 ^ length a"
  shows "decimal (fst (bcd_add_magnitude a b))" "length (fst (bcd_add_magnitude a b)) = length a"
    "dec_value (fst (bcd_add_magnitude a b)) = dec_value a + dec_value b"
proof -
  obtain r c where e: "bcd_add_magnitude a b = (r, c)" by fastforce
  note f = add_magnitude[OF assms(1-3) e]
  then have "c = 0" using assms(4) dec_value_bounds[of r] by auto
  then show "decimal (fst (bcd_add_magnitude a b))" "length (fst (bcd_add_magnitude a b)) = length a"
    "dec_value (fst (bcd_add_magnitude a b)) = dec_value a + dec_value b" using f by (simp_all add: e)
qed

lemma sub_exact:
  assumes "length a = length b" "decimal a" "decimal b" "dec_value b \<le> dec_value a"
  shows "decimal (fst (bcd_sub_magnitude a b))" "length (fst (bcd_sub_magnitude a b)) = length a"
    "dec_value (fst (bcd_sub_magnitude a b)) = dec_value a - dec_value b"
proof -
  obtain r c where e: "bcd_sub_magnitude a b = (r, c)" by fastforce
  note f = sub_magnitude[OF assms(1-3) e]
  then have "c = 0" using assms(4) dec_value_bounds[of r] by auto
  then show "decimal (fst (bcd_sub_magnitude a b))" "length (fst (bcd_sub_magnitude a b)) = length a"
    "dec_value (fst (bcd_sub_magnitude a b)) = dec_value a - dec_value b" using f by (simp_all add: e)
qed

section \<open>Nibbles\<close>

lemma bit_nibble_merge:
  fixes w v :: u16
  shows "bit ((w AND NOT (push_bit sh 0x0F)) OR push_bit sh (v AND 0x0F)) k \<longleftrightarrow>
     k < 16 \<and> (if sh \<le> k \<and> k < sh + 4 then bit v (k - sh) else bit w k)"
proof -
  have m: "(0x0F :: u16) = mask 4" by (simp add: mask_eq_exp_minus_1)
  show ?thesis
    unfolding m using bit_imp_le_length[of w k] bit_imp_le_length[of v "k - sh"]
    by (auto simp: bit_simps)
qed

lemma bit_nibble: "bit (drop_bit sh w AND 0x0F :: u16) k \<longleftrightarrow> k < 4 \<and> bit w (sh + k)"
proof -
  have m: "(0x0F :: u16) = mask 4" by (simp add: mask_eq_exp_minus_1)
  show ?thesis unfolding m using bit_imp_le_length[of w "sh + k"] by (auto simp: bit_simps add.commute)
qed

definition geometry :: "BcdOperand \<Rightarrow> bool" where
  "geometry op \<longleftrightarrow> length (op_words op) = BCD_MAX_WORDS \<and> field_length op < 32"

lemma set_nibble_words:
  "\<exists>ws. bcd_set_nibble i v op = op\<lparr>op_words := ws\<rparr> \<and> length ws = length (op_words op)"
  unfolding bcd_set_nibble_def Let_def by (intro exI conjI, rule refl) (rule length_list_update)

lemma set_nibble_sel [simp]:
  "field_length (bcd_set_nibble i v op) = field_length op" "op_d2 (bcd_set_nibble i v op) = op_d2 op"
  "op_addr (bcd_set_nibble i v op) = op_addr op" "is_ascii (bcd_set_nibble i v op) = is_ascii op"
  "starts_in_right_byte (bcd_set_nibble i v op) = starts_in_right_byte op"
  "decimal_point (bcd_set_nibble i v op) = decimal_point op"
  "ascii_format (bcd_set_nibble i v op) = ascii_format op"
  "bcd_byte_aligned_nibbles (bcd_set_nibble i v op) = bcd_byte_aligned_nibbles op"
  "nibble_pos (bcd_set_nibble i v op) = nibble_pos op" "bcd_mem_words (bcd_set_nibble i v op) = bcd_mem_words op"
  "length (op_words (bcd_set_nibble i v op)) = length (op_words op)"
  "geometry (bcd_set_nibble i v op) = geometry op"
  using set_nibble_words[of i v op]
  by (elim exE conjE; simp add: bcd_byte_aligned_nibbles_def nibble_pos_def fun_eq_iff
      bcd_mem_words_def geometry_def)+

lemma uint_low_nibble: "uint (w AND 0x0F :: u16) = uint w mod 16"
proof -
  have a: "w AND 0x0F = take_bit 4 w" by (simp only: take_bit_eq_mask) (simp add: mask_eq_exp_minus_1)
  have b: "uint (take_bit 4 w) = take_bit 4 (uint w)" by (rule unsigned_take_bit_eq)
  show ?thesis unfolding a b by (simp add: take_bit_eq_mod)
qed

lemma nibble_range: "0 \<le> bcd_get_nibble op i" "bcd_get_nibble op i < 16"
  by (simp_all add: bcd_get_nibble_def Let_def uint_low_nibble)

text \<open>The nibble at an absolute position of the word array: a store changes its own only.\<close>

definition word_nibble :: "BcdOperand \<Rightarrow> nat \<Rightarrow> int" where
  "word_nibble op p = uint (drop_bit ((3 - p mod 4) * 4) (op_words op ! (p div 4)) AND 0x0F)"

lemma bcd_get_word_nibble: "bcd_get_nibble op i = word_nibble op (nibble_pos op i)"
  by (simp add: bcd_get_nibble_def word_nibble_def Let_def)

lemma word_set_nibble:
  assumes "geometry op" "nibble_pos op i < 40"
  shows "word_nibble (bcd_set_nibble i v op) q = (if nibble_pos op i = q then v mod 16 else word_nibble op q)"
proof (cases "nibble_pos op i = q")
  case True
  define sh where "sh = (3 - nibble_pos op i mod 4) * 4"
  have sh: "sh + 4 \<le> 16" by (simp add: sh_def)
  have "drop_bit sh ((w AND NOT (push_bit sh 0x0F)) OR push_bit sh (x AND 0x0F)) AND 0x0F = x AND 0x0F" for w x :: u16
  proof (rule bit_word_eqI)
    fix n
    have z: "bit (x AND 0x0F) n \<longleftrightarrow> n < 4 \<and> bit x n" using bit_nibble[of 0 x n] by simp
    show "bit (drop_bit sh ((w AND NOT (push_bit sh 0x0F)) OR push_bit sh (x AND 0x0F)) AND 0x0F) n = bit (x AND 0x0F) n"
      unfolding bit_nibble bit_nibble_merge using sh z by auto
  qed
  moreover have "nibble_pos op i div 4 < length (op_words op)" using assms by (auto simp: geometry_def)
  moreover have "uint (word_of_int v AND 0x0F :: u16) = v mod 16"
    unfolding uint_low_nibble by (simp add: uint_word_of_int mod_mod_cancel)
  ultimately show ?thesis
    using True by (simp add: word_nibble_def) (simp add: bcd_set_nibble_def Let_def sh_def)
next
  case False
  define p where "p = nibble_pos op i"
  have pq: "p \<noteq> q" using False by (simp add: p_def)
  define w where "w = op_words op ! (p div 4)"
  have "drop_bit ((3 - q mod 4) * 4) ((w AND NOT (push_bit ((3 - p mod 4) * 4) 0x0F)) OR push_bit ((3 - p mod 4) * 4) (x AND 0x0F)) AND 0x0F
    = drop_bit ((3 - q mod 4) * 4) w AND 0x0F" if "p div 4 = q div 4" for x :: u16
  proof -
    have "p mod 4 \<noteq> q mod 4" using that pq by (metis div_mult_mod_eq)
    then have ne: "3 - p mod 4 \<noteq> 3 - q mod 4"
      using mod_less_divisor[of 4 p] mod_less_divisor[of 4 q] by linarith
    have c: "3 - p mod 4 \<le> 3" "3 - q mod 4 \<le> 3" by simp_all
    show ?thesis
      using ne c by (intro bit_word_eqI, unfold bit_nibble bit_nibble_merge) auto
  qed
  moreover have "p div 4 < length (op_words op)" using assms by (auto simp: geometry_def p_def)
  ultimately show ?thesis
    using False unfolding word_nibble_def
    by (cases "p div 4 = q div 4") (simp_all add: bcd_set_nibble_def Let_def p_def[symmetric] w_def)
qed

lemma nibble_pos_inj [simp]: "nibble_pos op i = nibble_pos op j \<longleftrightarrow> i = j"
  by (simp add: nibble_pos_def)

lemma nibble_pos_field: "geometry op \<Longrightarrow> i < bcd_byte_aligned_nibbles op \<Longrightarrow> nibble_pos op i < 40"
  by (auto simp: geometry_def bcd_byte_aligned_nibbles_def nibble_pos_def)

lemma get_set_nibble:
  assumes "geometry op" "i < bcd_byte_aligned_nibbles op"
  shows "bcd_get_nibble (bcd_set_nibble i v op) j = (if i = j then v mod 16 else bcd_get_nibble op j)"
  using word_set_nibble[OF assms(1) nibble_pos_field[OF assms]] by (simp add: bcd_get_word_nibble)

section \<open>Fields\<close>

definition magnitude :: "BcdOperand \<Rightarrow> int list" where
  "magnitude op = map (bcd_get_nibble op) [0..<bcd_digits op]"

definition capacity :: "BcdOperand \<Rightarrow> nat" where
  "capacity op = field_length op - 1"

definition bcd_value :: "BcdOperand \<Rightarrow> int" where
  "bcd_value op = fst (bcd_decode_sign op) * dec_value (magnitude op)"

text \<open>Two operands with the same descriptor, and the same nibbles outside the field.\<close>

definition same_descriptor :: "BcdOperand \<Rightarrow> BcdOperand \<Rightarrow> bool" where
  "same_descriptor op op' \<longleftrightarrow> (\<exists>ws. op' = op\<lparr>op_words := ws\<rparr> \<and> length ws = length (op_words op))"

definition same_outside :: "BcdOperand \<Rightarrow> BcdOperand \<Rightarrow> bool" where
  "same_outside op op' \<longleftrightarrow> same_descriptor op op'
     \<and> (\<forall>q. q \<notin> nibble_pos op ` {..<bcd_byte_aligned_nibbles op} \<longrightarrow> word_nibble op' q = word_nibble op q)"

lemma same_outside_refl [simp]: "same_outside op op"
  by (auto simp: same_outside_def same_descriptor_def intro!: exI[of _ "op_words op"])

lemma same_descriptor_sel:
  assumes "same_descriptor op op'"
  shows "field_length op' = field_length op" "bcd_byte_aligned_nibbles op' = bcd_byte_aligned_nibbles op"
    "op_d2 op' = op_d2 op" "op_addr op' = op_addr op" "starts_in_right_byte op' = starts_in_right_byte op"
    "nibble_pos op' = nibble_pos op" "bcd_digits op' = bcd_digits op" "geometry op' = geometry op"
    "bcd_mem_words op' = bcd_mem_words op" "capacity op' = capacity op" "is_ascii op' = is_ascii op"
proof -
  obtain ws where op': "op' = op\<lparr>op_words := ws\<rparr>" and g: "length ws = length (op_words op)"
    using assms by (auto simp: same_descriptor_def)
  show "field_length op' = field_length op" "bcd_byte_aligned_nibbles op' = bcd_byte_aligned_nibbles op"
    "op_d2 op' = op_d2 op" "op_addr op' = op_addr op" "starts_in_right_byte op' = starts_in_right_byte op"
    "nibble_pos op' = nibble_pos op" "bcd_digits op' = bcd_digits op" "geometry op' = geometry op"
    "bcd_mem_words op' = bcd_mem_words op" "capacity op' = capacity op" "is_ascii op' = is_ascii op"
    using g by (simp_all add: op' bcd_byte_aligned_nibbles_def nibble_pos_def fun_eq_iff bcd_digits_def
        bcd_mem_words_def capacity_def geometry_def)
qed

lemma same_outside_trans: "same_outside a b \<Longrightarrow> same_outside b c \<Longrightarrow> same_outside a c"
proof -
  assume ab: "same_outside a b" and bc: "same_outside b c"
  then have d: "same_descriptor a b" "same_descriptor b c" by (simp_all add: same_outside_def)
  then have "same_descriptor a c" by (auto simp: same_descriptor_def)
  then show ?thesis using ab bc same_descriptor_sel[OF d(1)] by (simp add: same_outside_def)
qed

lemma set_nibble_outside:
  assumes "geometry op" "i < bcd_byte_aligned_nibbles op"
  shows "same_outside op (bcd_set_nibble i v op)"
proof -
  have "same_descriptor op (bcd_set_nibble i v op)"
    using set_nibble_words[of i v op] by (simp add: same_descriptor_def)
  then show ?thesis
    using word_set_nibble[OF assms(1) nibble_pos_field[OF assms]] assms(2) by (auto simp: same_outside_def)
qed

lemma fill_field_spec:
  assumes "geometry op" "pos < bcd_byte_aligned_nibbles op" "m = bcd_byte_aligned_nibbles op"
    and "fill_field m cap ds pos (length ds - min cap (m - 1 - pos)) op = (n', op')"
  shows "n' = length ds - min cap (m - 1) \<and> same_outside op op' \<and>
     (\<forall>j. bcd_get_nibble op' j = (if j < pos then (let slot = m - 2 - j in if slot < cap \<and> slot < length ds
            then ds ! (length ds - 1 - slot) mod 16 else 0) else bcd_get_nibble op j))"
  using assms
proof (induction pos arbitrary: op)
  case 0
  then show ?case by auto
next
  case (Suc pos)
  define v where "v = (let slot = m - 2 - pos in if slot < cap \<and> slot < length ds then ds ! (length ds - 1 - slot) else 0)"
  define op1 where "op1 = bcd_set_nibble pos v op"
  have g: "geometry op1" "m = bcd_byte_aligned_nibbles op1" "pos < bcd_byte_aligned_nibbles op1"
    using Suc.prems by (simp_all add: op1_def)
  have o1: "same_outside op op1" using Suc.prems by (auto simp: op1_def intro: set_nibble_outside)
  have s: "m - 1 - pos = Suc (m - 2 - pos)" "m - 1 - Suc pos = m - 2 - pos" using Suc.prems(2,3) by simp_all
  have "fill_field m cap ds (Suc pos) (length ds - min cap (m - 1 - Suc pos)) op
      = fill_field m cap ds pos (length ds - min cap (m - 1 - pos)) op1"
    unfolding s by (auto simp: op1_def v_def Let_def min_def intro!: arg_cong2[where f = "\<lambda>a b. fill_field m cap ds pos a b"] arg_cong[where f = "\<lambda>x. bcd_set_nibble pos x op"] arg_cong[where f = "\<lambda>i. ds ! i"])
  then have e: "fill_field m cap ds pos (length ds - min cap (m - 1 - pos)) op1 = (n', op')" using Suc.prems(4) by simp
  note ih = Suc.IH[OF g(1,3,2) e]
  have "bcd_get_nibble op1 j = (if j = pos then v mod 16 else bcd_get_nibble op j)" for j
    using get_set_nibble[of op pos v j] Suc.prems by (auto simp: op1_def)
  then show ?case
    using ih same_outside_trans[OF o1] by (auto simp: v_def Let_def less_Suc_eq)
qed


text \<open>The magnitude read back after a fill is the low digits, with zeroes above them.\<close>

lemma digits_capacity:
  "capacity op \<le> bcd_digits op" "bcd_digits op \<le> capacity op + 1" "geometry op \<Longrightarrow> bcd_digits op \<le> 31"
  by (auto simp: capacity_def bcd_digits_def bcd_byte_aligned_nibbles_def geometry_def)

lemma filled_magnitude:
  assumes dec: "decimal ds" and "cap \<le> k"
    and nib: "\<And>j. j < k \<Longrightarrow> f j = (let slot = k - 1 - j in if slot < cap \<and> slot < length ds
            then ds ! (length ds - 1 - slot) mod 16 else 0)"
  shows "map f [0..<k] = replicate (k - min cap (length ds)) 0 @ drop (length ds - cap) ds"
proof (rule nth_equalityI)
  show "length (map f [0..<k]) = length (replicate (k - min cap (length ds)) 0 @ drop (length ds - cap) ds)"
    using assms(2) by auto
next
  fix j assume "j < length (map f [0..<k])"
  then have j: "j < k" by simp
  have small: "ds ! i mod 16 = ds ! i" if "i < length ds" for i
    using dec that nth_mem[OF that] unfolding decimal_def by fastforce
  show "map f [0..<k] ! j = (replicate (k - min cap (length ds)) 0 @ drop (length ds - cap) ds) ! j"
  proof (cases "k - 1 - j < cap \<and> k - 1 - j < length ds")
    case True
    then have "\<not> j < k - min cap (length ds)" using j assms(2) by auto
    moreover have "length ds - cap + (j - (k - min cap (length ds))) = length ds - 1 - (k - 1 - j)"
      using True j assms(2) by (auto simp: min_def)
    ultimately have "(replicate (k - min cap (length ds)) 0 @ drop (length ds - cap) ds) ! j = ds ! (length ds - 1 - (k - 1 - j))"
      by (simp only: nth_append length_replicate if_False nth_drop diff_le_self)
    moreover have "length ds - 1 - (k - 1 - j) < length ds" using True by linarith
    note small[OF this]
    ultimately show ?thesis using True j by (simp add: nib Let_def)
  next
    case False
    then have "j < k - min cap (length ds)" using j assms(2) by (auto simp: min_def)
    moreover have "map f [0..<k] ! j = 0" using False j by (auto simp: nib Let_def)
    ultimately show ?thesis by (simp add: nth_append)
  qed
qed

lemma div_ne_0_iff: "0 \<le> v \<Longrightarrow> 0 < p \<Longrightarrow> v div p \<noteq> 0 \<longleftrightarrow> p \<le> v" for v p :: int
  by (auto simp: zdiv_eq_0_iff)

lemma lost_digits:
  assumes dec: "decimal ds"
  shows "(\<exists>d\<in>set (take (length ds - n) ds). d \<noteq> 0) \<longleftrightarrow> dec_value ds \<ge> 10 ^ n"
proof -
  have "(\<exists>d\<in>set (take (length ds - n) ds). d \<noteq> 0) \<longleftrightarrow> dec_value ds div 10 ^ n \<noteq> 0"
    using dec_value_zero[OF decimal_take(1)[OF dec, of "length ds - n"]] dec_value_split(2)[OF dec] by simp
  also have "\<dots> \<longleftrightarrow> dec_value ds \<ge> 10 ^ n"
    using dec_value_bounds[OF dec] div_ne_0_iff[of "dec_value ds" "10 ^ n"] by simp
  finally show ?thesis .
qed

lemma pack_field:
  assumes g: "geometry op" and dec: "decimal ds" and pack: "bcd_pack_magnitude_to_field ds sg op = (op', ov)"
  shows "same_outside op op'" "decimal (magnitude op')" "dec_value (magnitude op') = dec_value ds mod 10 ^ capacity op"
    "ov \<longleftrightarrow> dec_value ds \<ge> 10 ^ capacity op"
    "field_length op \<noteq> 0 \<Longrightarrow> bcd_get_nibble op' (bcd_byte_aligned_nibbles op - 1) = sg mod 16"
proof -
  note nz = lost_digits[OF dec]
  have "same_outside op op' \<and> decimal (magnitude op') \<and> dec_value (magnitude op') = dec_value ds mod 10 ^ capacity op
    \<and> (ov \<longleftrightarrow> dec_value ds \<ge> 10 ^ capacity op)
    \<and> (field_length op \<noteq> 0 \<longrightarrow> bcd_get_nibble op' (bcd_byte_aligned_nibbles op - 1) = sg mod 16)"
  proof (cases "field_length op = 0")
    case True
    then show ?thesis
      using pack nz[of 0] by (auto simp: bcd_pack_magnitude_to_field_def capacity_def magnitude_def bcd_digits_def)
  next
    case False
    define m where "m = bcd_byte_aligned_nibbles op"
    have m: "m \<ge> 2" "bcd_digits op = m - 1" "m - 1 < bcd_byte_aligned_nibbles op"
      using False by (auto simp: m_def bcd_byte_aligned_nibbles_def bcd_digits_def; presburger)+
    define op1 where "op1 = bcd_set_nibble (m - 1) sg op"
    obtain n where fill: "fill_field m (capacity op) ds (m - 1) (length ds) op1 = (n, op')"
      and ov: "ov = (\<exists>d\<in>set (take n ds). d \<noteq> 0)"
      using pack False by (auto simp: bcd_pack_magnitude_to_field_def Let_def m_def op1_def capacity_def split: prod.splits)
    have o1: "same_outside op op1" unfolding op1_def by (rule set_nibble_outside[OF g m(3)])
    note f = fill_field_spec[of op1 "m - 1" m "capacity op" ds n op', simplified]
    have n: "n = length ds - min (capacity op) (m - 1)" and o2: "same_outside op1 op'"
      and nib: "\<And>j. bcd_get_nibble op' j = (if j < m - 1 then (let slot = m - 2 - j in if slot < capacity op \<and> slot < length ds
            then ds ! (length ds - 1 - slot) mod 16 else 0) else bcd_get_nibble op1 j)"
      using f fill g m by (simp_all add: op1_def m_def)
    have o: "same_outside op op'" by (rule same_outside_trans[OF o1 o2])
    then have dg: "bcd_digits op' = m - 1" using m(2) same_descriptor_sel(7)[of op op'] by (simp add: same_outside_def)
    have c: "capacity op \<le> m - 1" using digits_capacity(1)[of op] m(2) by simp
    have mag: "magnitude op' = replicate (m - 1 - min (capacity op) (length ds)) 0 @ drop (length ds - capacity op) ds"
      unfolding magnitude_def dg by (rule filled_magnitude[OF dec c]) (simp add: nib numeral_2_eq_2)
    have "ov \<longleftrightarrow> dec_value ds \<ge> 10 ^ capacity op" using c nz by (simp add: ov n min_absorb1)
    moreover have "bcd_get_nibble op' (m - 1) = sg mod 16"
      using get_set_nibble[OF g m(3)] by (simp add: nib op1_def)
    ultimately show ?thesis
      using o dec decimal_take(2)[OF dec] dec_value_split(1)[OF dec] by (simp add: mag dec_value_append m_def)
  qed
  then show "same_outside op op'" "decimal (magnitude op')" "dec_value (magnitude op') = dec_value ds mod 10 ^ capacity op"
    "ov \<longleftrightarrow> dec_value ds \<ge> 10 ^ capacity op"
    "field_length op \<noteq> 0 \<Longrightarrow> bcd_get_nibble op' (bcd_byte_aligned_nibbles op - 1) = sg mod 16"
    by simp_all
qed

lemma extract_magnitude:
  assumes "bcd_digits op \<le> n"
  shows "length (bcd_extract_magnitude op n) = n" "dec_value (bcd_extract_magnitude op n) = dec_value (magnitude op)"
    "decimal (bcd_extract_magnitude op n) = decimal (magnitude op)"
  using assms by (simp_all add: bcd_extract_magnitude_def magnitude_def Let_def dec_value_append min_absorb1)

lemma sign_cases: "fst (bcd_decode_sign op) = 1 \<or> fst (bcd_decode_sign op) = - 1"
  by (simp add: bcd_decode_sign_def Let_def)

definition signed_result :: "bool \<Rightarrow> nat \<Rightarrow> int \<Rightarrow> int" where
  "signed_result uns cap v = (if uns then 1 else sgn v) * (\<bar>v\<bar> mod 10 ^ cap)"

definition force_unsigned :: "BcdOperand \<Rightarrow> bool" where
  "force_unsigned op \<longleftrightarrow> drop_bit 13 (op_d2 op) AND 1 \<noteq> 0"

text \<open>The value of a field after a magnitude and a sign nibble are packed into it.\<close>

lemma packed_value:
  assumes "geometry op" "decimal ds" "dec_value ds = \<bar>v\<bar>" "v \<noteq> 0 \<Longrightarrow> (rs < 0) = (v < 0)"
    and pack: "bcd_pack_magnitude_to_field ds
       (if force_unsigned op then BCD_SIGN_UNS else if rs < 0 then BCD_SIGN_NEG else BCD_SIGN_POS) op = (op', ov)"
  shows "same_outside op op' \<and> decimal (magnitude op') \<and> (ov \<longleftrightarrow> \<bar>v\<bar> \<ge> 10 ^ capacity op)
    \<and> bcd_value op' = signed_result (force_unsigned op) (capacity op) v"
proof -
  note p = pack_field[OF assms(1,2) pack]
  have d: "same_descriptor op op'" using p(1) by (simp add: same_outside_def)
  show ?thesis
  proof (cases "field_length op = 0")
    case True
    then show ?thesis using p assms(3) same_descriptor_sel[OF d]
      by (simp add: bcd_value_def signed_result_def capacity_def magnitude_def bcd_digits_def)
  next
    case False
    then have "fst (bcd_decode_sign op') = (if force_unsigned op then 1 else if rs < 0 then - 1 else 1)"
      using p(5) same_descriptor_sel(1,2)[OF d] by (simp add: bcd_decode_sign_def Let_def)
    then show ?thesis using p assms(3,4) by (cases "v = 0") (auto simp: bcd_value_def signed_result_def)
  qed
qed

lemma add_sub_field:
  assumes g: "geometry op1" and dec: "decimal (magnitude op1)" "decimal (magnitude op2)"
    and flip: "flip = 1 \<or> flip = - 1" and run: "bcd_add_sub_field op1 op2 flip = (op1', ov)"
  defines "v \<equiv> bcd_value op1 + flip * bcd_value op2"
  shows "same_outside op1 op1' \<and> decimal (magnitude op1') \<and> (ov \<longleftrightarrow> \<bar>v\<bar> \<ge> 10 ^ capacity op1)
    \<and> bcd_value op1' = signed_result (force_unsigned op1) (capacity op1) v"
proof -
  define s1 e2 cap where "s1 = fst (bcd_decode_sign op1)" and "e2 = fst (bcd_decode_sign op2) * flip"
    and "cap = max (bcd_digits op1) (bcd_digits op2) + 1"
  define a b where "a = bcd_extract_magnitude op1 cap" and "b = bcd_extract_magnitude op2 cap"
  define A B where "A = dec_value (magnitude op1)" and "B = dec_value (magnitude op2)"
  have s: "s1 = 1 \<or> s1 = - 1" "e2 = 1 \<or> e2 = - 1"
    using sign_cases[of op1] sign_cases[of op2] flip by (auto simp: s1_def e2_def)
  have ab: "length a = cap" "length b = cap" "decimal a" "decimal b" "dec_value a = A" "dec_value b = B"
    using dec by (simp_all add: a_def b_def A_def B_def extract_magnitude cap_def)
  have lt: "A < 10 ^ (cap - 1)" "B < 10 ^ (cap - 1)" "0 \<le> A" "0 \<le> B"
  proof -
    have "A < 10 ^ bcd_digits op1" "B < 10 ^ bcd_digits op2" "0 \<le> A" "0 \<le> B"
      using dec_value_bounds[OF dec(1)] dec_value_bounds[OF dec(2)] by (simp_all add: A_def B_def magnitude_def)
    moreover have "(10 :: int) ^ bcd_digits op1 \<le> 10 ^ (cap - 1)" "(10 :: int) ^ bcd_digits op2 \<le> 10 ^ (cap - 1)"
      by (intro power_increasing; simp add: cap_def)+
    ultimately show "A < 10 ^ (cap - 1)" "B < 10 ^ (cap - 1)" "0 \<le> A" "0 \<le> B" by linarith+
  qed
  have cap: "A + B < 10 ^ cap"
  proof -
    have "(10 :: int) ^ cap = 10 * 10 ^ (cap - 1)" by (simp add: cap_def)
    then show ?thesis using lt by linarith
  qed
  have v: "v = s1 * A + e2 * B" by (simp add: v_def bcd_value_def s1_def e2_def A_def B_def algebra_simps)
  define c rs where "c = (if s1 = e2 then fst (bcd_add_magnitude a b) else if bcd_cmp_magnitude a b \<ge> 0
      then fst (bcd_sub_magnitude a b) else fst (bcd_sub_magnitude b a))"
    and "rs = (if s1 = e2 then s1 else if bcd_cmp_magnitude a b \<ge> 0 then s1 else e2)"
  have cmp: "bcd_cmp_magnitude a b \<ge> 0 \<longleftrightarrow> B \<le> A" using ab by (simp add: cmp_magnitude sgn_if)
  have c: "decimal c \<and> dec_value c = \<bar>v\<bar> \<and> (v \<noteq> 0 \<longrightarrow> (rs < 0) = (v < 0))"
  proof (cases "s1 = e2")
    case True
    then show ?thesis using add_exact[of a b] ab cap s lt by (auto simp: c_def rs_def v)
  next
    case False
    then show ?thesis using sub_exact[of a b] sub_exact[of b a] ab s lt by (auto simp: c_def rs_def v cmp)
  qed
  have z: "(\<forall>d\<in>set c. d = 0) \<longleftrightarrow> v = 0" using c dec_value_zero[of c] by simp
  have cr: "(if s1 = e2 then (fst (bcd_add_magnitude a b), s1) else if bcd_cmp_magnitude a b \<ge> 0
      then (fst (bcd_sub_magnitude a b), s1) else (fst (bcd_sub_magnitude b a), e2)) = (c, rs)"
    by (simp add: c_def rs_def)
  have "bcd_pack_magnitude_to_field c (if force_unsigned op1 then BCD_SIGN_UNS
      else if (if v = 0 then s1 else rs) < 0 then BCD_SIGN_NEG else BCD_SIGN_POS) op1 = (op1', ov)"
    using run unfolding bcd_add_sub_field_def Let_def s1_def[symmetric] e2_def[symmetric] cap_def[symmetric]
      a_def[symmetric] b_def[symmetric] force_unsigned_def[symmetric] cr prod.case z .
  from packed_value[OF g _ _ _ this, of v] show ?thesis using c by auto
qed

section \<open>Operands in memory\<close>

text \<open>
  The operand the code loads when no access faults: the words of the field, and zeroes in the
  rest of the array.
\<close>

definition operand_at :: "'d machine \<Rightarrow> u16 \<Rightarrow> u16 \<Rightarrow> bool \<Rightarrow> BcdOperand" where
  "operand_at m d1 d2 ascii =
     (let op = decode_descriptor d1 d2 ascii
      in op\<lparr>op_words := map (\<lambda>i. if i < bcd_mem_words op then plain_content m (d1 + of_nat i) else 0) [0..<BCD_MAX_WORDS]\<rparr>)"

definition legal_descriptor :: "u16 \<Rightarrow> bool" where
  "legal_descriptor d2 \<longleftrightarrow> (let op = decode_descriptor 0 d2 False in decimal_point op < field_length op \<or> decimal_point op = 0)"

definition plain_operand :: "'d machine \<Rightarrow> u16 \<Rightarrow> u16 \<Rightarrow> bool \<Rightarrow> bool" where
  "plain_operand m d1 d2 ascii \<longleftrightarrow> (\<forall>i < bcd_mem_words (decode_descriptor d1 d2 ascii). plain_word m (d1 + of_nat i))"

text \<open>The field lies within the words that are loaded and stored.\<close>

definition field_loaded :: "BcdOperand \<Rightarrow> bool" where
  "field_loaded op \<longleftrightarrow> nibble_pos op (bcd_byte_aligned_nibbles op) \<le> 4 * bcd_mem_words op"

lemma decode_sel [simp]:
  "op_addr (decode_descriptor d1 d2 a) = d1" "op_d2 (decode_descriptor d1 d2 a) = d2"
  "op_words (decode_descriptor d1 d2 a) = replicate BCD_MAX_WORDS 0" "is_ascii (decode_descriptor d1 d2 a) = a"
  "op_error (decode_descriptor d1 d2 a) = False"
  by (simp_all add: decode_descriptor_def)

lemma field_length_lt: "field_length (decode_descriptor d1 d2 a) < 32"
proof -
  have "unat (d2 AND 0x1F) < 2 ^ 5" by (rule and_mask_lt) (simp add: mask_eq_exp_minus_1)
  then show ?thesis by (simp add: decode_descriptor_def)
qed

lemma operand_at_sel [simp]:
  "op_addr (operand_at m d1 d2 a) = d1" "op_d2 (operand_at m d1 d2 a) = d2" "geometry (operand_at m d1 d2 a)"
  "field_length (operand_at m d1 d2 a) = field_length (decode_descriptor d1 d2 a)"
  "bcd_mem_words (operand_at m d1 d2 a) = bcd_mem_words (decode_descriptor d1 d2 a)"
  using field_length_lt[of d1 d2 a]
  by (simp_all add: operand_at_def Let_def geometry_def bcd_mem_words_def bcd_byte_aligned_nibbles_def)

lemma mem_words_le: "bcd_mem_words op \<le> BCD_MAX_WORDS"
  by (simp add: bcd_mem_words_def Let_def)

lemma load_words_plain:
  "\<lbrakk>\<forall>i<n. plain_word m (op_addr op + of_nat i); n \<le> length (op_words op)\<rbrakk> \<Longrightarrow>
     load_words n op m = Done (op\<lparr>op_words :=
        map (\<lambda>i. plain_content m (op_addr op + of_nat i)) [0..<n] @ drop n (op_words op)\<rparr>) m"
proof (induction n arbitrary: op)
  case (Suc n)
  define w where "w = plain_content m (op_addr op + of_nat n)"
  have "cpu_memory_read (op_addr op + of_nat n) True m = Done w m"
    using Suc.prems by (simp add: plain_read w_def)
  moreover have "drop n ((op_words op)[n := w]) = w # drop (Suc n) (op_words op)"
    using Suc.prems(2) by (simp add: Cons_nth_drop_Suc[symmetric])
  ultimately show ?case
    using Suc.IH[of "op\<lparr>op_words := (op_words op)[n := w]\<rparr>"] Suc.prems by (simp add: w_def)
qed simp

lemma run_get_operand:
  assumes "legal_descriptor d2" "plain_operand m d1 d2 a"
  shows "bcd_get_operand d1 d2 a m = Done (True, operand_at m d1 d2 a) m"
proof -
  define op where "op = decode_descriptor d1 d2 a"
  have legal: "\<not> (decimal_point op \<ge> field_length op \<and> decimal_point op \<noteq> 0)"
    using assms(1) by (auto simp: legal_descriptor_def op_def decode_descriptor_def Let_def)
  have n: "bcd_mem_words op \<le> 10" by (rule mem_words_le)
  have w: "map (\<lambda>i. plain_content m (d1 + of_nat i)) [0..<bcd_mem_words op] @ drop (bcd_mem_words op) (replicate 10 0)
      = map (\<lambda>i. if i < bcd_mem_words op then plain_content m (d1 + of_nat i) else 0) [0..<10]"
    using n by (intro nth_equalityI) (auto simp: nth_append)
  show ?thesis
  proof (cases "field_length op = 0")
    case True
    then have "bcd_mem_words op = 0" by (simp add: bcd_mem_words_def)
    then have "operand_at m d1 d2 a = op" using w by (simp add: operand_at_def op_def[symmetric] Let_def op_def decode_descriptor_def)
    then show ?thesis using legal True by (simp add: bcd_get_operand_def op_def[symmetric] Let_def)
  next
    case False
    have "load_words (bcd_mem_words op) op m = Done (operand_at m d1 d2 a) m"
      using load_words_plain[of "bcd_mem_words op" m op] assms(2) n w
      by (simp add: plain_operand_def op_def[symmetric] operand_at_def Let_def) (simp add: op_def)
    then show ?thesis using legal False by (simp add: bcd_get_operand_def op_def[symmetric] Let_def)
  qed
qed

lemma store_words_seq:
  "store_words i n op = store_seq (write_word True) (map (\<lambda>k. (op_addr op + of_nat k, op_words op ! k)) [i..<i + n])"
proof (induction n arbitrary: i)
  case (Suc n)
  have "[i..<i + Suc n] = i # [Suc i..<Suc i + n]" by (simp add: upt_conv_Cons)
  then show ?case using Suc.IH[of "Suc i"] by (simp add: seq_def write_word_def)
qed simp

text \<open>Distinct word addresses of a field.\<close>

lemma offset_inj: "i < 10 \<Longrightarrow> j < 10 \<Longrightarrow> (of_nat i :: u16) = of_nat j \<longleftrightarrow> i = j"
  by (auto simp: word_of_nat_eq_iff take_bit_nat_eq_self)

lemma run_store_operand:
  assumes "geometry op" "\<forall>i<bcd_mem_words op. plain_word m (op_addr op + of_nat i)"
  shows "\<exists>m'. bcd_store_operand op m = Done () m' \<and> sans_memory m' = sans_memory m \<and> plain_word m' = plain_word m
    \<and> (\<forall>i<bcd_mem_words op. plain_content m' (op_addr op + of_nat i) = op_words op ! i)
    \<and> (\<forall>a. a \<notin> (\<lambda>i. op_addr op + of_nat i) ` {..<bcd_mem_words op} \<longrightarrow> plain_content m' a = plain_content m a)"
proof (cases "field_length op = 0")
  case True
  then show ?thesis by (intro exI[of _ m]) (simp add: bcd_store_operand_def bcd_mem_words_def)
next
  case False
  define n where "n = bcd_mem_words op"
  define ps where "ps = map (\<lambda>k. (op_addr op + of_nat k, op_words op ! k)) [0..<n]"
  have n: "n \<le> 10" unfolding n_def by (rule mem_words_le)
  have addr: "map fst ps = map (\<lambda>k. op_addr op + of_nat k) [0..<n]" by (simp add: ps_def o_def)
  have "distinct (map fst ps)"
    unfolding addr distinct_map using n by (auto intro!: inj_onI simp: offset_inj)
  moreover have "\<forall>p\<in>set ps. plain_word m (fst p)" using assms(2) by (auto simp: ps_def n_def)
  ultimately obtain m' where m': "store_seq (write_word True) ps m = Done () m'" "plain_word m' = plain_word m"
    "sans_memory m' = sans_memory m" "plain_content m' = (\<lambda>a. case map_of ps a of Some v \<Rightarrow> v | None \<Rightarrow> plain_content m a)"
    using plain.store_seq_ok[where apt = True, of ps m] by blast
  have "bcd_store_operand op m = Done () m'"
    using m'(1) False by (simp add: bcd_store_operand_def store_words_seq ps_def n_def)
  moreover have "plain_content m' (op_addr op + of_nat i) = op_words op ! i" if "i < n" for i
  proof -
    have "(op_addr op + of_nat i, op_words op ! i) \<in> set ps" using that by (auto simp: ps_def)
    then show ?thesis using \<open>distinct (map fst ps)\<close> by (simp add: m'(4) map_of_is_SomeI)
  qed
  moreover have "plain_content m' a = plain_content m a" if "a \<notin> (\<lambda>i. op_addr op + of_nat i) ` {..<n}" for a
  proof -
    have "map_of ps a = None" using that by (auto simp: map_of_eq_None_iff ps_def)
    then show ?thesis by (simp add: m'(4))
  qed
  ultimately show ?thesis using m'(2,3) by (intro exI[of _ m']) (simp add: n_def)
qed

text \<open>Equal nibbles make equal words, so words outside the field are untouched by a pack.\<close>

lemma word_from_nibbles:
  assumes "\<forall>s<4. drop_bit ((3 - s) * 4) v AND 0x0F = drop_bit ((3 - s) * 4) w AND (0x0F :: u16)"
  shows "v = w"
proof (rule bit_word_eqI)
  fix k assume k: "k < LENGTH(16)"
  define s where "s = 3 - k div 4"
  have "s < 4" "(3 - s) * 4 = k div 4 * 4" using k by (auto simp: s_def)
  then have "bit (drop_bit (k div 4 * 4) v AND 0x0F) (k mod 4) = bit (drop_bit (k div 4 * 4) w AND 0x0F) (k mod 4)"
    using assms[rule_format, of s] by (simp only:)
  then show "bit v k = bit w k" unfolding bit_nibble by simp
qed

lemma outside_word:
  assumes "same_outside op op'" "\<forall>q \<in> nibble_pos op ` {..<bcd_byte_aligned_nibbles op}. q div 4 \<noteq> k"
  shows "op_words op' ! k = op_words op ! k"
proof (rule word_from_nibbles, intro allI impI)
  fix s :: nat assume s: "s < 4"
  then have "(4 * k + s) div 4 = k" by simp
  then have "4 * k + s \<notin> nibble_pos op ` {..<bcd_byte_aligned_nibbles op}" using assms(2) by blast
  then have "word_nibble op' (4 * k + s) = word_nibble op (4 * k + s)" using assms(1) by (simp add: same_outside_def)
  then have "uint (drop_bit ((3 - s) * 4) (op_words op' ! k) AND 0x0F) = uint (drop_bit ((3 - s) * 4) (op_words op ! k) AND 0x0F)"
    using s by (simp add: word_nibble_def)
  then show "drop_bit ((3 - s) * 4) (op_words op' ! k) AND 0x0F = drop_bit ((3 - s) * 4) (op_words op ! k) AND 0x0F"
    by (rule word_uint_eqI)
qed

text \<open>Changing the words of a loaded operand, storing it and loading it again gives the changed operand.\<close>

lemma store_reload_words:
  assumes "plain_operand m d1 d2 a" and d: "same_descriptor (operand_at m d1 d2 a) op'"
    and rest: "\<forall>k. bcd_mem_words op' \<le> k \<and> k < 10 \<longrightarrow> op_words op' ! k = op_words (operand_at m d1 d2 a) ! k"
  shows "\<exists>m'. bcd_store_operand op' m = Done () m' \<and> sans_memory m' = sans_memory m \<and> plain_word m' = plain_word m
    \<and> operand_at m' d1 d2 a = op'
    \<and> (\<forall>x. x \<notin> (\<lambda>i. d1 + of_nat i) ` {..<bcd_mem_words op'} \<longrightarrow> plain_content m' x = plain_content m x)"
proof -
  define op n where "op = operand_at m d1 d2 a" and "n = bcd_mem_words (decode_descriptor d1 d2 a)"
  have d: "same_descriptor op op'" using d by (simp add: op_def)
  have s: "op_addr op' = d1" "bcd_mem_words op' = n" "geometry op'"
    using same_descriptor_sel[OF d] by (simp_all add: op_def n_def)
  have pl: "\<forall>i<bcd_mem_words op'. plain_word m (op_addr op' + of_nat i)"
    using assms(1) by (simp add: plain_operand_def s n_def[symmetric])
  obtain m' where m': "bcd_store_operand op' m = Done () m'" "sans_memory m' = sans_memory m" "plain_word m' = plain_word m"
    "\<forall>i<n. plain_content m' (d1 + of_nat i) = op_words op' ! i"
    "\<forall>x. x \<notin> (\<lambda>i. d1 + of_nat i) ` {..<n} \<longrightarrow> plain_content m' x = plain_content m x"
    using run_store_operand[OF s(3) pl] unfolding s by blast
  have zero: "op_words op' ! k = 0" if "n \<le> k" "k < 10" for k
    using rest[rule_format, of k] that by (simp add: s operand_at_def Let_def n_def[symmetric])
  have len: "length (op_words op') = 10" using s(3) by (simp add: geometry_def)
  have "operand_at m' d1 d2 a = op\<lparr>op_words := op_words op'\<rparr>"
    unfolding op_def operand_at_def Let_def n_def[symmetric] using m'(4) zero len
    by (auto simp: list_eq_iff_nth_eq intro!: arg_cong[where f = "\<lambda>ws. decode_descriptor d1 d2 a\<lparr>op_words := ws\<rparr>"])
  also have "\<dots> = op'" using d by (auto simp: same_descriptor_def)
  finally show ?thesis using m' s(2) by (intro exI[of _ m']) simp
qed

lemma store_reload:
  assumes "plain_operand m d1 d2 a" "same_outside (operand_at m d1 d2 a) op'" "field_loaded (operand_at m d1 d2 a)"
  shows "\<exists>m'. bcd_store_operand op' m = Done () m' \<and> sans_memory m' = sans_memory m \<and> plain_word m' = plain_word m
    \<and> operand_at m' d1 d2 a = op'
    \<and> (\<forall>x. x \<notin> (\<lambda>i. d1 + of_nat i) ` {..<bcd_mem_words op'} \<longrightarrow> plain_content m' x = plain_content m x)"
proof (rule store_reload_words[OF assms(1)])
  define op where "op = operand_at m d1 d2 a"
  show d: "same_descriptor (operand_at m d1 d2 a) op'" using assms(2) by (simp add: same_outside_def)
  show "\<forall>k. bcd_mem_words op' \<le> k \<and> k < 10 \<longrightarrow> op_words op' ! k = op_words (operand_at m d1 d2 a) ! k"
  proof (intro allI impI outside_word[OF assms(2)] ballI)
    fix k q assume k: "bcd_mem_words op' \<le> k \<and> k < 10"
      and q: "q \<in> nibble_pos (operand_at m d1 d2 a) ` {..<bcd_byte_aligned_nibbles (operand_at m d1 d2 a)}"
    obtain i where "q = nibble_pos op i" "i < bcd_byte_aligned_nibbles op" using q by (auto simp: op_def)
    then have "q < 4 * bcd_mem_words op'"
      using assms(3) same_descriptor_sel(9)[OF d] by (simp add: field_loaded_def op_def nibble_pos_def split: if_splits)
    then show "q div 4 \<noteq> k" using k by auto
  qed
qed

end
