(* ===== verification/BcdLaws.thy ===== *)
theory BcdLaws
  imports BcdFields
begin

text \<open>
  ADDD, SUBD, COMD and SHDE compute on the values of the decimal fields.
\<close>

section \<open>ADDD and SUBD are decimal addition and subtraction\<close>

lemma run_with_operand:
  assumes "legal_descriptor (cur i2 (g_reg m))" "plain_operand m (cur i1 (g_reg m)) (cur i2 (g_reg m)) a"
  shows "with_operand i1 i2 a body m = body (operand_at m (cur i1 (g_reg m)) (cur i2 (g_reg m)) a) m"
  using run_get_operand[OF assms] by (simp add: with_operand_def)

lemma run_skip_if:
  "f m = Done b m' \<Longrightarrow> skip_if f m = Done () (if b then m'\<lparr>g_reg := set_cur R_P (cur R_P (g_reg m') + 1) (g_reg m')\<rparr> else m')"
  by (simp add: skip_if_def advance_p_def)

lemma operand_at_regs [simp]: "operand_at (m\<lparr>g_reg := r\<rparr>) = operand_at m"
  by (simp add: fun_eq_iff operand_at_def Let_def)

definition packed_ready :: "'d machine \<Rightarrow> u16 \<Rightarrow> u16 \<Rightarrow> bool" where
  "packed_ready m d1 d2 \<longleftrightarrow> legal_descriptor d2 \<and> plain_operand m d1 d2 False
     \<and> decimal (magnitude (operand_at m d1 d2 False))"


section \<open>COMD compares the values\<close>

lemma decode_points: "decimal_point (decode_descriptor d1 d2 a) < 32" "decimal_point (operand_at m d1 d2 a) < 32"
proof -
  have "unat (drop_bit 5 d2 AND 0x1F) < 2 ^ 5" by (rule and_mask_lt) (simp add: mask_eq_exp_minus_1)
  then show "decimal_point (decode_descriptor d1 d2 a) < 32" "decimal_point (operand_at m d1 d2 a) < 32"
    by (simp_all add: decode_descriptor_def operand_at_def Let_def)
qed

lemma compare_value:
  assumes "geometry op1" "geometry op2" "decimal (magnitude op1)" "decimal (magnitude op2)"
    and "decimal_point op1 < 32" "decimal_point op2 < 32"
  shows "bcd_compare op1 op2 = sgn (bcd_value op1 * 10 ^ decimal_point op2 - bcd_value op2 * 10 ^ decimal_point op1)"
proof -
  define p q w where "p = decimal_point op1" and "q = decimal_point op2" and "w = max p q"
  define a b where "a = bcd_extract_magnitude op1 (68 - (w - p)) @ replicate (w - p) 0"
    and "b = bcd_extract_magnitude op2 (68 - (w - q)) @ replicate (w - q) 0"
  define A B where "A = dec_value (magnitude op1)" and "B = dec_value (magnitude op2)"
  define s1 s2 where "s1 = fst (bcd_decode_sign op1)" and "s2 = fst (bcd_decode_sign op2)"
  have w: "w < 32" using assms(5,6) by (simp add: w_def p_def q_def)
  have d: "bcd_digits op1 \<le> 68 - (w - p)" "bcd_digits op2 \<le> 68 - (w - q)"
    using digits_capacity(3)[OF assms(1)] digits_capacity(3)[OF assms(2)] w by simp_all
  have ab: "length a = 68" "length b = 68" "decimal a" "decimal b"
    "dec_value a = A * 10 ^ (w - p)" "dec_value b = B * 10 ^ (w - q)"
    using assms(3,4) w by (simp_all add: a_def b_def extract_magnitude d dec_value_append A_def B_def)
  have nn: "0 \<le> A" "0 \<le> B" using assms(3,4) dec_value_bounds by (simp_all add: A_def B_def)
  have z: "(\<forall>d\<in>set a. d = 0) \<longleftrightarrow> A = 0" "(\<forall>d\<in>set b. d = 0) \<longleftrightarrow> B = 0"
    using dec_value_zero[OF ab(3)] dec_value_zero[OF ab(4)] ab(5,6) by simp_all
  define X Y where "X = A * 10 ^ (w - p)" and "Y = B * 10 ^ (w - q)"
  have XY: "0 \<le> X" "0 \<le> Y" "A = 0 \<longleftrightarrow> X = 0" "B = 0 \<longleftrightarrow> Y = 0" using nn by (simp_all add: X_def Y_def)
  have cmp: "bcd_cmp_magnitude a b = sgn (X - Y)" using ab by (simp add: cmp_magnitude X_def Y_def)
  have e: "bcd_compare op1 op2 = (let s1 = (if X = 0 then 0 else s1); s2 = (if Y = 0 then 0 else s2)
      in if s1 \<noteq> s2 then (if s1 < s2 then - 1 else 1) else if s1 < 0 then - sgn (X - Y) else sgn (X - Y))"
    unfolding bcd_compare_def Let_def p_def[symmetric] q_def[symmetric] w_def[symmetric]
    using cmp z XY by (simp add: a_def[symmetric] b_def[symmetric] s1_def[symmetric] s2_def[symmetric])
  have "bcd_compare op1 op2 = sgn (s1 * X - s2 * Y)"
    using XY sign_cases[of op1] sign_cases[of op2] by (auto simp: e Let_def s1_def[symmetric] s2_def[symmetric] sgn_if)
  moreover have "s1 * A * 10 ^ q - s2 * B * 10 ^ p = (s1 * X - s2 * Y) * 10 ^ (p + q - w)"
  proof -
    have "w - p + (p + q - w) = q" "w - q + (p + q - w) = p" by (auto simp: w_def)
    then show ?thesis
      by (simp add: X_def Y_def left_diff_distrib mult.assoc flip: power_add)
  qed
  ultimately show ?thesis
    by (simp add: bcd_value_def s1_def[symmetric] s2_def[symmetric] A_def[symmetric] B_def[symmetric]
        p_def[symmetric] q_def[symmetric] sgn_mult)
qed

text \<open>
  COMD orders two decimal operands by value. With the decimal points of the descriptors
  counted in, A becomes 1, 0 or minus 1 as the first operand is above, equal to or below the
  second, whatever their lengths and signs (a negative zero equals zero); P skips one word and
  nothing else changes.\<close>

theorem comd_orders:
  fixes m :: "'d machine"
  defines "r \<equiv> g_reg m"
  defines "op1 \<equiv> operand_at m (cur R_A r) (cur R_D r) False"
    and "op2 \<equiv> operand_at m (cur R_X r) (cur R_T r) False"
  assumes ready: "packed_ready m (cur R_A r) (cur R_D r)" "packed_ready m (cur R_X r) (cur R_T r)"
  shows "opcode_comd m = Done () (m\<lparr>g_reg := set_cur R_P (cur R_P r + 1)
     (set_cur R_A (word_of_int (sgn (bcd_value op1 * 10 ^ decimal_point op2 - bcd_value op2 * 10 ^ decimal_point op1))) r)\<rparr>)"
proof -
  have c: "bcd_compare op1 op2 = sgn (bcd_value op1 * 10 ^ decimal_point op2 - bcd_value op2 * 10 ^ decimal_point op1)"
    using ready by (intro compare_value) (simp_all add: op1_def op2_def packed_ready_def decode_points)
  have w: "(if sgn x > 0 then 1 else if sgn x < 0 then 0xFFFF else 0) = (word_of_int (sgn x) :: u16)" for x :: int
    by (auto simp: sgn_if)
  have run: "opcode_comd m = seq (put R_A (if bcd_compare op1 op2 > 0 then 1 else if bcd_compare op1 op2 < 0 then 0xFFFF else 0))
      (advance_p 1) m"
    using ready by (simp add: opcode_comd_def packed_ready_def run_with_operand r_def op1_def op2_def Let_def)
  show ?thesis unfolding run c w by (simp add: advance_p_def r_def)
qed

section \<open>SHDE shifts the value\<close>

definition decimal_shift :: "bool \<Rightarrow> int \<Rightarrow> int \<Rightarrow> int" where
  "decimal_shift rounding count w =
     (if count > 0 then (if rounding then (w + 5 * 10 ^ (nat count - 1)) div 10 ^ nat count else w div 10 ^ nat count)
      else w * 10 ^ nat (- count))"

lemma round_up_value:
  "decimal ds \<Longrightarrow> round_up ds = (r, c) \<Longrightarrow>
     decimal r \<and> length r = length ds \<and> c \<in> {0, 1} \<and> c * 10 ^ length ds + dec_value r = dec_value ds + 1"
proof (induction ds arbitrary: r c)
  case (Cons d ds)
  obtain r' c' where e: "round_up ds = (r', c')" by fastforce
  have ih: "decimal r'" "length r' = length ds" "c' = 0 \<or> c' = 1" "c' * 10 ^ length ds + dec_value r' = dec_value ds + 1"
    using Cons.IH[OF _ e] Cons.prems(1) by auto
  have d: "0 \<le> d" "d \<le> 9" using Cons.prems(1) by simp_all
  consider "c' = 0" | "c' = 1" "d = 9" | "c' = 1" "d < 9" using ih(3) d by linarith
  then show ?case
  proof cases
    case 1
    then show ?thesis using Cons.prems ih d by (simp add: e) (auto simp: algebra_simps)
  next
    case 2
    then show ?thesis using Cons.prems ih d by (simp add: e) (auto simp: algebra_simps)
  next
    case 3
    then have "(d + 1) mod 10 = d + 1" "(d + 1) div 10 = 0" using d by (simp_all add: mod_pos_pos_trivial div_pos_pos_trivial)
    then show ?thesis using Cons.prems ih d 3 by (simp add: e) (auto simp: algebra_simps)
  qed
qed simp

lemma round_half:
  fixes p q d t :: int
  assumes "0 \<le> t" "t < p" "0 \<le> d" "d \<le> 9"
  shows "(q * (10 * p) + d * p + t + 5 * p) div (10 * p) = q + (if d \<ge> 5 then 1 else 0)"
proof -
  have p: "0 < p" using assms by linarith
  show ?thesis
  proof (cases "d \<ge> 5")
    case True
    have "10 * p \<le> d * p + 5 * p" using True p mult_right_mono[of 5 d p] by simp
    moreover have "d * p + 5 * p \<le> 14 * p" using assms(4) p mult_right_mono[of d 9 p] by simp
    moreover note assms p
    ultimately have "(d * p + t + 5 * p) div (10 * p) = (d * p + t + 5 * p - 10 * p) div (10 * p) + 1"
      "(d * p + t + 5 * p - 10 * p) div (10 * p) = 0"
      by (intro div_pos_geq div_pos_pos_trivial; linarith)+
    then show ?thesis using True p by (simp add: add.assoc div_mult_self3)
  next
    case False
    have "d * p \<le> 4 * p" using False p mult_right_mono[of d 4 p] by simp
    moreover have "0 \<le> d * p" using assms p by simp
    ultimately have "(d * p + t + 5 * p) div (10 * p) = 0" using assms p by (intro div_pos_pos_trivial) linarith+
    then show ?thesis using False p by (simp add: add.assoc)
  qed
qed

lemma digit_split:
  assumes dec: "decimal ds" and c: "0 < c" "c \<le> length ds"
  obtains t where "0 \<le> t" "t < 10 ^ (c - 1)" "0 \<le> ds ! (length ds - c)" "ds ! (length ds - c) \<le> 9"
    "dec_value ds = dec_value (take (length ds - c) ds) * (10 * 10 ^ (c - 1)) + ds ! (length ds - c) * 10 ^ (c - 1) + t"
proof -
  define keep t where "keep = length ds - c" and "t = dec_value (drop (Suc keep) ds)"
  have k: "keep < length ds" "length ds - keep = c" using c by (auto simp: keep_def)
  have dk: "drop keep ds = ds ! keep # drop (Suc keep) ds" using k(1) by (simp add: Cons_nth_drop_Suc)
  have lt: "length (drop (Suc keep) ds) = c - 1" using k by simp
  have t: "0 \<le> t" "t < 10 ^ (c - 1)"
    using dec_value_bounds[OF decimal_take(2)[OF dec, of "Suc keep"]] lt by (simp_all add: t_def)
  have p10: "(10 :: int) ^ c = 10 * 10 ^ (c - 1)" using c(1) by (cases c) simp_all
  have "dec_value ds = dec_value (take keep ds @ drop keep ds)" by simp
  also have "\<dots> = dec_value (take keep ds) * 10 ^ c + dec_value (drop keep ds)" unfolding dec_value_append using k by simp
  also have "dec_value (drop keep ds) = ds ! keep * 10 ^ (c - 1) + t" unfolding dk using lt by (simp add: t_def)
  finally have w: "dec_value ds = dec_value (take keep ds) * (10 * 10 ^ (c - 1)) + ds ! keep * 10 ^ (c - 1) + t"
    by (simp only: p10 add.assoc)
  have d: "0 \<le> ds ! keep" "ds ! keep \<le> 9" using dec nth_mem[OF k(1)] by (auto simp: decimal_def)
  show thesis using that[OF t d[unfolded keep_def] w[unfolded keep_def]] .
qed

text \<open>Adding half a unit of the last kept place rounds on the most significant discarded digit alone.\<close>

lemma decimal_shift_round:
  assumes dec: "decimal ds" and c: "0 < c"
  shows "decimal_shift True (int c) (dec_value ds) = dec_value ds div 10 ^ c
     + (if c \<le> length ds \<and> ds ! (length ds - c) \<ge> 5 then 1 else 0)"
proof -
  define p where "p = (10 :: int) ^ (c - 1)"
  have p: "0 < p" "10 ^ c = 10 * p" using c by (cases c; simp add: p_def)+
  have sh: "decimal_shift True (int c) (dec_value ds) = (dec_value ds + 5 * p) div (10 * p)"
    unfolding p(2)[symmetric] using c by (simp add: decimal_shift_def p_def)
  show ?thesis
  proof (cases "c \<le> length ds")
    case True
    obtain t where t: "0 \<le> t" "t < p" "0 \<le> ds ! (length ds - c)" "ds ! (length ds - c) \<le> 9"
      and w: "dec_value ds = dec_value (take (length ds - c) ds) * (10 * p) + ds ! (length ds - c) * p + t"
      using digit_split[OF dec c True] unfolding p_def by blast
    have "(dec_value ds + 5 * p) div (10 * p) = dec_value (take (length ds - c) ds) + (if ds ! (length ds - c) \<ge> 5 then 1 else 0)"
      unfolding w by (rule round_half[OF t])
    then show ?thesis
      using True by (simp add: dec_value_split(2)[OF dec] sh p(2))
  next
    case False
    have "dec_value ds < 10 ^ length ds" "0 \<le> dec_value ds" using dec_value_bounds[OF dec] by simp_all
    moreover have "(10 :: int) ^ length ds \<le> p" unfolding p_def using False by (intro power_increasing) simp_all
    ultimately show ?thesis
      using p False by (simp add: sh div_pos_pos_trivial)
  qed
qed

lemma shift_digits_value:
  assumes dec: "decimal ds" and len: "length ds + nat (- count) \<le> 68"
  shows "decimal (shift_digits rounding count ds) \<and> dec_value (shift_digits rounding count ds) = decimal_shift rounding count (dec_value ds)"
proof (cases "count > 0")
  case False
  then show ?thesis
    using dec len by (auto simp: shift_digits_def decimal_shift_def Let_def dec_value_append min_absorb1)
next
  case True
  then obtain c where c: "count = int c" "0 < c" by (metis zero_less_imp_eq_int)
  define keep where "keep = length ds - c"
  have keep: "nat (max 0 (int (length ds) - count)) = keep" by (simp add: keep_def c)
  have tk: "decimal (take keep ds)" "dec_value (take keep ds) = dec_value ds div 10 ^ c"
    using decimal_take(1)[OF dec] dec_value_split(2)[OF dec] by (simp_all add: keep_def)
  show ?thesis
  proof (cases "rounding \<and> c \<le> length ds \<and> ds ! keep \<ge> 5")
    case round: True
    obtain r cy where e: "round_up (take keep ds) = (r, cy)" by fastforce
    have sd: "shift_digits rounding count ds = (if cy \<noteq> 0 then cy # r else r)"
      using round True c unfolding shift_digits_def Let_def keep by (simp add: e)
    show ?thesis
      unfolding sd using round_up_value[OF tk(1) e] decimal_shift_round[OF dec c(2)] round tk(2)
      by (auto simp: c(1) keep_def algebra_simps)
  next
    case False
    have sd: "shift_digits rounding count ds = take keep ds"
      using False True c unfolding shift_digits_def Let_def keep by auto
    have "decimal_shift rounding count (dec_value ds) = dec_value ds div 10 ^ c"
      using decimal_shift_round[OF dec c(2)] False c by (cases rounding) (auto simp: decimal_shift_def keep_def)
    then show ?thesis using tk by (simp add: sd)
  qed
qed

text \<open>The digits that SHDE takes from the source, without the padding nibble of an odd length.\<close>

definition source_digits :: "BcdOperand \<Rightarrow> int list" where
  "source_digits op = map (\<lambda>i. bcd_get_nibble op (bcd_byte_aligned_nibbles op - field_length op + i)) [0..<capacity op]"

lemma source_digits_magnitude:
  assumes "decimal (magnitude op)"
  shows "decimal (source_digits op)" "dec_value (source_digits op) = dec_value (magnitude op) mod 10 ^ capacity op"
proof -
  have "source_digits op = drop (length (magnitude op) - capacity op) (magnitude op)"
  proof (cases "field_length op = 0")
    case False
    then have "bcd_digits op - capacity op = bcd_byte_aligned_nibbles op - field_length op"
      by (simp add: bcd_digits_def capacity_def)
    then show ?thesis
      using digits_capacity(1)[of op]
      by (intro nth_equalityI) (auto simp: source_digits_def magnitude_def)
  qed (simp add: source_digits_def magnitude_def capacity_def bcd_digits_def)
  then show "decimal (source_digits op)" "dec_value (source_digits op) = dec_value (magnitude op) mod 10 ^ capacity op"
    using assms decimal_take(2) dec_value_split(1) by (simp_all only:)
qed

lemma shde_fill:
  "pos < m \<Longrightarrow> fold (\<lambda>pos. let slot = m - 2 - pos in
       bcd_set_nibble pos (if slot < cap \<and> slot < length ds then ds ! (length ds - 1 - slot) else 0)) (rev [0..<pos]) op
     = snd (fill_field m cap ds pos (length ds - min cap (m - 1 - pos)) op)"
proof (induction pos arbitrary: op)
  case (Suc pos)
  define slot where "slot = m - 2 - pos"
  have s: "m - 1 - pos = Suc slot" "m - 1 - Suc pos = slot" "m - Suc (Suc pos) = slot" using Suc.prems by (simp_all add: slot_def)
  have ih: "fold (\<lambda>pos. let slot = m - 2 - pos in
       bcd_set_nibble pos (if slot < cap \<and> slot < length ds then ds ! (length ds - 1 - slot) else 0)) (rev [0..<pos]) op'
     = snd (fill_field m cap ds pos (length ds - min cap (Suc slot)) op')" for op'
    using Suc.IH[of op'] Suc.prems unfolding s(1) by simp
  show ?case
  proof (cases "slot < cap")
    case True
    then have "min cap slot = slot" "min cap (Suc slot) = Suc slot" by simp_all
    then show ?thesis using True ih unfolding s(1,2) by (simp add: s(3) Let_def)
  next
    case False
    then have "min cap slot = cap" "min cap (Suc slot) = cap" by simp_all
    then show ?thesis using False ih unfolding s(1,2) by (simp add: s(3) Let_def)
  qed
qed simp

lemma shde_field:
  assumes g: "geometry dst" "geometry src" and nz: "field_length dst \<noteq> 0"
    and dec: "decimal (magnitude src)" and dp: "decimal_point dst < 32"
    and run: "bcd_shde_field dst src = (dst', ov)"
  defines "w \<equiv> decimal_shift (rounding_on dst) (int (decimal_point src) - int (decimal_point dst)) (dec_value (source_digits src))"
  shows "same_outside dst dst' \<and> decimal (magnitude dst') \<and> (ov \<longleftrightarrow> w \<ge> 10 ^ capacity dst)
    \<and> bcd_value dst' = (if force_unsigned dst then 1 else fst (bcd_decode_sign src)) * (w mod 10 ^ capacity dst)"
proof -
  define count ds work m where "count = int (decimal_point src) - int (decimal_point dst)" and "ds = source_digits src"
    and "work = shift_digits (rounding_on dst) count ds" and "m = bcd_byte_aligned_nibbles dst"
  define sg where "sg = (if force_unsigned dst then BCD_SIGN_UNS else if fst (bcd_decode_sign src) < 0 then BCD_SIGN_NEG else BCD_SIGN_POS)"
  have len: "length ds + nat (- count) \<le> 68"
    using dp g(2) by (auto simp: ds_def source_digits_def capacity_def geometry_def count_def)
  have work: "decimal work" "dec_value work = w"
    using shift_digits_value[OF source_digits_magnitude(1)[OF dec] len[unfolded ds_def]]
    by (simp_all add: work_def ds_def w_def count_def)
  have m: "m \<ge> 2" "bcd_digits dst = m - 1" "m - 1 < m"
    using nz by (auto simp: m_def bcd_byte_aligned_nibbles_def bcd_digits_def; presburger)+
  obtain n op1 where fill: "fill_field m (capacity dst) work (m - 1) (length work) dst = (n, op1)" by fastforce
  have cap0: "(if field_length src = 0 then 0 else capacity src) = capacity src" by (simp add: capacity_def)
  have r: "dst' = bcd_set_nibble (m - 1) sg op1" "ov = (\<exists>d\<in>set (take (length work - capacity dst) work). d \<noteq> 0)"
    using run shde_fill[OF m(3), of "capacity dst" work dst] fill
    unfolding bcd_shde_field_def Let_def m_def[symmetric] count_def[symmetric] cap0 source_digits_def[symmetric] ds_def[symmetric]
      work_def[symmetric] capacity_def[symmetric] force_unsigned_def[symmetric] sg_def[symmetric] by simp_all
  note f = fill_field_spec[of dst "m - 1" m "capacity dst" work n op1, simplified]
  have o1: "same_outside dst op1"
    and nib: "\<And>j. bcd_get_nibble op1 j = (if j < m - 1 then (let slot = m - 2 - j in if slot < capacity dst \<and> slot < length work
            then work ! (length work - 1 - slot) mod 16 else 0) else bcd_get_nibble dst j)"
    using f fill g(1) m by (simp_all add: m_def)
  have g1: "geometry op1" "bcd_byte_aligned_nibbles op1 = m" using o1 same_descriptor_sel(2,8)[of dst op1] g(1) by (simp_all add: same_outside_def m_def)
  have o: "same_outside dst dst'"
    unfolding r(1) by (rule same_outside_trans[OF o1 set_nibble_outside]) (use g1 m in simp_all)
  have d: "same_descriptor dst dst'" using o by (simp add: same_outside_def)
  have nib': "bcd_get_nibble dst' j = (if j = m - 1 then sg mod 16 else bcd_get_nibble op1 j)" for j
    unfolding r(1) using get_set_nibble[OF g1(1), of "m - 1" sg j] g1(2) m by auto
  have c: "capacity dst \<le> m - 1" using digits_capacity(1)[of dst] m(2) by simp
  have dg: "bcd_digits dst' = m - 1" using same_descriptor_sel(7)[OF d] m(2) by simp
  have mag: "magnitude dst' = replicate (m - 1 - min (capacity dst) (length work)) 0 @ drop (length work - capacity dst) work"
    unfolding magnitude_def dg by (rule filled_magnitude[OF work(1) c]) (simp add: nib' nib numeral_2_eq_2)
  have "fst (bcd_decode_sign dst') = (if force_unsigned dst then 1 else fst (bcd_decode_sign src))"
    using nib'[of "m - 1"] same_descriptor_sel(1,2)[OF d] nz sign_cases[of src]
    by (auto simp: bcd_decode_sign_def[of dst'] Let_def m_def sg_def)
  then show ?thesis
    using o work decimal_take(2)[OF work(1)] dec_value_split(1)[OF work(1)] lost_digits[OF work(1)] r(2)
    by (simp add: mag dec_value_append bcd_value_def)
qed


section \<open>Concrete operands\<close>

text \<open>Plus 123 at 100 (hex), minus 45 at 110.\<close>

definition bcd_regs :: CpuRegs where
  "bcd_regs = demo_regs\<lparr>reg_STS := 0, reg := (\<lambda>l i. if i = R_A then 0x100 else if i = R_D then 4
     else if i = R_X then 0x110 else if i = R_T then 4 else 0)\<rparr>"

definition bcd_machine :: "unit machine" where
  "bcd_machine = plain_machine\<lparr>g_reg := bcd_regs,
     n_Array := (\<lambda>a. if a = 0x100 then 0x123C else if a = 0x110 then 0x045D else 0)\<rparr>"

lemma bcd_machine_regs [simp]:
  "g_reg bcd_machine = bcd_regs" "cur R_A bcd_regs = 0x100" "cur R_D bcd_regs = 4" "cur 5 bcd_regs = 0x100" "cur 1 bcd_regs = 4"
  "cur (Suc 0) bcd_regs = 4" "cur R_X bcd_regs = 0x110" "cur R_T bcd_regs = 4"
  by (simp_all add: bcd_machine_def bcd_regs_def cur_def)

lemma bcd_machine_words:
  "plain_word bcd_machine 0x100" "plain_word bcd_machine 0x110" "bcd_mem_words (decode_descriptor 0x100 4 False) = 1"
  "bcd_mem_words (decode_descriptor 0x110 4 False) = 1" "legal_descriptor 4"
  "field_loaded (operand_at bcd_machine 0x100 4 False)" "field_loaded (operand_at bcd_machine 0x110 4 False)"
  "field_length (operand_at bcd_machine 0x110 4 False) \<noteq> 0"
  "decimal (magnitude (operand_at bcd_machine 0x100 4 False))" "decimal (magnitude (operand_at bcd_machine 0x110 4 False))"
  by code_simp+

lemma bcd_machine_ready:
  "packed_ready bcd_machine 0x100 4" "packed_ready bcd_machine 0x110 4" "plain_operand bcd_machine 0x110 4 False"
  using bcd_machine_words by (simp_all add: packed_ready_def plain_operand_def)

lemma bcd_machine_values:
  "bcd_value (operand_at bcd_machine 0x100 4 False) = 123" "bcd_value (operand_at bcd_machine 0x110 4 False) = - 45"
  "force_unsigned (operand_at bcd_machine 0x100 4 False) = False" "capacity (operand_at bcd_machine 0x100 4 False) = 3"
  "force_unsigned (operand_at bcd_machine 0x110 4 False) = False" "capacity (operand_at bcd_machine 0x110 4 False) = 3"
  "decimal_point (operand_at bcd_machine 0x100 4 False) = 0" "decimal_point (operand_at bcd_machine 0x110 4 False) = 0"
  "dec_value (source_digits (operand_at bcd_machine 0x100 4 False)) = 123"
  "fst (bcd_decode_sign (operand_at bcd_machine 0x100 4 False)) = 1"
  by code_simp+


theorem comd_orders_witness:
  "opcode_comd bcd_machine = Done () (bcd_machine\<lparr>g_reg := set_cur R_P (cur R_P bcd_regs + 1) (set_cur R_A 1 bcd_regs)\<rparr>)"
  using comd_orders[of bcd_machine] bcd_machine_ready(1,2) by (simp add: bcd_machine_values)


end
