(* ===== verification/BcdAscii.thy ===== *)
theory BcdAscii
  imports BcdLaws
begin

text \<open>
  PACK and UPACK: the bytes of an ASCII operand, and the conversions as inverse readings of
  the same value.
\<close>

section \<open>Bytes\<close>

definition byte_ok :: "BcdOperand \<Rightarrow> int \<Rightarrow> bool" where
  "byte_ok op i \<longleftrightarrow> 0 \<le> byte_pos op i \<and> byte_pos op i < 20"

lemma byte_ok_word: "byte_ok op i \<longleftrightarrow> 0 \<le> byte_pos op i div 2 \<and> byte_pos op i div 2 < 10"
  unfolding byte_ok_def by presburger

lemma byte_pos_inj [simp]: "byte_pos op i = byte_pos op j \<longleftrightarrow> i = j"
  by (simp add: byte_pos_def)

lemma set_byte_None: "bcd_set_byte i v op = None \<longleftrightarrow> \<not> byte_ok op i"
  by (simp add: bcd_set_byte_def Let_def byte_ok_word)

lemma get_byte_None: "bcd_get_byte op i = None \<longleftrightarrow> \<not> byte_ok op i"
  by (simp add: bcd_get_byte_def Let_def byte_ok_word)

lemma byte_of_merge:
  fixes w :: u16 and v :: u8
  shows "ucast (drop_bit 8 ((w AND 0x00FF) OR push_bit 8 (ucast v))) = v" "ucast ((w AND 0xFF00) OR ucast v AND 0x00FF) = v"
    "ucast (((w AND 0xFF00) OR ucast v) AND 0x00FF) = v"
    "ucast (((w AND 0x00FF) OR push_bit 8 (ucast v)) AND 0x00FF) = (ucast (w AND 0x00FF) :: u8)"
    "ucast (drop_bit 8 ((w AND 0xFF00) OR ucast v)) = (ucast (drop_bit 8 w) :: u8)"
proof -
  have m: "(0x00FF :: u16) = mask 8" "(0xFF00 :: u16) = push_bit 8 (mask 8)" by (simp_all add: mask_eq_exp_minus_1)
  show "ucast (drop_bit 8 ((w AND 0x00FF) OR push_bit 8 (ucast v))) = v" "ucast ((w AND 0xFF00) OR ucast v AND 0x00FF) = v"
    "ucast (((w AND 0xFF00) OR ucast v) AND 0x00FF) = v"
    "ucast (((w AND 0x00FF) OR push_bit 8 (ucast v)) AND 0x00FF) = (ucast (w AND 0x00FF) :: u8)"
    "ucast (drop_bit 8 ((w AND 0xFF00) OR ucast v)) = (ucast (drop_bit 8 w) :: u8)"
    unfolding m by (intro bit_word_eqI; auto simp: bit_simps dest: bit_imp_le_length)+
qed

lemma set_byte_words:
  "bcd_set_byte i v op = Some op' \<Longrightarrow> \<exists>ws. op' = op\<lparr>op_words := ws\<rparr> \<and> length ws = length (op_words op)
     \<and> (\<forall>k. k \<noteq> nat (byte_pos op i div 2) \<longrightarrow> ws ! k = op_words op ! k)"
  by (auto simp: bcd_set_byte_def Let_def split: if_splits)

lemma set_byte_descriptor: "bcd_set_byte i v op = Some op' \<Longrightarrow> same_descriptor op op'"
  using set_byte_words[of i v op op'] by (auto simp: same_descriptor_def)

lemma get_set_byte:
  assumes "geometry op" and set: "bcd_set_byte i v op = Some op'"
  shows "bcd_get_byte op' j = (if i = j then Some v else bcd_get_byte op j)"
proof -
  define p q where "p = byte_pos op i" and "q = byte_pos op j"
  define w where "w = op_words op ! nat (p div 2)"
  define w' where "w' = (if p mod 2 = 0 then (w AND 0x00FF) OR push_bit 8 (ucast v) else (w AND 0xFF00) OR ucast v)"
  have w0: "p mod 2 = 0 \<Longrightarrow> w' = (w AND 0x00FF) OR push_bit 8 (ucast v)"
    and w1: "p mod 2 \<noteq> 0 \<Longrightarrow> w' = (w AND 0xFF00) OR ucast v" by (simp_all add: w'_def)
  have b: "0 \<le> p div 2" "p div 2 < 10" and op': "op' = op\<lparr>op_words := (op_words op)[nat (p div 2) := w']\<rparr>"
    using set by (auto simp: bcd_set_byte_def Let_def p_def w_def w'_def split: if_splits)
  have q': "byte_pos op' j = q" by (simp add: op' q_def byte_pos_def)
  have len: "nat (p div 2) < length (op_words op)" using b assms(1) by (simp add: geometry_def)
  show ?thesis
  proof (cases "i = j")
    case True
    then have "q = p" by (simp add: p_def q_def)
    moreover have "p mod 2 = 0 \<Longrightarrow> ucast (drop_bit 8 w') = v" "p mod 2 \<noteq> 0 \<Longrightarrow> ucast (w' AND 0x00FF) = v"
      by (drule w0 w1, simp only: byte_of_merge)+
    ultimately show ?thesis using True b len by (simp add: bcd_get_byte_def q' Let_def) (simp add: op')
  next
    case False
    then have "p \<noteq> q" by (simp add: p_def q_def)
    show ?thesis
    proof (cases "p div 2 = q div 2")
      case True
      then have "p mod 2 \<noteq> q mod 2" using \<open>p \<noteq> q\<close> by (metis div_mult_mod_eq)
      then have "p mod 2 = 0 \<and> q mod 2 = 1 \<or> p mod 2 = 1 \<and> q mod 2 = 0" by presburger
      moreover have "p mod 2 = 0 \<Longrightarrow> ucast (w' AND 0x00FF) = (ucast (w AND 0x00FF) :: u8)"
        "p mod 2 \<noteq> 0 \<Longrightarrow> ucast (drop_bit 8 w') = (ucast (drop_bit 8 w) :: u8)"
        by (drule w0 w1, simp only: byte_of_merge)+
      moreover have "bcd_get_byte op' j = Some (if q mod 2 = 0 then ucast (drop_bit 8 w') else ucast (w' AND 0x00FF))"
        "bcd_get_byte op j = Some (if q mod 2 = 0 then ucast (drop_bit 8 w) else ucast (w AND 0x00FF))"
      proof -
        have qb: "0 \<le> q div 2 \<and> q div 2 < int 10" using b True by simp
        have ww: "op_words op' ! nat (q div 2) = w'" "op_words op ! nat (q div 2) = w"
          using len by (simp_all add: op' w_def True)
        show "bcd_get_byte op' j = Some (if q mod 2 = 0 then ucast (drop_bit 8 w') else ucast (w' AND 0x00FF))"
          "bcd_get_byte op j = Some (if q mod 2 = 0 then ucast (drop_bit 8 w) else ucast (w AND 0x00FF))"
          unfolding bcd_get_byte_def q' q_def[symmetric] Let_def if_P[OF qb] ww by (rule refl)+
      qed
      ultimately show ?thesis using False by (elim disjE conjE) simp_all
    next
      case ne: False
      then have "0 \<le> q div 2 \<Longrightarrow> nat (p div 2) \<noteq> nat (q div 2)" using b(1) by (simp add: eq_nat_nat_iff)
      then have oo: "op_words op' ! nat (q div 2) = op_words op ! nat (q div 2)" if "0 \<le> q div 2" using that by (simp add: op')
      have "bcd_get_byte op' j = bcd_get_byte op j"
      proof (cases "0 \<le> q div 2 \<and> q div 2 < int 10")
        case qb: True
        show ?thesis unfolding bcd_get_byte_def q' q_def[symmetric] Let_def if_P[OF qb] oo[OF conjunct1[OF qb]] by (rule refl)
      next
        case qb: False
        show ?thesis unfolding bcd_get_byte_def q' q_def[symmetric] Let_def if_not_P[OF qb] by (rule refl)
      qed
      then show ?thesis using False by (simp only: if_False)
    qed
  qed
qed

lemma byte_ok_same: "same_descriptor op op' \<Longrightarrow> byte_ok op' = byte_ok op"
  by (auto simp: byte_ok_def byte_pos_def fun_eq_iff same_descriptor_sel)

lemma same_descriptor_trans: "same_descriptor a b \<Longrightarrow> same_descriptor b c \<Longrightarrow> same_descriptor a c"
  by (auto simp: same_descriptor_def)

lemma ascii_format_same: "same_descriptor op op' \<Longrightarrow> ascii_format op' = ascii_format op"
  by (auto simp: same_descriptor_def)

lemma digit_byte_same: "same_descriptor op op' \<Longrightarrow> unpacked_digit_byte op' = unpacked_digit_byte op"
  by (auto simp: fun_eq_iff unpacked_digit_byte_def embedded_sign_def ascii_format_same)

lemma write_digits_spec:
  assumes "geometry dst" "distinct ps"
  shows "if \<forall>p\<in>set ps. byte_ok dst p
    then \<exists>dst'. write_digits sb uns sg ps rest dst = Some dst' \<and> same_descriptor dst dst'
       \<and> (\<forall>j. j \<notin> set ps \<longrightarrow> bcd_get_byte dst' j = bcd_get_byte dst j)
       \<and> (\<forall>k<length ps. bcd_get_byte dst' (ps ! k)
             = Some (unpacked_digit_byte dst (ps ! k) sb uns sg (if k < length rest then rest ! k else 0)))
       \<and> (\<forall>k. (\<forall>p\<in>set ps. k \<noteq> nat (byte_pos dst p div 2)) \<longrightarrow> op_words dst' ! k = op_words dst ! k)
    else write_digits sb uns sg ps rest dst = None"
  using assms
proof (induction ps arbitrary: rest dst)
  case Nil
  then show ?case by (auto simp: same_descriptor_def intro!: exI[of _ "op_words dst"])
next
  case (Cons p ps)
  define digit rest' where "digit = (if rest = [] then 0 else hd rest)" and "rest' = tl rest"
  have cr: "(case rest of [] \<Rightarrow> (0, []) | d # ds \<Rightarrow> (d, ds)) = (digit, rest')"
    by (cases rest) (simp_all add: digit_def rest'_def)
  show ?case
  proof (cases "byte_ok dst p")
    case False
    then have "bcd_set_byte p (unpacked_digit_byte dst p sb uns sg digit) dst = None" by (simp add: set_byte_None)
    then show ?thesis using False by (simp add: cr)
  next
    case True
    obtain dst1 where set: "bcd_set_byte p (unpacked_digit_byte dst p sb uns sg digit) dst = Some dst1"
      using True set_byte_None by (metis not_None_eq)
    have d: "same_descriptor dst dst1" by (rule set_byte_descriptor[OF set])
    have g: "geometry dst1" using same_descriptor_sel(8)[OF d] Cons.prems(1) by simp
    have w: "write_digits sb uns sg (p # ps) rest dst = write_digits sb uns sg ps rest' dst1"
      by (simp add: cr set)
    note byte1 = get_set_byte[OF Cons.prems(1) set]
    have bp: "byte_pos dst1 = byte_pos dst" using same_descriptor_sel(5)[OF d] by (simp add: byte_pos_def fun_eq_iff)
    have word1: "\<forall>k. k \<noteq> nat (byte_pos dst p div 2) \<longrightarrow> op_words dst1 ! k = op_words dst ! k"
      using set_byte_words[OF set] by auto
    have dig: "(if k < length rest' then rest' ! k else 0) = (if Suc k < length rest then rest ! Suc k else 0)" for k
      by (cases rest) (simp_all add: rest'_def)
    have d0: "digit = (if 0 < length rest then rest ! 0 else 0)" by (cases rest) (simp_all add: digit_def)
    note ih = Cons.IH[OF g, of rest']
    show ?thesis
    proof (cases "\<forall>q\<in>set ps. byte_ok dst q")
      case False
      then show ?thesis using ih Cons.prems(2) w True by (simp add: byte_ok_same[OF d])
    next
      case all: True
      obtain dst' where d': "write_digits sb uns sg ps rest' dst1 = Some dst'" "same_descriptor dst1 dst'"
        "\<forall>j. j \<notin> set ps \<longrightarrow> bcd_get_byte dst' j = bcd_get_byte dst1 j"
        "\<forall>k<length ps. bcd_get_byte dst' (ps ! k)
             = Some (unpacked_digit_byte dst1 (ps ! k) sb uns sg (if k < length rest' then rest' ! k else 0))"
        "\<forall>k. (\<forall>p\<in>set ps. k \<noteq> nat (byte_pos dst1 p div 2)) \<longrightarrow> op_words dst' ! k = op_words dst1 ! k"
        using ih all Cons.prems(2) by (auto simp: byte_ok_same[OF d])
      have nth: "bcd_get_byte dst' ((p # ps) ! k)
             = Some (unpacked_digit_byte dst ((p # ps) ! k) sb uns sg (if k < length rest then rest ! k else 0))"
        if "k < length (p # ps)" for k
      proof (cases k)
        case 0
        then show ?thesis using d'(3) Cons.prems(2) byte1[of p] by (simp add: d0)
      next
        case (Suc k')
        then show ?thesis using d'(4) that by (simp add: dig digit_byte_same[OF d])
      qed
      have rest: "bcd_get_byte dst' j = bcd_get_byte dst j" if "j \<notin> set (p # ps)" for j
        using d'(3) that byte1[of j] by auto
      have words: "op_words dst' ! k = op_words dst ! k" if "\<forall>q\<in>set (p # ps). k \<noteq> nat (byte_pos dst q div 2)" for k
        using d'(5) word1 that by (simp add: bp)
      show ?thesis
        using True all w d'(1) same_descriptor_trans[OF d d'(2)] nth rest words by simp
    qed
  qed
qed

section \<open>UPACK writes what PACK reads\<close>

definition skew :: "BcdOperand \<Rightarrow> int" where
  "skew op = (if starts_in_right_byte op then 1 else 0)"

definition digit_bytes :: "BcdOperand \<Rightarrow> nat" where
  "digit_bytes op = field_length op - (if separate_sign op then 1 else 0)"

definition ascii_first :: "BcdOperand \<Rightarrow> int" where
  "ascii_first op = (if ascii_format op = BCD_ASCII_SEPARATE_LEADING then 1 else 0)"

definition sign_position :: "BcdOperand \<Rightarrow> int" where
  "sign_position op = fst (bcd_ascii_layout (ascii_format op) (int (field_length op)))"

lemma layout:
  "field_length op \<noteq> 0 \<Longrightarrow> bcd_ascii_layout (ascii_format op) (int (field_length op))
     = (sign_position op, ascii_first op, ascii_first op + int (digit_bytes op) - 1)"
  by (auto simp: bcd_ascii_layout_def digit_bytes_def ascii_first_def sign_position_def separate_sign_def)

lemma byte_ok_range: "byte_ok op i \<longleftrightarrow> 0 \<le> i + skew op \<and> i + skew op < 20"
  by (simp add: byte_ok_def byte_pos_def skew_def)

lemma upto_nth: "k < nat (j - i + 1) \<Longrightarrow> [i..j] ! k = i + int k"
proof (induction k arbitrary: i)
  case 0
  then show ?case by (subst upto_rec1) simp_all
next
  case (Suc k)
  then show ?case by (subst upto_rec1) simp_all
qed

lemma digit_positions:
  "length [ascii_first op..ascii_first op + int (digit_bytes op) - 1] = digit_bytes op"
  "k < digit_bytes op \<Longrightarrow> [ascii_first op..ascii_first op + int (digit_bytes op) - 1] ! k = ascii_first op + int k"
  by (simp_all add: upto_nth)

text \<open>The conversion stays inside the word array exactly when the skewed field has at most 20 bytes.\<close>

lemma write_ascii_cases:
  assumes "geometry dst" "field_length dst \<noteq> 0"
  shows "if int (field_length dst) + skew dst \<le> 20
    then \<exists>dst'. write_ascii dst ds sg u = Converted (dst', length ds > digit_bytes dst) \<and> same_descriptor dst dst'
       \<and> (\<forall>k<digit_bytes dst. bcd_get_byte dst' (ascii_first dst + int k) = Some (unpacked_digit_byte dst (ascii_first dst + int k)
             (sign_position dst) (u \<or> force_unsigned dst) sg
             (if digit_bytes dst - 1 - k < length ds then rev ds ! (digit_bytes dst - 1 - k) else 0)))
       \<and> (separate_sign dst \<longrightarrow> bcd_get_byte dst' (sign_position dst)
             = Some (if u \<or> force_unsigned dst then 0x30 else if sg < 0 then 0x2D else 0x2B))
       \<and> (\<forall>k. 2 * int k > int (field_length dst) - 1 + skew dst \<longrightarrow> op_words dst' ! k = op_words dst ! k)
    else write_ascii dst ds sg u = Undefined"
proof -
  define n f sb uns where "n = digit_bytes dst" and "f = ascii_first dst" and "sb = sign_position dst"
    and "uns = (u \<or> force_unsigned dst)"
  define js where "js = [f..f + int n - 1]"
  have lay: "bcd_ascii_layout (ascii_format dst) (int (field_length dst)) = (sb, f, f + int n - 1)"
    using layout[OF assms(2)] by (simp add: sb_def f_def n_def)
  have len: "length js = n" "\<And>k. k < n \<Longrightarrow> js ! k = f + int k" using digit_positions[where op = dst] by (simp_all add: js_def f_def n_def)
  have sep: "separate_sign dst \<Longrightarrow> {f..f + int n - 1} \<union> {sb} = {0..int (field_length dst) - 1} \<and> sb \<notin> {f..f + int n - 1} \<and> sb \<ge> 0"
    "\<not> separate_sign dst \<Longrightarrow> f = 0 \<and> n = field_length dst"
    using assms(2) by (auto simp: f_def n_def sb_def ascii_first_def digit_bytes_def sign_position_def separate_sign_def bcd_ascii_layout_def)
  have ov: "(f + int n - 1 - f + 1 < int (length ds)) = (n < length ds)" by simp
  have wa: "write_ascii dst ds sg u = (case write_digits sb uns sg (rev js) (rev ds) dst of None \<Rightarrow> Undefined
     | Some dst1 \<Rightarrow> (if sb \<ge> 0 \<and> separate_sign dst
          then (case bcd_set_byte sb (if uns then 0x30 else if sg < 0 then 0x2D else 0x2B) dst1 of
                  None \<Rightarrow> Undefined | Some dst2 \<Rightarrow> Converted (dst2, length ds > n))
          else Converted (dst1, length ds > n)))"
    unfolding write_ascii_def lay Let_def prod.case force_unsigned_def[symmetric] uns_def[symmetric] js_def[symmetric] ov by (rule refl)
  have all: "(\<forall>p\<in>set js. byte_ok dst p) \<and> (separate_sign dst \<longrightarrow> byte_ok dst sb) \<longleftrightarrow> int (field_length dst) + skew dst \<le> 20"
  proof -
    have "(\<forall>p\<in>{0..int (field_length dst) - 1}. byte_ok dst p) \<longleftrightarrow> int (field_length dst) + skew dst \<le> 20"
      using assms(2) by (auto simp: byte_ok_range skew_def dest: bspec[of _ _ "int (field_length dst) - 1"])
    moreover have "{0..int (field_length dst) - 1} = (if separate_sign dst then insert sb (set js) else set js)"
      using sep by (cases "separate_sign dst") (simp_all add: js_def)
    ultimately show ?thesis by (simp split: if_splits) blast
  qed
  have "distinct (rev js)" by (simp add: js_def)
  note wd = write_digits_spec[OF assms(1) this, of sb uns sg "rev ds"]
  show ?thesis
  proof (cases "\<forall>p\<in>set js. byte_ok dst p")
    case False
    then show ?thesis using wd all by (auto simp: wa)
  next
    case True
    obtain dst1 where d1: "write_digits sb uns sg (rev js) (rev ds) dst = Some dst1" "same_descriptor dst dst1"
      "\<forall>k<n. bcd_get_byte dst1 (rev js ! k) = Some (unpacked_digit_byte dst (rev js ! k) sb uns sg (if k < length ds then rev ds ! k else 0))"
      "\<forall>k. (\<forall>p\<in>set js. k \<noteq> nat (byte_pos dst p div 2)) \<longrightarrow> op_words dst1 ! k = op_words dst ! k"
      using wd True len by auto
    have nib1: "bcd_get_byte dst1 (f + int k) = Some (unpacked_digit_byte dst (f + int k) sb uns sg
        (if n - 1 - k < length ds then rev ds ! (n - 1 - k) else 0))" if "k < n" for k
    proof -
      have "rev js ! (n - 1 - k) = f + int k" using that len by (simp add: rev_nth)
      then show ?thesis using d1(3)[rule_format, of "n - 1 - k"] that by simp
    qed
    have far: "k \<noteq> nat (byte_pos dst p div 2)" if "2 * int k > int (field_length dst) - 1 + skew dst" "p \<in> {0..int (field_length dst) - 1}" for k p
      using that by (auto simp: byte_pos_def skew_def)
    have sub: "set js \<subseteq> {0..int (field_length dst) - 1}"
      using sep assms(2) by (cases "separate_sign dst") (auto simp: js_def)
    have words1: "op_words dst1 ! k = op_words dst ! k" if "2 * int k > int (field_length dst) - 1 + skew dst" for k
      using d1(4) far[OF that] sub by blast
    show ?thesis
    proof (cases "separate_sign dst")
      case False
      then show ?thesis using True all d1(1,2) nib1 words1 by (simp add: wa n_def f_def sb_def uns_def)
    next
      case sp: True
      define b where "b = (if uns then 0x30 else if sg < 0 then 0x2D else 0x2B :: u8)"
      show ?thesis
      proof (cases "byte_ok dst sb")
        case False
        then have "bcd_set_byte sb b dst1 = None" by (simp add: set_byte_None byte_ok_same[OF d1(2)])
        then show ?thesis using False sp all sep(1)[OF sp] d1(1) by (auto simp: wa b_def)
      next
        case bk: True
        then obtain dst2 where set: "bcd_set_byte sb b dst1 = Some dst2"
          using set_byte_None[of sb b dst1] byte_ok_same[OF d1(2)] by auto
        have g1: "geometry dst1" using same_descriptor_sel(8)[OF d1(2)] assms(1) by simp
        have bp: "byte_pos dst1 = byte_pos dst" using same_descriptor_sel(5)[OF d1(2)] by (simp add: byte_pos_def fun_eq_iff)
        note byte2 = get_set_byte[OF g1 set]
        have "sb \<in> {0..int (field_length dst) - 1}" using sep(1)[OF sp] by auto
        then have "op_words dst2 ! k = op_words dst ! k" if "2 * int k > int (field_length dst) - 1 + skew dst" for k
          using set_byte_words[OF set] far[OF that] words1[OF that] by (auto simp: bp)
        moreover have "write_ascii dst ds sg u = Converted (dst2, length ds > n)"
          using sep(1)[OF sp] sp set by (simp add: wa d1(1) b_def)
        moreover have "bcd_get_byte dst2 (f + int k) = bcd_get_byte dst1 (f + int k)" if "k < n" for k
          using byte2[of "f + int k"] sep(1)[OF sp] that by auto
        ultimately show ?thesis
          using True sp bk all same_descriptor_trans[OF d1(2) set_byte_descriptor[OF set]] nib1 byte2[of sb]
          by (simp add: n_def f_def sb_def uns_def b_def)
      qed
    qed
  qed
qed

lemma digit_cases: "0 \<le> d \<Longrightarrow> d \<le> 9 \<Longrightarrow> d \<in> set [0, 1, 2, 3, 4, 5, 6, 7, 8, 9 :: int]"
  by (simp only: list.set insert_iff empty_iff) presburger

lemma plain_digit_byte:
  assumes "0 \<le> d" "d \<le> 9"
  shows "\<not> ((word_of_int (0x30 OR d) :: u8) < 0x30 \<or> (word_of_int (0x30 OR d) :: u8) > 0x39)"
    "uint ((word_of_int (0x30 OR d) :: u8) AND 0x0F) = d"
    "overpunch_digit (word_of_int (0x30 OR d)) = Some (d, 1)"
proof -
  have "\<forall>d\<in>set [0, 1, 2, 3, 4, 5, 6, 7, 8, 9]. \<not> ((word_of_int (0x30 OR d) :: u8) < 0x30 \<or> (word_of_int (0x30 OR d) :: u8) > 0x39)
     \<and> uint ((word_of_int (0x30 OR d) :: u8) AND 0x0F) = d \<and> overpunch_digit (word_of_int (0x30 OR d)) = Some (d, 1)"
    by code_simp
  from bspec[OF this digit_cases[OF assms]]
  show "\<not> ((word_of_int (0x30 OR d) :: u8) < 0x30 \<or> (word_of_int (0x30 OR d) :: u8) > 0x39)"
    "uint ((word_of_int (0x30 OR d) :: u8) AND 0x0F) = d" "overpunch_digit (word_of_int (0x30 OR d)) = Some (d, 1)"
    by blast+
qed

lemma overpunch_byte:
  assumes "0 \<le> d" "d \<le> 9"
  shows "overpunch_digit (if sg < 0 then (if d = 0 then 0x7D else word_of_int (0x49 + d))
       else (if d = 0 then 0x7B else word_of_int (0x40 + d))) = Some (d, if sg < 0 then - 1 else 1)"
proof -
  have "\<forall>d\<in>set [0, 1, 2, 3, 4, 5, 6, 7, 8, 9]. overpunch_digit (if d = 0 then 0x7D else word_of_int (0x49 + d)) = Some (d, - 1)
     \<and> overpunch_digit (if d = 0 then 0x7B else word_of_int (0x40 + d)) = Some (d, 1)"
    by code_simp
  from bspec[OF this digit_cases[OF assms]] show ?thesis by (cases "sg < 0") (simp_all only: if_True if_False simp_thms)
qed

text \<open>The digit loop of PACK inverts the digit loop of UPACK.\<close>

lemma read_digits_written:
  assumes "length js = length ds" "decimal ds" "length acc + length js \<le> 32"
    and "\<forall>k<length js. bcd_get_byte src (js ! k) = Some (unpacked_digit_byte src (js ! k) sb uns sg (ds ! k))"
  shows "read_digits src sb js acc s0 = Converted (acc @ ds,
     if embedded_sign src \<and> sb \<in> set js then (if \<not> uns \<and> sg < 0 then - 1 else 1) else s0)"
  using assms
proof (induction js arbitrary: ds acc s0)
  case (Cons j js)
  then obtain d ds' where ds: "ds = d # ds'" by (cases ds) auto
  have d: "0 \<le> d" "d \<le> 9" using Cons.prems(2) by (simp_all add: ds)
  have b: "bcd_get_byte src j = Some (unpacked_digit_byte src j sb uns sg d)"
    using Cons.prems(4)[rule_format, of 0] by (simp add: ds)
  have rest: "\<forall>k<length js. bcd_get_byte src (js ! k) = Some (unpacked_digit_byte src (js ! k) sb uns sg (ds' ! k))"
    using Cons.prems(4) by (auto simp: ds)
  have ih: "read_digits src sb js (acc @ [d]) s = Converted (acc @ ds,
     if embedded_sign src \<and> sb \<in> set js then (if \<not> uns \<and> sg < 0 then - 1 else 1) else s)" for s
    using Cons.IH[of ds' "acc @ [d]" s] Cons.prems(1-3) rest by (simp add: ds)
  have lt: "\<not> length acc \<ge> 32" using Cons.prems(3) by simp
  show ?case
  proof (cases "j = sb \<and> embedded_sign src")
    case True
    define ub where "ub = unpacked_digit_byte src j sb uns sg d"
    have "overpunch_digit ub = Some (d, if \<not> uns \<and> sg < 0 then - 1 else 1)"
      using True overpunch_byte[OF d, of sg] plain_digit_byte(3)[OF d]
      by (cases uns) (simp_all only: ub_def unpacked_digit_byte_def simp_thms if_True if_False)
    then show ?thesis
      unfolding read_digits.simps if_not_P[OF lt] b option.case if_P[OF True] ub_def[symmetric]
      using True by (simp only: option.case prod.case ih) simp
  next
    case False
    then have ub: "unpacked_digit_byte src j sb uns sg d = word_of_int (0x30 OR d)"
      by (auto simp: unpacked_digit_byte_def)
    show ?thesis
      unfolding read_digits.simps if_not_P[OF lt] b option.case if_not_P[OF False] ub
        if_not_P[OF plain_digit_byte(1)[OF d]] plain_digit_byte(2)[OF d] ih
      using False by auto
  qed
qed simp

text \<open>What a written ASCII operand reads back as.\<close>

definition ascii_value :: "BcdOperand \<Rightarrow> int option" where
  "ascii_value op = (case read_ascii op of Converted (ds, sg) \<Rightarrow> Some (sg * dec_value ds) | _ \<Rightarrow> None)"

lemma written_ascii_value:
  assumes g: "geometry dst" "field_length dst \<noteq> 0" and fit: "int (field_length dst) + skew dst \<le> 20"
    and dec: "decimal ds" and sg: "sg = 1 \<or> sg = - 1"
    and format: "ascii_format dst \<ge> 4 \<Longrightarrow> force_unsigned dst"
    and uns: "uns = (u \<or> force_unsigned dst)" "\<not> (uns \<and> separate_sign dst)"
    and run: "write_ascii dst ds sg u = Converted (dst', ov)"
  shows "ascii_value dst' = Some ((if uns then 1 else sg) * (dec_value ds mod 10 ^ digit_bytes dst))"
proof -
  define n f sb where "n = digit_bytes dst" and "f = ascii_first dst" and "sb = sign_position dst"
  define js where "js = [f..f + int n - 1]"
  define digit where "digit k = (if n - 1 - k < length ds then rev ds ! (n - 1 - k) else 0)" for k
  have w: "same_descriptor dst dst'"
    "\<forall>k<n. bcd_get_byte dst' (f + int k) = Some (unpacked_digit_byte dst (f + int k) sb uns sg (digit k))"
    "separate_sign dst \<Longrightarrow> bcd_get_byte dst' sb = Some (if sg < 0 then 0x2D else 0x2B)"
    using write_ascii_cases[OF g, of ds sg u] fit run uns by (simp_all add: n_def f_def sb_def digit_def)
  have js: "length js = n" "\<And>k. k < n \<Longrightarrow> js ! k = f + int k"
    using digit_positions[where op = dst] by (simp_all add: js_def f_def n_def)
  define pd where "pd = map digit [0..<n]"
  have pd: "pd = replicate (n - min n (length ds)) 0 @ drop (length ds - n) ds"
    unfolding pd_def
  proof (rule filled_magnitude[OF dec order_refl])
    fix j assume j: "j < n"
    have "ds ! i mod 16 = ds ! i" if "i < length ds" for i
      using dec nth_mem[OF that] by (force simp: decimal_def)
    then show "digit j = (let slot = n - 1 - j in if slot < n \<and> slot < length ds then ds ! (length ds - 1 - slot) mod 16 else 0)"
      using j by (simp add: digit_def Let_def rev_nth)
  qed
  have pdv: "decimal pd" "dec_value pd = dec_value ds mod 10 ^ n" "length pd = n"
    using dec decimal_take(2)[OF dec] dec_value_split(1)[OF dec] by (simp_all add: pd dec_value_append)
  have es: "embedded_sign dst' = embedded_sign dst" "separate_sign dst' = separate_sign dst" "field_length dst' = field_length dst"
    "ascii_format dst' = ascii_format dst"
    using ascii_format_same[OF w(1)] same_descriptor_sel(1)[OF w(1)] by (simp_all add: embedded_sign_def separate_sign_def)
  have lay: "bcd_ascii_layout (ascii_format dst') (int (field_length dst')) = (sb, f, f + int n - 1)"
    using layout[OF g(2)] by (simp add: es sb_def f_def n_def)
  have n32: "n \<le> 32" using g(1) by (auto simp: n_def digit_bytes_def geometry_def)
  have rd: "read_digits dst' sb js [] s0 = Converted (pd,
     if embedded_sign dst \<and> sb \<in> set js then (if \<not> uns \<and> sg < 0 then - 1 else 1) else s0)" for s0
    using read_digits_written[of js pd "[]" dst' sb uns sg s0] js pdv n32 w(2)
    by (simp add: es digit_byte_same[OF w(1)]) (simp add: pd_def)
  have sgn: "(if embedded_sign dst \<and> sb \<in> set js then (if \<not> uns \<and> sg < 0 then - 1 else 1)
      else if separate_sign dst \<and> sg < 0 then - 1 else 1) = (if uns then 1 else sg)"
  proof -
    have "embedded_sign dst \<Longrightarrow> sb \<in> set js"
      using g(2) by (auto simp: embedded_sign_def sb_def sign_position_def bcd_ascii_layout_def js_def f_def n_def
          ascii_first_def digit_bytes_def separate_sign_def)
    moreover have "\<not> embedded_sign dst \<Longrightarrow> \<not> separate_sign dst \<Longrightarrow> uns"
      using format uns(1) by (auto simp: embedded_sign_def separate_sign_def)
    moreover have "embedded_sign dst \<Longrightarrow> \<not> separate_sign dst" by (auto simp: embedded_sign_def separate_sign_def)
    ultimately show ?thesis
      using uns(2) sg by (cases "embedded_sign dst"; cases "separate_sign dst"; elim disjE; simp)
  qed
  have "separate_sign_of dst' sb = Converted (if separate_sign dst \<and> sg < 0 then - 1 else 1)"
    using w(3) by (simp add: separate_sign_of_def es)
  then have "read_ascii dst' = Converted (pd, if uns then 1 else sg)"
    unfolding read_ascii_def lay Let_def prod.case js_def[symmetric] by (simp only: conversion.case rd sgn)
  then show ?thesis by (simp add: ascii_value_def pdv n_def)
qed

definition ascii_loaded :: "BcdOperand \<Rightarrow> bool" where
  "ascii_loaded op \<longleftrightarrow> int (field_length op) + skew op \<le> 2 * int (bcd_mem_words op)"

lemma format_unsigned: "ascii_format (operand_at m d1 d2 a) \<ge> 4 \<Longrightarrow> force_unsigned (operand_at m d1 d2 a)"
proof (rule ccontr)
  assume a: "ascii_format (operand_at m d1 d2 a) \<ge> 4" and "\<not> force_unsigned (operand_at m d1 d2 a)"
  then have "\<not> bit d2 13" by (simp add: force_unsigned_def getbit_ne_0)
  then have "drop_bit 11 d2 AND 7 = drop_bit 11 d2 AND 3"
    by (intro word16_bits) (auto simp: bit_simps)
  moreover have "unat (drop_bit 11 d2 AND 3) < 2 ^ 2" by (rule and_mask_lt) (simp add: mask_eq_exp_minus_1)
  ultimately show False using a by (simp add: operand_at_def decode_descriptor_def Let_def)
qed

lemma read_packed_source:
  "read_packed src = (if field_length src = 0 then Converted ([], 1, False)
     else let nib = bcd_get_nibble src (bcd_byte_aligned_nibbles src - 1)
          in if nib < 10 \<or> (\<exists>d\<in>set (source_digits src). d > 9) then Illegal
             else Converted (source_digits src, fst (bcd_decode_sign src), nib = 0xF))"
proof (cases "field_length src = 0")
  case True
  then show ?thesis by (simp add: read_packed_def bcd_byte_aligned_nibbles_def)
next
  case False
  define pad m where "pad = bcd_byte_aligned_nibbles src - field_length src" and "m = bcd_byte_aligned_nibbles src"
  have m: "m \<noteq> 0" "pad + capacity src = m - 1"
    using False by (simp_all add: m_def pad_def bcd_byte_aligned_nibbles_def capacity_def)
  have ds: "map (bcd_get_nibble src) [pad..<m - 1] = source_digits src"
  proof -
    have "m - Suc pad = capacity src" using m by simp
    then show ?thesis by (simp add: source_digits_def pad_def list_eq_iff_nth_eq)
  qed
  have "nib \<notin> {0x0A, 0x0B, 0x0C, 0x0D, 0x0E, 0x0F} \<longleftrightarrow> nib < 10" if "0 \<le> nib" "nib < 16" for nib :: int
    using that by (simp only: insert_iff empty_iff) presburger
  note nib = this[OF nibble_range]
  show ?thesis
    unfolding read_packed_def Let_def pad_def[symmetric] unfolding m_def[symmetric] ds nib
    using False m(1) by (auto simp: bcd_decode_sign_def Let_def m_def)
qed


section \<open>PACK reads ASCII\<close>

lemma low_digit: "\<not> (b < 0x30 \<or> b > 0x39) \<Longrightarrow> 0 \<le> uint (b AND 0x0F) \<and> uint (b AND 0x0F) \<le> 9" for b :: u8
proof -
  assume "\<not> (b < 0x30 \<or> b > 0x39)"
  then have "48 \<le> uint b" "uint b \<le> 57" by (simp_all add: word_less_def not_less word_le_def)
  moreover have "uint (b AND 0x0F) = uint b mod 16"
  proof -
    have a: "b AND 0x0F = take_bit 4 b" by (simp only: take_bit_eq_mask) (simp add: mask_eq_exp_minus_1)
    have b: "uint (take_bit 4 b) = take_bit 4 (uint b)" by (rule unsigned_take_bit_eq)
    show ?thesis unfolding a b by (simp add: take_bit_eq_mod)
  qed
  ultimately show ?thesis by presburger
qed

lemma overpunch_range:
  assumes "overpunch_digit b = Some (d, s)"
  shows "0 \<le> d \<and> d \<le> 9 \<and> (s = 1 \<or> s = - 1)"
proof -
  have "0x41 \<le> b \<and> b \<le> 0x49 \<Longrightarrow> 65 \<le> uint b \<and> uint b \<le> 73" "0x4A \<le> b \<and> b \<le> 0x52 \<Longrightarrow> 74 \<le> uint b \<and> uint b \<le> 82"
    by (simp_all add: word_le_def)
  then show ?thesis using assms low_digit[of b] by (auto simp: overpunch_digit_def not_less split: if_splits)
qed

lemma read_digits_decimal:
  "read_digits src sb js acc s0 = Converted (ds, sg) \<Longrightarrow> decimal acc \<Longrightarrow> s0 = 1 \<or> s0 = - 1 \<Longrightarrow>
     decimal ds \<and> (sg = 1 \<or> sg = - 1)"
proof (induction js arbitrary: acc s0)
  case (Cons j js)
  show ?case
  proof (cases "length acc \<ge> 32")
    case True
    then show ?thesis using Cons.prems by simp
  next
    case False
    obtain b where b: "bcd_get_byte src j = Some b" using Cons.prems(1) False by (cases "bcd_get_byte src j") auto
    show ?thesis
    proof (cases "j = sb \<and> embedded_sign src")
      case True
      obtain d s where o: "overpunch_digit b = Some (d, s)"
        using Cons.prems(1) False b True by (cases "overpunch_digit b") auto
      then have "read_digits src sb js (acc @ [d]) s = Converted (ds, sg)" using Cons.prems(1) False b True by simp
      then show ?thesis using Cons.IH[of "acc @ [d]" s] Cons.prems(2) overpunch_range[OF o] by simp
    next
      case emb: False
      have c: "\<not> (b < 0x30 \<or> b > 0x39)" using Cons.prems(1) False b emb by (auto split: if_splits)
      have "read_digits src sb js (acc @ [uint (b AND 0x0F)]) s0 = Converted (ds, sg)"
        using Cons.prems(1) unfolding read_digits.simps if_not_P[OF False] b option.case if_not_P[OF emb] if_not_P[OF c] .
      then show ?thesis using Cons.IH[of "acc @ [uint (b AND 0x0F)]" s0] Cons.prems(2,3) low_digit[OF c] by simp
    qed
  qed
qed simp

lemma read_ascii_decimal:
  assumes "read_ascii src = Converted (ds, sg)"
  shows "decimal ds \<and> (sg = 1 \<or> sg = - 1)"
proof -
  obtain sb f l where lay: "bcd_ascii_layout (ascii_format src) (int (field_length src)) = (sb, f, l)" by (metis prod_cases3)
  obtain s0 where s0: "separate_sign_of src sb = Converted s0"
    using assms by (cases "separate_sign_of src sb") (auto simp: read_ascii_def lay)
  have "s0 = 1 \<or> s0 = - 1" using s0 by (auto simp: separate_sign_of_def split: if_splits option.splits)
  moreover have "read_digits src sb [f..l] [] s0 = Converted (ds, sg)" using assms by (simp add: read_ascii_def lay s0)
  ultimately show ?thesis using read_digits_decimal by fastforce
qed

text \<open>
  PACK stores the value of the ASCII source. When every byte of the source is legal in its
  format, the packed field receives the value (as ADDD would store it: modulo its capacity,
  signed unless the descriptor asks for the unsigned format), the instruction skips exactly
  when no significant digit is lost, and else reports error 3 in D; an illegal byte reports
  error 2 with bit 15 of A and D set and no memory changes; a source longer than the operand's
  word array is undefined in C.\<close>

theorem pack_stores:
  fixes m :: "'d machine"
  defines "r \<equiv> g_reg m"
  defines "src \<equiv> operand_at m (cur R_A r) (cur R_D r) True"
    and "dst \<equiv> operand_at m (cur R_X r) (cur R_T r) False"
  assumes legal: "legal_descriptor (cur R_D r)" "plain_operand m (cur R_A r) (cur R_D r) True"
    "legal_descriptor (cur R_T r)" "plain_operand m (cur R_X r) (cur R_T r) False"
    and loaded: "field_loaded dst"
  shows "case read_ascii src of
      Undefined \<Rightarrow> opcode_pack ub m = skip_if ub m
    | Illegal \<Rightarrow> opcode_pack ub m = bcd_report_error BCD_ERR_ILLEGAL_CODE m
    | Converted (ds, sg) \<Rightarrow>
       (let v = sg * dec_value ds in \<exists>m'. opcode_pack ub m = Done () m'
          \<and> bcd_value (operand_at m' (cur R_X r) (cur R_T r) False) = signed_result (force_unsigned dst) (capacity dst) v
          \<and> g_reg m' = (if \<bar>v\<bar> < 10 ^ capacity dst then set_cur R_P (cur R_P r + 1) r
                        else set_cur R_D ((cur R_D r AND NOT 0x1F) OR 3) r)
          \<and> same_outside dst (operand_at m' (cur R_X r) (cur R_T r) False)
          \<and> (\<forall>x. x \<notin> (\<lambda>i. cur R_X r + of_nat i) ` {..<bcd_mem_words dst} \<longrightarrow> plain_content m' x = plain_content m x))"
proof -
  have ops: "opcode_pack ub m = skip_if (bcd_convert_to_packed ub dst src) m"
    using legal by (simp add: opcode_pack_def run_with_operand src_def dst_def r_def)
  show ?thesis
  proof (cases "read_ascii src")
    case Illegal
    then show ?thesis
      by (simp add: ops bcd_convert_to_packed_def skip_if_def bcd_report_error_def bind_out_def seq_def)
  next
    case (Converted t)
    obtain ds sg where t: "t = (ds, sg)" by (cases t) auto
    define v where "v = sg * dec_value ds"
    have sg: "decimal ds" "sg = 1 \<or> sg = - 1" using read_ascii_decimal Converted by (simp_all add: t)
    have dv: "dec_value ds = \<bar>v\<bar>" "v \<noteq> 0 \<Longrightarrow> (sg < 0) = (v < 0)"
      using sg(2) dec_value_bounds[OF sg(1)] by (auto simp: v_def abs_mult)
    obtain dst' ov where pk: "bcd_pack_magnitude_to_field ds (if force_unsigned dst then BCD_SIGN_UNS
        else if sg < 0 then BCD_SIGN_NEG else BCD_SIGN_POS) dst = (dst', ov)" by fastforce
    have pv: "same_outside dst dst'" "ov \<longleftrightarrow> \<bar>v\<bar> \<ge> 10 ^ capacity dst"
      "bcd_value dst' = signed_result (force_unsigned dst) (capacity dst) v"
      using packed_value[OF _ sg(1) dv pk] by (simp_all add: dst_def)
    have mw: "bcd_mem_words dst' = bcd_mem_words dst"
      using pv(1) same_descriptor_sel(9) by (simp add: same_outside_def)
    obtain m1 where m1: "bcd_store_operand dst' m = Done () m1" "sans_memory m1 = sans_memory m"
      "operand_at m1 (cur R_X r) (cur R_T r) False = dst'"
      "\<forall>x. x \<notin> (\<lambda>i. cur R_X r + of_nat i) ` {..<bcd_mem_words dst} \<longrightarrow> plain_content m1 x = plain_content m x"
      using store_reload[of m "cur R_X r" "cur R_T r" False dst'] legal(4) pv(1) loaded by (auto simp: dst_def[symmetric] mw)
    have gr: "g_reg m1 = r" using arg_cong[OF m1(2), of g_reg] by (simp add: sans_memory_def r_def)
    have "opcode_pack ub m = (if ov then Done () (m1\<lparr>g_reg := set_cur R_D ((cur R_D r AND NOT 0x1F) OR 3) r\<rparr>)
        else Done () (m1\<lparr>g_reg := set_cur R_P (cur R_P r + 1) r\<rparr>))"
      using pk by (simp add: ops skip_if_def bcd_convert_to_packed_def Converted t m1(1) advance_p_def gr
          bcd_report_error_def force_unsigned_def[symmetric] Let_def bind_out_def seq_def)
    then have "\<exists>m'. opcode_pack ub m = Done () m'
          \<and> bcd_value (operand_at m' (cur R_X r) (cur R_T r) False) = signed_result (force_unsigned dst) (capacity dst) v
          \<and> g_reg m' = (if \<bar>v\<bar> < 10 ^ capacity dst then set_cur R_P (cur R_P r + 1) r
                        else set_cur R_D ((cur R_D r AND NOT 0x1F) OR 3) r)
          \<and> same_outside dst (operand_at m' (cur R_X r) (cur R_T r) False)
          \<and> (\<forall>x. x \<notin> (\<lambda>i. cur R_X r + of_nat i) ` {..<bcd_mem_words dst} \<longrightarrow> plain_content m' x = plain_content m x)"
      using pv m1(3,4) by (cases ov) (auto intro!: exI)
    then show ?thesis unfolding Converted t conversion.case prod.case Let_def v_def .
  qed (simp add: ops bcd_convert_to_packed_def skip_if_def bind_out_def)
qed

section \<open>Concrete conversions\<close>

lemma bcd_machine_ascii:
  "plain_operand bcd_machine 0x110 4 True" "field_length (operand_at bcd_machine 0x110 4 True) \<noteq> 0"
  "ascii_loaded (operand_at bcd_machine 0x110 4 True)" "\<not> separate_sign (operand_at bcd_machine 0x110 4 True)"
  "digit_bytes (operand_at bcd_machine 0x110 4 True) = 4" "force_unsigned (operand_at bcd_machine 0x110 4 True) = False"
  "read_packed (operand_at bcd_machine 0x100 4 False) = Converted ([1, 2, 3], 1, False)"
proof -
  have "plain_word bcd_machine 0x111" "bcd_mem_words (decode_descriptor 0x110 4 True) = 2" by code_simp+
  then show "plain_operand bcd_machine 0x110 4 True"
    using bcd_machine_words(2) by (auto simp: plain_operand_def numeral_2_eq_2 less_Suc_eq)
qed code_simp+


text \<open>The four characters 1, 2, 3 and C (a plus three) at 100 (hex), an empty packed field of six nibbles at 110.\<close>

definition ascii_machine :: "unit machine" where
  "ascii_machine = plain_machine\<lparr>g_reg := bcd_regs\<lparr>reg := (\<lambda>l i. if i = R_A then 0x100 else if i = R_D then 4
     else if i = R_X then 0x110 else if i = R_T then 6 else 0)\<rparr>,
     n_Array := (\<lambda>a. if a = 0x100 then 0x3132 else if a = 0x101 then 0x3343 else 0)\<rparr>"

lemma ascii_machine_facts:
  "plain_word ascii_machine 0x100" "plain_word ascii_machine 0x101" "plain_word ascii_machine 0x110" "plain_word ascii_machine 0x111"
  "bcd_mem_words (decode_descriptor 0x100 4 True) = 2" "bcd_mem_words (decode_descriptor 0x110 6 False) = 2"
  "legal_descriptor 4" "legal_descriptor 6" "field_loaded (operand_at ascii_machine 0x110 6 False)"
  "read_ascii (operand_at ascii_machine 0x100 4 True) = Converted ([1, 2, 3, 3], 1)"
  "force_unsigned (operand_at ascii_machine 0x110 6 False) = False" "capacity (operand_at ascii_machine 0x110 6 False) = 5"
  by code_simp+

lemma ascii_machine_regs:
  "cur R_A (g_reg ascii_machine) = 0x100" "cur R_D (g_reg ascii_machine) = 4"
  "cur R_X (g_reg ascii_machine) = 0x110" "cur R_T (g_reg ascii_machine) = 6"
  by code_simp+

lemma ascii_machine_plain: "plain_operand ascii_machine 0x100 4 True" "plain_operand ascii_machine 0x110 6 False"
  using ascii_machine_facts(1-6) by (auto simp: plain_operand_def numeral_2_eq_2 less_Suc_eq)

theorem pack_stores_witness:
  "\<exists>m'. opcode_pack (ret False) ascii_machine = Done () m' \<and> bcd_value (operand_at m' 0x110 6 False) = 1233"
  using pack_stores[of ascii_machine "ret False", unfolded ascii_machine_regs] ascii_machine_facts ascii_machine_plain
  by (auto simp: Let_def signed_result_def)

end
