(* ===== verification/FloatUnit.thy ===== *)
theory FloatUnit
  imports Instr Complex_Main
begin

text \<open>
  The floating point unit of \<open>src/cpu/float.c\<close>: 48-bit and 32-bit addition, subtraction,
  multiplication, division, normalisation of an integer and conversion back, and the
  instructions FAD, FSB, FMU, FDV, NLZ and DNZ of \<open>src/cpu/cpu_instr.c\<close> that use it.
\<close>

section \<open>Unpacked numbers\<close>

record fp =
  fp_s :: bool
  fp_e :: int
  fp_m :: u64

definition mkfp48 :: "u16 \<Rightarrow> u16 \<Rightarrow> u16 \<Rightarrow> fp" where
  "mkfp48 w1 w2 w3 =
     \<lparr>fp_s = (drop_bit 15 w1 AND 1 \<noteq> 0), fp_e = uint (w1 AND 0x7FFF) - 16384,
      fp_m = push_bit 16 (ucast w2) + ucast w3\<rparr>"

definition sign_bit :: "bool \<Rightarrow> int" where
  "sign_bit s = (if s then 0x8000 else 0)"

text \<open>The loops that shift a mantissa up to bit \<open>k\<close>; on a mantissa without a bit they do not end.\<close>

partial_function (option) shift_up :: "nat \<Rightarrow> 'a::len word \<Rightarrow> int \<Rightarrow> ('a word \<times> int) option" where
  "shift_up k m e = (if bit m k then Some (m, e) else shift_up k (push_bit 1 m) (e - 1))"

section \<open>The shared core\<close>

text \<open>The swap to the larger exponent, and the scale between the two.\<close>

definition larger_first :: "fp \<Rightarrow> fp \<Rightarrow> fp \<times> fp" where
  "larger_first f1 f2 = (if fp_e f2 > fp_e f1 then (f2, f1) else (f1, f2))"

definition shifted_out :: "nat \<Rightarrow> u64 \<Rightarrow> u64" where
  "shifted_out scale m = (if scale \<noteq> 0 \<and> (push_bit scale 1 - 1) AND m \<noteq> 0 then 1 else 0)"

definition add_core :: "fp \<Rightarrow> fp \<Rightarrow> bool \<times> int \<times> u64" where
  "add_core g1 g2 =
     (let (f1, f2) = larger_first g1 g2; scale = fp_e f1 - fp_e f2
      in if scale > 31 then (fp_s f1, fp_e f1, fp_m f1)
         else let gbit = shifted_out (nat scale) (fp_m f2); m2 = drop_bit (nat scale) (fp_m f2);
                  m3 = (fp_m f1 + m2) OR gbit
              in if m3 > 0xffffffff then (fp_s f1, fp_e f1 + 1, drop_bit 1 m3) else (fp_s f1, fp_e f1, m3))"

text \<open>\<open>None\<close>: the normalisation does not end. The last component is \<open>is_zero\<close>.\<close>

definition sub_core :: "fp \<Rightarrow> fp \<Rightarrow> (bool \<times> int \<times> u64 \<times> bool) option" where
  "sub_core g1 g2 =
     (let (f1, f2) = larger_first g1 g2; scale = fp_e f1 - fp_e f2
      in if scale > 31 then Some (fp_s f1, fp_e f1, fp_m f1, False)
         else let gbit = shifted_out (nat scale) (fp_m f2);
                  f2 = f2\<lparr>fp_m := drop_bit (nat scale) (fp_m f2), fp_e := fp_e f1\<rparr>;
                  (f1, f2) = (if fp_m f2 > fp_m f1 then (f2, f1) else (f1, f2));
                  m3 = (fp_m f1 - fp_m f2) OR gbit
              in if m3 = 0 then Some (False, 0, m3, True)
                 else case shift_up 31 m3 (fp_e f1) of None \<Rightarrow> None
                      | Some (m3, e) \<Rightarrow> Some (fp_s f1, e, m3, False))"

section \<open>48-bit numbers\<close>

definition pack48 :: "bool \<Rightarrow> int \<Rightarrow> u64 \<Rightarrow> u16 \<times> u16 \<times> u16" where
  "pack48 s e m3 = (word_of_int ((e + 16384) OR sign_bit s), ucast (drop_bit 16 m3), ucast m3)"

definition add48 :: "fp \<Rightarrow> fp \<Rightarrow> u16 \<times> u16 \<times> u16" where
  "add48 f1 f2 = (let (s, e, m3) = add_core f1 f2 in pack48 s e m3)"

definition sub48 :: "fp \<Rightarrow> fp \<Rightarrow> (u16 \<times> u16 \<times> u16) option" where
  "sub48 f1 f2 =
     (case sub_core f1 f2 of None \<Rightarrow> None
      | Some (s, e, m3, is_zero) \<Rightarrow> Some (if is_zero then (0, 0, 0) else pack48 s e m3))"

fun float_add :: "u16 \<times> u16 \<times> u16 \<Rightarrow> u16 \<times> u16 \<times> u16 \<Rightarrow> (u16 \<times> u16 \<times> u16) option" where
  "float_add (a0, a1, a2) (b0, b1, b2) =
     (let f1 = mkfp48 a0 a1 a2; f2 = mkfp48 b0 b1 b2
      in if fp_s f1 \<noteq> fp_s f2 then sub48 f1 f2 else Some (add48 f1 f2))"

fun float_sub :: "u16 \<times> u16 \<times> u16 \<Rightarrow> u16 \<times> u16 \<times> u16 \<Rightarrow> (u16 \<times> u16 \<times> u16) option" where
  "float_sub (a0, a1, a2) (b0, b1, b2) =
     (let f1 = mkfp48 a0 a1 a2; f2 = mkfp48 b0 b1 b2; f2 = f2\<lparr>fp_s := \<not> fp_s f2\<rparr>
      in if fp_s f1 \<noteq> fp_s f2 then sub48 f1 f2 else Some (add48 f1 f2))"

fun float_mul :: "u16 \<times> u16 \<times> u16 \<Rightarrow> u16 \<times> u16 \<times> u16 \<Rightarrow> u16 \<times> u16 \<times> u16" where
  "float_mul (a0, a1, a2) (b0, b1, b2) =
     (let f1 = mkfp48 a0 a1 a2; f2 = mkfp48 b0 b1 b2;
          m3 = fp_m f1 * fp_m f2; e3 = fp_e f1 + fp_e f2; s3 = (fp_s f1 \<noteq> fp_s f2);
          (m3, e3) = (if \<not> bit m3 63 then (push_bit 1 m3, e3 - 1) else (m3, e3))
      in if m3 = 0 \<or> e3 < - 16383 then (0, 0, 0)
         else (word_of_int ((e3 + 16384) OR sign_bit s3), ucast (drop_bit 48 m3), ucast (drop_bit 32 m3)))"

text \<open>The result and whether the divisor was zero.\<close>

fun float_div :: "u16 \<times> u16 \<times> u16 \<Rightarrow> u16 \<times> u16 \<times> u16 \<Rightarrow> (u16 \<times> u16 \<times> u16) \<times> bool" where
  "float_div (a0, a1, a2) (b0, b1, b2) =
     (let f1 = mkfp48 b0 b1 b2; f2 = mkfp48 a0 a1 a2; m2 = push_bit 32 (fp_m f2)
      in if fp_m f1 = 0 then ((a0 OR 0x7FFF, 0xFFFF, 0xFFFF), True)
         else let s3 = (fp_s f1 \<noteq> fp_s f2); e3 = fp_e f2 - fp_e f1; m3 = m2 div fp_m f1;
                  m3 = (if m2 mod fp_m f1 \<noteq> 0 then m3 + 1 else m3);
                  (m3, e3) = (if m3 \<ge> push_bit 32 1 then (drop_bit 1 m3, e3 + 1) else (m3, e3))
              in (if m2 = 0 \<or> e3 < - 16383 then (0, 0, 0) else pack48 s3 e3 m3, False))"

section \<open>32-bit numbers\<close>

abbreviation (input) FP32_BIAS :: int where "FP32_BIAS \<equiv> 257"

definition mantissa32 :: "u16 \<Rightarrow> u16 \<Rightarrow> u32" where
  "mantissa32 a d = push_bit 22 1 OR push_bit 16 (ucast (a AND 0x3F)) OR ucast d"

definition mkfp32 :: "u16 \<Rightarrow> u16 \<Rightarrow> fp" where
  "mkfp32 a d =
     (if a = 0 \<and> d = 0 then \<lparr>fp_s = False, fp_e = 0, fp_m = 0\<rparr>
      else \<lparr>fp_s = (drop_bit 15 a AND 1 \<noteq> 0), fp_e = uint (drop_bit 6 a AND 0x1FF) - FP32_BIAS,
            fp_m = push_bit 9 (ucast (mantissa32 a d))\<rparr>)"

text \<open>The two bounded renormalisation loops of \<open>pack32\<close>.\<close>

primrec renorm_down :: "nat \<Rightarrow> u64 \<Rightarrow> int \<Rightarrow> u64 \<times> int" where
  "renorm_down 0 m e = (m, e)"
| "renorm_down (Suc i) m e = (if m > 0xFFFFFFFF then renorm_down i (drop_bit 1 m) (e + 1) else (m, e))"

primrec renorm_up :: "nat \<Rightarrow> u64 \<Rightarrow> int \<Rightarrow> u64 \<times> int" where
  "renorm_up 0 m e = (m, e)"
| "renorm_up (Suc i) m e = (if m AND 0x80000000 = 0 then renorm_up i (push_bit 1 m) (e - 1) else (m, e))"

definition pack32 :: "bool \<Rightarrow> int \<Rightarrow> u64 \<Rightarrow> u16 \<times> u16" where
  "pack32 s e m =
     (if m = 0 then (0, 0)
      else let (m, e) = renorm_down 40 m e; (m, e) = renorm_up 40 m e; eb = e + FP32_BIAS
           in if eb \<le> 0 then (0, 0)
              else let eb = (if eb > 0x1FF then 0x1FF else eb); mant23 = ucast (drop_bit 9 m) :: u32
                   in (word_of_int (sign_bit s OR push_bit 6 (eb AND 0x1FF) OR uint (drop_bit 16 mant23 AND 0x3F)),
                       ucast (mant23 AND 0xFFFF)))"

fun float_add_32 :: "u16 \<times> u16 \<Rightarrow> u16 \<times> u16 \<Rightarrow> (u16 \<times> u16) option" where
  "float_add_32 (a0, a1) (b0, b1) =
     (let f1 = mkfp32 a0 a1; f2 = mkfp32 b0 b1
      in if fp_m f1 = 0 then Some (b0, b1)
         else if fp_m f2 = 0 then Some (a0, a1)
         else if fp_s f1 \<noteq> fp_s f2
         then (case sub_core f1 f2 of None \<Rightarrow> None
               | Some (s, e, m3, is_zero) \<Rightarrow> Some (if is_zero then (0, 0) else pack32 s e m3))
         else (let (s, e, m3) = add_core f1 f2 in Some (pack32 s e m3)))"

fun float_sub_32 :: "u16 \<times> u16 \<Rightarrow> u16 \<times> u16 \<Rightarrow> (u16 \<times> u16) option" where
  "float_sub_32 (a0, a1) (b0, b1) =
     (let f1 = mkfp32 a0 a1; f2 = mkfp32 b0 b1
      in if fp_m f2 = 0 then Some (a0, a1)
         else if fp_m f1 = 0 then Some (b0 XOR 0x8000, b1)
         else let f2 = f2\<lparr>fp_s := \<not> fp_s f2\<rparr>
              in if fp_s f1 \<noteq> fp_s f2
                 then (case sub_core f1 f2 of None \<Rightarrow> None
                       | Some (s, e, m3, is_zero) \<Rightarrow> Some (if is_zero then (0, 0) else pack32 s e m3))
                 else (let (s, e, m3) = add_core f1 f2 in Some (pack32 s e m3)))"

fun float_mul_32 :: "u16 \<times> u16 \<Rightarrow> u16 \<times> u16 \<Rightarrow> u16 \<times> u16" where
  "float_mul_32 (a0, a1) (b0, b1) =
     (let f1 = mkfp32 a0 a1; f2 = mkfp32 b0 b1
      in if fp_m f1 = 0 \<or> fp_m f2 = 0 then (0, 0)
         else let m3 = fp_m f1 * fp_m f2; e3 = fp_e f1 + fp_e f2 + 1; s3 = (fp_s f1 \<noteq> fp_s f2);
                  (m3, e3) = (if \<not> bit m3 63 then (push_bit 1 m3, e3 - 1) else (m3, e3))
              in pack32 s3 e3 (drop_bit 32 m3))"

fun float_div_32 :: "u16 \<times> u16 \<Rightarrow> u16 \<times> u16 \<Rightarrow> (u16 \<times> u16) \<times> bool" where
  "float_div_32 (a0, a1) (b0, b1) =
     (let f1 = mkfp32 b0 b1; f2 = mkfp32 a0 a1
      in if fp_m f1 = 0 then (((a0 AND 0x8000) OR 0x7FFF, 0xFFFF), True)
         else if fp_m f2 = 0 then ((0, 0), False)
         else let m2 = push_bit 32 (fp_m f2); s3 = (fp_s f1 \<noteq> fp_s f2); e3 = fp_e f2 - fp_e f1 - 1;
                  m3 = m2 div fp_m f1; m3 = (if m2 mod fp_m f1 \<noteq> 0 then m3 + 1 else m3);
                  (m3, e3) = (if m3 \<ge> push_bit 32 1 then (drop_bit 1 m3, e3 + 1) else (m3, e3))
              in (pack32 s3 e3 m3, False))"

section \<open>Conversions\<close>

text \<open>The scaling factor is the low byte of the instruction as a signed character.\<close>

definition scaling_of :: "u16 \<Rightarrow> int" where
  "scaling_of operand = sint (ucast (operand AND 0xFF) :: u8)"

text \<open>The normalised magnitude, the shift count and the sign shared by both formats.\<close>

definition nlz_core :: "u16 \<Rightarrow> int \<Rightarrow> ((u32 \<times> int) option \<times> bool)" where
  "nlz_core a scaling =
     (let val = sint a; sh = 16384 + scaling; s = (val < 0); val = (if s then - val else val);
          (val, sh) = (if val > 32767 then (drop_bit 1 val, sh + 1) else (val, sh))
      in (shift_up 15 (word_of_int val) sh, s))"

text \<open>\<open>ub\<close> stands for a normalisation that would not end.\<close>

definition float_do_nlz :: "(unit, 'd) exec \<Rightarrow> int \<Rightarrow> (unit, 'd) exec" where
  "float_do_nlz ub scaling m =
     (let r = set_cur R_D 0 (g_reg m); a = cur R_A r
      in if a = 0 then Done () (m\<lparr>g_reg := set_cur R_T 0 r\<rparr>)
         else case nlz_core a scaling of
                (Some (val, sh), s) \<Rightarrow>
                  Done () (m\<lparr>g_reg := set_cur R_A (ucast val) (set_cur R_T (word_of_int (sh + sign_bit s)) r)\<rparr>)
              | (None, s) \<Rightarrow> ub (m\<lparr>g_reg := r\<rparr>))"

text \<open>
  DNZ shifts a signed 32-bit integer; a left shift of 32 or more places or past the sign bit is
  undefined in C: \<open>ub\<close>.
\<close>

definition float_do_dnz :: "(unit, 'd) exec \<Rightarrow> int \<Rightarrow> (unit, 'd) exec" where
  "float_do_dnz ub scaling m =
     (let r = g_reg m; t = cur R_T r; a = uint (cur R_A r); sh = uint (t AND 0x7FFF) - 16384 + scaling;
          finish = (\<lambda>val r. Done () (m\<lparr>g_reg :=
             set_cur R_A (word_of_int (if t AND 0x8000 \<noteq> 0 then - val else val)) (set_cur R_D 0 (set_cur R_T 0 r))\<rparr>))
      in if sh < 0 then finish (if - sh \<ge> 32 then 0 else drop_bit (nat (- sh)) a) r
         else if sh > 0
         then (if sh \<ge> 32 \<or> push_bit (nat sh) a \<ge> 2 ^ 31 then ub m
               else let val = push_bit (nat sh) a
                    in finish val (if val > 32767 then cpu_setbit R_STS STS_ERROR_INDICATOR True r else r))
         else finish 0 r)"

definition float_do_nlz32 :: "(unit, 'd) exec \<Rightarrow> int \<Rightarrow> (unit, 'd) exec" where
  "float_do_nlz32 ub scaling m =
     (let r = set_cur R_D 0 (g_reg m); a = cur R_A r
      in if a = 0 then Done () (m\<lparr>g_reg := r\<rparr>)
         else case nlz_core a scaling of
                (Some (val, sh), s) \<Rightarrow>
                  (let (a', d') = pack32 s (sh - 16384 - 1) (push_bit 16 (ucast val))
                   in Done () (m\<lparr>g_reg := set_cur R_D d' (set_cur R_A a' r)\<rparr>))
              | (None, s) \<Rightarrow> ub (m\<lparr>g_reg := r\<rparr>))"

definition float_do_dnz32 :: "int \<Rightarrow> (unit, 'd) exec" where
  "float_do_dnz32 scaling m =
     (let r = g_reg m; a = cur R_A r; d = cur R_D r
      in if a = 0 \<and> d = 0 then Done () (m\<lparr>g_reg := set_cur R_D 0 r\<rparr>)
         else let s = drop_bit 15 a AND 1; e = uint (drop_bit 6 a AND 0x1FF) - FP32_BIAS;
                  mant23 = uint (mantissa32 a d); shift = 6 - e - scaling;
                  val = (if shift \<ge> 0 then (if shift \<ge> 32 then 0 else drop_bit (nat shift) mant23)
                         else if - shift \<ge> 41 then 0x7FFFFFFF else push_bit (nat (- shift)) mant23);
                  r = (if val > 32767 then cpu_setbit R_STS STS_ERROR_INDICATOR True r else r);
                  val = (if s \<noteq> 0 then - val else val)
              in Done () (m\<lparr>g_reg := set_cur R_D 0 (set_cur R_A (word_of_int val) r)\<rparr>))"

section \<open>The instructions\<close>

definition read3 :: "u16 \<Rightarrow> bool \<Rightarrow> (u16 \<times> u16 \<times> u16, 'd) exec" where
  "read3 ea apt =
     bind_out (cpu_memory_read (ea + 0) apt) (\<lambda>b0. bind_out (cpu_memory_read (ea + 1) apt) (\<lambda>b1.
     bind_out (cpu_memory_read (ea + 2) apt) (\<lambda>b2. ret (b0, b1, b2))))"

definition read2 :: "u16 \<Rightarrow> bool \<Rightarrow> (u16 \<times> u16, 'd) exec" where
  "read2 ea apt =
     bind_out (cpu_memory_read (ea + 0) apt) (\<lambda>b0. bind_out (cpu_memory_read (ea + 1) apt) (\<lambda>b1. ret (b0, b1)))"

definition float_acc :: "CpuRegs \<Rightarrow> u16 \<times> u16 \<times> u16" where
  "float_acc r = (cur R_T r, cur R_A r, cur R_D r)"

definition set_float_acc :: "u16 \<times> u16 \<times> u16 \<Rightarrow> CpuRegs \<Rightarrow> CpuRegs" where
  "set_float_acc w r = set_cur R_D (snd (snd w)) (set_cur R_A (fst (snd w)) (set_cur R_T (fst w) r))"

definition set_float_acc_32 :: "u16 \<times> u16 \<Rightarrow> CpuRegs \<Rightarrow> CpuRegs" where
  "set_float_acc_32 w r = set_cur R_D (snd w) (set_cur R_A (fst w) r)"

text \<open>
  The accumulator is copied before the memory words are read; the operation may set the error
  indicator (FDV) and may not return (\<open>None\<close>, see above).
\<close>

definition float_instr ::
  "(unit, 'd) exec \<Rightarrow> (u16 \<times> u16 \<times> u16 \<Rightarrow> u16 \<times> u16 \<times> u16 \<Rightarrow> ((u16 \<times> u16 \<times> u16) \<times> bool) option)
     \<Rightarrow> (u16 \<times> u16 \<Rightarrow> u16 \<times> u16 \<Rightarrow> ((u16 \<times> u16) \<times> bool) option) \<Rightarrow> u16 \<Rightarrow> (unit, 'd) exec" where
  "float_instr ub op48 op32 operand = with_ea operand (\<lambda>ea apt m.
     if g_current_fpp_type m = FPP48
     then (let a = float_acc (g_reg m)
           in bind_out (read3 ea apt) (\<lambda>b. case op48 a b of None \<Rightarrow> ub
                | Some (w, z) \<Rightarrow> seq (if z then on_regs (cpu_setbit R_STS STS_ERROR_INDICATOR True) else ret ())
                                   (on_regs (set_float_acc w))) m)
     else (let a = (cur R_A (g_reg m), cur R_D (g_reg m))
           in bind_out (read2 ea apt) (\<lambda>b. case op32 a b of None \<Rightarrow> ub
                | Some (w, z) \<Rightarrow> seq (if z then on_regs (cpu_setbit R_STS STS_ERROR_INDICATOR True) else ret ())
                                   (on_regs (set_float_acc_32 w))) m))"

definition opcode_fad :: "(unit, 'd) exec \<Rightarrow> u16 \<Rightarrow> (unit, 'd) exec" where
  "opcode_fad ub = float_instr ub (\<lambda>a b. map_option (\<lambda>w. (w, False)) (float_add a b))
                                  (\<lambda>a b. map_option (\<lambda>w. (w, False)) (float_add_32 a b))"

definition opcode_fsb :: "(unit, 'd) exec \<Rightarrow> u16 \<Rightarrow> (unit, 'd) exec" where
  "opcode_fsb ub = float_instr ub (\<lambda>a b. map_option (\<lambda>w. (w, False)) (float_sub a b))
                                  (\<lambda>a b. map_option (\<lambda>w. (w, False)) (float_sub_32 a b))"

definition opcode_fmu :: "(unit, 'd) exec \<Rightarrow> u16 \<Rightarrow> (unit, 'd) exec" where
  "opcode_fmu ub = float_instr ub (\<lambda>a b. Some (float_mul a b, False)) (\<lambda>a b. Some (float_mul_32 a b, False))"

definition opcode_fdv :: "(unit, 'd) exec \<Rightarrow> u16 \<Rightarrow> (unit, 'd) exec" where
  "opcode_fdv ub = float_instr ub (\<lambda>a b. Some (float_div a b)) (\<lambda>a b. Some (float_div_32 a b))"

definition opcode_nlz :: "(unit, 'd) exec \<Rightarrow> u16 \<Rightarrow> (unit, 'd) exec" where
  "opcode_nlz ub operand m =
     (if g_current_fpp_type m = FPP48 then float_do_nlz ub (scaling_of operand) m
      else float_do_nlz32 ub (scaling_of operand) m)"

definition opcode_dnz :: "(unit, 'd) exec \<Rightarrow> u16 \<Rightarrow> (unit, 'd) exec" where
  "opcode_dnz ub operand m =
     (if g_current_fpp_type m = FPP48 then float_do_dnz ub (scaling_of operand) m
      else float_do_dnz32 (scaling_of operand) m)"

end
