(* ===== verification/FloatLaws.thy ===== *)
theory FloatLaws
  imports FloatUnit
begin

text \<open>
  The arithmetic of \<open>src/cpu/float.c\<close> against the real numbers: the value of a 48-bit number,
  the error of addition, subtraction, multiplication and division, and the normalising loop.
\<close>

lemma word_even_iff: "even w \<longleftrightarrow> even (uint (w :: 'a::len word))"
  using bit_uint_iff [of w 0] by (simp add: bit_0)

lemma uint_shr: "uint (drop_bit n m :: 'a::len word) = uint m div 2 ^ n"
proof -
  have "uint (drop_bit n m) = drop_bit n (uint m)"
    by (rule bit_eqI) (auto simp: bit_uint_iff bit_simps dest: bit_imp_le_length)
  then show ?thesis by (simp only: drop_bit_eq_div)
qed

lemma quotient_below: "0 \<le> (x :: int) \<Longrightarrow> x < b \<Longrightarrow> 0 \<le> x div 2 ^ n \<and> x div 2 ^ n < b"
proof -
  assume x: "0 \<le> x" "x < b"
  have "x div 2 ^ n \<le> x" using zdiv_mono2 [of x 1 "2 ^ n"] x by simp
  then show "0 \<le> x div 2 ^ n \<and> x div 2 ^ n < b" using x by (simp add: pos_imp_zdiv_nonneg_iff)
qed

text \<open>Word values are kept as \<open>uint\<close> under the embedding into the reals.\<close>

declare of_int_uint [simp del]

section \<open>The number a triple stands for\<close>

definition fp_val :: "fp \<Rightarrow> real" where
  "fp_val f = (if fp_s f then - 1 else 1) * real_of_int (uint (fp_m f)) * 2 powi (fp_e f - 32)"

fun val48 :: "u16 \<times> u16 \<times> u16 \<Rightarrow> real" where
  "val48 (w1, w2, w3) = fp_val (mkfp48 w1 w2 w3)"

fun exp48 :: "u16 \<times> u16 \<times> u16 \<Rightarrow> int" where
  "exp48 (w1, w2, w3) = fp_e (mkfp48 w1 w2 w3)"

definition narrow :: "fp \<Rightarrow> bool" where
  "narrow f \<longleftrightarrow> uint (fp_m f) < 2 ^ 32"

lemma mkfp48_mantissa: "uint (fp_m (mkfp48 w1 w2 w3)) = uint w2 * 65536 + uint w3"
proof -
  have w: "uint w2 < 65536" "uint w3 < 65536" using uint_lt2p [of w2] uint_lt2p [of w3] by simp_all
  have "uint (push_bit 16 (ucast w2 :: u64)) = uint w2 * 65536"
    using w by (simp only: unsigned_push_bit_eq) (simp add: push_bit_eq_mult unsigned_ucast_eq take_bit_eq_mod)
  then show ?thesis using w
    by (simp add: mkfp48_def uint_word_ariths unsigned_ucast_eq take_bit_eq_mod)
qed

lemma mkfp48_narrow [simp]: "narrow (mkfp48 w1 w2 w3)"
  using uint_lt2p [of w2] uint_lt2p [of w3] by (simp add: narrow_def mkfp48_mantissa)

lemma uint_and_7FFF: "uint (w AND 0x7FFF :: u16) = uint w mod 32768"
proof -
  have w: "w AND 0x7FFF = take_bit 15 w" by (simp add: take_bit_eq_mask mask_eq_exp_minus_1)
  show ?thesis unfolding w unsigned_take_bit_eq by (simp add: take_bit_eq_mod)
qed

lemma mkfp48_exponent: "- 16384 \<le> fp_e (mkfp48 w1 w2 w3)" "fp_e (mkfp48 w1 w2 w3) < 16384"
  using pos_mod_bound [of 32768 "uint w1"] pos_mod_sign [of 32768 "uint w1"]
  by (simp_all add: mkfp48_def uint_and_7FFF)

lemma or_sign_bit: "0 \<le> k \<Longrightarrow> k < 32768 \<Longrightarrow> k OR sign_bit s = k + sign_bit s"
proof -
  assume k: "0 \<le> k" "k < 32768"
  have "k AND 32768 = 0"
    using k and_exp_eq_0_iff_not_bit [of k 15] by (simp add: bit_iff_odd)
  then show ?thesis by (simp add: sign_bit_def disjunctive_add_eq_or)
qed

lemma mkfp48_pack48:
  assumes "- 16384 \<le> e" "e < 16384" "uint m < 2 ^ 32" "pack48 s e m = (w1, w2, w3)"
  shows "mkfp48 w1 w2 w3 = \<lparr>fp_s = s, fp_e = e, fp_m = m\<rparr>"
proof -
  have k: "0 \<le> e + 16384" "e + 16384 < 32768" using assms by simp_all
  have w: "w1 = word_of_int (e + 16384 + sign_bit s)" "w2 = ucast (drop_bit 16 m)" "w3 = ucast m"
    using assms or_sign_bit [OF k] by (simp_all add: pack48_def)
  have u1: "uint w1 = e + 16384 + sign_bit s"
    unfolding w(1) uint_word_of_int using k by (simp add: sign_bit_def)
  have m: "0 \<le> uint m" "uint m < 4294967296" using assms by simp_all
  have "uint w3 = uint m mod 65536"
    unfolding w(3) unsigned_ucast_eq by (simp only: take_bit_eq_mod) simp
  moreover have "uint w2 = uint m div 65536 mod 65536"
    unfolding w(2) unsigned_ucast_eq uint_shr by (simp only: take_bit_eq_mod) simp
  ultimately have "uint (fp_m (mkfp48 w1 w2 w3)) = (uint m div 65536) mod 65536 * 65536 + uint m mod 65536"
    by (simp only: mkfp48_mantissa)
  also have "\<dots> = uint m"
  proof -
    have "uint m div 65536 mod 65536 = uint m div 65536" using quotient_below [OF m, of 16] m
      by (intro mod_pos_pos_trivial) simp_all
    then show ?thesis by (simp only: div_mult_mod_eq)
  qed
  finally have 1: "fp_m (mkfp48 w1 w2 w3) = m" by (rule word_uint_eqI)
  have 2: "fp_e (mkfp48 w1 w2 w3) = e"
  proof -
    have "uint w1 mod 32768 = e + 16384"
    proof (cases s)
      case True
      have "(e + 16384 + 32768) mod 32768 = (e + 16384) mod 32768" by (rule mod_add_self2)
      then show ?thesis using k True by (simp add: u1 sign_bit_def)
    qed (use k in \<open>simp add: u1 sign_bit_def\<close>)
    then show ?thesis by (simp add: mkfp48_def uint_and_7FFF)
  qed
  have "drop_bit 15 w1 AND 1 \<noteq> 0 \<longleftrightarrow> odd (uint w1 div 32768)"
    using uint_shr [of 15 w1] by (simp add: and_one_eq mod_2_eq_odd word_even_iff)
  then have 3: "fp_s (mkfp48 w1 w2 w3) = s"
  proof -
    have "(e + 16384) div 32768 = 0" using k by simp
    moreover have "(e + 16384 + 32768) div 32768 = (e + 16384) div 32768 + 1" by (rule div_add_self2) simp
    ultimately have "odd ((e + 16384 + 32768) div 32768)" "even ((e + 16384) div 32768)" by simp_all
    then show ?thesis
      using \<open>(drop_bit 15 w1 AND 1 \<noteq> 0) = odd (uint w1 div 32768)\<close>
      by (auto simp only: mkfp48_def u1 sign_bit_def if_True if_False fp.simps add_0_right split: if_splits)
  qed
  show ?thesis using 1 2 3 by (cases "mkfp48 w1 w2 w3") simp
qed

section \<open>Addition and subtraction of magnitudes\<close>

lemma fp_val_eq: "fp_val \<lparr>fp_s = s, fp_e = e, fp_m = m\<rparr> =
  (if s then - 1 else 1) * real_of_int (uint m) * 2 powi (e - 32)"
  by (simp add: fp_val_def)

text \<open>The unit of the larger operand, and the other operand measured in it.\<close>

lemma fp_val_scaled:
  "fp_e f = e - int n \<Longrightarrow> fp_val f = (if fp_s f then - 1 else 1) * (real_of_int (uint (fp_m f)) / 2 ^ n) * 2 powi (e - 32)"
  by (simp add: fp_val_def power_int_diff)

lemma div_real_bounds:
  "real_of_int (x div 2 ^ n) \<le> real_of_int x / 2 ^ n"
  "real_of_int x / 2 ^ n < real_of_int (x div 2 ^ n) + 1"
  "x mod 2 ^ n = 0 \<Longrightarrow> real_of_int x / 2 ^ n = real_of_int (x div 2 ^ n)"
  "x mod 2 ^ n \<noteq> 0 \<Longrightarrow> real_of_int (x div 2 ^ n) < real_of_int x / 2 ^ n"
proof -
  have "x = x div 2 ^ n * 2 ^ n + x mod 2 ^ n" by (simp only: div_mult_mod_eq)
  then have x: "real_of_int x = real_of_int (x div 2 ^ n) * 2 ^ n + real_of_int (x mod 2 ^ n)"
    by (metis of_int_add of_int_mult of_int_power of_int_numeral)
  then have q: "real_of_int x / 2 ^ n = real_of_int (x div 2 ^ n) + real_of_int (x mod 2 ^ n) / 2 ^ n"
    by (simp add: field_simps)
  have r: "0 \<le> x mod 2 ^ n" "x mod 2 ^ n < 2 ^ n" by simp_all
  have "0 \<le> real_of_int (x mod 2 ^ n)" "real_of_int (x mod 2 ^ n) < real_of_int (2 ^ n)"
    using r by (simp_all only: of_int_less_iff of_int_0_le_iff)
  then have "0 \<le> real_of_int (x mod 2 ^ n) / 2 ^ n" "real_of_int (x mod 2 ^ n) / 2 ^ n < 1"
    by (simp_all add: divide_less_eq)
  then show "real_of_int (x div 2 ^ n) \<le> real_of_int x / 2 ^ n"
    "real_of_int x / 2 ^ n < real_of_int (x div 2 ^ n) + 1" unfolding q by simp_all
  show "x mod 2 ^ n = 0 \<Longrightarrow> real_of_int x / 2 ^ n = real_of_int (x div 2 ^ n)" unfolding q by simp
  show "real_of_int (x div 2 ^ n) < real_of_int x / 2 ^ n" if "x mod 2 ^ n \<noteq> 0"
  proof -
    have "0 < x mod 2 ^ n" using that r(1) by (metis order_less_le)
    then have "0 < real_of_int (x mod 2 ^ n)" by (simp only: of_int_0_less_iff)
    then have "0 < real_of_int (x mod 2 ^ n) / 2 ^ n" by (rule divide_pos_pos) simp
    then show ?thesis unfolding q by simp
  qed
qed

lemma below_power: "0 \<le> x \<Longrightarrow> x < 2 ^ 32 \<Longrightarrow> n > 31 \<Longrightarrow> real_of_int x < 2 ^ n"
proof -
  assume x: "x < 2 ^ 32" and n: "n > 31"
  have "real_of_int x < real_of_int (2 ^ 32)" using x by (simp only: of_int_less_iff)
  also have "\<dots> = (2::real) ^ 32" by simp
  also have "\<dots> \<le> 2 ^ n" using n by (intro power_increasing) simp_all
  finally show ?thesis .
qed

lemma shifted_out_eq:
  assumes "n < 64" shows "shifted_out n m = of_bool (uint m mod 2 ^ n \<noteq> 0)"
proof -
  have "(push_bit n 1 - 1) AND m = take_bit n m"
    by (simp add: take_bit_eq_mask mask_eq_exp_minus_1 push_bit_of_1 and.commute)
  moreover have "take_bit n m = 0 \<longleftrightarrow> uint m mod 2 ^ n = 0"
    unfolding word_uint_eq_iff unsigned_take_bit_eq by (simp add: take_bit_eq_mod)
  ultimately show ?thesis by (auto simp: shifted_out_def)
qed

lemma uint_or_1: "uint (w OR 1 :: u64) = (if even (uint w) then uint w + 1 else uint w)"
proof -
  have "uint (w OR 1) = uint w OR 1" by (simp only: uint_or uint_1)
  then show ?thesis by (simp only: or_one_eq) simp
qed

lemma uint_or_bool: "uint (w OR of_bool g :: u64) = (if g \<and> even (uint w) then uint w + 1 else uint w)"
  by (cases g) (simp_all only: uint_or_1 of_bool_eq or.right_neutral simp_thms if_False)


lemma uint_add_narrow:
  "uint (a :: u64) < 2 ^ 33 \<Longrightarrow> uint (b :: u64) < 2 ^ 33 \<Longrightarrow> uint (a + b) = uint a + uint b"
  unfolding uint_word_ariths by (rule mod_pos_pos_trivial) simp_all

text \<open>The larger operand first, the smaller one at a known distance.\<close>

lemma larger_first_cases:
  obtains f1 f2 n where "larger_first g1 g2 = (f1, f2)" "fp_e f2 = fp_e f1 - int n"
    "fp_e f1 = max (fp_e g1) (fp_e g2)" "(f1, f2) = (g1, g2) \<or> (f1, f2) = (g2, g1)"
proof -
  define f1 f2 where "f1 = fst (larger_first g1 g2)" and "f2 = snd (larger_first g1 g2)"
  have "fp_e f2 = fp_e f1 - int (nat (fp_e f1 - fp_e f2))" "fp_e f1 = max (fp_e g1) (fp_e g2)"
    "(f1, f2) = (g1, g2) \<or> (f1, f2) = (g2, g1)" "larger_first g1 g2 = (f1, f2)"
    by (auto simp: f1_def f2_def larger_first_def)
  then show ?thesis by (rule_tac that)
qed

lemma add_core_error:
  assumes "narrow g1" "narrow g2" "fp_s g2 = fp_s g1" "add_core g1 g2 = (s, e, m)"
  shows "s = fp_s g1" "uint m < 2 ^ 32"
    "e = max (fp_e g1) (fp_e g2) \<or> e = max (fp_e g1) (fp_e g2) + 1"
    "\<bar>fp_val \<lparr>fp_s = s, fp_e = e, fp_m = m\<rparr> - (fp_val g1 + fp_val g2)\<bar> < 2 * 2 powi (max (fp_e g1) (fp_e g2) - 32)"
proof -
  obtain f1 f2 n where lf: "larger_first g1 g2 = (f1, f2)" and n: "fp_e f2 = fp_e f1 - int n"
    and mx: "fp_e f1 = max (fp_e g1) (fp_e g2)" and fs: "(f1, f2) = (g1, g2) \<or> (f1, f2) = (g2, g1)"
    by (rule larger_first_cases)
  define u where "u = (2::real) powi (fp_e f1 - 32)"
  define sg where "sg = (if fp_s g1 then - 1 else 1 :: real)"
  define x where "x = real_of_int (uint (fp_m f2)) / 2 ^ n"
  define q where "q = uint (fp_m f2) div 2 ^ n"
  have u: "0 < u" by (simp add: u_def)
  have s12: "fp_s f1 = fp_s g1" "fp_s f2 = fp_s g1" using fs assms(3) by auto
  have m1: "0 \<le> uint (fp_m f1)" "uint (fp_m f1) < 2 ^ 32" using fs assms by (auto simp: narrow_def)
  have m2: "0 \<le> uint (fp_m f2)" "uint (fp_m f2) < 2 ^ 32" using fs assms by (auto simp: narrow_def)
  have sum: "fp_val g1 + fp_val g2 = sg * (real_of_int (uint (fp_m f1)) + x) * u"
  proof -
    have "fp_val g1 + fp_val g2 = fp_val f1 + fp_val f2" using fs by auto
    then show ?thesis
      by (simp add: fp_val_scaled [OF n] u_def x_def sg_def s12 distrib_left distrib_right)
         (simp add: fp_val_def s12)
  qed
  have err: "\<bar>sg * y * u - (fp_val g1 + fp_val g2)\<bar> < 2 * u"
    if "\<bar>y - (real_of_int (uint (fp_m f1)) + x)\<bar> < 2" for y
  proof -
    have "sg * y * u - (fp_val g1 + fp_val g2) = sg * (y - (real_of_int (uint (fp_m f1)) + x)) * u"
      unfolding sum by (simp add: algebra_simps)
    then have "\<bar>sg * y * u - (fp_val g1 + fp_val g2)\<bar> = \<bar>y - (real_of_int (uint (fp_m f1)) + x)\<bar> * u"
      using u by (simp add: abs_mult sg_def)
    then show ?thesis using that u by simp
  qed
  have "s = fp_s g1 \<and> uint m < 2 ^ 32 \<and> (e = fp_e f1 \<or> e = fp_e f1 + 1) \<and>
    (\<exists>y. fp_val \<lparr>fp_s = s, fp_e = e, fp_m = m\<rparr> = sg * y * u \<and> \<bar>y - (real_of_int (uint (fp_m f1)) + x)\<bar> < 2)"
  proof (cases "n > 31")
    case True
    then have r: "s = fp_s g1" "e = fp_e f1" "m = fp_m f1"
      using assms(4) n s12 by (simp_all add: add_core_def lf)
    have "real_of_int (uint (fp_m f2)) < 2 ^ n"
      using m2 True by (rule below_power)
    then have "x < 1" by (simp add: x_def divide_less_eq)
    moreover have "0 \<le> x" unfolding x_def by (rule divide_nonneg_pos) (simp_all only: of_int_0_le_iff m2(1), simp)
    ultimately have "0 \<le> x" "x < 1" by simp_all
    then show ?thesis
      using m1 by (auto simp: r fp_val_def u_def sg_def intro!: exI [of _ "real_of_int (uint (fp_m f1))"])
  next
    case False
    define m3 where "m3 = (fp_m f1 + drop_bit n (fp_m f2)) OR of_bool (uint (fp_m f2) mod 2 ^ n \<noteq> 0)"
    have q: "0 \<le> q" "q < 2 ^ 32"
      using m2 div_real_bounds(1) [of "uint (fp_m f2)" n] quotient_below [OF m2, of n] by (simp_all add: q_def)
    have "uint (fp_m f1 + drop_bit n (fp_m f2)) = uint (fp_m f1) + q"
      using m1 q by (subst uint_add_narrow) (simp_all add: uint_shr q_def)
    then have m3: "uint m3 = uint (fp_m f1) + q + of_bool (uint (fp_m f2) mod 2 ^ n \<noteq> 0 \<and> even (uint (fp_m f1) + q))"
      by (simp only: m3_def uint_or_bool) simp
    have near: "\<bar>real_of_int (uint m3) - (real_of_int (uint (fp_m f1)) + x)\<bar> < 1"
      unfolding m3 using div_real_bounds [of "uint (fp_m f2)" n] by (auto simp: x_def q_def)
    have core: "(s, e, m) = (if m3 > 0xffffffff then (fp_s f1, fp_e f1 + 1, drop_bit 1 m3) else (fp_s f1, fp_e f1, m3))"
    proof -
      have "m3 = (fp_m f1 + drop_bit n (fp_m f2)) OR shifted_out n (fp_m f2)"
        unfolding m3_def using False by (subst shifted_out_eq) simp_all
      then show ?thesis
        unfolding assms(4) [symmetric] using False n by (simp add: add_core_def lf Let_def)
    qed
    show ?thesis
    proof (cases "m3 > 0xffffffff")
      case True
      then have r: "s = fp_s g1" "e = fp_e f1 + 1" "uint m = uint m3 div 2"
        using core s12 by (simp_all add: uint_shr)
      have "fp_val \<lparr>fp_s = s, fp_e = e, fp_m = m\<rparr> = sg * real_of_int (2 * uint m) * u"
        by (simp add: fp_val_def r u_def sg_def power_int_add_1 algebra_simps power_int_diff)
      moreover have "\<bar>real_of_int (2 * uint m) - (real_of_int (uint (fp_m f1)) + x)\<bar> < 2"
      proof -
        have "2 * uint m = uint m3 \<or> 2 * uint m = uint m3 - 1" unfolding r(3) by presburger
        then show ?thesis using near by auto
      qed
      moreover have "uint m < 2 ^ 32"
      proof -
        have "uint m3 < 8589934592" unfolding m3 using m1 q by simp
        then have "uint m3 div 2 < 4294967296" by presburger
        then show ?thesis by (simp add: r(3))
      qed
      ultimately show ?thesis using r by blast
    next
      case False
      then have r: "s = fp_s g1" "e = fp_e f1" "m = m3" using core s12 by simp_all
      have "uint m < 2 ^ 32" using False by (simp add: r word_less_def)
      then show ?thesis using near
        by (auto simp: r fp_val_def u_def sg_def intro!: exI [of _ "real_of_int (uint m3)"])
    qed
  qed
  then show "s = fp_s g1" "uint m < 2 ^ 32"
    "e = max (fp_e g1) (fp_e g2) \<or> e = max (fp_e g1) (fp_e g2) + 1"
    "\<bar>fp_val \<lparr>fp_s = s, fp_e = e, fp_m = m\<rparr> - (fp_val g1 + fp_val g2)\<bar> < 2 * 2 powi (max (fp_e g1) (fp_e g2) - 32)"
    unfolding mx [symmetric] u_def [symmetric] by (auto intro: err)
qed


section \<open>The normalising loop returns\<close>

lemma bit_top: "2 ^ k \<le> uint m \<Longrightarrow> uint m < 2 ^ Suc k \<Longrightarrow> bit (m :: 'a::len word) k"
proof -
  assume "2 ^ k \<le> uint m" "uint m < 2 ^ Suc k"
  then have "uint m div 2 ^ k = 1" by (intro div_pos_neg_trivial int_div_pos_eq [where r = "uint m - 2 ^ k"]) simp_all
  then have "bit (uint m) k" by (simp add: bit_iff_odd)
  then show ?thesis by (simp add: bit_uint_iff)
qed

lemma no_bit_above: "uint m < 2 ^ k \<Longrightarrow> \<not> bit (m :: 'a::len word) k"
proof -
  assume "uint m < 2 ^ k"
  then have "uint m div 2 ^ k = 0" by simp
  then have "\<not> bit (uint m) k" by (simp add: bit_iff_odd)
  then show ?thesis by (auto simp: bit_uint_iff dest: bit_imp_le_length)
qed

lemma uint_shl: "uint m * 2 ^ j < 2 ^ LENGTH('a) \<Longrightarrow> uint (push_bit j (m :: 'a::len word)) = uint m * 2 ^ j"
proof -
  assume "uint m * 2 ^ j < 2 ^ LENGTH('a)"
  then have "take_bit LENGTH('a) (uint m * 2 ^ j) = uint m * 2 ^ j" by (simp add: take_bit_int_eq_self)
  moreover have "uint (push_bit j m) = take_bit LENGTH('a) (push_bit j (uint m))"
    by (rule bit_eqI) (auto simp: bit_uint_iff bit_simps)
  ultimately show ?thesis by (simp only: push_bit_eq_mult)
qed

lemma shift_up_run:
  "2 ^ k \<le> uint m * 2 ^ j \<Longrightarrow> uint m * 2 ^ j < 2 ^ Suc k \<Longrightarrow> k < LENGTH('a) \<Longrightarrow>
   shift_up k (m :: 'a::len word) e = Some (push_bit j m, e - int j)"
proof (induction j arbitrary: m e)
  case 0
  then show ?case by (simp add: shift_up.simps bit_top)
next
  case (Suc j)
  have two: "(2::int) ^ Suc k \<le> 2 ^ LENGTH('a)" using Suc.prems(3) by (intro power_increasing) simp_all
  have "uint m * 2 * 2 ^ j < 2 * 2 ^ k" using Suc.prems(2) by (simp add: ac_simps)
  moreover have "uint m * 1 \<le> uint m * 2 ^ j" by (rule mult_left_mono) simp_all
  ultimately have small: "uint m < 2 ^ k" "uint m * 2 < 2 ^ Suc k" by simp_all
  have "uint m * 2 ^ 1 < 2 ^ LENGTH('a)" using small(2) two by simp
  from uint_shl [OF this] have sh: "uint (push_bit 1 m) = uint m * 2" by simp
  have "shift_up k (push_bit 1 m) (e - 1) = Some (push_bit j (push_bit 1 m), e - 1 - int j)"
  proof (rule Suc.IH)
    show "2 ^ k \<le> uint (push_bit 1 m) * 2 ^ j" unfolding sh using Suc.prems(1) by (simp add: ac_simps)
    show "uint (push_bit 1 m) * 2 ^ j < 2 ^ Suc k" unfolding sh using Suc.prems(2) by (simp add: ac_simps)
  qed (rule Suc.prems(3))
  then show ?case
    by (subst shift_up.simps) (simp add: no_bit_above [OF small(1)] push_bit_push_bit)
qed

lemma normal_shift_exists: "0 < x \<Longrightarrow> x < 2 ^ Suc k \<Longrightarrow> \<exists>j\<le>k. 2 ^ k \<le> x * 2 ^ j \<and> x * 2 ^ j < (2::int) ^ Suc k"
proof (induction k)
  case 0
  then show ?case by (intro exI [of _ 0]) simp
next
  case (Suc k)
  show ?case
  proof (cases "2 ^ Suc k \<le> x")
    case True
    then show ?thesis using Suc.prems by (intro exI [of _ 0]) simp
  next
    case False
    then obtain j where "j \<le> k" "2 ^ k \<le> x * 2 ^ j" "x * 2 ^ j < 2 ^ Suc k" using Suc by auto
    then show ?thesis by (intro exI [of _ "Suc j"]) simp
  qed
qed

text \<open>The loop of \<open>sub_core\<close>, \<open>float_do_nlz\<close> and \<open>float_do_nlz32\<close> returns, with the value unchanged.\<close>

lemma shift_up_finds:
  assumes "0 < uint m" "uint m < 2 ^ Suc k" "k < LENGTH('a)"
  obtains j m' where "j \<le> k" "shift_up k (m :: 'a::len word) e = Some (m', e - int j)"
    "uint m' = uint m * 2 ^ j" "2 ^ k \<le> uint m'" "uint m' < 2 ^ Suc k"
proof -
  obtain j where j: "j \<le> k" "2 ^ k \<le> uint m * 2 ^ j" "uint m * 2 ^ j < 2 ^ Suc k"
    using normal_shift_exists [OF assms(1,2)] by blast
  have "(2::int) ^ Suc k \<le> 2 ^ LENGTH('a)" using assms(3) by (intro power_increasing) simp_all
  then have "uint (push_bit j m) = uint m * 2 ^ j" using j(3) by (intro uint_shl) simp
  then show ?thesis using that [OF j(1) shift_up_run [OF j(2,3) assms(3)]] j by simp
qed


lemma sub_core_error:
  assumes "narrow g1" "narrow g2" "fp_s g2 = (\<not> fp_s g1)"
  defines "mx \<equiv> max (fp_e g1) (fp_e g2)"
  obtains s e m z where "sub_core g1 g2 = Some (s, e, m, z)"
    "z \<Longrightarrow> fp_val g1 + fp_val g2 = 0"
    "\<not> z \<Longrightarrow> uint m < 2 ^ 32 \<and> mx - 31 \<le> e \<and> e \<le> mx \<and>
       \<bar>fp_val \<lparr>fp_s = s, fp_e = e, fp_m = m\<rparr> - (fp_val g1 + fp_val g2)\<bar> < 2 * 2 powi (mx - 32)"
proof -
  obtain f1 f2 n where lf: "larger_first g1 g2 = (f1, f2)" and n: "fp_e f2 = fp_e f1 - int n"
    and mx: "fp_e f1 = mx" and fs: "(f1, f2) = (g1, g2) \<or> (f1, f2) = (g2, g1)"
    unfolding mx_def by (rule larger_first_cases)
  define u where "u = (2::real) powi (mx - 32)"
  define sg where "sg = (if fp_s f1 then - 1 else 1 :: real)"
  define x where "x = real_of_int (uint (fp_m f2)) / 2 ^ n"
  define q where "q = uint (fp_m f2) div 2 ^ n"
  have u: "0 < u" by (simp add: u_def)
  have s12: "fp_s f2 = (\<not> fp_s f1)" using fs assms(3) by auto
  have m1: "0 \<le> uint (fp_m f1)" "uint (fp_m f1) < 2 ^ 32" using fs assms by (auto simp: narrow_def)
  have m2: "0 \<le> uint (fp_m f2)" "uint (fp_m f2) < 2 ^ 32" using fs assms by (auto simp: narrow_def)
  have sum: "fp_val g1 + fp_val g2 = sg * (real_of_int (uint (fp_m f1)) - x) * u"
  proof -
    have "fp_val g1 + fp_val g2 = fp_val f1 + fp_val f2" using fs by auto
    then show ?thesis
      by (simp add: fp_val_scaled [OF n] u_def x_def sg_def s12 mx algebra_simps)
         (simp add: fp_val_def s12 mx)
  qed
  have err: "\<bar>sg * y * u - (fp_val g1 + fp_val g2)\<bar> < 2 * u"
    if "\<bar>y - (real_of_int (uint (fp_m f1)) - x)\<bar> < 2" for y
  proof -
    have "sg * y * u - (fp_val g1 + fp_val g2) = sg * (y - (real_of_int (uint (fp_m f1)) - x)) * u"
      unfolding sum by (simp add: algebra_simps)
    then have "\<bar>sg * y * u - (fp_val g1 + fp_val g2)\<bar> = \<bar>y - (real_of_int (uint (fp_m f1)) - x)\<bar> * u"
      using u by (simp add: abs_mult sg_def)
    then show ?thesis using that u by simp
  qed
  show ?thesis
  proof (cases "n > 31")
    case True
    have "real_of_int (uint (fp_m f2)) < 2 ^ n" using m2 True by (rule below_power)
    then have "x < 1" by (simp add: x_def divide_less_eq)
    moreover have "0 \<le> x" unfolding x_def by (rule divide_nonneg_pos) (simp_all only: of_int_0_le_iff m2(1), simp)
    ultimately have "\<bar>fp_val f1 - (fp_val g1 + fp_val g2)\<bar> < 2 * u"
      using err [of "real_of_int (uint (fp_m f1))"] by (simp add: fp_val_def sg_def u_def mx)
    moreover have "sub_core g1 g2 = Some (fp_s f1, fp_e f1, fp_m f1, False)"
      using True n by (simp add: sub_core_def lf)
    moreover have "\<lparr>fp_s = fp_s f1, fp_e = fp_e f1, fp_m = fp_m f1\<rparr> = f1" by simp
    ultimately show ?thesis
      using m1(2) by (intro that [of "fp_s f1" "fp_e f1" "fp_m f1" False]) (simp_all only: u_def, simp_all add: mx)
  next
    case False
    define d where "d = drop_bit n (fp_m f2)"
    define g where "g \<longleftrightarrow> uint (fp_m f2) mod 2 ^ n \<noteq> 0"
    define sw where "sw \<longleftrightarrow> d > fp_m f1"
    define m3 where "m3 = (if sw then d - fp_m f1 else fp_m f1 - d) OR of_bool g"
    define s where "s = (if sw then fp_s f2 else fp_s f1)"
    have d: "uint d = q" by (simp add: d_def q_def uint_shr)
    have core: "sub_core g1 g2 = (if m3 = 0 then Some (False, 0, m3, True)
      else case shift_up 31 m3 mx of None \<Rightarrow> None | Some (m3, e) \<Rightarrow> Some (s, e, m3, False))"
    proof -
      have so: "of_bool g = shifted_out n (fp_m f2)" unfolding g_def using False by (subst shifted_out_eq) simp_all
      show ?thesis
        using False n unfolding sub_core_def lf Let_def m3_def so by (auto simp: sw_def d_def s_def mx split: option.split)
    qed
    have q: "0 \<le> q" "q < 2 ^ 32" using quotient_below [OF m2, of n] by (simp_all add: q_def)
    have sw: "sw \<longleftrightarrow> uint (fp_m f1) < q" by (simp add: sw_def word_less_def d)
    define dist where "dist = \<bar>uint (fp_m f1) - q\<bar>"
    have m3: "uint m3 = dist + of_bool (g \<and> even dist)"
    proof -
      have "uint (if sw then d - fp_m f1 else fp_m f1 - d) = dist"
        using sw d m1 q by (auto simp: dist_def uint_sub_lem [THEN iffD1])
      then show ?thesis by (simp only: m3_def uint_or_bool) simp
    qed
    have x: "real_of_int q \<le> x" "x < real_of_int q + 1" "\<not> g \<Longrightarrow> x = real_of_int q"
      "g \<Longrightarrow> real_of_int q < x"
      using div_real_bounds [of "uint (fp_m f2)" n] by (simp_all add: x_def q_def g_def)
    have near: "\<bar>(if sw then - 1 else 1) * real_of_int (uint m3) - (real_of_int (uint (fp_m f1)) - x)\<bar> < 2"
      unfolding m3 dist_def using x sw by (auto simp: abs_if)
    show ?thesis
    proof (cases "m3 = 0")
      case True
      then have z: "dist + of_bool (g \<and> even dist) = 0" using m3 by simp
      have "0 \<le> dist" by (simp add: dist_def)
      with z have "dist = 0" by (cases "g \<and> even dist") simp_all
      with z have "dist = 0" "\<not> g" by auto
      then have "fp_val g1 + fp_val g2 = 0" using x(3) by (simp add: sum dist_def)
      then show ?thesis using True core by (intro that [of False 0 0 True]) simp_all
    next
      case nz: False
      then have "uint m3 \<noteq> 0" "0 \<le> uint m3" by (simp_all add: uint_0_iff)
      then have "0 < uint m3" by (simp only: order_less_le) simp
      moreover have "uint m3 < 2 ^ Suc 31"
      proof -
        have "uint (fp_m f1) < 4294967296" "q < 4294967296" using m1 q by simp_all
        then have "0 \<le> dist" "dist < 4294967296" using m1(1) q(1) unfolding dist_def by linarith+
        then have "even dist \<Longrightarrow> dist + 1 < 4294967296" by presburger
        then show ?thesis unfolding m3 using \<open>dist < 4294967296\<close> by (cases "g \<and> even dist") auto
      qed
      ultimately obtain j m' where j: "j \<le> 31" "shift_up 31 m3 mx = Some (m', mx - int j)"
        "uint m' = uint m3 * 2 ^ j" "uint m' < 2 ^ Suc 31"
        by (rule shift_up_finds) simp_all
      have "fp_val \<lparr>fp_s = s, fp_e = mx - int j, fp_m = m'\<rparr> = sg * ((if sw then - 1 else 1) * real_of_int (uint m3)) * u"
        by (simp add: fp_val_def j(3) s_def s12 sg_def u_def power_int_diff)
      then have "\<bar>fp_val \<lparr>fp_s = s, fp_e = mx - int j, fp_m = m'\<rparr> - (fp_val g1 + fp_val g2)\<bar> < 2 * u"
        using err [OF near] by simp
      then show ?thesis using nz core j by (intro that [of s "mx - int j" m' False]) (simp_all add: u_def)
    qed
  qed
qed


section \<open>Addition and subtraction of 48-bit numbers\<close>

definition neg48 :: "u16 \<times> u16 \<times> u16 \<Rightarrow> u16 \<times> u16 \<times> u16" where
  "neg48 w = (fst w XOR 0x8000, snd w)"

lemma drop_bit_xor_sign: "odd (drop_bit 15 (w XOR 0x8000 :: u16)) \<longleftrightarrow> even (drop_bit 15 w)"
  by (simp add: drop_bit_xor even_xor_iff)

lemma mkfp48_neg: "mkfp48 (w1 XOR 0x8000) w2 w3 = (mkfp48 w1 w2 w3)\<lparr>fp_s := \<not> fp_s (mkfp48 w1 w2 w3)\<rparr>"
proof -
  have "(w1 XOR 0x8000) AND 0x7FFF = w1 AND 0x7FFF"
    by (rule word16_eqI) (auto simp: all_less_16 bit_simps word16_bits)
  moreover have "drop_bit 15 (w1 XOR 0x8000) AND 1 \<noteq> 0 \<longleftrightarrow> \<not> (drop_bit 15 w1 AND 1 \<noteq> 0)"
    using drop_bit_xor_sign [of w1] by (simp only: and_one_eq mod_2_eq_odd) simp
  ultimately show ?thesis by (simp add: mkfp48_def)
qed

lemma float_sub_is_add: "float_sub a b = float_add a (neg48 b)"
  by (cases a rule: prod_cases3; cases b rule: prod_cases3) (simp add: neg48_def mkfp48_neg Let_def)

lemma val48_neg [simp]: "val48 (neg48 b) = - val48 b"
  by (cases b rule: prod_cases3) (simp add: neg48_def mkfp48_neg fp_val_def)

lemma exp48_neg [simp]: "exp48 (neg48 b) = exp48 b"
  by (cases b rule: prod_cases3) (simp add: neg48_def mkfp48_neg)

lemma val48_pack48:
  "- 16384 \<le> e \<Longrightarrow> e < 16384 \<Longrightarrow> uint m < 2 ^ 32 \<Longrightarrow>
   val48 (pack48 s e m) = fp_val \<lparr>fp_s = s, fp_e = e, fp_m = m\<rparr>"
  by (cases "pack48 s e m" rule: prod_cases3) (simp add: mkfp48_pack48)

lemma float_add_error:
  assumes "- 16353 \<le> max (exp48 a) (exp48 b)" "max (exp48 a) (exp48 b) < 16383"
  shows "\<exists>r. float_add a b = Some r \<and> \<bar>val48 r - (val48 a + val48 b)\<bar> < 2 * 2 powi (max (exp48 a) (exp48 b) - 32)"
proof -
  obtain a0 a1 a2 b0 b1 b2 where ab: "a = (a0, a1, a2)" "b = (b0, b1, b2)" by (metis prod_cases3)
  define f1 f2 where f: "f1 = mkfp48 a0 a1 a2" "f2 = mkfp48 b0 b1 b2"
  have nr: "narrow f1" "narrow f2" by (simp_all add: f)
  have v: "val48 a = fp_val f1" "val48 b = fp_val f2" "exp48 a = fp_e f1" "exp48 b = fp_e f2" by (simp_all add: ab f)
  have rng: "- 16353 \<le> max (fp_e f1) (fp_e f2)" "max (fp_e f1) (fp_e f2) < 16383" using assms by (simp_all add: v)
  show ?thesis
  proof (cases "fp_s f2 = fp_s f1")
    case True
    obtain s e m where c: "add_core f1 f2 = (s, e, m)" by (rule prod_cases3)
    note k = add_core_error [OF nr True c]
    have "float_add a b = Some (pack48 s e m)" using True by (simp add: ab f [symmetric] add48_def c)
    moreover have "val48 (pack48 s e m) = fp_val \<lparr>fp_s = s, fp_e = e, fp_m = m\<rparr>"
      using k(2,3) rng by (intro val48_pack48) auto
    ultimately show ?thesis using k(4) by (simp add: v)
  next
    case False
    then have ns: "fp_s f2 = (\<not> fp_s f1)" by simp
    obtain s e m z where k: "sub_core f1 f2 = Some (s, e, m, z)" "z \<Longrightarrow> fp_val f1 + fp_val f2 = 0"
      "\<not> z \<Longrightarrow> uint m < 2 ^ 32 \<and> max (fp_e f1) (fp_e f2) - 31 \<le> e \<and> e \<le> max (fp_e f1) (fp_e f2) \<and>
        \<bar>fp_val \<lparr>fp_s = s, fp_e = e, fp_m = m\<rparr> - (fp_val f1 + fp_val f2)\<bar> < 2 * 2 powi (max (fp_e f1) (fp_e f2) - 32)"
      by (rule sub_core_error [OF nr ns]) blast
    have r: "float_add a b = Some (if z then (0, 0, 0) else pack48 s e m)"
      using False by (simp add: ab f [symmetric] sub48_def k(1))
    show ?thesis
    proof (cases z)
      case True
      then show ?thesis using r k(2) by (simp add: v fp_val_def mkfp48_def)
    next
      case False
      then have "val48 (pack48 s e m) = fp_val \<lparr>fp_s = s, fp_e = e, fp_m = m\<rparr>"
        using k(3) rng by (intro val48_pack48) auto
      then show ?thesis using r k(3) False by (simp add: v)
    qed
  qed
qed



section \<open>Multiplication and division of 48-bit numbers\<close>

definition mant48 :: "u16 \<times> u16 \<times> u16 \<Rightarrow> u64" where
  "mant48 w = fp_m (mkfp48 (fst w) (fst (snd w)) (snd (snd w)))"

definition sign48 :: "u16 \<times> u16 \<times> u16 \<Rightarrow> bool" where
  "sign48 w = fp_s (mkfp48 (fst w) (fst (snd w)) (snd (snd w)))"

lemma mant48_below: "0 \<le> uint (mant48 w)" "uint (mant48 w) < 2 ^ 32"
  using mkfp48_narrow [of "fst w" "fst (snd w)" "snd (snd w)"] unfolding narrow_def mant48_def by simp_all

lemma mkfp48_fields: "mkfp48 w1 w2 w3 = \<lparr>fp_s = sign48 (w1, w2, w3), fp_e = exp48 (w1, w2, w3), fp_m = mant48 (w1, w2, w3)\<rparr>"
  by (simp add: sign48_def mant48_def)

lemma val48_fields: "val48 w = (if sign48 w then - 1 else 1) * real_of_int (uint (mant48 w)) * 2 powi (exp48 w - 32)"
  by (cases w rule: prod_cases3) (simp add: fp_val_def sign48_def mant48_def)

lemma pack48_high:
  "(word_of_int ((e + 16384) OR sign_bit s), ucast (drop_bit 48 m), ucast (drop_bit 32 m)) = pack48 s e (drop_bit 32 m)"
  by (simp add: pack48_def drop_bit_drop_bit)

lemma powi_split: "2 powi (a + b) = (2::real) powi a * 2 powi b"
  by (simp add: power_int_add)

lemma half_below: "(x :: int) < 2 ^ 64 \<Longrightarrow> x div 2 ^ 32 < 2 ^ 32"
proof -
  assume "x < 2 ^ 64"
  then have "x < 18446744073709551616" by simp
  then have "x div 4294967296 < 4294967296" by presburger
  then show ?thesis by simp
qed

lemma signed_bounds:
  "sg = 1 \<or> sg = - 1 \<Longrightarrow> \<bar>p\<bar> \<le> \<bar>q\<bar> \<Longrightarrow> 0 \<le> p * q \<Longrightarrow> \<bar>p - q\<bar> < c \<Longrightarrow>
   \<bar>sg * p\<bar> \<le> \<bar>sg * q\<bar> \<and> 0 \<le> sg * p * (sg * q) \<and> \<bar>sg * p - sg * q\<bar> < (c :: real)"
  by auto

lemma float_mul_pack:
  "float_mul a b =
     (let m3 = mant48 a * mant48 b; e3 = exp48 a + exp48 b;
          (m3, e3) = (if \<not> bit m3 63 then (push_bit 1 m3, e3 - 1) else (m3, e3))
      in if m3 = 0 \<or> e3 < - 16383 then (0, 0, 0) else pack48 (sign48 a \<noteq> sign48 b) e3 (drop_bit 32 m3))"
  by (cases a rule: prod_cases3; cases b rule: prod_cases3)
     (simp only: float_mul.simps mkfp48_fields Let_def fp.simps pack48_high)



definition normal48 :: "u16 \<times> u16 \<times> u16 \<Rightarrow> bool" where
  "normal48 w \<longleftrightarrow> bit (fst (snd w)) 15"

lemma normal48_mantissa: "normal48 w \<Longrightarrow> 2 ^ 31 \<le> uint (mant48 w)"
proof (cases w rule: prod_cases3)
  case (fields w1 w2 w3)
  assume "normal48 w"
  then have "bit w2 15" by (simp add: fields normal48_def)
  then have "odd (uint w2 div 32768)" using bit_uint_iff [of w2 15] by (simp add: bit_iff_odd)
  then have "32768 \<le> uint w2" by (rule_tac ccontr) simp
  then have "32768 * 65536 \<le> uint w2 * 65536 + uint w3" using uint_ge_0 [of w3] by linarith
  then show ?thesis by (simp add: fields mant48_def mkfp48_mantissa)
qed

lemma float_div_pack:
  "float_div a b =
     (if mant48 b = 0 then ((fst a OR 0x7FFF, 0xFFFF, 0xFFFF), True)
      else let m2 = push_bit 32 (mant48 a); e3 = exp48 a - exp48 b; m3 = m2 div mant48 b;
               m3 = (if m2 mod mant48 b \<noteq> 0 then m3 + 1 else m3);
               (m3, e3) = (if m3 \<ge> push_bit 32 1 then (drop_bit 1 m3, e3 + 1) else (m3, e3))
           in (if m2 = 0 \<or> e3 < - 16383 then (0, 0, 0) else pack48 (sign48 b \<noteq> sign48 a) e3 m3, False))"
  by (cases a rule: prod_cases3; cases b rule: prod_cases3)
     (simp only: float_div.simps mkfp48_fields Let_def fp.simps fst_conv)

text \<open>A quotient rounded up, as a real number.\<close>

lemma quotient_up:
  assumes "0 < (d :: int)" "q = x div d + of_bool (x mod d \<noteq> 0)"
  shows "real_of_int x / real_of_int d \<le> real_of_int q" "real_of_int q < real_of_int x / real_of_int d + 1"
proof -
  have "x = x div d * d + x mod d" by (simp only: div_mult_mod_eq)
  then have "real_of_int x = real_of_int (x div d) * real_of_int d + real_of_int (x mod d)"
    by (metis of_int_add of_int_mult)
  then have x: "real_of_int x / real_of_int d = real_of_int (x div d) + real_of_int (x mod d) / real_of_int d"
    using assms(1) by (simp add: field_simps)
  have xm: "0 \<le> x mod d" "x mod d < d" using assms(1) by simp_all
  have "x mod d \<noteq> 0 \<Longrightarrow> 0 < x mod d" using xm(1) by (metis order_less_le)
  then have m: "0 \<le> real_of_int (x mod d) / real_of_int d" "real_of_int (x mod d) / real_of_int d < 1"
    "x mod d \<noteq> 0 \<Longrightarrow> 0 < real_of_int (x mod d) / real_of_int d"
    using xm assms(1) \<open>x mod d \<noteq> 0 \<Longrightarrow> 0 < x mod d\<close> by (simp_all add: zero_less_divide_iff del: mod_0_imp_dvd)
  then show "real_of_int x / real_of_int d \<le> real_of_int q" "real_of_int q < real_of_int x / real_of_int d + 1"
    unfolding x assms(2) by auto
qed






end
