(* ===== verification/FloatConv.thy ===== *)
theory FloatConv
  imports FloatLaws
begin

text \<open>
  The conversions of \<open>src/cpu/float.c\<close>: NLZ and DNZ between integers and 48-bit numbers, and the
  packing of the 32-bit format.
\<close>

section \<open>Normalising an integer\<close>

lemma scaling_of_range: "- 128 \<le> scaling_of w" "scaling_of w < 128"
  using sint_range_size [of "ucast (w AND 0xFF) :: u8"] by (simp_all add: scaling_of_def word_size)

lemma nlz_core_exact:
  assumes "a \<noteq> 0"
  obtains val j where "nlz_core a sc = (Some (val, 16384 + sc - int j), sint a < 0)"
    "uint val = \<bar>sint a\<bar> * 2 ^ j" "2 ^ 15 \<le> uint val" "uint val < 2 ^ 16" "j \<le> 15"
    "\<bar>sint a\<bar> < 32768 \<Longrightarrow> 0 < j"
proof -
  have a: "sint a \<noteq> 0" using assms signed_eq_0_iff [of a] by blast
  have r: "- 32768 \<le> sint a" "sint a < 32768" using sint_range_size [of a] by (simp_all add: word_size)
  show ?thesis
  proof (cases "sint a = - 32768")
    case True
    have "shift_up 15 (word_of_int 16384 :: u32) (16384 + sc + 1) = Some (push_bit 1 (word_of_int 16384), 16384 + sc + 1 - int 1)"
      by (rule shift_up_run) simp_all
    then have "nlz_core a sc = (Some (32768, 16384 + sc - int 0), sint a < 0)"
      by (simp add: nlz_core_def True)
    then show ?thesis by (rule that) (simp_all add: True)
  next
    case False
    define v where "v = \<bar>sint a\<bar>"
    have v: "0 < v" "v < 32768" using a r False by (auto simp: v_def)
    have uv: "uint (word_of_int v :: u32) = v" using v by (simp only: uint_word_of_int) (simp add: take_bit_int_eq_self)
    obtain j val where j: "j \<le> 15" "shift_up 15 (word_of_int v :: u32) (16384 + sc) = Some (val, 16384 + sc - int j)"
      "uint val = v * 2 ^ j" "2 ^ 15 \<le> uint val" "uint val < 2 ^ Suc 15"
      by (rule shift_up_finds [of "word_of_int v :: u32" 15]) (use v in \<open>simp_all add: uv\<close>)
    have "nlz_core a sc = (Some (val, 16384 + sc - int j), sint a < 0)"
      using v j(2) by (simp add: nlz_core_def Let_def v_def abs_if)
    moreover have "0 < j" using j(3,4) v(2) by (cases j) simp_all
    ultimately show ?thesis using that [of val j] j by (simp add: v_def)
  qed
qed

lemma word_sign_exponent:
  assumes "0 \<le> sh" "sh < 32768"
  shows "mkfp48 (word_of_int (sh + sign_bit s)) a 0 = \<lparr>fp_s = s, fp_e = sh - 16384, fp_m = push_bit 16 (ucast a)\<rparr>"
proof -
  have "pack48 s (sh - 16384) (push_bit 16 (ucast a)) = (word_of_int (sh + sign_bit s), a, 0)"
    using or_sign_bit [OF assms, of s]
    by (auto simp: pack48_def intro!: word16_bits) (auto simp: bit_simps)
  moreover have "uint (push_bit 16 (ucast a :: u64)) < 2 ^ 32"
    using uint_shl [of "ucast a :: u64" 16] uint_lt2p [of a] by (simp add: unsigned_ucast_eq take_bit_int_eq_self)
  ultimately show ?thesis
    using mkfp48_pack48 [of "sh - 16384" "push_bit 16 (ucast a)" s] assms by simp
qed

lemma nlz_value:
  assumes "g_current_fpp_type m = FPP48"
  shows "\<exists>m'. opcode_nlz ub operand m = Done () m' \<and>
    val48 (float_acc (g_reg m')) = real_of_int (sint (cur R_A (g_reg m))) * 2 powi (scaling_of operand - 16) \<and>
    (cur R_A (g_reg m) \<noteq> 0 \<longrightarrow> normal48 (float_acc (g_reg m')))"
proof (cases "cur R_A (g_reg m) = 0")
  case True
  then show ?thesis using assms
    by (simp add: opcode_nlz_def float_do_nlz_def Let_def float_acc_def fp_val_def mkfp48_def)
next
  case False
  define a sc where "a = cur R_A (g_reg m)" and "sc = scaling_of operand"
  obtain val j where n: "nlz_core a sc = (Some (val, 16384 + sc - int j), sint a < 0)"
    "uint val = \<bar>sint a\<bar> * 2 ^ j" "2 ^ 15 \<le> uint val" "uint val < 2 ^ 16" "j \<le> 15"
    using nlz_core_exact [of a sc] False unfolding a_def by metis
  define m' where "m' = m\<lparr>g_reg := set_cur R_A (ucast val) (set_cur R_T (word_of_int (16384 + sc - int j + sign_bit (sint a < 0)))
    (set_cur R_D 0 (g_reg m)))\<rparr>"
  have run: "opcode_nlz ub operand m = Done () m'"
    using assms False n(1) by (simp add: opcode_nlz_def float_do_nlz_def Let_def m'_def a_def sc_def)
  have sh: "0 \<le> 16384 + sc - int j" "16384 + sc - int j < 32768"
    using scaling_of_range [of operand] n(5) by (simp_all add: sc_def)
  have uv: "uint (ucast val :: u16) = uint val" using n(4) by (simp add: unsigned_ucast_eq take_bit_int_eq_self)
  have "uint (ucast (ucast val :: u16) :: u64) = uint val"
    using n(4) by (subst unsigned_ucast_eq, subst uv) (simp add: take_bit_int_eq_self)
  then have pv: "uint (push_bit 16 (ucast (ucast val :: u16) :: u64)) = uint val * 65536"
    using uint_shl [of "ucast (ucast val :: u16) :: u64" 16] n(4) by (simp only:) simp
  have acc: "float_acc (g_reg m') = (word_of_int (16384 + sc - int j + sign_bit (sint a < 0)), ucast val, 0)"
    by (simp add: m'_def float_acc_def)
  have "val48 (float_acc (g_reg m')) = (if sint a < 0 then - 1 else 1) * real_of_int (\<bar>sint a\<bar> * 2 ^ j * 65536) * 2 powi (sc - int j - 32)"
    unfolding acc val48.simps word_sign_exponent [OF sh] fp_val_eq pv n(2) by simp
  also have "\<dots> = real_of_int (sint a) * 2 powi (sc - 16)"
    by (simp add: power_int_diff abs_if)
  finally have v: "val48 (float_acc (g_reg m')) = real_of_int (sint a) * 2 powi (sc - 16)" .
  have "bit (ucast val :: u16) 15" using n(3,4) by (intro bit_top) (simp_all add: uv)
  then show ?thesis using run v by (simp add: acc normal48_def a_def sc_def)
qed

text \<open>C10
  NLZ returns for every A, whatever the scaling factor: the accumulator then holds A times two to the
  scaling factor less 16, exactly, and is normalised unless A is zero.
\<close>

theorem nlz_exact:
  assumes "g_current_fpp_type m = FPP48"
  shows "\<exists>m'. opcode_nlz ub operand m = Done () m' \<and>
    val48 (float_acc (g_reg m')) = real_of_int (sint (cur R_A (g_reg m))) * 2 powi (scaling_of operand - 16) \<and>
    (cur R_A (g_reg m) \<noteq> 0 \<longrightarrow> normal48 (float_acc (g_reg m')))"
  by (rule nlz_value [OF assms])

section \<open>Back to an integer\<close>

lemma sign48_test: "t AND 0x8000 \<noteq> 0 \<longleftrightarrow> sign48 (t, a, d)"
  using and_exp_eq_0_iff_not_bit [of t 15] getbit_ne_0 [of 15 t]
  by (simp add: sign48_def mkfp48_def)

lemma mant48_words: "uint (mant48 (t, a, d)) = uint a * 65536 + uint d"
  by (simp add: mant48_def mkfp48_mantissa)

lemma dnz_value:
  assumes "g_current_fpp_type m = FPP48"
    and "exp48 (float_acc (g_reg m)) + scaling_of operand < 0"
  shows "\<exists>w. opcode_dnz ub operand m = Done () (m\<lparr>g_reg := set_cur R_A w (set_cur R_D 0 (set_cur R_T 0 (g_reg m)))\<rparr>) \<and>
    sint w = (if sign48 (float_acc (g_reg m)) then - 1 else 1) *
      \<lfloor>\<bar>val48 (float_acc (g_reg m))\<bar> * 2 powi (scaling_of operand + 16)\<rfloor>"
proof -
  define t a d sc where "t = cur R_T (g_reg m)" and "a = cur R_A (g_reg m)" and "d = cur R_D (g_reg m)"
    and "sc = scaling_of operand"
  define n where "n = nat (- (exp48 (t, a, d) + sc))"
  define q where "q = uint a div 2 ^ n"
  have acc: "float_acc (g_reg m) = (t, a, d)" by (simp add: float_acc_def t_def a_def d_def)
  have ex: "uint (t AND 0x7FFF) - 16384 + sc = - int n" "0 < n"
    using assms(2) by (simp_all add: n_def acc mkfp48_def sc_def)
  have a: "0 \<le> uint a" "uint a < 2 ^ 16" using uint_lt2p [of a] by simp_all
  have shifted: "(if int n \<ge> 32 then 0 else drop_bit n (uint a)) = q"
  proof (cases "int n \<ge> 32")
    case True
    have "(2::int) ^ 16 \<le> 2 ^ n" using True by (intro power_increasing) simp_all
    then have "uint a < 2 ^ n" using a by linarith
    then show ?thesis using True a by (simp add: q_def)
  qed (simp add: q_def drop_bit_eq_div)
  have q: "0 \<le> q" "q < 32768"
  proof -
    have "q \<le> uint a div 2 ^ 1" unfolding q_def using ex(2) a(1) by (intro zdiv_mono2) (simp_all add: self_le_power)
    then show "q < 32768" using a(2) by simp
    show "0 \<le> q" unfolding q_def by (simp add: pos_imp_zdiv_nonneg_iff)
  qed
  define w where "w = (word_of_int (if t AND 0x8000 \<noteq> 0 then - q else q) :: u16)"
  have run: "opcode_dnz ub operand m = Done () (m\<lparr>g_reg := set_cur R_A w (set_cur R_D 0 (set_cur R_T 0 (g_reg m)))\<rparr>)"
    using assms(1) ex shifted
    by (cases "32 \<le> n") (auto simp: opcode_dnz_def float_do_dnz_def Let_def t_def [symmetric] a_def [symmetric] sc_def [symmetric] w_def)
  have fl: "\<lfloor>\<bar>val48 (t, a, d)\<bar> * 2 powi (sc + 16)\<rfloor> = q"
  proof -
    define M where "M = uint a * 65536 + uint d"
    have d: "0 \<le> uint d" "uint d < 65536" using uint_lt2p [of d] by simp_all
    have M: "0 \<le> M" using a d by (simp add: M_def)
    have e: "exp48 (t, a, d) - 32 + (sc + 16) = - int (16 + n)"
      using ex by (simp add: mkfp48_def)
    have "\<bar>val48 (t, a, d)\<bar> * 2 powi (sc + 16) = real_of_int M * (2 powi (exp48 (t, a, d) - 32) * 2 powi (sc + 16))"
      using M unfolding val48_fields mant48_words M_def [symmetric] by (simp add: abs_mult)
    also have "\<dots> = real_of_int M * 2 powi (- int (16 + n))"
      by (simp only: powi_split [symmetric] e)
    also have "\<dots> = real_of_int M / real_of_int (2 ^ (16 + n))"
      by (simp only: power_int_minus power_int_of_nat divide_inverse of_int_power of_int_numeral)
    finally have "\<lfloor>\<bar>val48 (t, a, d)\<bar> * 2 powi (sc + 16)\<rfloor> = M div 2 ^ (16 + n)"
      by (simp only: floor_divide_of_int_eq)
    also have "\<dots> = M div 2 ^ 16 div 2 ^ n" by (simp only: power_add zdiv_zmult2_eq [OF zero_le_power])
    also have "M div 2 ^ 16 = uint a" using d by (simp add: M_def)
    finally show ?thesis by (simp add: q_def)
  qed
  have "sint w = (if sign48 (t, a, d) then - 1 else 1) * q"
    using q unfolding w_def sign48_test [of t a d] by (simp add: sint_of_int_16)
  then show ?thesis using run fl by (auto simp: acc sc_def)
qed

text \<open>C11
  DNZ of a number below the overflow limit stores the number, scaled and truncated towards zero, in A
  with its sign, clears T and D, and sets no error indicator, however small the number is.
\<close>

theorem dnz_truncates:
  assumes "g_current_fpp_type m = FPP48"
    and "exp48 (float_acc (g_reg m)) + scaling_of operand < 0"
  shows "\<exists>w. opcode_dnz ub operand m = Done () (m\<lparr>g_reg := set_cur R_A w (set_cur R_D 0 (set_cur R_T 0 (g_reg m)))\<rparr>) \<and>
    sint w = (if sign48 (float_acc (g_reg m)) then - 1 else 1) *
      \<lfloor>\<bar>val48 (float_acc (g_reg m))\<bar> * 2 powi (scaling_of operand + 16)\<rfloor>"
  by (rule dnz_value [OF assms])

text \<open>
  Normalising with factor 16 and denormalising with -16 is the identity on every integer but
  -32768, whose exponent 16 DNZ does not convert.
\<close>

lemma nlz_exponent:
  assumes "g_current_fpp_type m = FPP48" "cur R_A (g_reg m) \<noteq> 0" "cur R_A (g_reg m) \<noteq> 0x8000"
    "opcode_nlz ub operand m = Done () m'"
  shows "exp48 (float_acc (g_reg m')) < scaling_of operand"
    "sign48 (float_acc (g_reg m')) \<longleftrightarrow> sint (cur R_A (g_reg m)) < 0"
    "g_current_fpp_type m' = FPP48"
    "\<exists>t a. m' = m\<lparr>g_reg := set_cur R_A a (set_cur R_T t (set_cur R_D 0 (g_reg m)))\<rparr>"
proof -
  define a sc where "a = cur R_A (g_reg m)" and "sc = scaling_of operand"
  have "\<bar>sint a\<bar> < 32768"
  proof -
    have "sint a \<noteq> - 32768"
    proof
      assume "sint a = - 32768"
      then have "a = 0x8000" by (intro signed_word_eqI) simp
      then show False using assms(3) by (simp add: a_def)
    qed
    then show ?thesis using sint_range_16 [of a] by linarith
  qed
  then obtain val j where n: "nlz_core a sc = (Some (val, 16384 + sc - int j), sint a < 0)" "j \<le> 15" "0 < j"
    using nlz_core_exact [of a sc] assms(2) unfolding a_def by metis
  have m': "m' = m\<lparr>g_reg := set_cur R_A (ucast val) (set_cur R_T (word_of_int (16384 + sc - int j + sign_bit (sint a < 0)))
    (set_cur R_D 0 (g_reg m)))\<rparr>"
    using assms n(1) by (simp add: opcode_nlz_def float_do_nlz_def Let_def a_def sc_def)
  have sh: "0 \<le> 16384 + sc - int j" "16384 + sc - int j < 32768"
    using scaling_of_range [of operand] n(2) by (simp_all add: sc_def)
  have acc: "float_acc (g_reg m') = (word_of_int (16384 + sc - int j + sign_bit (sint a < 0)), ucast val, 0)"
    unfolding m' by (simp add: float_acc_def)
  show "exp48 (float_acc (g_reg m')) < scaling_of operand"
    unfolding acc exp48.simps word_sign_exponent [OF sh] using n(3) by (simp add: sc_def)
  show "sign48 (float_acc (g_reg m')) \<longleftrightarrow> sint (cur R_A (g_reg m)) < 0"
    unfolding acc sign48_def fst_conv snd_conv word_sign_exponent [OF sh] by (simp add: a_def)
  show "g_current_fpp_type m' = FPP48" using assms(1) by (simp add: m')
  show "\<exists>t a. m' = m\<lparr>g_reg := set_cur R_A a (set_cur R_T t (set_cur R_D 0 (g_reg m)))\<rparr>"
    unfolding m' by blast
qed

lemma floor_abs_int: "\<lfloor>\<bar>real_of_int x\<bar> * 2 powi (- 16 + 16)\<rfloor> = \<bar>x\<bar>"
  by (simp flip: of_int_abs)

text \<open>NLZ 20 followed by DNZ -20 gives back every integer except -32768 (whose exponent, 16, DNZ takes as
  no shift at all and converts to 0, without an error indicator: see \<open>dnz_loses_minimum\<close>).
\<close>

theorem nlz_dnz_roundtrip:
  assumes "g_current_fpp_type m = FPP48" "cur R_A (g_reg m) \<noteq> 0x8000"
    and "scaling_of nlz = 16" "scaling_of dnz = - 16"
  shows "seq (opcode_nlz ub nlz) (opcode_dnz ub' dnz) m =
    Done () (m\<lparr>g_reg := set_cur R_D 0 (set_cur R_T 0 (g_reg m))\<rparr>)"
proof -
  obtain m' where m': "opcode_nlz ub nlz m = Done () m'"
    "val48 (float_acc (g_reg m')) = real_of_int (sint (cur R_A (g_reg m)))"
    using nlz_value [OF assms(1), of ub nlz] assms(3) by auto
  have fin: "set_cur R_A (cur R_A (g_reg m)) (set_cur R_D 0 (set_cur R_T 0 (set_cur R_A a (set_cur R_T t (set_cur R_D 0 (g_reg m)))))) =
    set_cur R_D 0 (set_cur R_T 0 (g_reg m))" for a t
    by (auto simp: set_cur_def set_reg_def cur_def gPIL_def fun_eq_iff)
  show ?thesis
  proof (cases "cur R_A (g_reg m) = 0")
    case True
    then have m0: "m' = m\<lparr>g_reg := set_cur R_T 0 (set_cur R_D 0 (g_reg m))\<rparr>"
      using m'(1) assms(1) by (simp add: opcode_nlz_def float_do_nlz_def Let_def)
    then have acc: "float_acc (g_reg m') = (0, 0, 0)" using True by (simp add: float_acc_def)
    have "exp48 (float_acc (g_reg m')) + scaling_of dnz < 0" "g_current_fpp_type m' = FPP48"
      unfolding acc using assms(1,4) by (simp_all add: mkfp48_def m0)
    then obtain w where w: "opcode_dnz ub' dnz m' = Done () (m'\<lparr>g_reg := set_cur R_A w (set_cur R_D 0 (set_cur R_T 0 (g_reg m')))\<rparr>)"
      "sint w = (if sign48 (float_acc (g_reg m')) then - 1 else 1) * \<lfloor>\<bar>val48 (float_acc (g_reg m'))\<bar> * 2 powi (scaling_of dnz + 16)\<rfloor>"
      using dnz_value [of m' dnz ub'] by blast
    have "sint w = 0" unfolding w(2) m'(2) True by simp
    then have "w = cur R_A (g_reg m)" using True by (simp add: signed_eq_0_iff)
    moreover have "set_cur R_A 0 (set_cur R_D 0 (set_cur R_T 0 (set_cur R_T 0 (set_cur R_D 0 (g_reg m))))) =
      set_cur R_D 0 (set_cur R_T 0 (g_reg m))"
      using True by (auto simp: set_cur_def set_reg_def cur_def gPIL_def fun_eq_iff)
    ultimately show ?thesis using m'(1) w(1) True by (simp add: seq_def m0)
  next
    case False
    note e = nlz_exponent [OF assms(1) False assms(2) m'(1)]
    obtain t a where m'': "m' = m\<lparr>g_reg := set_cur R_A a (set_cur R_T t (set_cur R_D 0 (g_reg m)))\<rparr>" using e(4) by blast
    obtain w where w: "opcode_dnz ub' dnz m' = Done () (m'\<lparr>g_reg := set_cur R_A w (set_cur R_D 0 (set_cur R_T 0 (g_reg m')))\<rparr>)"
      "sint w = (if sign48 (float_acc (g_reg m')) then - 1 else 1) * \<lfloor>\<bar>val48 (float_acc (g_reg m'))\<bar> * 2 powi (scaling_of dnz + 16)\<rfloor>"
      using dnz_value [OF e(3), of dnz ub'] e(1) assms(3,4) by auto
    have "sint w = sint (cur R_A (g_reg m))"
      unfolding w(2) e(2) m'(2) assms(4) floor_abs_int by simp
    then have "w = cur R_A (g_reg m)" by (rule signed_word_eqI)
    then show ?thesis using m'(1) w(1) fin by (simp add: seq_def m'')
  qed
qed


text \<open>The one integer that is lost, without an error indication.\<close>

lemma dnz_loses_minimum:
  assumes "g_current_fpp_type m = FPP48" "float_acc (g_reg m) = (0xC010, 0x8000, 0)" "scaling_of dnz = - 16"
  shows "val48 (float_acc (g_reg m)) = - 32768 \<and>
    opcode_dnz ub dnz m = Done () (m\<lparr>g_reg := set_cur R_A 0 (set_cur R_D 0 (set_cur R_T 0 (g_reg m)))\<rparr>)"
  using assms by (simp add: float_acc_def opcode_dnz_def float_do_dnz_def Let_def fp_val_def mkfp48_def)

section \<open>The 32-bit format\<close>

lemma renorm_down_id: "uint m < 2 ^ 32 \<Longrightarrow> renorm_down i m e = (m, e)"
  by (cases i) (simp_all add: word_less_def)

lemma renorm_up_id: "m AND 0x80000000 \<noteq> 0 \<Longrightarrow> renorm_up i m e = (m, e)"
  by (cases i) simp_all

lemma no_high_bit: "16 \<le> n \<Longrightarrow> \<not> bit (d :: u16) n"
  by (auto dest: bit_imp_le_length)

lemma bit_mantissa32:
  "bit (mantissa32 a d) n \<longleftrightarrow> n = 22 \<or> (16 \<le> n \<and> n < 22 \<and> bit a (n - 16)) \<or> (n < 16 \<and> bit d n)"
proof (cases "n < 32")
  case True
  have "\<forall>n<32. bit (mantissa32 a d) n \<longleftrightarrow> n = 22 \<or> (16 \<le> n \<and> n < 22 \<and> bit a (n - 16)) \<or> (n < 16 \<and> bit d n)"
    by (simp add: all_less_32 all_less_16 mantissa32_def bit_simps no_high_bit)
  then show ?thesis using True by blast
qed (auto dest: bit_imp_le_length)

lemma uint_below_32: "(\<And>n. bit m n \<Longrightarrow> n < 32) \<Longrightarrow> uint (m :: u64) < 2 ^ 32"
proof -
  assume b: "\<And>n. bit m n \<Longrightarrow> n < 32"
  have "m = take_bit 32 m" by (rule bit_word_eqI) (auto simp: bit_simps dest: b)
  then have "uint m = take_bit 32 (uint m)" by (metis unsigned_take_bit_eq)
  then show ?thesis by (metis take_bit_int_less_exp)
qed

text \<open>
  Unpacking a 32-bit number with a non-zero exponent field and packing it again gives the two words
  back.
\<close>

theorem fp32_roundtrip:
  assumes "drop_bit 6 a AND 0x1FF \<noteq> 0"
  shows "pack32 (fp_s (mkfp32 a d)) (fp_e (mkfp32 a d)) (fp_m (mkfp32 a d)) = (a, d)"
proof -
  define eb where "eb = uint (drop_bit 6 a AND 0x1FF)"
  define mant where "mant = mantissa32 a d"
  define m where "m = push_bit 9 (ucast mant :: u64)"
  have nz: "a \<noteq> 0" using assms by auto
  have ebit: "bit eb n \<longleftrightarrow> n < 9 \<and> bit a (n + 6)" for n
  proof -
    have "drop_bit 6 a AND 0x1FF = take_bit 9 (drop_bit 6 a)" by (simp add: take_bit_eq_mask mask_eq_exp_minus_1)
    then show ?thesis
      by (simp only: eb_def) (auto simp: bit_uint_iff bit_take_bit_iff bit_drop_bit_eq add.commute dest: bit_imp_le_length)
  qed
  have eb: "0 < eb" "eb \<le> 0x1FF" "eb AND 0x1FF = eb"
  proof -
    have "eb \<noteq> 0" using assms by (simp add: eb_def uint_0_iff)
    moreover have "0 \<le> eb" unfolding eb_def by (rule uint_ge_0)
    ultimately show "0 < eb" by linarith
    have e: "eb = take_bit 9 eb" by (rule bit_eqI) (auto simp: bit_simps ebit)
    then have "eb < 2 ^ 9" by (metis take_bit_int_less_exp)
    then show "eb \<le> 0x1FF" by simp
    have "eb AND 0x1FF = take_bit 9 eb" by (simp add: take_bit_eq_mask mask_eq_exp_minus_1)
    then show "eb AND 0x1FF = eb" using e by simp
  qed
  have bits: "bit m n \<longleftrightarrow> 9 \<le> n \<and> n < 32 \<and> bit mant (n - 9)" for n
    by (auto simp: m_def mant_def bit_simps bit_mantissa32)
  have m32: "uint m < 2 ^ 32" by (rule uint_below_32) (simp add: bits)
  have "bit m 31" by (simp add: bits mant_def bit_mantissa32)
  then have top: "m AND 0x80000000 \<noteq> 0" using and_exp_eq_0_iff_not_bit [of m 31] by simp
  then have m0: "m \<noteq> 0" by auto
  have kept: "ucast (drop_bit 9 m) = mant"
    by (rule bit_word_eqI) (auto simp: bit_simps bits mant_def bit_mantissa32)
  define s where "s = (drop_bit 15 a AND 1 \<noteq> 0)"
  have f: "mkfp32 a d = \<lparr>fp_s = s, fp_e = eb - FP32_BIAS, fp_m = m\<rparr>"
    using nz by (simp add: mkfp32_def s_def eb_def m_def mant_def)
  have "word_of_int (sign_bit s OR push_bit 6 eb OR uint (drop_bit 16 mant AND 0x3F)) = a"
    by (rule word16_bits)
       (simp add: all_less_16 bit_simps sign_bit_def s_def getbit_ne_0 ebit bit_uint_iff mant_def bit_mantissa32)
  moreover have "ucast (mant AND 0xFFFF) = d"
    by (rule word16_bits) (simp add: all_less_16 bit_simps mant_def bit_mantissa32)
  ultimately show ?thesis
    unfolding f using m0 eb by (simp add: pack32_def renorm_down_id [OF m32] renorm_up_id [OF top] kept del: push_bit_and)
qed


section \<open>Concrete instances\<close>

definition float_machine :: "u16 \<Rightarrow> u16 \<Rightarrow> u16 \<Rightarrow> unit machine" where
  "float_machine t a d = plain_machine\<lparr>g_current_fpp_type := FPP48,
     g_reg := set_cur R_T t (set_cur R_A a (set_cur R_D d (g_reg plain_machine)))\<rparr>"

lemma float_machine_facts:
  "g_current_fpp_type (float_machine t a d) = FPP48" "float_acc (g_reg (float_machine t a d)) = (t, a, d)"
  "cur R_A (g_reg (float_machine t a d)) = a"
  by (simp_all add: float_machine_def float_acc_def)

text \<open>NLZ 20 on 3, DNZ -20 on 3.0, both after each other on 1000, and 3.0 in the short format.\<close>

theorem nlz_exact_witness:
  "\<exists>m'. opcode_nlz (ret ()) 0xD310 (float_machine 0 3 0) = Done () m' \<and> val48 (float_acc (g_reg m')) = 3"
  using nlz_exact [of "float_machine 0 3 0" "ret ()" "0xD310"] by (auto simp: float_machine_facts scaling_of_def)

theorem dnz_truncates_witness:
  "\<exists>w. opcode_dnz (ret ()) 0xD4F0 (float_machine 0x4002 0xC000 0) =
      Done () ((float_machine 0x4002 0xC000 0)\<lparr>g_reg := set_cur R_A w (set_cur R_D 0 (set_cur R_T 0 (g_reg (float_machine 0x4002 0xC000 0))))\<rparr>)
    \<and> sint w = 3"
  using dnz_truncates [of "float_machine 0x4002 0xC000 0" "0xD4F0" "ret ()"]
  by (simp add: float_machine_facts scaling_of_def fp_val_def mkfp48_def sign48_def)

theorem nlz_dnz_roundtrip_witness:
  "seq (opcode_nlz (ret ()) 0xD310) (opcode_dnz (ret ()) 0xD4F0) (float_machine 7 1000 9) =
    Done () ((float_machine 7 1000 9)\<lparr>g_reg := set_cur R_D 0 (set_cur R_T 0 (g_reg (float_machine 7 1000 9)))\<rparr>)"
  by (rule nlz_dnz_roundtrip) (simp_all add: float_machine_facts scaling_of_def)

theorem fp32_roundtrip_witness:
  "pack32 (fp_s (mkfp32 0x40A0 1)) (fp_e (mkfp32 0x40A0 1)) (fp_m (mkfp32 0x40A0 1)) = (0x40A0, 1)"
  by (rule fp32_roundtrip) simp

end
