(* ===== verification/Moves.thy ===== *)
theory Moves
  imports SystemLaws
begin

text \<open>
  The byte and word moves of \<open>src/cpu/cpu_instr.c\<close>: BFILL, MOVB, MOVBF, MOVEW, and the byte
  load and store LBYT and SBYT. A byte field is a word address and the half it starts on
  (bit 15 of D or T); byte \<open>i\<close> of it is in word \<open>(i + half) div 2\<close>. An access that faults
  leaves the instruction with no register changed, so it can be restarted.
\<close>

section \<open>Loops over an index\<close>

primrec each :: "('a \<Rightarrow> (unit, 'd) exec) \<Rightarrow> 'a list \<Rightarrow> (unit, 'd) exec" where
  "each f [] = ret ()"
| "each f (x # xs) = seq (f x) (each f xs)"

text \<open>\<open>(i + half) & 1\<close> as the byte selector of \<open>cpu_memory_write\<close>: 0 is the MSB, 1 the LSB.\<close>

definition byte_half :: "nat \<Rightarrow> WriteMode" where
  "byte_half k = (if odd k then WRITEMODE_LSB else WRITEMODE_MSB)"

definition word_of_byte :: "u16 \<Rightarrow> nat \<Rightarrow> u16" where
  "word_of_byte a k = a + of_nat (k div 2)"

definition skip_return :: "(unit, 'd) exec" where
  "skip_return = on_regs skip_next"

definition start_half :: "u16 \<Rightarrow> nat" where
  "start_half w = unat (drop_bit 15 w AND 1)"

definition field_apt :: "u16 \<Rightarrow> bool" where
  "field_apt w \<longleftrightarrow> drop_bit 14 w AND 1 \<noteq> 0"

definition field_len :: "u16 \<Rightarrow> u16" where
  "field_len w = w AND 0x0fff"

definition half_flag :: "nat \<Rightarrow> u16" where
  "half_flag k = push_bit 15 (of_nat k AND 1)"

section \<open>Filling\<close>

definition opcode_bfill :: "(unit, 'd) exec" where
  "opcode_bfill m =
     (let r = g_reg m; right = start_half (cur R_T r); is_apt = field_apt (cur R_T r);
          thebyte = cur R_A r AND 0xff; len = unat (field_len (cur R_T r)); d1 = cur R_X r
      in seq (each (\<lambda>i. cpu_memory_write thebyte (word_of_byte d1 (i + right)) is_apt (byte_half (i + right))) [0..<len])
        (seq (on_regs (\<lambda>r. set_cur R_T ((cur R_T r AND 0x7000) OR half_flag (len + right)) r))
        (seq (put R_X (word_of_byte d1 (len + right)))
             skip_return)) m)"

section \<open>Moving\<close>

definition copy_byte :: "u16 \<Rightarrow> nat \<Rightarrow> bool \<Rightarrow> u16 \<Rightarrow> nat \<Rightarrow> bool \<Rightarrow> nat \<Rightarrow> (unit, 'd) exec" where
  "copy_byte source s_lr s_apt dest d_lr d_apt i =
     bind_out (cpu_memory_read (word_of_byte source (i + s_lr)) s_apt)
       (\<lambda>thebyte. cpu_memory_write (if odd (i + s_lr) then thebyte else drop_bit 8 thebyte AND 0xff)
          (word_of_byte dest (i + d_lr)) d_apt (byte_half (i + d_lr)))"

text \<open>
  MOVB copies downwards when the source field starts before the destination. \<open>addr_s\<close> and
  \<open>addr_d\<close> are the addresses of the last byte copied, zero when there was none; the final A and X
  are computed from them.
\<close>

definition opcode_movb :: "(unit, 'd) exec" where
  "opcode_movb m =
     (let r = g_reg m; source = cur R_A r; dest = cur R_X r;
          lens = field_len (cur R_D r); lend = field_len (cur R_T r);
          s_lr = start_half (cur R_D r); d_lr = start_half (cur R_T r);
          s_apt = field_apt (cur R_D r); d_apt = field_apt (cur R_T r);
          len = unat (if lens < lend then lens else lend);
          dir = 2 * unat source + s_lr < 2 * unat dest + d_lr;
          order = (if dir then rev [0..<len] else [0..<len]);
          addr_s = (if len = 0 then 0 else word_of_byte source (last order + s_lr));
          addr_d = (if len = 0 then 0 else word_of_byte dest (last order + d_lr));
          end_half = half_flag (len + d_lr)
      in seq (each (copy_byte source s_lr s_apt dest d_lr d_apt) order)
        (seq (on_regs (\<lambda>r. set_cur R_D ((cur R_D r AND 0x7000) OR end_half) r))
        (seq (on_regs (\<lambda>r. set_cur R_T ((cur R_T r AND 0x7000) OR end_half OR (of_nat len AND 0x0fff)) r))
        (seq (put R_A (word_of_byte addr_s (len + s_lr)))
        (seq (put R_X (word_of_byte addr_d (len + d_lr)))
             skip_return)))) m)"

definition opcode_movbf :: "(unit, 'd) exec" where
  "opcode_movbf m =
     (let r = g_reg m; source = cur R_A r; dest = cur R_X r;
          lens = field_len (cur R_D r); lend = field_len (cur R_T r);
          s_lr = start_half (cur R_D r); d_lr = start_half (cur R_T r);
          s_apt = field_apt (cur R_D r); d_apt = field_apt (cur R_T r);
          len = unat (if lens < lend then lens else lend);
          overlap = (if source > dest then False else of_nat (len div 2) + source - 1 > dest);
          end_half = half_flag (len + d_lr)
      in seq (each (copy_byte source s_lr s_apt dest d_lr d_apt) [0..<len])
        (seq (put R_A (word_of_byte source (len + s_lr)))
        (seq (put R_X (word_of_byte dest (len + d_lr)))
        (seq (on_regs (\<lambda>r. set_cur R_D (((cur R_D r AND 0xefff AND 0x7fff) OR end_half) AND 0xf000 OR ((lens - of_nat len) AND 0x0fff)) r))
        (seq (on_regs (\<lambda>r. set_cur R_T (((cur R_T r AND 0xcfff AND 0x7fff) OR end_half) AND 0xf000 OR ((lend - of_nat len) AND 0x0fff)) r))
             (if overlap then ret () else skip_return))))) m)"

section \<open>Word blocks\<close>

definition movew_word :: "u16 \<Rightarrow> u32 \<Rightarrow> u32 \<Rightarrow> (unit, 'd) exec" where
  "movew_word displacement s d =
     (if displacement = 0 then bind_out (cpu_memory_read (ucast s) False) (\<lambda>t. cpu_memory_write t (ucast d) False WRITEMODE_WORD)
      else if displacement = 1 then bind_out (cpu_memory_read (ucast s) False) (\<lambda>t. cpu_memory_write t (ucast d) True WRITEMODE_WORD)
      else if displacement = 2 then bind_out (cpu_memory_read (ucast s) False) (phys_write d)
      else if displacement = 3 then bind_out (cpu_memory_read (ucast s) True) (\<lambda>t. cpu_memory_write t (ucast d) False WRITEMODE_WORD)
      else if displacement = 4 then bind_out (cpu_memory_read (ucast s) True) (\<lambda>t. cpu_memory_write t (ucast d) True WRITEMODE_WORD)
      else if displacement = 5 then bind_out (cpu_memory_read (ucast s) True) (phys_write d)
      else if displacement = 6 then bind_out (phys_read s) (\<lambda>t. cpu_memory_write t (ucast d) False WRITEMODE_WORD)
      else if displacement = 7 then bind_out (phys_read s) (\<lambda>t. cpu_memory_write t (ucast d) True WRITEMODE_WORD)
      else if displacement = 8 then bind_out (phys_read s) (phys_write d)
      else ret ())"

definition block_address :: "u16 \<Rightarrow> u16 \<Rightarrow> u32" where
  "block_address high low = (ucast low OR push_bit 16 (ucast high)) AND 0xFFFFFF"

definition do_movew :: "u16 \<Rightarrow> (unit, 'd) exec" where
  "do_movew instr m =
     (let r = g_reg m; displacement = instr AND 0x00F; cnt = unat (cur R_L r);
          dest_phys = displacement \<in> {2, 5, 8}; source_phys = displacement \<in> {6, 7, 8};
          destination = (if dest_phys then block_address (cur R_X r) (cur R_T r) else ucast (cur R_T r));
          source = (if source_phys then block_address (cur R_A r) (cur R_D r) else ucast (cur R_D r));
          source' = source + of_nat cnt; destination' = destination + of_nat cnt;
          body = seq (each (\<lambda>k. movew_word displacement (source + of_nat k) (destination + of_nat k)) [0..<cnt])
                (seq (put R_L 0)
                (seq (put R_D (ucast (source' AND 0xFFFF)))
                (seq (if source_phys then put R_A (ucast (drop_bit 16 source' AND 0xFFFF)) else ret ())
                (seq (put R_T (ucast (destination' AND 0xFFFF)))
                     (if dest_phys then put R_X (ucast (drop_bit 16 destination' AND 0xFFFF)) else ret ())))))
      in (if source_phys \<or> dest_phys then privileged body else body) m)"

section \<open>Single bytes\<close>

text \<open>LBYT adds in 16 bits, SBYT in 32.\<close>

definition opcode_lbyt :: "(unit, 'd) exec" where
  "opcode_lbyt m =
     (let r = g_reg m; offset = drop_bit 1 (cur R_X r)
      in bind_out (cpu_memory_read (cur R_T r + offset) True)
           (\<lambda>memval m. put R_A (if odd_byte (g_reg m) then memval AND 0xFF else drop_bit 8 memval AND 0xFF) m) m)"

definition opcode_sbyt :: "(unit, 'd) exec" where
  "opcode_sbyt m =
     (let r = g_reg m; offset = drop_bit 1 (cur R_X r)
      in mms_write_virtual_memory (ucast (cur R_T r) + ucast offset) (cur R_A r) True
           (if odd_byte r then WRITEMODE_LSB else WRITEMODE_MSB) m)"

end
