(* ===== verification/MoveLaws.thy ===== *)
theory MoveLaws
  imports Moves
begin

text \<open>
  What the byte moves do to memory, on plain words: the byte view of memory numbers the bytes
  two per word, and a move of overlapping fields is right when it copies in the right direction.
\<close>

lemma each_append: "each f (xs @ ys) m = seq (each f xs) (each f ys) m"
  by (induction xs arbitrary: m) (auto simp: seq_def bind_out_def split: outcome.split)

section \<open>Copying byte by byte\<close>

text \<open>One step copies byte \<open>s + i\<close> to \<open>d + i\<close> of the view and nothing else.\<close>

locale byte_copies =
  fixes cp :: "nat \<Rightarrow> (unit, 'd) exec" and view :: "'d machine \<Rightarrow> nat \<Rightarrow> 'b" and ok :: "'d machine \<Rightarrow> bool"
    and frame :: "'d machine \<Rightarrow> 'f" and s d len :: nat
  assumes copies: "i < len \<Longrightarrow> ok m \<Longrightarrow> \<exists>m'. cp i m = Done () m' \<and> ok m' \<and> frame m' = frame m
      \<and> view m' = (view m)(d + i := view m (s + i))"
begin

lemma ascending:
  assumes "d \<le> s \<or> s + n \<le> d" "n \<le> len" "ok m"
  shows "\<exists>m'. each cp [0..<n] m = Done () m' \<and> ok m' \<and> frame m' = frame m
     \<and> view m' = (\<lambda>p. if d \<le> p \<and> p < d + n then view m (s + (p - d)) else view m p)"
  using assms
proof (induction n)
  case (Suc n)
  obtain m1 where m1: "each cp [0..<n] m = Done () m1" "ok m1" "frame m1 = frame m"
    "view m1 = (\<lambda>p. if d \<le> p \<and> p < d + n then view m (s + (p - d)) else view m p)"
    using Suc by auto
  obtain m2 where m2: "cp n m1 = Done () m2" "ok m2" "frame m2 = frame m1" "view m2 = (view m1)(d + n := view m1 (s + n))"
    using copies [of n m1] Suc.prems m1(2) by auto
  have "each cp [0..<Suc n] m = Done () m2" using m1(1) m2(1) by (simp add: each_append seq_def)
  moreover have "view m1 (s + n) = view m (s + n)" using m1(4) Suc.prems(1) by auto
  ultimately show ?case using m2 m1(3,4) by (auto simp: fun_eq_iff)
qed (auto simp: fun_eq_iff)

lemma descending:
  assumes "s < d" "n \<le> len" "ok m"
  shows "\<exists>m'. each cp (rev [0..<n]) m = Done () m' \<and> ok m' \<and> frame m' = frame m
     \<and> view m' = (\<lambda>p. if d \<le> p \<and> p < d + n then view m (s + (p - d)) else view m p)"
  using assms(2,3)
proof (induction n arbitrary: m)
  case (Suc n)
  obtain m1 where m1: "cp n m = Done () m1" "ok m1" "frame m1 = frame m" "view m1 = (view m)(d + n := view m (s + n))"
    using copies [of n m] Suc.prems by auto
  obtain m2 where m2: "each cp (rev [0..<n]) m1 = Done () m2" "ok m2" "frame m2 = frame m1"
    "view m2 = (\<lambda>p. if d \<le> p \<and> p < d + n then view m1 (s + (p - d)) else view m1 p)"
    using Suc.IH [of m1] Suc.prems m1(2) by auto
  have "each cp (rev [0..<Suc n]) m = Done () m2" using m1(1) m2(1) by (simp add: seq_def)
  moreover have "view m2 = (\<lambda>p. if d \<le> p \<and> p < d + Suc n then view m (s + (p - d)) else view m p)"
    unfolding m2(4) m1(4) using \<open>s < d\<close> by (auto simp: fun_eq_iff)
  ultimately show ?case using m2 m1(3) by auto
qed (auto simp: fun_eq_iff)

end

section \<open>The byte view of plain memory\<close>

definition byte_view :: "'d machine \<Rightarrow> nat \<Rightarrow> u8" where
  "byte_view m p = (let w = n_Array m (p div 2) in if odd p then ucast w else ucast (drop_bit 8 w))"

definition field_pos :: "u16 \<Rightarrow> nat \<Rightarrow> nat" where
  "field_pos a half = 2 * unat a + half"

text \<open>Every word of the \<open>len\<close> bytes from position \<open>s\<close> is plain, and the field does not wrap.\<close>

definition plain_field :: "'d machine \<Rightarrow> nat \<Rightarrow> nat \<Rightarrow> bool" where
  "plain_field m s len \<longleftrightarrow> s + len \<le> 131072 \<and> (\<forall>p. s \<le> p \<longrightarrow> p < s + len \<longrightarrow> plain_word m (of_nat (p div 2)))"

lemma word_at_pos:
  assumes "field_pos a half + i < 131072"
  shows "word_of_byte a (i + half) = of_nat ((field_pos a half + i) div 2)"
    "unat (word_of_byte a (i + half)) = (field_pos a half + i) div 2"
proof -
  have e: "(field_pos a half + i) div 2 = unat a + (i + half) div 2" by (simp add: field_pos_def add.commute add.left_commute)
  show w: "word_of_byte a (i + half) = of_nat ((field_pos a half + i) div 2)"
    unfolding e by (simp add: word_of_byte_def)
  show "unat (word_of_byte a (i + half)) = (field_pos a half + i) div 2"
    unfolding w using assms by (intro unat_small_word) simp
qed

lemma bit_0xFF: "bit (0xFF :: int) n \<longleftrightarrow> n < 8"
proof -
  have "(0xFF :: int) = mask 8" by (simp add: mask_eq_exp_minus_1)
  then show ?thesis by (simp only: bit_mask_iff) simp
qed

lemma bit_0xFF00: "bit (0xFF00 :: int) n \<longleftrightarrow> 8 \<le> n \<and> n < 16"
proof -
  have "(0xFF00 :: int) = push_bit 8 (mask 8)" by (simp add: mask_eq_exp_minus_1)
  then show ?thesis by (simp only: bit_push_bit_iff bit_mask_iff) auto
qed

lemma merge_halves:
  "ucast (merge_word WRITEMODE_LSB old v) = (ucast v :: u8)"
  "ucast (drop_bit 8 (merge_word WRITEMODE_LSB old v)) = (ucast (drop_bit 8 old) :: u8)"
  "ucast (merge_word WRITEMODE_MSB old v) = (ucast old :: u8)"
  "ucast (drop_bit 8 (merge_word WRITEMODE_MSB old v)) = (ucast v :: u8)"
  by (rule bit_word_eqI; auto simp: merge_word_def bit_simps bit_0xFF bit_0xFF00)+

lemma byte_value: "ucast (drop_bit 8 w AND 0xff :: u16) = (ucast (drop_bit 8 w) :: u8)"
  by (rule bit_word_eqI) (auto simp: bit_simps bit_0xFF)

lemma write_byte_view:
  assumes "plain_word m (of_nat (p div 2))" "p < 131072"
  shows "\<exists>m'. cpu_memory_write v (of_nat (p div 2)) apt (byte_half p) m = Done () m'
     \<and> plain_word m' = plain_word m \<and> sans_memory m' = sans_memory m \<and> byte_view m' = (byte_view m)(p := ucast v)"
proof -
  have u: "unat (of_nat (p div 2) :: u16) = p div 2" using assms(2) by (intro unat_small_word) simp
  have same: "q div 2 = p div 2 \<Longrightarrow> q \<noteq> p \<Longrightarrow> odd q \<longleftrightarrow> even p" for q by presburger
  show ?thesis
    using same assms(1) u
    by (auto simp: plain_write byte_view_def Let_def byte_half_def fun_eq_iff merge_halves)
qed

lemma plain_field_word:
  "plain_field m s len \<Longrightarrow> i < len \<Longrightarrow> plain_word m (of_nat ((s + i) div 2)) \<and> s + i < 131072"
  by (auto simp: plain_field_def)

lemma byte_half_odd: "byte_half (i + half) = byte_half (field_pos a half + i)"
  by (simp add: byte_half_def field_pos_def)

lemma copy_byte_view:
  assumes s: "plain_field m (field_pos source s_lr) len" and d: "plain_field m (field_pos dest d_lr) len" and i: "i < len"
  shows "\<exists>m'. copy_byte source s_lr s_apt dest d_lr d_apt i m = Done () m'
     \<and> plain_word m' = plain_word m \<and> sans_memory m' = sans_memory m
     \<and> byte_view m' = (byte_view m)(field_pos dest d_lr + i := byte_view m (field_pos source s_lr + i))"
proof -
  let ?s = "field_pos source s_lr + i" and ?d = "field_pos dest d_lr + i"
  have ps: "plain_word m (of_nat (?s div 2))" "?s < 131072" and pd: "plain_word m (of_nat (?d div 2))" "?d < 131072"
    using plain_field_word [OF s i] plain_field_word [OF d i] by auto
  have us: "unat (of_nat (?s div 2) :: u16) = ?s div 2" using ps(2) by (intro unat_small_word) simp
  let ?w = "plain_content m (of_nat (?s div 2))"
  let ?b = "if odd (i + s_lr) then ?w else drop_bit 8 ?w AND 0xff"
  have parity: "odd (i + s_lr) \<longleftrightarrow> odd ?s" by (auto simp: field_pos_def)
  have b: "ucast ?b = byte_view m ?s"
    using us parity by (simp add: byte_view_def Let_def plain_content_def byte_value)
  have "copy_byte source s_lr s_apt dest d_lr d_apt i m = cpu_memory_write ?b (of_nat (?d div 2)) d_apt (byte_half ?d) m"
    using plain_read [OF ps(1), of s_apt] word_at_pos(1) [OF ps(2)] word_at_pos(1) [OF pd(2)] byte_half_odd [of i d_lr dest]
    by (simp add: copy_byte_def)
  then show ?thesis using write_byte_view [OF pd, of ?b d_apt] b by auto
qed

text \<open>The byte moves are copies of the byte view.\<close>

interpretation moves: byte_copies "copy_byte source s_lr s_apt dest d_lr d_apt" byte_view
    "\<lambda>m. plain_field m (field_pos source s_lr) len \<and> plain_field m (field_pos dest d_lr) len" sans_memory
    "field_pos source s_lr" "field_pos dest d_lr" len
  for source s_lr s_apt dest d_lr d_apt len
proof unfold_locales
  fix i and m :: "'a machine"
  assume "i < len" "plain_field m (field_pos source s_lr) len \<and> plain_field m (field_pos dest d_lr) len"
  then show "\<exists>m'. copy_byte source s_lr s_apt dest d_lr d_apt i m = Done () m'
      \<and> (plain_field m' (field_pos source s_lr) len \<and> plain_field m' (field_pos dest d_lr) len) \<and> sans_memory m' = sans_memory m
      \<and> byte_view m' = (byte_view m)(field_pos dest d_lr + i := byte_view m (field_pos source s_lr + i))"
    using copy_byte_view [of m source s_lr len dest d_lr i s_apt d_apt] by (fastforce simp: plain_field_def)
qed

lemma byte_view_regs [simp]: "byte_view (m\<lparr>g_reg := r\<rparr>) = byte_view m" "byte_view (g_reg_update f m) = byte_view m"
  by (simp_all add: byte_view_def fun_eq_iff)

lemma sans_memory_regs: "sans_memory m' = sans_memory m \<Longrightarrow> g_reg m' = g_reg m"
  by (metis (no_types, lifting) machine.select_convs(1) machine.surjective machine.update_convs(5) sans_memory_def)

text \<open>The number of bytes moved is the smaller of the two field lengths, at most 4095.\<close>

definition move_len :: "CpuRegs \<Rightarrow> nat" where
  "move_len r = min (unat (field_len (cur R_D r))) (unat (field_len (cur R_T r)))"

definition source_pos :: "CpuRegs \<Rightarrow> nat" where
  "source_pos r = field_pos (cur R_A r) (start_half (cur R_D r))"

definition dest_pos :: "CpuRegs \<Rightarrow> nat" where
  "dest_pos r = field_pos (cur R_X r) (start_half (cur R_T r))"

definition moved :: "nat \<Rightarrow> nat \<Rightarrow> nat \<Rightarrow> (nat \<Rightarrow> u8) \<Rightarrow> nat \<Rightarrow> u8" where
  "moved s d len v = (\<lambda>p. if d \<le> p \<and> p < d + len then v (s + (p - d)) else v p)"

lemma move_len_eq: "unat (if lens < lend then lens else lend :: u16) = min (unat lens) (unat lend)"
  by (simp add: word_less_nat_alt min_def)

lemma moved_fields:
  assumes "len < 4096"
  shows "((t AND 0x7000) OR half_flag k OR (of_nat len AND 0x0fff)) AND 0x0fff = (of_nat len :: u16)"
    "((d AND 0x7000) OR half_flag k) AND 0x0fff = (0 :: u16)"
proof -
  have flag: "bit (half_flag k) n \<longleftrightarrow> n = 15 \<and> odd k" if "n < 16" for n
    using that by (auto simp: half_flag_def bit_simps bit_word_of_nat bit_0)
  have low: "half_flag k AND 0xfff = 0"
    by (rule word16_bits) (simp add: bit_simps flag)
  have t: "(x AND 0x7000) AND 0xfff = (0 :: u16)" for x by (simp add: and.assoc)
  have "take_bit 12 len = len" using assms by (intro take_bit_nat_eq_self) simp
  then have "take_bit 12 (of_nat len :: u16) = of_nat len" by (simp only: take_bit_of_nat)
  then have l: "of_nat len AND 0xfff = (of_nat len :: u16)"
    by (simp add: take_bit_eq_mask mask_eq_exp_minus_1)
  show "((t AND 0x7000) OR half_flag k OR (of_nat len AND 0x0fff)) AND 0x0fff = (of_nat len :: u16)"
    by (simp add: bit.conj_disj_distrib2 low t l)
  show "((d AND 0x7000) OR half_flag k) AND 0x0fff = (0 :: u16)"
    by (simp add: bit.conj_disj_distrib2 low t)
qed

text \<open>C15
  MOVB moves overlapping fields correctly: in plain memory, whatever the halves the fields
  start on and whichever way they overlap, every byte of the destination field gets the value its
  source byte had before the instruction, no other byte changes, T's field length becomes the
  number of bytes moved, D's becomes 0, and the skip return is taken.
\<close>

theorem movb_moves:
  fixes m :: "'d machine"
  defines "r \<equiv> g_reg m"
  defines "len \<equiv> move_len r" and "s \<equiv> source_pos r" and "d \<equiv> dest_pos r"
  assumes "plain_field m s len" "plain_field m d len"
  shows "\<exists>m'. opcode_movb m = Done () m' \<and> byte_view m' = moved s d len (byte_view m)
     \<and> field_len (cur R_T (g_reg m')) = of_nat len \<and> field_len (cur R_D (g_reg m')) = 0
     \<and> cur R_P (g_reg m') = cur R_P r + 1"
proof -
  define order where "order = (if s < d then rev [0..<len] else [0..<len])"
  let ?cp = "copy_byte (cur R_A r) (start_half (cur R_D r)) (field_apt (cur R_D r)) (cur R_X r) (start_half (cur R_T r)) (field_apt (cur R_T r))"
  obtain m1 where m1: "each ?cp order m = Done () m1" "sans_memory m1 = sans_memory m" "byte_view m1 = moved s d len (byte_view m)"
    using moves.ascending [where n = len and len = len and m = m and source = "cur R_A r" and s_lr = "start_half (cur R_D r)"
        and s_apt = "field_apt (cur R_D r)" and dest = "cur R_X r" and d_lr = "start_half (cur R_T r)" and d_apt = "field_apt (cur R_T r)"]
      moves.descending [where n = len and len = len and m = m and source = "cur R_A r" and s_lr = "start_half (cur R_D r)"
        and s_apt = "field_apt (cur R_D r)" and dest = "cur R_X r" and d_lr = "start_half (cur R_T r)" and d_apt = "field_apt (cur R_T r)"]
      assms(5,6) unfolding s_def d_def source_pos_def dest_pos_def moved_def order_def
    by (cases "field_pos (cur R_A r) (start_half (cur R_D r)) < field_pos (cur R_X r) (start_half (cur R_T r))") auto
  have r1: "g_reg m1 = r" using sans_memory_regs [OF m1(2)] by (simp add: r_def)
  have dir: "2 * unat (cur R_A r) + start_half (cur R_D r) < 2 * unat (cur R_X r) + start_half (cur R_T r) \<longleftrightarrow> s < d"
    by (simp add: s_def d_def source_pos_def dest_pos_def field_pos_def)
  have len: "unat (if field_len (cur R_D r) < field_len (cur R_T r) then field_len (cur R_D r) else field_len (cur R_T r)) = len"
    unfolding move_len_eq by (simp add: len_def move_len_def)
  define e where "e = half_flag (len + start_half (cur R_T r))"
  define f where "f = (\<lambda>a x r. skip_next (set_cur R_X x (set_cur R_A a
    ((\<lambda>r. set_cur R_T ((cur R_T r AND 0x7000) OR e OR (of_nat len AND 0x0fff)) r)
      (set_cur R_D ((cur R_D r AND 0x7000) OR e) r)))))"
  define a where "a = word_of_byte (if len = 0 then 0 else word_of_byte (cur R_A r) (last order + start_half (cur R_D r))) (len + start_half (cur R_D r))"
  define x where "x = word_of_byte (if len = 0 then 0 else word_of_byte (cur R_X r) (last order + start_half (cur R_T r))) (len + start_half (cur R_T r))"
  have run: "opcode_movb m = Done () (g_reg_update (f a x) m1)"
    unfolding opcode_movb_def Let_def r_def [symmetric] len dir order_def [symmetric] e_def [symmetric] a_def [symmetric] x_def [symmetric]
    using m1(1) by (simp add: seq_def put_def on_regs_def skip_return_def f_def comp_def)
  have "len < 4096"
  proof -
    have "unat (field_len (cur R_D r)) < 2 ^ 12"
      unfolding field_len_def by (rule and_mask_lt) (simp add: mask_eq_exp_minus_1)
    then show ?thesis by (simp add: len_def move_len_def)
  qed
  then show ?thesis
    using run m1(3) moved_fields(1) [where len = len and t = "cur R_T r" and k = "len + start_half (cur R_T r)"]
      moved_fields(2) [where len = len and d = "cur R_D r" and k = "len + start_half (cur R_T r)"]
    by (simp add: f_def e_def skip_next_def field_len_def r1)
qed

definition move_machine :: "unit machine" where
  "move_machine = plain_machine
     \<lparr>g_reg := demo_regs\<lparr>reg_STS := 0, reg := (\<lambda>l i. if i = R_A \<or> i = R_X then 0x200 else if i = R_D then 3 else if i = R_T then 0x8003 else 5)\<rparr>,
      n_Array := (\<lambda>a. if a = 0x200 then 0x4142 else if a = 0x201 then 0x4344 else n_Array plain_machine a)\<rparr>"

lemma move_machine_fields:
  "move_len (g_reg move_machine) = 3" "source_pos (g_reg move_machine) = 1024" "dest_pos (g_reg move_machine) = 1025"
  "plain_word move_machine 0x200" "plain_word move_machine 0x201"
  by code_simp+

lemma plain_field_two:
  assumes "plain_word m (of_nat k)" "plain_word m (of_nat (Suc k))" "2 * k \<le> s" "s + len \<le> 2 * k + 4" "k < 65535"
  shows "plain_field m s len"
proof -
  have "plain_word m (of_nat (p div 2))" if "s \<le> p" "p < s + len" for p
  proof -
    have "p div 2 = k \<or> p div 2 = Suc k" using that assms(3,4) by linarith
    then show ?thesis using assms(1,2) by (elim disjE) simp_all
  qed
  moreover have "s + len \<le> 131072" using assms(4,5) by linarith
  ultimately show ?thesis by (simp add: plain_field_def)
qed

theorem movb_moves_witness:
  "\<exists>m'. opcode_movb move_machine = Done () m' \<and> byte_view m' 1024 = 0x41 \<and> byte_view m' 1025 = 0x41
     \<and> byte_view m' 1026 = 0x42 \<and> byte_view m' 1027 = 0x43 \<and> field_len (cur R_T (g_reg m')) = 3"
proof -
  have "plain_field move_machine 1024 3" "plain_field move_machine 1025 3"
    using move_machine_fields(4,5) by (auto intro: plain_field_two [of _ 512])
  moreover have "byte_view move_machine 1024 = 0x41" "byte_view move_machine 1025 = 0x42" "byte_view move_machine 1026 = 0x43"
    by code_simp+
  ultimately show ?thesis
    using movb_moves [of move_machine] unfolding move_machine_fields by (auto simp: moved_def)
qed

end
