(* ===== verification/Segments.thy ===== *)
theory Segments
  imports PageLists Moves
begin

text \<open>
  The instructions that speed up segment handling (\<open>src/cpu/cpu_instr.c\<close>): the walks along a
  chain of pages that enter, save and clear page-table entries (SETPT, CLEPT, CLEPU, ENPT,
  REPT, CLPT), the bitmap walks CLNREENT and CNREK, and the search CHREENT. Their loops follow
  links in the guest's memory and may not end, so an instruction is an \<open>option\<close>: \<open>None\<close>
  is an instruction that never finishes. The page-table entries are reached through the
  alternative page table, the chain physically in the bank T or CMBUK.
\<close>

section \<open>Instructions with unbounded loops\<close>

type_synonym 'd looping = "'d machine \<Rightarrow> (unit, 'd machine) outcome option"

text \<open>A pass returns the loop variables of the next one, or \<open>None\<close> to leave the loop.\<close>

partial_function (option) while_exec ::
  "('x \<Rightarrow> 'd machine \<Rightarrow> ('x option, 'd machine) outcome) \<Rightarrow> 'x \<Rightarrow> 'd machine \<Rightarrow> (unit, 'd machine) outcome option" where
  "while_exec f x m =
     (case f x m of
        Trap m' \<Rightarrow> Some (Trap m')
      | Done y m' \<Rightarrow> (case y of None \<Rightarrow> Some (Done () m') | Some x' \<Rightarrow> while_exec f x' m'))"

definition exec_then :: "('a, 'd) exec \<Rightarrow> ('a \<Rightarrow> 'd looping) \<Rightarrow> 'd looping" where
  "exec_then f g m = (case f m of Done x m' \<Rightarrow> g x m' | Trap m' \<Rightarrow> Some (Trap m'))"

definition privileged_loop :: "'d looping \<Rightarrow> 'd looping" where
  "privileged_loop body = exec_then check_priv (\<lambda>ok. if ok then body else Some \<circ> ret ())"

section \<open>Chains in the bank T\<close>

definition read_el :: "u16 \<Rightarrow> (u16, 'd) exec" where
  "read_el displacement m = phys_read (calc_el displacement (g_reg m)) m"

definition write_el :: "u16 \<Rightarrow> u16 \<Rightarrow> (unit, 'd) exec" where
  "write_el displacement v m = phys_write (calc_el displacement (g_reg m)) v m"

text \<open>One node: the link is read first, also when X is 0 and the walk ends.\<close>

definition chain_pass :: "(unit, 'd) exec \<Rightarrow> unit \<Rightarrow> (unit option, 'd) exec" where
  "chain_pass node _ =
     bind_out (read_el 0) (\<lambda>next_x. bind_out (get R_X) (\<lambda>x.
       if x = 0 then seq (put R_X next_x) (ret None)
       else seq node (seq (put R_X next_x) (ret (Some ())))))"

definition pt_slot :: "u16 \<Rightarrow> u16" where
  "pt_slot idx = (idx + idx) OR 0xFE00"

definition setpt_node :: "(unit, 'd) exec" where
  "setpt_node =
     seq (bind_out (read_el 1) (\<lambda>idx. put R_B (pt_slot idx)))
    (seq (bind_out (read_el 2) (put R_A))
    (seq (bind_out (read_el 3) (put R_D))
    (seq (bind_out (get R_A) (\<lambda>a. put R_A (a AND NOT (push_bit 11 1))))
    (bind_out (get R_B) (\<lambda>entry.
     seq (bind_out (get R_A) (write_word True entry))
         (bind_out (get R_D) (write_word True (entry + 1))))))))"

definition opcode_setpt :: "'d looping" where
  "opcode_setpt = privileged_loop (while_exec (chain_pass setpt_node) ())"

text \<open>CLEPT and CLEPU: an entry in use is saved in the node, CLEPU collects its used bit, and it is cleared.\<close>

definition clear_node :: "(u16 \<Rightarrow> (unit, 'd) exec) \<Rightarrow> (unit, 'd) exec" where
  "clear_node collect =
     bind_out (read_el 1) (\<lambda>idx.
     seq (put R_B (pt_slot idx))
    (seq (bind_out (get R_B) (\<lambda>b. bind_out (read_word True b) (put R_A)))
    (bind_out (get R_A) (\<lambda>a.
       if a \<noteq> 0
       then seq (write_el 2 a)
           (seq (collect idx)
           (bind_out (get R_B) (\<lambda>b. write_word True b 0)))
       else ret ()))))"

definition opcode_clept :: "'d looping" where
  "opcode_clept = privileged_loop (while_exec (chain_pass (clear_node (\<lambda>_. ret ()))) ())"

definition clepu_mark_working_set :: "u16 \<Rightarrow> (unit, 'd) exec" where
  "clepu_mark_working_set idx m =
     (let page = idx AND 0x7F; w = drop_bit 4 page; b = unat (page AND 0x0F);
          table_addr = bank_address (cur R_T (g_reg m)) (cur R_L (g_reg m) + w)
      in bind_out (phys_read table_addr) (\<lambda>tw. phys_write table_addr (tw OR push_bit b 1)) m)"

definition clepu_collect :: "u16 \<Rightarrow> (unit, 'd) exec" where
  "clepu_collect idx = bind_out (get R_A) (\<lambda>a. if a AND push_bit 11 1 \<noteq> 0 then clepu_mark_working_set idx else ret ())"

definition opcode_clepu :: "'d looping" where
  "opcode_clepu = privileged_loop (while_exec (chain_pass (clear_node clepu_collect)) ())"

section \<open>Bitmaps\<close>

text \<open>
  Sixteen entries per bitmap word, lowest bit first, an entry of two words per bit; a zero
  word only advances the cursor. The loop variables are the entry and the bitmap cursors.
\<close>

definition clear_marked :: "u16 \<Rightarrow> u16 \<Rightarrow> (unit, 'd) exec" where
  "clear_marked w r1 =
     each (\<lambda>b. if w AND push_bit b 1 \<noteq> 0 then write_word True (r1 + 2 * of_nat b) 0 else ret ()) [0..<16]"

definition bitmap_pass :: "(u16 \<Rightarrow> (u16, 'd) exec) \<Rightarrow> u16 \<Rightarrow> u16 \<times> u16 \<Rightarrow> ((u16 \<times> u16) option, 'd) exec" where
  "bitmap_pass rd r3 = (\<lambda>(r1, r2).
     if r3 = r2 then ret None
     else bind_out (rd r2) (\<lambda>w.
       seq (if w = 0 then ret () else clear_marked w r1) (ret (Some (r1 + 0x20, r2 + 1)))))"

definition opcode_clnreent :: "'d looping" where
  "opcode_clnreent = privileged_loop (\<lambda>m.
     let a = cur R_A (g_reg m); x = cur R_X (g_reg m); t = cur R_T (g_reg m) in
     if a + 2 = 0 then Some (Done () m)
     else exec_then (read_word True (a + 2))
            (\<lambda>_. while_exec (bitmap_pass (read_word True) (x + t + 1)) (0xFE00, x + 0x15)) m)"

definition opcode_cnrek :: "'d looping" where
  "opcode_cnrek = privileged_loop (\<lambda>m.
     let r = g_reg m; a = cur R_A r; x = cur R_X r; t = cur R_T r in
     exec_then (phys_read (bank_address (reg_STBNK r) (a + 2)))
       (\<lambda>logad m.
          if a + 2 = 0 then Some (Done () m)
          else if x = 0 then Some (Done () m)
          else while_exec (bitmap_pass (\<lambda>r2. phys_read (bank_address t r2)) (x + 8))
                 (push_bit 1 (logad AND 0x03C0) + 0xF800, x) m) m)"

section \<open>Chains in the core map\<close>

definition entry_slot :: "u16 \<Rightarrow> u16" where
  "entry_slot w = push_bit 1 (w OR 0xFC00)"

text \<open>The loops \<open>while (gX != 0)\<close> of ENPT, REPT and CLPT; the bank is read once, before the loop.\<close>

definition core_pass :: "u16 \<Rightarrow> (u16 \<Rightarrow> (unit, 'd) exec) \<Rightarrow> unit \<Rightarrow> (unit option, 'd) exec" where
  "core_pass cmbnk node _ =
     bind_out (get R_X) (\<lambda>x.
       if x = 0 then ret None
       else seq (node x) (seq (bind_out (phys_read (bank_address cmbnk x)) (put R_X)) (ret (Some ()))))"

definition enter_node :: "u16 \<Rightarrow> u16 \<Rightarrow> u16 \<Rightarrow> (unit, 'd) exec" where
  "enter_node r4_mask cmbnk x =
     bind_out (phys_read (bank_address cmbnk (x + 2))) (\<lambda>word0.
     seq (put R_A (word0 AND r4_mask))
    (bind_out (phys_read (bank_address cmbnk (x + 3))) (\<lambda>word1.
     seq (put R_B (entry_slot word1))
    (seq (bind_out (get R_A) (write_word True (entry_slot word1)))
         (write_word True (entry_slot word1 + 1) (drop_bit 2 x))))))"

definition nd110_enter_page_table :: "u16 \<Rightarrow> 'd looping" where
  "nd110_enter_page_table r4_mask m =
     (let cmbnk = reg_CMBUK (g_reg m) in while_exec (core_pass cmbnk (enter_node r4_mask cmbnk)) () m)"

definition opcode_enpt :: "'d looping" where
  "opcode_enpt = privileged_loop (nd110_enter_page_table 0xF7FF)"

definition opcode_rept :: "'d looping" where
  "opcode_rept = privileged_loop (nd110_enter_page_table 0x77FF)"

definition clpt_node :: "bool \<Rightarrow> u16 \<Rightarrow> u16 \<Rightarrow> (unit, 'd) exec" where
  "clpt_node clear_mode cmbnk x =
     bind_out (phys_read (bank_address cmbnk (x + 3))) (\<lambda>entry.
     let b = entry_slot entry in
     seq (put R_B b)
       (if clear_mode then write_word True b 0
        else bind_out (read_word True b) (\<lambda>r3.
          if r3 \<noteq> 0
          then seq (phys_write (bank_address cmbnk (x + 2)) r3)
                 (bind_out (get R_A) (\<lambda>a. if a = 0 then write_word True b 0 else ret ()))
          else ret ())))"

definition opcode_clpt :: "'d looping" where
  "opcode_clpt = privileged_loop (\<lambda>m.
     let cmbnk = reg_CMBUK (g_reg m); clear_mode = (cur R_A (g_reg m) AND 0x8000 \<noteq> 0)
     in while_exec (core_pass cmbnk (clpt_node clear_mode cmbnk)) () m)"

section \<open>CHREENT\<close>

text \<open>
  The loop variables are the segment and offset of the next link word and the slot that holds
  the link to the current page. Status bit 12 (WIP) marks the page to unlink.
\<close>

definition chreent_pass :: "u16 \<Rightarrow> u16 \<times> u16 \<times> u16 \<times> u16 \<Rightarrow> ((u16 \<times> u16 \<times> u16 \<times> u16) option, 'd) exec" where
  "chreent_pass prog_t = (\<lambda>(seg, off, prev_seg, prev_off).
     bind_out (phys_read (bank_address seg off)) (\<lambda>link.
       if link = 0 then seq skip_return (ret None)
       else bind_out (phys_read (bank_address prog_t (link + 2))) (\<lambda>status.
         if status AND push_bit 12 1 \<noteq> 0
         then bind_out (phys_read (bank_address prog_t link)) (\<lambda>successor.
              seq (phys_write (bank_address prev_seg prev_off) successor)
             (seq (put R_D prev_seg) (seq (put R_A prev_off) (seq (put R_X link) (ret None)))))
         else ret (Some (prog_t, link, prog_t, link)))))"

definition opcode_chreent :: "'d looping" where
  "opcode_chreent = privileged_loop (\<lambda>m.
     let r = g_reg m; d = cur R_D r; x = cur R_X r
     in while_exec (chreent_pass (cur R_T r)) (d, x, d, x) m)"

section \<open>Loops that end\<close>

lemma while_exec_step:
  "f x m = Trap m' \<Longrightarrow> while_exec f x m = Some (Trap m')"
  "f x m = Done None m' \<Longrightarrow> while_exec f x m = Some (Done () m')"
  "f x m = Done (Some x') m' \<Longrightarrow> while_exec f x m = while_exec f x' m'"
  by (subst while_exec.simps, simp)+

text \<open>A loop whose passes decrease a measure of the loop variables ends, whatever the passes do to the machine.\<close>

lemma while_exec_returns:
  assumes "\<And>x m x' m'. P x \<Longrightarrow> f x m = Done (Some x') m' \<Longrightarrow> P x' \<and> \<mu> x' < (\<mu> x :: nat)" and "P x"
  shows "\<exists>out. while_exec f x m = Some out"
  using \<open>P x\<close>
proof (induction "\<mu> x" arbitrary: x m rule: less_induct)
  case less
  show ?case
  proof (cases "f x m")
    case (Trap s)
    then show ?thesis by (simp add: while_exec_step(1))
  next
    case (Done y s)
    show ?thesis
    proof (cases y)
      case None
      then show ?thesis using Done by (simp add: while_exec_step(2))
    next
      case (Some x')
      with Done have "f x m = Done (Some x') s" by simp
      then show ?thesis using assms(1)[OF less.prems] less.hyps by (auto simp: while_exec_step(3))
    qed
  qed
qed

lemma privileged_returns:
  "(\<And>m. \<exists>out. body m = Some out) \<Longrightarrow> \<exists>out. privileged_loop body m = Some out"
  by (auto simp: privileged_loop_def exec_then_def split: outcome.split)

lemma bitmap_pass_next:
  assumes "bitmap_pass rd r3 (r1, r2) m = Done (Some (r1', r2')) m'"
  shows "r3 \<noteq> r2 \<and> r1' = r1 + 0x20 \<and> r2' = r2 + 1"
  using assms by (auto simp: bitmap_pass_def bind_out_eq_Done seq_def split: if_splits)

lemma distance_shrinks: "a \<noteq> b \<Longrightarrow> unat (a - (b + 1)) < unat (a - b)" for a b :: u16
proof -
  assume "a \<noteq> b"
  then have "a - b \<noteq> 0" by simp
  then have "unat (a - b - 1) = unat (a - b) - 1" "unat (a - b) \<noteq> 0"
    by (simp_all add: unat_minus_one unat_eq_0)
  then show ?thesis by (simp add: algebra_simps)
qed

lemma bitmap_loop_returns: "\<exists>out. while_exec (bitmap_pass rd r3) (r1, r2) m = Some out"
proof (rule while_exec_returns [where \<mu> = "\<lambda>(r1, r2). unat (r3 - r2)" and P = "\<lambda>_. True"])
  fix x x' :: "u16 \<times> u16" and m m'
  assume "bitmap_pass rd r3 x m = Done (Some x') m'"
  then show "True \<and> (case x' of (r1, r2) \<Rightarrow> unat (r3 - r2)) < (case x of (r1, r2) \<Rightarrow> unat (r3 - r2))"
    by (cases x; cases x') (auto dest!: bitmap_pass_next intro: distance_shrinks)
qed simp

lemma clnreent_returns: "\<exists>out. opcode_clnreent m = Some out"
  unfolding opcode_clnreent_def
  by (rule privileged_returns) (auto simp: Let_def exec_then_def bitmap_loop_returns split: outcome.split)

lemma cnrek_returns: "\<exists>out. opcode_cnrek m = Some out"
  unfolding opcode_cnrek_def
  by (rule privileged_returns) (auto simp: Let_def exec_then_def bitmap_loop_returns split: outcome.split)

text \<open>
  Termination: CLNREENT and CNREK return from every machine, whatever the bitmap, the
  bounds in T and X and the faults of the accesses, although their end test is an equality of
  wrapping 16-bit cursors.
\<close>

theorem bitmap_walks_return:
  "(\<exists>out. opcode_clnreent m = Some out) \<and> (\<exists>out. opcode_cnrek m = Some out)"
  using clnreent_returns cnrek_returns by blast

text \<open>A chain that closes on itself is a walk that never ends.\<close>

definition goes_on :: "('x \<Rightarrow> 'd machine \<Rightarrow> ('x option, 'd machine) outcome) \<Rightarrow> ('x \<Rightarrow> 'd machine \<Rightarrow> bool) \<Rightarrow> bool" where
  "goes_on f P \<longleftrightarrow> (\<forall>x m. P x m \<longrightarrow> (\<exists>x' m'. f x m = Done (Some x') m' \<and> P x' m'))"

lemma while_exec_diverges:
  assumes "goes_on f P" "P x m"
  shows "while_exec f x m = None"
proof (rule ccontr)
  assume "while_exec f x m \<noteq> None"
  then obtain y where "(case ((f, x), m) of (x, xa) \<Rightarrow> (case x of (x, xa) \<Rightarrow> while_exec x xa) xa) = Some y" by auto
  then have "(case ((f, x), m) of (x, xa) \<Rightarrow> (case x of (x, xa) \<Rightarrow> \<lambda>m y. goes_on x P \<longrightarrow> \<not> P xa m) xa) y"
    by (rule while_exec.raw_induct [rotated]) (fastforce simp: goes_on_def split: outcome.splits option.splits)
  with assms show False by simp
qed

section \<open>CHREENT unlinks the first page in write\<close>

text \<open>
  The chain of pages: the slots' words link \<open>ls\<close> in the bank \<open>t\<close>, starting from the
  word at \<open>d\<close>, \<open>x\<close>, and end with 0.
\<close>

fun chain :: "(u32 \<Rightarrow> u16) \<Rightarrow> u16 \<Rightarrow> u32 \<Rightarrow> u16 list \<Rightarrow> bool" where
  "chain c t slot [] \<longleftrightarrow> c slot = 0"
| "chain c t slot (l # ls) \<longleftrightarrow> c slot = l \<and> l \<noteq> 0 \<and> chain c t (bank_address t l) ls"

definition in_progress :: "(u32 \<Rightarrow> u16) \<Rightarrow> u16 \<Rightarrow> u16 \<Rightarrow> bool" where
  "in_progress c t l \<longleftrightarrow> bit (c (bank_address t (l + 2))) 12"

text \<open>The words CHREENT reads are plain memory.\<close>

definition chain_plain :: "'d machine \<Rightarrow> u16 \<Rightarrow> u32 \<Rightarrow> u16 list \<Rightarrow> bool" where
  "chain_plain m t slot ls \<longleftrightarrow> plain_physical m slot
     \<and> (\<forall>l\<in>set ls. plain_physical m (bank_address t l) \<and> plain_physical m (bank_address t (l + 2)))"

fun slots :: "u16 \<Rightarrow> u16 \<times> u16 \<Rightarrow> u16 list \<Rightarrow> (u16 \<times> u16) list" where
  "slots t s [] = []"
| "slots t s (l # ls) = s # slots t (t, l) ls"

lemma wip_bit: "w AND 4096 = 0 \<longleftrightarrow> \<not> bit w 12" for w :: u16
  using and_exp_eq_0_iff_not_bit [of w 12] by simp

lemma after_put: "g_reg_update f (store_phys a v m) = store_phys a v (m\<lparr>g_reg := f (g_reg m)\<rparr>)"
  by (simp add: store_phys_def)

lemma chreent_none:
  "chain (phys_content m) t (bank_address s off) ls \<Longrightarrow> chain_plain m t (bank_address s off) ls
     \<Longrightarrow> \<forall>l\<in>set ls. \<not> in_progress (phys_content m) t l
     \<Longrightarrow> while_exec (chreent_pass t) (s, off, s, off) m = Some (skip_return m)"
proof (induction ls arbitrary: s off)
  case Nil
  then show ?case
    by (subst while_exec.simps) (simp add: chreent_pass_def chain_plain_def run_phys_read skip_return_def on_regs_def seq_def)
next
  case (Cons l ls)
  have "chreent_pass t (s, off, s, off) m = Done (Some (t, l, t, l)) m"
    using Cons.prems by (auto simp: chreent_pass_def chain_plain_def run_phys_read in_progress_def wip_bit)
  then show ?case using Cons by (simp add: while_exec_step(3) chain_plain_def)
qed

lemma chreent_some:
  "chain (phys_content m) t (bank_address s off) (us @ l # ls)
     \<Longrightarrow> chain_plain m t (bank_address s off) (us @ l # ls)
     \<Longrightarrow> \<forall>u\<in>set us. \<not> in_progress (phys_content m) t u \<Longrightarrow> in_progress (phys_content m) t l
     \<Longrightarrow> (ps, po) = last ((s, off) # map (Pair t) us)
     \<Longrightarrow> while_exec (chreent_pass t) (s, off, s, off) m
         = Some (Done () ((store_phys (bank_address ps po) (phys_content m (bank_address t l)) m)
             \<lparr>g_reg := set_cur R_X l (set_cur R_A po (set_cur R_D ps (g_reg m)))\<rparr>))"
proof (induction us arbitrary: s off)
  case Nil
  then show ?case
    by (subst while_exec.simps)
      (simp add: chreent_pass_def chain_plain_def run_phys_read run_phys_write in_progress_def wip_bit seq_def put_def on_regs_def after_put)
next
  case (Cons u us)
  have "chreent_pass t (s, off, s, off) m = Done (Some (t, u, t, u)) m"
    using Cons.prems by (auto simp: chreent_pass_def chain_plain_def run_phys_read in_progress_def wip_bit)
  then show ?case using Cons by (simp add: while_exec_step(3) chain_plain_def)
qed

text \<open>The links determine the chain, so the slots of a chain that ends are different words.\<close>

lemma chain_det: "chain c t s ls \<Longrightarrow> chain c t s ls' \<Longrightarrow> ls = ls'"
proof (induction ls arbitrary: s ls')
  case Nil
  then show ?case by (cases ls') auto
next
  case (Cons l ls)
  then show ?case by (cases ls') auto
qed

lemma chain_suffix: "chain c t s (us @ l # vs) \<Longrightarrow> chain c t (bank_address t l) vs"
  by (induction us arbitrary: s) auto

lemma chain_slots_distinct: "chain c t s ls \<Longrightarrow> distinct (s # map (bank_address t) ls)"
proof (induction ls arbitrary: s)
  case (Cons l ls)
  have "s \<noteq> bank_address t k" if "k \<in> set (l # ls)" for k
  proof
    assume e: "s = bank_address t k"
    from that obtain us vs where s: "l # ls = us @ k # vs" by (metis split_list)
    then have "chain c t s vs" using chain_suffix [of c t s us k vs] Cons.prems e by simp
    then have "vs = l # ls" using chain_det Cons.prems by blast
    then show False using arg_cong [OF s, of length] by simp
  qed
  then show ?case using Cons by auto
qed simp

lemma chain_cong:
  "\<forall>a\<in>set (s # map (bank_address t) ls). c a = c' a \<Longrightarrow> chain c t s ls = chain c' t s ls"
  by (induction ls arbitrary: s) auto

lemma chain_unlink:
  "chain c t s (us @ l # vs) \<Longrightarrow> p = last (s # map (bank_address t) us)
     \<Longrightarrow> chain (c(p := c (bank_address t l))) t s (us @ vs)"
proof (induction us arbitrary: s)
  case Nil
  then have s: "s \<notin> set (map (bank_address t) (l # vs))" using chain_slots_distinct [of c t s "l # vs"] by simp
  show ?case
  proof (cases vs)
    case (Cons v ws)
    have v: "c (bank_address t l) = v" using Nil Cons by simp
    have "chain (c(s := v)) t (bank_address t v) ws = chain c t (bank_address t v) ws"
      using s Cons by (intro chain_cong) auto
    then show ?thesis using Nil Cons v by (simp add: fun_upd_def)
  qed (use Nil in simp)
next
  case (Cons u us)
  have "distinct (s # map (bank_address t) (u # us @ l # vs))"
    using chain_slots_distinct [OF Cons.prems(1)] by simp
  moreover have "p \<in> set (map (bank_address t) (u # us))" using Cons.prems(2) last_in_set by (auto simp: last_map)
  ultimately have "s \<noteq> p" by auto
  then show ?case using Cons by auto
qed

lemma last_slot: "(ps, po) = last ((s, off) # map (Pair t) us)
  \<Longrightarrow> bank_address ps po = last (bank_address s off # map (bank_address t) us)"
  by (cases us rule: rev_cases) auto

text \<open>C37
  Refinement: on a chain of pages that ends, CHREENT returns. Without a page in write it
  only takes the skip return; otherwise it unlinks the first such page from the chain, leaves the
  other links and every other word alone, and reports the page in X and its slot in D, A.
\<close>

theorem chreent_unlinks:
  fixes m :: "'d machine"
  defines "r \<equiv> g_reg m"
  defines "t \<equiv> cur R_T r" and "slot \<equiv> bank_address (cur R_D r) (cur R_X r)"
  assumes "priv_mode r" and list: "chain (phys_content m) t slot ls" "chain_plain m t slot ls"
  shows "case dropWhile (\<lambda>l. \<not> in_progress (phys_content m) t l) ls of
      [] \<Rightarrow> opcode_chreent m = Some (skip_return m)
    | l # vs \<Rightarrow> \<exists>m' ps po us. us = takeWhile (\<lambda>l. \<not> in_progress (phys_content m) t l) ls
        \<and> opcode_chreent m = Some (Done () m')
        \<and> g_reg m' = set_cur R_X l (set_cur R_A po (set_cur R_D ps r))
        \<and> bank_address ps po = last (slot # map (bank_address t) us)
        \<and> chain (phys_content m') t slot (us @ vs)
        \<and> (\<forall>a. a \<noteq> bank_address ps po \<longrightarrow> phys_content m' a = phys_content m a)"
proof -
  define c where "c = phys_content m"
  define us where "us = takeWhile (\<lambda>l. \<not> in_progress c t l) ls"
  have run: "opcode_chreent m = while_exec (chreent_pass t) (cur R_D r, cur R_X r, cur R_D r, cur R_X r) m"
    using \<open>priv_mode r\<close>
    by (auto simp: opcode_chreent_def privileged_loop_def exec_then_def r_def t_def Let_def priv_mode_def check_priv_def)
  have us: "\<forall>u\<in>set us. \<not> in_progress c t u" unfolding us_def using set_takeWhileD by fastforce
  show ?thesis
  proof (cases "dropWhile (\<lambda>l. \<not> in_progress c t l) ls")
    case Nil
    then have "\<forall>l\<in>set ls. \<not> in_progress c t l" by (simp add: dropWhile_eq_Nil_conv)
    then have "opcode_chreent m = Some (skip_return m)"
      using chreent_none [OF list [unfolded slot_def]] run by (simp add: c_def)
    then show ?thesis unfolding c_def [symmetric] Nil by simp
  next
    case (Cons l vs)
    obtain ps po where s: "(ps, po) = last ((cur R_D r, cur R_X r) # map (Pair t) us)" by (metis surj_pair)
    have ls: "ls = us @ l # vs" and l: "in_progress c t l"
      using Cons takeWhile_dropWhile_id [of "\<lambda>l. \<not> in_progress c t l" ls] unfolding us_def
      by (simp, simp add: dropWhile_eq_Cons_conv)
    define m' where "m' = (store_phys (bank_address ps po) (c (bank_address t l)) m)
      \<lparr>g_reg := set_cur R_X l (set_cur R_A po (set_cur R_D ps r))\<rparr>"
    have "opcode_chreent m = Some (Done () m')"
      using chreent_some [OF list [unfolded slot_def ls] us [unfolded c_def] l [unfolded c_def] s] run
      by (simp add: m'_def c_def r_def)
    moreover have "bank_address ps po = last (slot # map (bank_address t) us)"
      using last_slot [OF s] by (simp add: slot_def)
    moreover have "phys_content m' = c(bank_address ps po := c (bank_address t l))"
      by (simp add: m'_def c_def)
    moreover have "g_reg m' = set_cur R_X l (set_cur R_A po (set_cur R_D ps r))" by (simp add: m'_def)
    moreover have "chain (c(last (slot # map (bank_address t) us) := c (bank_address t l))) t slot (us @ vs)"
      by (rule chain_unlink) (use list(1) in \<open>simp_all add: ls c_def\<close>)
    ultimately show ?thesis
      unfolding c_def [symmetric] Cons list.case us_def [symmetric]
      by (intro exI [of _ m'] exI [of _ ps] exI [of _ po] exI [of _ us]) simp
  qed
qed

text \<open>Three pages in bank 1 from a slot in bank 2; the second one is in write.\<close>

definition chain_machine :: "unit machine" where
  "chain_machine = (list_machine ((\<lambda>_. 0)(0x20040 := 0x100, 0x10100 := 0x200, 0x10200 := 0x300, 0x10202 := 0x1000)))
     \<lparr>g_reg := set_cur R_D 2 (set_cur R_T 1 list_regs)\<rparr>"

lemma chain_machine_regs [simp]: "g_reg chain_machine = set_cur R_D 2 (set_cur R_T 1 list_regs)"
  by (simp add: chain_machine_def)

lemma chain_machine_facts:
  "priv_mode (g_reg chain_machine)" "cur R_T (g_reg chain_machine) = 1"
  "bank_address (cur R_D (g_reg chain_machine)) (cur R_X (g_reg chain_machine)) = 0x20040"
  "bank_address 1 0x100 = 0x10100" "bank_address 1 0x102 = 0x10102" "bank_address 1 0x200 = 0x10200"
  "bank_address 1 0x202 = 0x10202" "bank_address 1 0x300 = 0x10300" "bank_address 1 0x302 = 0x10302"
  unfolding chain_machine_regs by code_simp+

lemma chain_machine_chain:
  "chain (phys_content chain_machine) 1 0x20040 [0x100, 0x200, 0x300]"
  "\<not> in_progress (phys_content chain_machine) 1 0x100" "in_progress (phys_content chain_machine) 1 0x200"
  by (simp_all add: in_progress_def chain_machine_facts(4-)) (simp_all add: phys_content_def chain_machine_def list_machine_def)

lemma chain_machine_plain: "chain_plain chain_machine 1 0x20040 [0x100, 0x200, 0x300]"
proof -
  have "plain_physical chain_machine a \<longleftrightarrow> 0 \<le> sint a \<and> a < 0x30000" if "a > 0xFFFF" for a
    using that by (simp add: plain_physical_def chain_machine_def list_machine_def mms_is_address_shadow_memory_def
      backed_read_def backed_write_def mms_memory_bank_lookup_def list_regs_def demo_regs_def set_cur_def set_reg_def)
  then show ?thesis by (simp add: chain_plain_def chain_machine_facts(4-))
qed

theorem chreent_unlinks_witness:
  "\<exists>m'. opcode_chreent chain_machine = Some (Done () m') \<and> cur R_X (g_reg m') = 0x200
     \<and> chain (phys_content m') 1 0x20040 [0x100, 0x300]"
  using chreent_unlinks [of chain_machine "[0x100, 0x200, 0x300]"] chain_machine_facts chain_machine_chain chain_machine_plain
  by (auto simp: cur_def)

text \<open>
  Non-termination: when the links lead from the slot D, X into a set of pages that are not
  in write and link only to each other, CHREENT never returns. With the refinement above,
  it returns exactly on the chains that end or hold a page in write.
\<close>

theorem chreent_cycle:
  fixes m :: "'d machine"
  defines "r \<equiv> g_reg m" and "c \<equiv> phys_content m"
  defines "t \<equiv> cur R_T r" and "slot \<equiv> bank_address (cur R_D r) (cur R_X r)"
  assumes "priv_mode r" "plain_physical m slot" "c slot \<in> S"
    and "\<forall>l\<in>S. l \<noteq> 0 \<and> \<not> in_progress c t l \<and> c (bank_address t l) \<in> S
           \<and> plain_physical m (bank_address t l) \<and> plain_physical m (bank_address t (l + 2))"
  shows "opcode_chreent m = None"
proof -
  define P where "P = (\<lambda>(seg, off, ps :: u16, po :: u16) m'. m' = m \<and> plain_physical m (bank_address seg off)
    \<and> c (bank_address seg off) \<in> S)"
  have "goes_on (chreent_pass t) P"
    using assms(8) unfolding goes_on_def P_def
    by (auto simp: chreent_pass_def run_phys_read c_def in_progress_def wip_bit)
  moreover have "P (cur R_D r, cur R_X r, cur R_D r, cur R_X r) m"
    using assms(6,7) by (simp add: P_def slot_def)
  ultimately have "while_exec (chreent_pass t) (cur R_D r, cur R_X r, cur R_D r, cur R_X r) m = None"
    by (rule while_exec_diverges)
  then show ?thesis
    using \<open>priv_mode r\<close>
    by (auto simp: opcode_chreent_def privileged_loop_def exec_then_def r_def t_def Let_def priv_mode_def check_priv_def)
qed

definition ring_machine :: "unit machine" where
  "ring_machine = chain_machine\<lparr>n_Array := (\<lambda>_. 0)(0x20040 := 0x100, 0x10100 := 0x200, 0x10200 := 0x100)\<rparr>"

theorem chreent_cycle_witness: "opcode_chreent ring_machine = None"
proof (rule chreent_cycle [of ring_machine "{0x100, 0x200}"])
  have p: "plain_physical ring_machine a \<longleftrightarrow> 0 \<le> sint a \<and> a < 0x30000" if "a > 0xFFFF" for a
    using that by (simp add: plain_physical_def ring_machine_def chain_machine_def list_machine_def mms_is_address_shadow_memory_def
      backed_read_def backed_write_def mms_memory_bank_lookup_def list_regs_def demo_regs_def set_cur_def set_reg_def)
  have g: "g_reg ring_machine = g_reg chain_machine" by (simp add: ring_machine_def)
  show "priv_mode (g_reg ring_machine)" unfolding g by (rule chain_machine_facts)
  show "plain_physical ring_machine (bank_address (cur R_D (g_reg ring_machine)) (cur R_X (g_reg ring_machine)))"
    unfolding g chain_machine_facts(3) by (simp add: p)
  show "phys_content ring_machine (bank_address (cur R_D (g_reg ring_machine)) (cur R_X (g_reg ring_machine))) \<in> {0x100, 0x200}"
    unfolding g chain_machine_facts(3) by (simp add: phys_content_def ring_machine_def)
  show "\<forall>l\<in>{0x100, 0x200}. l \<noteq> 0 \<and> \<not> in_progress (phys_content ring_machine) (cur R_T (g_reg ring_machine)) l
      \<and> phys_content ring_machine (bank_address (cur R_T (g_reg ring_machine)) l) \<in> {0x100, 0x200}
      \<and> plain_physical ring_machine (bank_address (cur R_T (g_reg ring_machine)) l)
      \<and> plain_physical ring_machine (bank_address (cur R_T (g_reg ring_machine)) (l + 2))"
    unfolding g chain_machine_facts(2)
    by (simp add: in_progress_def chain_machine_facts(4-) p) (simp add: phys_content_def ring_machine_def)
qed

end
