(* ===== verification/Versn.thy ===== *)
theory Versn
  imports SystemLaws
 begin

text \<open>
  The identity VERSN reports (\<open>src/cpu/cpu_instr.c\<close>): the sixteen bytes of the back-wiring PROM,
  the microprogram and print versions, their defaults per CPU type, the environment variables
  that override them, and the instruction. The environment is the parameter
  \<open>getenv\<close>; diagnostics are left out.
\<close>

section \<open>The identity\<close>

record VersnIdentity =
  prom :: "u8 list"
  microcode_version :: int
  print_version :: int

abbreviation (input) VERSN_PROM_SIZE :: nat where "VERSN_PROM_SIZE \<equiv> 16"
abbreviation (input) VERSN_PROM_SYSNO_HI :: nat where "VERSN_PROM_SYSNO_HI \<equiv> 0"
abbreviation (input) VERSN_PROM_SYSNO_LO :: nat where "VERSN_PROM_SYSNO_LO \<equiv> 1"
abbreviation (input) VERSN_PROM_SYSTYPE_HI :: nat where "VERSN_PROM_SYSTYPE_HI \<equiv> 2"
abbreviation (input) VERSN_PROM_SYSTYPE_LO :: nat where "VERSN_PROM_SYSTYPE_LO \<equiv> 3"
abbreviation (input) VERSN_PROM_LEGAL_USERS :: nat where "VERSN_PROM_LEGAL_USERS \<equiv> 4"
abbreviation (input) VERSN_PROM_UNUSED :: nat where "VERSN_PROM_UNUSED \<equiv> 5"
abbreviation (input) VERSN_PROM_SIGNATURE_HI :: nat where "VERSN_PROM_SIGNATURE_HI \<equiv> 6"
abbreviation (input) VERSN_PROM_SIGNATURE_LO :: nat where "VERSN_PROM_SIGNATURE_LO \<equiv> 7"

definition versn_load_default_prom :: "CpuType \<Rightarrow> VersnIdentity \<Rightarrow> VersnIdentity" where
  "versn_load_default_prom t v =
     (let zero = replicate VERSN_PROM_SIZE 0 in
      if t = ND100 \<or> t = ND100CE \<or> t = ND100CX
      then v\<lparr>prom := [0x01, 0x04, 0x00, 0x01, 0x07, 0x01, 0x01, 0x01, 0x01, 0x01, 0x01, 0x01, 0x01, 0x01, 0x01, 0x01]\<rparr>
      else v\<lparr>prom := zero[VERSN_PROM_SYSNO_HI := 0, VERSN_PROM_SYSNO_LO := 102, VERSN_PROM_SYSTYPE_HI := 0,
                        VERSN_PROM_SYSTYPE_LO := 100, VERSN_PROM_LEGAL_USERS := 0xFF, VERSN_PROM_UNUSED := 0,
                        VERSN_PROM_SIGNATURE_HI := 0, VERSN_PROM_SIGNATURE_LO := 0]\<rparr>)"

definition cpu_versn_reset :: "CpuType \<Rightarrow> VersnIdentity \<Rightarrow> VersnIdentity" where
  "cpu_versn_reset t v = (versn_load_default_prom t v)\<lparr>microcode_version := 0x0708, print_version := 0x80C\<rparr>"

definition versn_set_word :: "nat \<Rightarrow> nat \<Rightarrow> int \<Rightarrow> VersnIdentity \<Rightarrow> VersnIdentity" where
  "versn_set_word hi_index lo_index value v =
     v\<lparr>prom := (prom v)[hi_index := word_of_int (drop_bit 8 value AND 0xFF), lo_index := word_of_int (value AND 0xFF),
                      VERSN_PROM_SIGNATURE_HI := 0x55, VERSN_PROM_SIGNATURE_LO := 0xAA]\<rparr>"

section \<open>Parsing numbers\<close>

definition versn_identity_is_skip :: "string \<Rightarrow> bool" where
  "versn_identity_is_skip text \<longleftrightarrow>
     text \<in> {''none'', ''NONE'', ''keep'', ''KEEP'', ''image'', ''IMAGE'', ''-1''}"

abbreviation code :: "char \<Rightarrow> int" where "code \<equiv> of_char"

definition versn_hex_digit :: "char \<Rightarrow> int" where
  "versn_hex_digit c =
     (if code c \<ge> code CHR ''0'' \<and> code c \<le> code CHR ''9'' then code c - code CHR ''0''
      else if code c \<ge> code CHR ''a'' \<and> code c \<le> code CHR ''f'' then code c - code CHR ''a'' + 10
      else if code c \<ge> code CHR ''A'' \<and> code c \<le> code CHR ''F'' then code c - code CHR ''A'' + 10
      else - 1)"

text \<open>The digit loop of \<open>versn_parse_number\<close>.\<close>

fun parse_digits :: "int \<Rightarrow> int \<Rightarrow> string \<Rightarrow> int option" where
  "parse_digits radix acc [] = Some acc"
| "parse_digits radix acc (c # cs) =
     (let d = versn_hex_digit c in
      if d < 0 \<or> d \<ge> radix then None
      else let acc = acc * radix + d in if acc > 0xFFFF then None else parse_digits radix acc cs)"

definition versn_parse_number :: "string \<Rightarrow> int option" where
  "versn_parse_number text =
     (let len = length text in
      if len = 0 then None
      else let (radix, start, fin) =
             (if len > 2 \<and> text ! 0 = CHR ''0'' \<and> text ! 1 \<in> {CHR ''x'', CHR ''X''} then (16, 2, len)
              else if len > 2 \<and> text ! 0 = CHR ''0'' \<and> text ! 1 \<in> {CHR ''o'', CHR ''O''} then (8, 2, len)
              else if len > 1 \<and> text ! (len - 1) \<in> {CHR ''b'', CHR ''B''} then (8, 0, len - 1)
              else if len > 1 \<and> text ! 0 = CHR ''0'' then (8, 1, len)
              else (10, 0, len))
           in if start \<ge> fin then None else parse_digits radix 0 (drop start (take fin text)))"

definition versn_parse_microcode_version :: "VersnIdentity \<Rightarrow> string \<Rightarrow> int option" where
  "versn_parse_microcode_version v text =
     (let letter = (if length text = 1
                    then let c = code (text ! 0) in
                         if c \<ge> code CHR ''A'' \<and> c \<le> code CHR ''Z'' then c - code CHR ''A'' + 1
                         else if c \<ge> code CHR ''a'' \<and> c \<le> code CHR ''z'' then c - code CHR ''a'' + 1
                         else - 1
                    else - 1)
      in if letter > 0 then Some ((microcode_version v AND 0x7F00) OR letter)
         else versn_parse_number text)"

section \<open>The environment\<close>

text \<open>
  The raw image: 32 hexadecimal digits, separators ignored. The result is the list of digits
  read, or \<open>None\<close> when a character is no digit or there are too many.
\<close>

fun raw_digits :: "string \<Rightarrow> int list \<Rightarrow> int list option" where
  "raw_digits [] ds = Some ds"
| "raw_digits (c # cs) ds =
     (if c \<in> {CHR '' '', CHR 0x09, CHR '','', CHR '':'', CHR ''-'', CHR ''_''} then raw_digits cs ds
      else let d = versn_hex_digit c in
           if d < 0 \<or> length ds \<ge> VERSN_PROM_SIZE * 2 then None else raw_digits cs (ds @ [d]))"

fun pair_up :: "int list \<Rightarrow> u8 list" where
  "pair_up (hi # lo # ds) = (word_of_int (push_bit 4 hi) OR word_of_int lo) # pair_up ds"
| "pair_up ds = []"

definition set_raw_image :: "string option \<Rightarrow> VersnIdentity \<Rightarrow> VersnIdentity" where
  "set_raw_image env v =
     (case env of None \<Rightarrow> v
      | Some text \<Rightarrow> (case raw_digits text [] of
           None \<Rightarrow> v
         | Some ds \<Rightarrow> if length ds = VERSN_PROM_SIZE * 2 then v\<lparr>prom := pair_up ds\<rparr> else v))"

definition set_number :: "nat \<Rightarrow> nat \<Rightarrow> string option \<Rightarrow> VersnIdentity \<Rightarrow> VersnIdentity" where
  "set_number hi lo env v =
     (case env of None \<Rightarrow> v
      | Some text \<Rightarrow>
          if versn_identity_is_skip text then versn_set_word hi lo 0xFFFF v
          else (case versn_parse_number text of None \<Rightarrow> v | Some value \<Rightarrow> versn_set_word hi lo value v))"

definition set_legal_users :: "string option \<Rightarrow> VersnIdentity \<Rightarrow> VersnIdentity" where
  "set_legal_users env v =
     (case env of None \<Rightarrow> v
      | Some text \<Rightarrow>
          let value = (if versn_identity_is_skip text then 0xFF
                       else case versn_parse_number text of None \<Rightarrow> - 1
                            | Some value \<Rightarrow> if value > 0xFE then - 1 else value)
          in if value \<ge> 0
             then v\<lparr>prom := (prom v)[VERSN_PROM_LEGAL_USERS := word_of_int value,
                                   VERSN_PROM_SIGNATURE_HI := 0x55, VERSN_PROM_SIGNATURE_LO := 0xAA]\<rparr>
             else v)"

definition set_microcode :: "string option \<Rightarrow> VersnIdentity \<Rightarrow> VersnIdentity" where
  "set_microcode env v =
     (case env of None \<Rightarrow> v
      | Some text \<Rightarrow> (case versn_parse_microcode_version v text of
           None \<Rightarrow> v
         | Some value \<Rightarrow> if value < 0x0B then v else if value > 0xFFFF then v else v\<lparr>microcode_version := value\<rparr>))"

definition set_print :: "string option \<Rightarrow> VersnIdentity \<Rightarrow> VersnIdentity" where
  "set_print env v =
     (case env of None \<Rightarrow> v
      | Some text \<Rightarrow> (case versn_parse_number text of
           None \<Rightarrow> v
         | Some value \<Rightarrow> if value \<le> 0x0FFF then v\<lparr>print_version := value\<rparr> else v))"

definition cpu_versn_set_identity_from_env :: "(string \<Rightarrow> string option) \<Rightarrow> VersnIdentity \<Rightarrow> VersnIdentity" where
  "cpu_versn_set_identity_from_env getenv v =
     set_print (getenv ''ND100X_PRINT_VERSION'')
    (set_microcode (getenv ''ND100X_MICROCODE_VERSION'')
    (set_legal_users (getenv ''ND100X_LEGAL_USERS'')
    (set_number VERSN_PROM_SYSTYPE_HI VERSN_PROM_SYSTYPE_LO (getenv ''ND100X_SYSTEM_TYPE'')
    (set_number VERSN_PROM_SYSNO_HI VERSN_PROM_SYSNO_LO (getenv ''ND100X_CPU_NUMBER'')
    (set_raw_image (getenv ''ND100X_INSTALLATION_NUMBER'') v)))))"

section \<open>The instruction\<close>

definition opcode_versn :: "VersnIdentity \<Rightarrow> (unit, 'd) exec" where
  "opcode_versn v m =
     (let offset = unat (drop_bit 8 (cur R_A (g_reg m)) AND 0x0F) in
      seq (put R_D (ucast (prom v ! offset)))
        (\<lambda>m. let ald = reg_ALD (g_reg m) AND 0x0F in
          if g_current_cpu_type m = ND120CX
          then seq (put R_A (word_of_int (push_bit 13 (5 AND 0x07) OR push_bit 8 (20 AND 0x1F) OR push_bit 7 1
                                            OR push_bit 4 (4 AND 0x07)) OR ald))
                   (put R_T 0x800C) m
          else seq (put R_A (word_of_int (push_bit 4 (print_version v)) OR ald))
                   (put R_T (word_of_int ((microcode_version v AND 0x7FFF) OR (if versn_is_nd120 m then 0x8000 else 0)))) m) m)"

section \<open>Numbers read back\<close>

definition digit_char :: "nat \<Rightarrow> char" where
  "digit_char k = (if k < 10 then char_of (48 + k) else char_of (55 + k))"

function digits_in :: "nat \<Rightarrow> nat \<Rightarrow> string" where
  "digits_in r n = (if n < r \<or> r < 2 then [digit_char n] else digits_in r (n div r) @ [digit_char (n mod r)])"
  by auto
termination by (relation "measure snd") auto

declare digits_in.simps [simp del]

lemma hex_digit_char: "k < 16 \<Longrightarrow> versn_hex_digit (digit_char k) = int k"
proof -
  assume "k < 16"
  have "\<forall>k\<in>set [0..<16]. versn_hex_digit (digit_char k) = int k" by code_simp
  with \<open>k < 16\<close> show ?thesis by auto
qed

lemma decimal_char:
  "k < 10 \<Longrightarrow> digit_char k \<notin> {CHR ''x'', CHR ''X'', CHR ''o'', CHR ''O'', CHR ''b'', CHR ''B''}"
  "k < 10 \<Longrightarrow> digit_char k = CHR ''0'' \<longleftrightarrow> k = 0"
proof -
  assume "k < 10"
  have "\<forall>k\<in>set [0..<10]. digit_char k \<notin> {CHR ''x'', CHR ''X'', CHR ''o'', CHR ''O'', CHR ''b'', CHR ''B''}
    \<and> (digit_char k = CHR ''0'' \<longleftrightarrow> k = 0)" by code_simp
  with \<open>k < 10\<close> show "digit_char k \<notin> {CHR ''x'', CHR ''X'', CHR ''o'', CHR ''O'', CHR ''b'', CHR ''B''}"
    "digit_char k = CHR ''0'' \<longleftrightarrow> k = 0" by auto
qed

lemma parse_digits_append:
  "parse_digits r acc (xs @ ys) = (case parse_digits r acc xs of None \<Rightarrow> None | Some a \<Rightarrow> parse_digits r a ys)"
  by (induction r acc xs rule: parse_digits.induct) (auto simp: Let_def)

lemma parse_digits_in:
  "2 \<le> r \<Longrightarrow> r \<le> 16 \<Longrightarrow> n \<le> 0xFFFF \<Longrightarrow> parse_digits (int r) 0 (digits_in r n) = Some (int n)"
proof (induction r n rule: digits_in.induct)
  case (1 r n)
  show ?case
  proof (cases "n < r")
    case True
    then show ?thesis using 1 by (subst digits_in.simps) (simp add: hex_digit_char)
  next
    case False
    have "n div r \<le> 0xFFFF" using 1(4) div_le_dividend [of n r] by linarith
    then have "parse_digits (int r) 0 (digits_in r (n div r)) = Some (int (n div r))"
      using 1 False by (intro "1.IH") auto
    moreover define q k where "q = n div r" and "k = n mod r"
    moreover have "int q * int r + int k = int n" unfolding q_def k_def
      by (metis div_mult_mod_eq of_nat_add of_nat_mult)
    moreover have "k < 16" "k < r" "int n \<le> 0xFFFF"
      using 1(2-4) mod_less_divisor [of r n] unfolding k_def by linarith+
    moreover have "digits_in r n = digits_in r q @ [digit_char k]"
      using False 1(2) unfolding q_def k_def by (subst digits_in.simps) simp
    ultimately show ?thesis
      by (simp add: parse_digits_append hex_digit_char Let_def)
  qed
qed

lemma digits_in_nonempty: "digits_in r n \<noteq> []"
  by (subst digits_in.simps) simp

lemma digits_in_shape:
  "2 \<le> r \<Longrightarrow> r \<le> 10 \<Longrightarrow> digits_in r n \<noteq> [] \<and> (\<forall>c\<in>set (digits_in r n). \<exists>k<10. c = digit_char k)
     \<and> (hd (digits_in r n) = CHR ''0'' \<longrightarrow> length (digits_in r n) = 1)"
proof (induction r n rule: digits_in.induct)
  case (1 r n)
  show ?case
  proof (cases "n < r")
    case True
    then have "digits_in r n = [digit_char n]" "n < 10" using 1 by (simp_all add: digits_in.simps)
    then show ?thesis by auto
  next
    case False
    have ih: "digits_in r (n div r) \<noteq> []" "\<forall>c\<in>set (digits_in r (n div r)). \<exists>k<10. c = digit_char k"
      "hd (digits_in r (n div r)) = CHR ''0'' \<longrightarrow> length (digits_in r (n div r)) = 1"
      using 1 False by auto
    have "hd (digits_in r (n div r)) \<noteq> CHR ''0''"
    proof
      assume z: "hd (digits_in r (n div r)) = CHR ''0''"
      then have "length (digits_in r (n div r)) = 1" using ih(3) by simp
      then have "n div r < r" using 1(2) by (subst (asm) digits_in.simps) (auto split: if_splits simp: digits_in_nonempty)
      then have "digit_char (n div r) = CHR ''0''" using z by (subst (asm) digits_in.simps) simp
      then have "n div r = 0" using \<open>n div r < r\<close> 1(3) decimal_char(2) [of "n div r"] by simp
      then show False using False 1(2) by (simp add: div_eq_0_iff)
    qed
    moreover have "n mod r < 10" using 1(2,3) mod_less_divisor [of r n] by linarith
    ultimately show ?thesis using ih False 1(2) by (subst (1 2 3 4) digits_in.simps) auto
  qed
qed

text \<open>
  Round trip: every number a PROM word or a version register can take is read back from its
  decimal text, from its hexadecimal text after \<open>0x\<close>, and from its octal text after
  \<open>0o\<close> or before \<open>B\<close>.
\<close>

theorem identity_numbers_parse:
  assumes "n \<le> 0xFFFF"
  shows "versn_parse_number (digits_in 10 n) = Some (int n) \<and>
    versn_parse_number (''0x'' @ digits_in 16 n) = Some (int n) \<and>
    versn_parse_number (''0o'' @ digits_in 8 n) = Some (int n) \<and>
    versn_parse_number (digits_in 8 n @ ''B'') = Some (int n)"
proof (intro conjI)
  let ?d = "digits_in 10 n" and ?o = "digits_in 8 n"
  have nonempty: "digits_in r n \<noteq> []" "0 < length (digits_in r n)" for r
    using digits_in_nonempty by auto
  have shape: "\<forall>c\<in>set ?d. \<exists>k<10. c = digit_char k" "hd ?d = CHR ''0'' \<longrightarrow> length ?d = 1"
    "\<forall>c\<in>set ?o. \<exists>k<10. c = digit_char k"
    using digits_in_shape [of 10 n] digits_in_shape [of 8 n] by auto
  have no: "ds ! i \<notin> {CHR ''x'', CHR ''X'', CHR ''o'', CHR ''O'', CHR ''b'', CHR ''B''}"
    if "\<forall>c\<in>set ds. \<exists>k<10. c = digit_char k" "i < length ds" for ds i
    using that decimal_char(1) by (metis nth_mem)
  have len: "hd ?d = ?d ! 0" using nonempty by (simp add: hd_conv_nth)
  show "versn_parse_number ?d = Some (int n)"
    using parse_digits_in [of 10 n] assms nonempty [of 10] shape(2) len no [OF shape(1), of 1]
      no [OF shape(1), of "length ?d - 1"]
    by (auto simp: versn_parse_number_def Let_def)
  show "versn_parse_number (''0x'' @ digits_in 16 n) = Some (int n)"
    using parse_digits_in [of 16 n] assms nonempty [of 16] by (simp add: versn_parse_number_def)
  show "versn_parse_number (''0o'' @ ?o) = Some (int n)"
    using parse_digits_in [of 8 n] assms nonempty [of 8] by (simp add: versn_parse_number_def)
  have "(?o @ ''B'') ! 1 \<notin> {CHR ''x'', CHR ''X'', CHR ''o'', CHR ''O''}"
    using no [OF shape(3), of 1] nonempty [of 8] by (cases "length ?o = 1") (auto simp: nth_append neq_Nil_conv Suc_lessI)
  then show "versn_parse_number (?o @ ''B'') = Some (int n)"
    using parse_digits_in [of 8 n] assms nonempty [of 8] by (auto simp: versn_parse_number_def Let_def nth_append)
qed

theorem identity_numbers_parse_witness:
  "versn_parse_number (digits_in 8 42 @ ''B'') = Some 42 \<and> digits_in 8 42 = ''52''"
  using identity_numbers_parse [of 42] by (simp add: digits_in.simps digit_char_def char_of_def) code_simp

section \<open>The identity stays well formed\<close>

text \<open>
  The PROM has its sixteen bytes, the versions fit the fields VERSN reports them in, and a
  changed PROM word carries the signature.
\<close>

definition versn_ok :: "VersnIdentity \<Rightarrow> bool" where
  "versn_ok v \<longleftrightarrow> length (prom v) = VERSN_PROM_SIZE
     \<and> 0 \<le> microcode_version v \<and> microcode_version v \<le> 0xFFFF
     \<and> 0 \<le> print_version v \<and> print_version v \<le> 0x0FFF"

lemma reset_versn_ok: "versn_ok (cpu_versn_reset t v)"
  by (simp add: versn_ok_def cpu_versn_reset_def versn_load_default_prom_def)

lemma parse_digits_range:
  "0 \<le> acc \<Longrightarrow> acc \<le> 0xFFFF \<Longrightarrow> 0 \<le> r \<Longrightarrow> parse_digits r acc cs = Some n \<Longrightarrow> 0 \<le> n \<and> n \<le> 0xFFFF"
  by (induction r acc cs rule: parse_digits.induct) (auto simp: Let_def split: if_splits)

lemma parse_number_range: "versn_parse_number text = Some n \<Longrightarrow> 0 \<le> n \<and> n \<le> 0xFFFF"
  by (auto simp: versn_parse_number_def Let_def split: if_splits dest!: parse_digits_range [rotated 3])

lemma pair_up_length: "length (pair_up ds) = length ds div 2"
  by (induction ds rule: pair_up.induct) simp_all

lemma set_steps_ok:
  "versn_ok v \<Longrightarrow> versn_ok (set_raw_image env v)"
  "versn_ok v \<Longrightarrow> versn_ok (set_number hi lo env v)"
  "versn_ok v \<Longrightarrow> versn_ok (set_legal_users env v)"
  "versn_ok v \<Longrightarrow> versn_ok (set_print env v)"
  by (auto simp: versn_ok_def set_raw_image_def set_number_def set_legal_users_def set_print_def Let_def
      versn_set_word_def pair_up_length split: option.splits dest: parse_number_range)

lemma set_microcode_ok: "versn_ok v \<Longrightarrow> versn_ok (set_microcode env v)"
  by (auto simp: versn_ok_def set_microcode_def split: option.splits)

text \<open>C40
  Bounds: from a reset identity, whatever the environment variables hold (malformed and
  oversized values included), the PROM keeps its sixteen bytes, the print version fits its
  twelve bits and the microcode version its sixteen; VERSN then reads inside the PROM for
  every value of A and returns the selected byte in D.
\<close>

theorem versn_reads_prom:
  "let v = cpu_versn_set_identity_from_env getenv (cpu_versn_reset t v0);
       k = unat (drop_bit 8 (cur R_A (g_reg m)) AND 0x0F);
       m' = final_state (opcode_versn v m)
   in versn_ok v \<and> k < length (prom v) \<and> \<not> trapped (opcode_versn v m)
      \<and> cur R_D (g_reg m') = ucast (prom v ! k)"
proof -
  define v where "v = cpu_versn_set_identity_from_env getenv (cpu_versn_reset t v0)"
  define k where "k = unat (drop_bit 8 (cur R_A (g_reg m)) AND 0x0F)"
  have ok: "versn_ok v" unfolding v_def cpu_versn_set_identity_from_env_def
    by (intro set_steps_ok set_microcode_ok reset_versn_ok)
  have "(0x0F :: u16) = mask 4" by (simp add: mask_eq_exp_minus_1)
  then have "k < 2 ^ 4" unfolding k_def by (rule and_mask_lt)
  then have "k < length (prom v)" using ok by (simp add: versn_ok_def)
  then show ?thesis
    using ok unfolding v_def [symmetric] k_def [symmetric] Let_def
    by (simp add: opcode_versn_def seq_def put_def on_regs_def Let_def flip: k_def)
qed

end
