(* ===== verification/Devices.thy ===== *)
theory Devices
  imports Moves
begin

text \<open>
  The device layer: the generic part of every I/O card (\<open>src/devices/device.c\<close>), the device
  manager (\<open>src/devices/devicemanager.c\<close>), the IOX side of \<open>src/machine/io.c\<close> and the I/O
  instructions of \<open>src/cpu/cpu_instr.c\<close>. A card is its \<open>Device\<close> record; its C function
  pointers are the \<open>DeviceOps\<close> of its type, the parameter \<open>ops\<close>, and a device pointer is
  its index in the manager's table. Callbacks are code over the whole machine: a card may queue
  delays on others, use memory and request interrupts. Logging, allocation failure, boot and the
  host files behind the cards are left out.
\<close>

section \<open>Loops over code that may not end\<close>

type_synonym ('a, 'd) loop = "'d machine \<Rightarrow> ('a, 'd machine) outcome option"

definition always :: "('a, 'd) exec \<Rightarrow> ('a, 'd) loop" where
  "always f m = Some (f m)"

definition bindl :: "('a, 'd) loop \<Rightarrow> ('a \<Rightarrow> ('b, 'd) loop) \<Rightarrow> ('b, 'd) loop" where
  "bindl f g m = (case f m of None \<Rightarrow> None | Some (Trap m') \<Rightarrow> Some (Trap m') | Some (Done x m') \<Rightarrow> g x m')"

text \<open>A pass continues with new loop variables or leaves with a result.\<close>

partial_function (option) while_loop ::
  "('x \<Rightarrow> 'd machine \<Rightarrow> ('x + 'y, 'd machine) outcome option) \<Rightarrow> 'x \<Rightarrow> 'd machine \<Rightarrow> ('y, 'd machine) outcome option" where
  "while_loop f x m =
     (case f x m of
        None \<Rightarrow> None
      | Some (Trap m') \<Rightarrow> Some (Trap m')
      | Some (Done y m') \<Rightarrow> (case y of Inl x' \<Rightarrow> while_loop f x' m' | Inr z \<Rightarrow> Some (Done z m')))"

section \<open>Devices\<close>

datatype DeviceType = DEVICE_TYPE_NONE | DEVICE_TYPE_RTC | DEVICE_TYPE_TERMINAL | DEVICE_TYPE_PAPER_TAPE
  | DEVICE_TYPE_FLOPPY_PIO | DEVICE_TYPE_FLOPPY_DMA | DEVICE_TYPE_DISC_SMD | DEVICE_TYPE_HDLC | DEVICE_TYPE_LINE_PRINTER
  | DEVICE_TYPE_PAPER_TAPE_WRITER | DEVICE_TYPE_DISC_SCSI | DEVICE_TYPE_DRUM | DEVICE_TYPE_CDC
  | DEVICE_TYPE_DISC_WINCHESTER | DEVICE_TYPE_OCTOBUS | DEVICE_TYPE_ETHERNET | DEVICE_TYPE_MAX

text \<open>A delayed callback is a value of type \<open>'c\<close>, which names a C function.\<close>

record 'c DelayedIoInfo =
  delayTicks :: int
  callback :: 'c
  parameter :: int
  delay_level :: u8

record ('x, 'c) Device =
  startAddress :: u32
  endAddress :: u32
  interruptBits :: u16
  interruptLevel :: u16
  identCode :: u16
  dev_type :: DeviceType
  ioDelays :: "'c DelayedIoInfo list"
  tickAlways :: bool
  inTickList :: bool
  tickOrder :: int
  nord1Device :: u16
  nord1DeviceCount :: u8
  deviceData :: 'x

text \<open>The manager's table and the statics of \<open>devmgr_tick\<close>.\<close>

record ('x, 'c) DeviceManager =
  dm_devices :: "('x, 'c) Device list"
  deviceCapacity :: nat
  dev_tick_wanted :: bool
  dev_irq_dirty :: bool
  s_tick_list :: "nat list"
  s_tick_list_devices :: int
  s_irq_bits :: u16

type_synonym ('x, 'c) board = "('x, 'c) DeviceManager machine"
type_synonym ('a, 'x, 'c) io = "('a, ('x, 'c) DeviceManager) exec"

text \<open>The function pointers of a card; \<open>None\<close> is \<open>NULL\<close>.\<close>

record ('x, 'c) DeviceOps =
  Tick :: "(nat \<Rightarrow> (unit, ('x, 'c) DeviceManager) loop) option"
  TickNeeded :: "(('x, 'c) Device \<Rightarrow> bool) option"
  Read :: "(nat \<Rightarrow> u32 \<Rightarrow> (u16, 'x, 'c) io) option"
  Write :: "(nat \<Rightarrow> u32 \<Rightarrow> u16 \<Rightarrow> (unit, 'x, 'c) io) option"
  Ident :: "(nat \<Rightarrow> u16 \<Rightarrow> (u16, 'x, 'c) io) option"
  IotOp :: "(nat \<Rightarrow> u8 \<Rightarrow> u8 \<Rightarrow> u16 \<Rightarrow> (bool \<times> u16 \<times> bool, 'x, 'c) io) option"

type_synonym ('x, 'c) ops = "DeviceType \<Rightarrow> ('x, 'c) DeviceOps"

definition dev :: "nat \<Rightarrow> ('x, 'c) board \<Rightarrow> ('x, 'c) Device" where
  "dev i m = dm_devices (devices m) ! i"

definition dev_count :: "('x, 'c) board \<Rightarrow> nat" where
  "dev_count m = length (dm_devices (devices m))"

definition on_manager :: "(('x, 'c) DeviceManager \<Rightarrow> ('x, 'c) DeviceManager) \<Rightarrow> ('x, 'c) board \<Rightarrow> ('x, 'c) board" where
  "on_manager f m = m\<lparr>devices := f (devices m)\<rparr>"

definition set_dev :: "nat \<Rightarrow> (('x, 'c) Device \<Rightarrow> ('x, 'c) Device) \<Rightarrow> ('x, 'c) board \<Rightarrow> ('x, 'c) board" where
  "set_dev i f = on_manager (\<lambda>d. d\<lparr>dm_devices := (dm_devices d)[i := f (dm_devices d ! i)]\<rparr>)"

definition ops_of :: "('x, 'c) ops \<Rightarrow> nat \<Rightarrow> ('x, 'c) board \<Rightarrow> ('x, 'c) DeviceOps" where
  "ops_of ops i m = ops (dev_type (dev i m))"

definition dev_is_in_address :: "('x, 'c) Device \<Rightarrow> u32 \<Rightarrow> bool" where
  "dev_is_in_address d address \<longleftrightarrow> startAddress d \<le> address \<and> address \<le> endAddress d"

definition dev_register_address :: "('x, 'c) Device \<Rightarrow> u32 \<Rightarrow> u32" where
  "dev_register_address d address = address - startAddress d"

definition dev_read :: "('x, 'c) ops \<Rightarrow> nat \<Rightarrow> u32 \<Rightarrow> (u16, 'x, 'c) io" where
  "dev_read ops i address m = (case Read (ops_of ops i m) of None \<Rightarrow> Done 0 m | Some f \<Rightarrow> f i address m)"

definition dev_write :: "('x, 'c) ops \<Rightarrow> nat \<Rightarrow> u32 \<Rightarrow> u16 \<Rightarrow> (unit, 'x, 'c) io" where
  "dev_write ops i address v m = (case Write (ops_of ops i m) of None \<Rightarrow> Done () m | Some f \<Rightarrow> f i address v m)"

definition dev_ident :: "('x, 'c) ops \<Rightarrow> nat \<Rightarrow> u16 \<Rightarrow> (u16, 'x, 'c) io" where
  "dev_ident ops i lvl m = (case Ident (ops_of ops i m) of None \<Rightarrow> Done 0 m | Some f \<Rightarrow> f i lvl m)"

section \<open>Requests for a tick and for an interrupt\<close>

definition dev_request_tick :: "('x, 'c) board \<Rightarrow> ('x, 'c) board" where
  "dev_request_tick = on_manager (\<lambda>d. d\<lparr>dev_tick_wanted := True\<rparr>)"

definition dev_irq_changed :: "('x, 'c) board \<Rightarrow> ('x, 'c) board" where
  "dev_irq_changed = on_manager (\<lambda>d. d\<lparr>dev_irq_dirty := True\<rparr>)"

definition device_clear_interrupt :: "nat \<Rightarrow> nat \<Rightarrow> ('x, 'c) board \<Rightarrow> ('x, 'c) board" where
  "device_clear_interrupt i lvl m =
     (if 10 \<le> lvl \<and> lvl \<le> 13 \<and> interruptBits (dev i m) AND push_bit lvl 1 \<noteq> 0
      then dev_irq_changed (set_dev i (\<lambda>d. d\<lparr>interruptBits := interruptBits d AND NOT (push_bit lvl 1)\<rparr>) m) else m)"

definition dev_generate_interrupt :: "nat \<Rightarrow> nat \<Rightarrow> ('x, 'c) board \<Rightarrow> ('x, 'c) board" where
  "dev_generate_interrupt i lvl m =
     (if 10 \<le> lvl \<and> lvl \<le> 13 \<and> interruptBits (dev i m) AND push_bit lvl 1 = 0
      then dev_irq_changed (set_dev i (\<lambda>d. d\<lparr>interruptBits := interruptBits d OR push_bit lvl 1\<rparr>) m) else m)"

definition dev_set_interrupt_status :: "nat \<Rightarrow> bool \<Rightarrow> nat \<Rightarrow> ('x, 'c) board \<Rightarrow> ('x, 'c) board" where
  "dev_set_interrupt_status i active lvl m =
     (if active then dev_generate_interrupt i lvl m else device_clear_interrupt i lvl m)"

section \<open>Delayed callbacks\<close>

definition dev_queue_io_delay :: "nat \<Rightarrow> u32 \<Rightarrow> 'c \<Rightarrow> int \<Rightarrow> u8 \<Rightarrow> ('x, 'c) board \<Rightarrow> ('x, 'c) board" where
  "dev_queue_io_delay i ticks cb param irqlevel m =
     dev_request_tick (set_dev i (\<lambda>d. d\<lparr>ioDelays := ioDelays d @
       [\<lparr>delayTicks = sint ticks, callback = cb, parameter = param, delay_level = irqlevel\<rparr>]\<rparr>) m)"

text \<open>
  One turn of the loop of \<open>dev_tick_io_delay\<close> at position \<open>k\<close>. A callback that queues another
  delay makes the list longer while it is walked.
\<close>

definition count_down :: "nat \<Rightarrow> 'c DelayedIoInfo list \<Rightarrow> 'c DelayedIoInfo list" where
  "count_down k ds = ds[k := (ds ! k)\<lparr>delayTicks := delayTicks (ds ! k) - 1\<rparr>]"

definition remove_at :: "nat \<Rightarrow> 'a list \<Rightarrow> 'a list" where
  "remove_at k xs = take k xs @ drop (Suc k) xs"

type_synonym ('x, 'c) delayed = "'c \<Rightarrow> nat \<Rightarrow> int \<Rightarrow> (bool, 'x, 'c) io"

definition delay_pass :: "('x, 'c) delayed \<Rightarrow> nat \<Rightarrow> nat \<Rightarrow> (nat + unit, 'x, 'c) io" where
  "delay_pass run i k m =
     (if k \<ge> length (ioDelays (dev i m)) then Done (Inr ()) m
      else let m1 = set_dev i (\<lambda>d. d\<lparr>ioDelays := count_down k (ioDelays d)\<rparr>) m; e = ioDelays (dev i m1) ! k
           in if delayTicks e \<le> 0
              then bind_out (run (callback e) i (parameter e))
                     (\<lambda>triggered m2.
                        let lvl = delay_level (ioDelays (dev i m2) ! k);
                            m3 = (if triggered \<and> lvl > 0 then dev_generate_interrupt i (unat lvl) m2 else m2)
                        in Done (Inl k) (set_dev i (\<lambda>d. d\<lparr>ioDelays := remove_at k (ioDelays d)\<rparr>) m3)) m1
              else Done (Inl (Suc k)) m1)"

definition dev_tick_io_delay :: "('x, 'c) delayed \<Rightarrow> nat \<Rightarrow> (unit, ('x, 'c) DeviceManager) loop" where
  "dev_tick_io_delay run i = while_loop (\<lambda>k. always (delay_pass run i k)) 0"

section \<open>Direct memory access\<close>

text \<open>A card's transfer goes to physical memory past the shadow window; \<open>g_dma_access\<close> says so to the MMS.\<close>

definition dev_dma_write :: "u32 \<Rightarrow> u16 \<Rightarrow> (unit, 'd) exec" where
  "dev_dma_write core_address v =
     seq (modify (g_dma_access_update (\<lambda>_. True)))
       (seq (mms_write_physical_memory (sint (core_address AND 0xFFFFFF)) v False)
         (modify (g_dma_access_update (\<lambda>_. False))))"

definition dev_dma_read :: "u32 \<Rightarrow> (u16, 'd) exec" where
  "dev_dma_read core_address =
     seq (modify (g_dma_access_update (\<lambda>_. True)))
       (bind_out (mms_read_physical_memory (sint (core_address AND 0xFFFFFF)) False)
         (\<lambda>result. seq (modify (g_dma_access_update (\<lambda>_. False))) (ret result)))"

section \<open>The device manager\<close>

definition devmgr_init :: "('x, 'c) DeviceManager" where
  "devmgr_init = \<lparr>dm_devices = [], deviceCapacity = 32, dev_tick_wanted = True, dev_irq_dirty = True,
     s_tick_list = [], s_tick_list_devices = - 1, s_irq_bits = 0\<rparr>"

text \<open>\<open>devmgr_add_device\<close> after the card has been created and reset.\<close>

definition devmgr_add_device :: "('x, 'c) Device \<Rightarrow> ('x, 'c) DeviceManager \<Rightarrow> bool \<times> ('x, 'c) DeviceManager" where
  "devmgr_add_device d s =
     (if length (dm_devices s) \<ge> deviceCapacity s then (False, s)
      else if \<exists>other\<in>set (dm_devices s). startAddress d \<le> endAddress other \<and> startAddress other \<le> endAddress d
      then (False, s)
      else (True, s\<lparr>dm_devices := dm_devices s @ [d]\<rparr>))"

definition device_at :: "u32 \<Rightarrow> ('x, 'c) board \<Rightarrow> nat option" where
  "device_at address m = find (\<lambda>i. dev_is_in_address (dev i m) address) [0..<dev_count m]"

abbreviation IOX_error :: u16 where "IOX_error \<equiv> push_bit 7 1"

definition devmgr_read :: "('x, 'c) ops \<Rightarrow> u32 \<Rightarrow> (u16, 'x, 'c) io" where
  "devmgr_read ops address m =
     (case device_at address m of
        Some i \<Rightarrow> dev_read ops i address m
      | None \<Rightarrow> bind_out (cpu_interrupt 14 IOX_error) (\<lambda>_. ret 0) m)"

definition devmgr_write :: "('x, 'c) ops \<Rightarrow> u32 \<Rightarrow> u16 \<Rightarrow> (unit, 'x, 'c) io" where
  "devmgr_write ops address v m =
     (case device_at address m of
        Some i \<Rightarrow> dev_write ops i address v m
      | None \<Rightarrow> cpu_interrupt 14 IOX_error m)"

primrec ident_scan :: "('x, 'c) ops \<Rightarrow> nat \<Rightarrow> nat list \<Rightarrow> (int, 'x, 'c) io" where
  "ident_scan ops lvl [] = ret (- 1)"
| "ident_scan ops lvl (i # is) = (\<lambda>m.
     if interruptBits (dev i m) AND push_bit lvl 1 \<noteq> 0
     then bind_out (dev_ident ops i (of_nat lvl))
            (\<lambda>id m. if id > 0
               then Done (uint id) (dev_irq_changed (set_dev i (\<lambda>d. d\<lparr>interruptBits := interruptBits d AND NOT (push_bit lvl 1)\<rparr>) m))
               else ident_scan ops lvl is m) m
     else ident_scan ops lvl is m)"

definition devmgr_ident :: "('x, 'c) ops \<Rightarrow> nat \<Rightarrow> (int, 'x, 'c) io" where
  "devmgr_ident ops lvl m = ident_scan ops lvl [0..<dev_count m] m"

text \<open>The first card that answers the NORD-1 device number; without one the result is \<open>None\<close>.\<close>

definition answers_nord1 :: "('x, 'c) ops \<Rightarrow> u8 \<Rightarrow> ('x, 'c) Device \<Rightarrow> bool" where
  "answers_nord1 ops devno d \<longleftrightarrow>
     IotOp (ops (dev_type d)) \<noteq> None \<and> nord1Device d \<noteq> 0
     \<and> (let first = unat (nord1Device d); count = (if nord1DeviceCount d = 0 then 1 else unat (nord1DeviceCount d))
        in first \<le> unat devno \<and> unat devno < first + count)"

definition devmgr_iot_op :: "('x, 'c) ops \<Rightarrow> u8 \<Rightarrow> u8 \<Rightarrow> u16 \<Rightarrow> (bool \<times> u16 \<times> bool, 'x, 'c) io" where
  "devmgr_iot_op ops devno func a m =
     (case find (\<lambda>i. answers_nord1 ops devno (dev i m)) [0..<dev_count m] of
        Some i \<Rightarrow> the (IotOp (ops_of ops i m)) i devno func a m
      | None \<Rightarrow> Done (False, a, False) m)"

section \<open>Ticking\<close>

definition has_Tick :: "('x, 'c) ops \<Rightarrow> ('x, 'c) Device \<Rightarrow> bool" where
  "has_Tick ops d \<longleftrightarrow> Tick (ops (dev_type d)) \<noteq> None"

abbreviation (input) tick_list_size :: nat where "tick_list_size \<equiv> 64"

definition number_devices :: "('x, 'c) Device list \<Rightarrow> ('x, 'c) Device list" where
  "number_devices ds = map (\<lambda>(i, d). d\<lparr>tickOrder := int i\<rparr>) (enumerate 0 ds)"

definition tick_members :: "('x, 'c) ops \<Rightarrow> ('x, 'c) Device list \<Rightarrow> nat list" where
  "tick_members ops ds = filter (\<lambda>i. has_Tick ops (ds ! i) \<and> (tickAlways (ds ! i) \<or> inTickList (ds ! i))) [0..<length ds]"

definition devmgr_rebuild_tick_list :: "('x, 'c) ops \<Rightarrow> ('x, 'c) DeviceManager \<Rightarrow> ('x, 'c) DeviceManager" where
  "devmgr_rebuild_tick_list ops s =
     s\<lparr>dm_devices := number_devices (dm_devices s), s_tick_list := take tick_list_size (tick_members ops (dm_devices s))\<rparr>"

definition devmgr_has_work :: "('x, 'c) ops \<Rightarrow> ('x, 'c) Device \<Rightarrow> bool" where
  "devmgr_has_work ops d \<longleftrightarrow>
     ioDelays d \<noteq> [] \<or> (case TickNeeded (ops (dev_type d)) of None \<Rightarrow> False | Some needed \<Rightarrow> needed d)"

definition joins :: "('x, 'c) ops \<Rightarrow> ('x, 'c) Device \<Rightarrow> bool" where
  "joins ops d \<longleftrightarrow> has_Tick ops d \<and> \<not> tickAlways d \<and> \<not> inTickList d \<and> devmgr_has_work ops d"

definition devmgr_take_requests :: "('x, 'c) ops \<Rightarrow> ('x, 'c) DeviceManager \<Rightarrow> bool \<times> ('x, 'c) DeviceManager" where
  "devmgr_take_requests ops s =
     (if \<not> dev_tick_wanted s then (False, s)
      else let added = (\<exists>d\<in>set (dm_devices s). joins ops d);
               s1 = s\<lparr>dev_tick_wanted := False,
                      dm_devices := map (\<lambda>d. if joins ops d then d\<lparr>inTickList := True\<rparr> else d) (dm_devices s)\<rparr>
           in (added, if added then devmgr_rebuild_tick_list ops s1 else s1))"

text \<open>
  One turn of the loop over the tick list; the loop variables are the position and \<open>removed\<close>.
  Every listed card has a \<open>Tick\<close>; a call through \<open>NULL\<close> would not return.
\<close>

definition after_tick :: "('x, 'c) ops \<Rightarrow> nat \<Rightarrow> bool \<Rightarrow> ('x, 'c) board \<Rightarrow> bool \<times> ('x, 'c) board" where
  "after_tick ops i removed m =
     (if \<not> tickAlways (dev i m) \<and> \<not> devmgr_has_work ops (dev i m)
      then (True, set_dev i (\<lambda>d. d\<lparr>inTickList := False\<rparr>) m) else (removed, m))"

definition tick_pass :: "('x, 'c) ops \<Rightarrow> nat \<times> bool \<Rightarrow> ((nat \<times> bool) + bool, ('x, 'c) DeviceManager) loop" where
  "tick_pass ops = (\<lambda>(k, removed) m.
     if k \<ge> length (s_tick_list (devices m)) then Some (Done (Inr removed) m)
     else let i = s_tick_list (devices m) ! k; order = tickOrder (dev i m) in
       bindl (case Tick (ops_of ops i m) of None \<Rightarrow> (\<lambda>_. None) | Some f \<Rightarrow> f i)
         (\<lambda>_ m1. let (removed1, m2) = after_tick ops i removed m1;
                     (joined, s3) = devmgr_take_requests ops (devices m2); m3 = m2\<lparr>devices := s3\<rparr>
                 in if joined
                    then Some (Done (Inl (length (takeWhile (\<lambda>j. tickOrder (dev j m3) \<le> order) (s_tick_list s3)), False)) m3)
                    else Some (Done (Inl (Suc k, removed1)) m3)) m)"

definition irq_or :: "('x, 'c) ops \<Rightarrow> ('x, 'c) Device list \<Rightarrow> u16" where
  "irq_or ops ds = fold (\<lambda>d bits. if has_Tick ops d then bits OR interruptBits d else bits) ds 0"

definition collect_irq :: "('x, 'c) ops \<Rightarrow> ('x, 'c) DeviceManager \<Rightarrow> ('x, 'c) DeviceManager" where
  "collect_irq ops s =
     (if dev_irq_dirty s then s\<lparr>dev_irq_dirty := False, s_irq_bits := irq_or ops (dm_devices s)\<rparr> else s)"

definition new_table :: "('x, 'c) ops \<Rightarrow> ('x, 'c) DeviceManager \<Rightarrow> ('x, 'c) DeviceManager" where
  "new_table ops s =
     (if s_tick_list_devices s = int (length (dm_devices s)) then s
      else (devmgr_rebuild_tick_list ops
             (s\<lparr>dm_devices := map (\<lambda>d. d\<lparr>inTickList := False\<rparr>) (dm_devices s),
                s_tick_list_devices := int (length (dm_devices s))\<rparr>))
           \<lparr>dev_tick_wanted := True, dev_irq_dirty := True\<rparr>)"

definition devmgr_tick :: "('x, 'c) ops \<Rightarrow> (u16, ('x, 'c) DeviceManager) loop" where
  "devmgr_tick ops m =
     bindl (while_loop (tick_pass ops) (0, False))
       (\<lambda>removed m1.
          let s2 = (if removed then devmgr_rebuild_tick_list ops (devices m1) else devices m1); s3 = collect_irq ops s2
          in Some (Done (s_irq_bits s3) (m1\<lparr>devices := s3\<rparr>)))
       (on_manager (\<lambda>s. snd (devmgr_take_requests ops (new_table ops s))) m)"

definition IO_Tick :: "('x, 'c) ops \<Rightarrow> (unit, ('x, 'c) DeviceManager) loop" where
  "IO_Tick ops = bindl (devmgr_tick ops)
     (\<lambda>interrupt_bits. always (if interrupt_bits \<noteq> 0 then on_regs (cpu_device_interrupt interrupt_bits) else ret ()))"

section \<open>The I/O instructions\<close>

definition io_op :: "('x, 'c) ops \<Rightarrow> u16 \<Rightarrow> u16 \<Rightarrow> (u16, 'x, 'c) io" where
  "io_op ops ioadd reg_a =
     (if ioadd AND 1 \<noteq> 0 then seq (devmgr_write ops (ucast ioadd) reg_a) (ret reg_a)
      else devmgr_read ops (ucast ioadd))"

definition update_memory_io :: "CpuRegs \<Rightarrow> bool \<times> CpuRegs" where
  "update_memory_io r =
     (if cur R_T r < 0x8000 \<or> cur R_T r > 0x81FF then (False, r)
      else if cur R_T r = 0x804D then (True, r\<lparr>reg_ECCR := cur R_A r\<rparr>) else (False, r))"

definition unless_memory_io :: "(unit, 'd) exec \<Rightarrow> (unit, 'd) exec" where
  "unless_memory_io body m =
     (let (handled, r) = update_memory_io (g_reg m) in if handled then Done () (m\<lparr>g_reg := r\<rparr>) else body m)"

definition io_exchange :: "('x, 'c) ops \<Rightarrow> u16 \<Rightarrow> (unit, 'x, 'c) io" where
  "io_exchange ops ioadd = bind_out (get R_A) (\<lambda>a. bind_out (io_op ops ioadd a) (put R_A))"

definition opcode_ioxt :: "('x, 'c) ops \<Rightarrow> (unit, 'x, 'c) io" where
  "opcode_ioxt ops = privileged (unless_memory_io (bind_out (get R_T) (io_exchange ops)))"

definition opcode_iox :: "('x, 'c) ops \<Rightarrow> u16 \<Rightarrow> (unit, 'x, 'c) io" where
  "opcode_iox ops operand = privileged (unless_memory_io (io_exchange ops (operand AND 0x07ff)))"

definition opcode_iot :: "('x, 'c) ops \<Rightarrow> u16 \<Rightarrow> (unit, 'x, 'c) io" where
  "opcode_iot ops operand = privileged (unless_memory_io
     (bind_out (get R_A) (\<lambda>a.
      bind_out (devmgr_iot_op ops (ucast (operand AND 0x00ff)) (ucast (drop_bit 8 operand AND 0x07)) a)
        (\<lambda>(handled, a', skip).
           if handled then seq (put R_A a') (if skip then skip_return else ret ())
           else io_exchange ops (operand AND 0x07ff)))))"

definition do_ident :: "('x, 'c) ops \<Rightarrow> nat \<Rightarrow> (unit, 'x, 'c) io" where
  "do_ident ops priolevel =
     bind_out (devmgr_ident ops priolevel)
       (\<lambda>id. if id \<ge> 0 then put R_A (word_of_int id AND 0xFFFF) else cpu_interrupt 14 IOX_error)"

definition cpu_illegal_instr :: "(unit, 'd) exec" where
  "cpu_illegal_instr = cpu_interrupt 14 (push_bit 4 1)"

definition opcode_ident :: "('x, 'c) ops \<Rightarrow> u16 \<Rightarrow> (unit, 'x, 'c) io" where
  "opcode_ident ops operand = privileged
     (let k = operand AND 0x003f in
      if k = 4 then do_ident ops 10
      else if k = 9 then do_ident ops 11
      else if k = 18 then do_ident ops 12
      else if k = 35 then do_ident ops 13
      else cpu_illegal_instr)"

end
