(* ===== verification/Cards.thy ===== *)
theory Cards
  imports Devices
begin

text \<open>
  Six cards in full: the real-time clock (\<open>devices/rtc/device_rtc.c\<close>), the line printer
  (\<open>devices/lineprinter/device_line_printer.c\<close>), the paper tape reader
  (\<open>devices/papertape/device_paper_tape.c\<close>), the paper tape punch
  (\<open>devices/papertapewriter/device_paper_tape_writer.c\<close>), the terminal
  (\<open>devices/terminal/device_terminal.c\<close>) and the drum controller
  (\<open>devices/drum/device_drum.c\<close>), each with its registers, interrupts and reset. The
  bytes handed to a character output handler are kept in a list, oldest first; the
  host's clock is the parameter \<open>rtc_now_ns\<close>, indexed by the number of readings made so far.
\<close>

section \<open>Card data\<close>

record RTCData =
  rtcCounter :: int
  divisionNumberN :: int
  register1 :: u16
  clockCountingStarted :: bool
  nextPulseNs :: u64
  wallLastReadNs :: u64
  wallBatch :: u32
  wallSkip :: u32
  rtc_control :: u16
  rtc_status :: u16
  clock_readings :: nat

record LinePrinterData =
  lp_character :: u8
  lp_status :: u16
  lp_control :: u16
  printed :: "u8 list"

record PaperTapeData =
  ptr_character :: u8
  ptr_status :: u16
  ptr_control :: u16
  tapeData :: "u8 list"
  tapePosition :: nat

record PaperTapeWriterData =
  ptw_character :: u8
  ptw_status :: u16
  ptw_control :: u16
  tapeBuffer :: "u8 list"
  punchPosition :: nat
  punched :: "u8 list"

text \<open>
  The circular buffer of a terminal's input queue is flattened into the record. \<open>line_time\<close> is the
  number of instructions a character of so many half bits takes on the line, which C computes in
  double precision from the speed switch and the rate of the emulator.
\<close>

record TerminalData =
  noCarrier :: bool
  uartInputBuf :: u16
  lineTicksLeft :: u32
  lineTimed :: bool
  queue_buffer :: "u8 list"
  queue_head :: nat
  queue_tail :: nat
  queue_count :: nat
  inputStatus :: u16
  inputControl :: u16
  outputStatus :: u16
  outputControl :: u16
  line_time :: "nat \<Rightarrow> u32"
  shown :: "u8 list"

text \<open>
  The drum's surface, of which the first \<open>surfaceWords\<close> words exist, and the contents of the file
  behind it; file operations are taken to succeed.
\<close>

record DrumData =
  coreAddress :: u32
  blockAddress :: u16
  wordCount :: u16
  drum_control :: u16
  drum_status :: u16
  drum_interruptEnabled :: bool
  surface :: "nat \<Rightarrow> u16"
  surfaceWords :: u32
  backingFile :: "u8 list option"

datatype card_data = RTC (rtc: RTCData) | LP (lp: LinePrinterData) | PTR (ptr: PaperTapeData) | PTW (ptw: PaperTapeWriterData)
  | TTY (tty: TerminalData) | DRUM (drum: DrumData)
datatype card_delay = punch_end_delay | terminal_write_end_delay | drum_end_delay

type_synonym card = "(card_data, card_delay) Device"
type_synonym cards = "(card_data, card_delay) board"

text \<open>Bit fields of a status or control word.\<close>

definition put_bit :: "nat \<Rightarrow> bool \<Rightarrow> u16 \<Rightarrow> u16" where
  "put_bit n b w = (if b then set_bit n w else unset_bit n w)"

abbreviation (input) interruptEnabled_bit :: nat where "interruptEnabled_bit \<equiv> 0"
abbreviation (input) active_bit :: nat where "active_bit \<equiv> 2"
abbreviation (input) externalHoldPulse_bit :: nat where "externalHoldPulse_bit \<equiv> 2"
abbreviation (input) testMode_bit :: nat where "testMode_bit \<equiv> 3"
abbreviation (input) readyForTransfer_bit :: nat where "readyForTransfer_bit \<equiv> 3"
abbreviation (input) deviceClear_bit :: nat where "deviceClear_bit \<equiv> 4"

definition rtc_of :: "nat \<Rightarrow> cards \<Rightarrow> RTCData" where "rtc_of i m = rtc (deviceData (dev i m))"
definition lp_of :: "nat \<Rightarrow> cards \<Rightarrow> LinePrinterData" where "lp_of i m = lp (deviceData (dev i m))"
definition ptr_of :: "nat \<Rightarrow> cards \<Rightarrow> PaperTapeData" where "ptr_of i m = ptr (deviceData (dev i m))"
definition ptw_of :: "nat \<Rightarrow> cards \<Rightarrow> PaperTapeWriterData" where "ptw_of i m = ptw (deviceData (dev i m))"

definition set_rtc :: "nat \<Rightarrow> (RTCData \<Rightarrow> RTCData) \<Rightarrow> cards \<Rightarrow> cards" where
  "set_rtc i f = set_dev i (\<lambda>d. d\<lparr>deviceData := RTC (f (rtc (deviceData d)))\<rparr>)"
definition set_lp :: "nat \<Rightarrow> (LinePrinterData \<Rightarrow> LinePrinterData) \<Rightarrow> cards \<Rightarrow> cards" where
  "set_lp i f = set_dev i (\<lambda>d. d\<lparr>deviceData := LP (f (lp (deviceData d)))\<rparr>)"
definition set_ptr :: "nat \<Rightarrow> (PaperTapeData \<Rightarrow> PaperTapeData) \<Rightarrow> cards \<Rightarrow> cards" where
  "set_ptr i f = set_dev i (\<lambda>d. d\<lparr>deviceData := PTR (f (ptr (deviceData d)))\<rparr>)"
definition set_ptw :: "nat \<Rightarrow> (PaperTapeWriterData \<Rightarrow> PaperTapeWriterData) \<Rightarrow> cards \<Rightarrow> cards" where
  "set_ptw i f = set_dev i (\<lambda>d. d\<lparr>deviceData := PTW (f (ptw (deviceData d)))\<rparr>)"

definition term_of :: "nat \<Rightarrow> cards \<Rightarrow> TerminalData" where "term_of i m = tty (deviceData (dev i m))"

definition on_term :: "(TerminalData \<Rightarrow> TerminalData) \<Rightarrow> card_data \<Rightarrow> card_data" where
  "on_term f x = (case x of TTY t \<Rightarrow> TTY (f t) | y \<Rightarrow> y)"

definition set_term :: "nat \<Rightarrow> (TerminalData \<Rightarrow> TerminalData) \<Rightarrow> cards \<Rightarrow> cards" where
  "set_term i f = set_dev i (\<lambda>d. d\<lparr>deviceData := on_term f (deviceData d)\<rparr>)"

definition drum_of :: "nat \<Rightarrow> cards \<Rightarrow> DrumData" where "drum_of i m = drum (deviceData (dev i m))"

definition on_drum :: "(DrumData \<Rightarrow> DrumData) \<Rightarrow> card_data \<Rightarrow> card_data" where
  "on_drum f x = (case x of DRUM d \<Rightarrow> DRUM (f d) | y \<Rightarrow> y)"

definition set_drum :: "nat \<Rightarrow> (DrumData \<Rightarrow> DrumData) \<Rightarrow> cards \<Rightarrow> cards" where
  "set_drum i f = set_dev i (\<lambda>d. d\<lparr>deviceData := on_drum f (deviceData d)\<rparr>)"

definition card_level :: "nat \<Rightarrow> cards \<Rightarrow> nat" where
  "card_level i m = unat (interruptLevel (dev i m))"

section \<open>The real-time clock\<close>

abbreviation TICKS_20MS :: int where "TICKS_20MS \<equiv> 10550"
abbreviation RTC_WALL_PERIOD_NS :: u64 where "RTC_WALL_PERIOD_NS \<equiv> 20000000"
abbreviation RTC_WALL_BATCH_NS :: u64 where "RTC_WALL_BATCH_NS \<equiv> 50000"
abbreviation RTC_WALL_BATCH_MAX :: u64 where "RTC_WALL_BATCH_MAX \<equiv> 64"

definition rtc_reset :: "RTCData \<Rightarrow> RTCData" where
  "rtc_reset d = d\<lparr>rtcCounter := 0, divisionNumberN := TICKS_20MS, register1 := 0, rtc_status := 0, rtc_control := 0,
     nextPulseNs := 0, wallLastReadNs := 0, wallBatch := 0, wallSkip := 0\<rparr>"

definition rtc_clear_clock_ticks :: "RTCData \<Rightarrow> RTCData" where
  "rtc_clear_clock_ticks d = d\<lparr>rtcCounter := divisionNumberN d\<rparr>"

definition wall_batch :: "u64 \<Rightarrow> RTCData \<Rightarrow> u32" where
  "wall_batch now d =
     (if wallLastReadNs d = 0 then 0
      else let per_tick = (now - wallLastReadNs d) div (ucast (wallBatch d) + 1)
           in if per_tick = 0 \<or> RTC_WALL_BATCH_NS div per_tick \<ge> RTC_WALL_BATCH_MAX
              then ucast RTC_WALL_BATCH_MAX else ucast (RTC_WALL_BATCH_NS div per_tick))"

definition raise_pulse :: "nat \<Rightarrow> cards \<Rightarrow> cards" where
  "raise_pulse i m =
     (let m1 = set_rtc i (\<lambda>d. d\<lparr>rtc_status := put_bit readyForTransfer_bit True (rtc_status d)\<rparr>) m;
          m2 = (if bit (rtc_status (rtc_of i m1)) interruptEnabled_bit
                then dev_set_interrupt_status i True (card_level i m1) m1 else m1)
      in set_rtc i rtc_clear_clock_ticks m2)"

text \<open>The free-running pulse train of the wall clock.\<close>

definition next_pulse :: "u64 \<Rightarrow> RTCData \<Rightarrow> RTCData" where
  "next_pulse now d =
     (let d1 = d\<lparr>nextPulseNs := nextPulseNs d + RTC_WALL_PERIOD_NS\<rparr>
      in if sint (now - nextPulseNs d1) > sint (10 * RTC_WALL_PERIOD_NS)
         then d1\<lparr>nextPulseNs := now + RTC_WALL_PERIOD_NS\<rparr> else d1)"

definition rtc_count :: "bool \<Rightarrow> (nat \<Rightarrow> u64) \<Rightarrow> nat \<Rightarrow> cards \<Rightarrow> cards" where
  "rtc_count wall_clock_mode rtc_now_ns i m =
     (let m1 = set_rtc i (\<lambda>d. d\<lparr>rtcCounter := rtcCounter d - 1\<rparr>) m in
      if wall_clock_mode
      then let m2 = set_rtc i (\<lambda>d. if rtcCounter d \<le> 0 then d\<lparr>rtcCounter := divisionNumberN d\<rparr> else d) m1
           in if wallSkip (rtc_of i m2) > 0 then set_rtc i (\<lambda>d. d\<lparr>wallSkip := wallSkip d - 1\<rparr>) m2
              else let now = rtc_now_ns (clock_readings (rtc_of i m2));
                       batch = wall_batch now (rtc_of i m2);
                       m3 = set_rtc i (\<lambda>d. d\<lparr>clock_readings := Suc (clock_readings d), wallLastReadNs := now,
                                             wallBatch := batch, wallSkip := batch,
                                             nextPulseNs := (if nextPulseNs d = 0 then now + RTC_WALL_PERIOD_NS else nextPulseNs d)\<rparr>) m2
                   in if now \<ge> nextPulseNs (rtc_of i m3) then set_rtc i (next_pulse now) (raise_pulse i m3) else m3
      else if rtcCounter (rtc_of i m1) \<le> 0 then raise_pulse i m1
      else m1)"

definition rtc_read :: "nat \<Rightarrow> u32 \<Rightarrow> (u16, card_data, card_delay) io" where
  "rtc_read i address m =
     (let r = dev_register_address (dev i m) address in
      Done (if r = 0 then word_of_int (rtcCounter (rtc_of i m)) else if r = 2 then rtc_status (rtc_of i m) else 0) m)"

definition rtc_write :: "nat \<Rightarrow> u32 \<Rightarrow> u16 \<Rightarrow> (unit, card_data, card_delay) io" where
  "rtc_write i address v m =
     (let r = dev_register_address (dev i m) address in
      Done ()
       (if r = 1
        then dev_set_interrupt_status i False (card_level i m)
               (set_rtc i (\<lambda>d. (rtc_clear_clock_ticks d)\<lparr>rtc_status := put_bit readyForTransfer_bit False (rtc_status d)\<rparr>) m)
        else if r = 3
        then let m1 = set_rtc i (\<lambda>d. d\<lparr>rtc_control := v, rtc_status := put_bit interruptEnabled_bit (bit v 0) (rtc_status d)\<rparr>) m;
                 m2 = (if \<not> bit (rtc_status (rtc_of i m1)) interruptEnabled_bit
                       then dev_set_interrupt_status i False (card_level i m1) m1 else m1);
                 m3 = (if bit v 13
                       then dev_irq_changed (set_dev i (\<lambda>d. d\<lparr>interruptBits := interruptBits d AND NOT (push_bit 13 1)\<rparr>)
                              (set_rtc i (\<lambda>d. d\<lparr>rtc_status := put_bit readyForTransfer_bit False (rtc_status d)\<rparr>) m2)) else m2);
                 m4 = (if bit v 14 then set_rtc i (\<lambda>d. d\<lparr>rtc_status := put_bit externalHoldPulse_bit False (rtc_status d)\<rparr>) m3 else m3)
             in if bit v 15 then set_rtc i (\<lambda>d. (rtc_clear_clock_ticks d)\<lparr>clockCountingStarted := True\<rparr>) m4 else m4
        else m))"

definition rtc_ident :: "nat \<Rightarrow> u16 \<Rightarrow> (u16, card_data, card_delay) io" where
  "rtc_ident i lvl m =
     (if interruptBits (dev i m) AND push_bit (unat lvl) 1 \<noteq> 0
      then Done (identCode (dev i m)) (dev_set_interrupt_status i False (unat lvl)
             (set_rtc i (\<lambda>d. (rtc_clear_clock_ticks d)\<lparr>rtc_status := put_bit interruptEnabled_bit False (rtc_status d)\<rparr>) m))
      else Done 0 m)"

section \<open>The line printer\<close>

definition line_printer_reset :: "LinePrinterData \<Rightarrow> LinePrinterData" where
  "line_printer_reset d = d\<lparr>lp_character := 0, lp_status := put_bit readyForTransfer_bit True 0, lp_control := 0\<rparr>"

definition line_printer_tick :: "nat \<Rightarrow> (unit, (card_data, card_delay) DeviceManager) loop" where
  "line_printer_tick i = always (ret ())"

definition line_printer_read :: "nat \<Rightarrow> u32 \<Rightarrow> (u16, card_data, card_delay) io" where
  "line_printer_read i address m =
     Done (if dev_register_address (dev i m) address = 2 then lp_status (lp_of i m) else 0) m"

definition line_printer_write :: "nat \<Rightarrow> u32 \<Rightarrow> u16 \<Rightarrow> (unit, card_data, card_delay) io" where
  "line_printer_write i address v m =
     (let r = dev_register_address (dev i m) address in
      Done ()
       (if r = 1
        then set_lp i (\<lambda>d. d\<lparr>lp_character := ucast (v AND 0x7F), printed := printed d @ [ucast (v AND 0x7F)]\<rparr>) m
        else if r = 3
        then let m1 = set_lp i (\<lambda>d. d\<lparr>lp_control := v, lp_status := put_bit interruptEnabled_bit (bit v 0) (lp_status d)\<rparr>) m;
                 m2 = (if bit v 0 then m1 else dev_set_interrupt_status i False (card_level i m1) m1);
                 m3 = set_lp i (\<lambda>d. d\<lparr>lp_status := put_bit readyForTransfer_bit True (put_bit active_bit (bit v 2) (lp_status d))\<rparr>) m2;
                 s = lp_status (lp_of i m3)
             in dev_set_interrupt_status i (bit s interruptEnabled_bit \<and> bit s readyForTransfer_bit) (card_level i m3) m3
        else m))"

definition line_printer_ident :: "nat \<Rightarrow> u16 \<Rightarrow> (u16, card_data, card_delay) io" where
  "line_printer_ident i lvl m =
     (if interruptBits (dev i m) AND push_bit (unat lvl) 1 \<noteq> 0
      then Done (identCode (dev i m)) (dev_set_interrupt_status i False (unat lvl)
             (set_lp i (\<lambda>d. d\<lparr>lp_status := put_bit interruptEnabled_bit False (lp_status d)\<rparr>) m))
      else Done 0 m)"

section \<open>The paper tape reader\<close>

definition paper_tape_reset :: "PaperTapeData \<Rightarrow> PaperTapeData" where
  "paper_tape_reset d = d\<lparr>ptr_status := put_bit readyForTransfer_bit True 0, ptr_control := 0, ptr_character := 0\<rparr>"

definition ptr_load_tape :: "u8 list \<Rightarrow> PaperTapeData \<Rightarrow> PaperTapeData" where
  "ptr_load_tape bs d = (if bs = [] then d else d\<lparr>tapeData := bs, tapePosition := 0\<rparr>)"

definition paper_tape_read :: "nat \<Rightarrow> u32 \<Rightarrow> (u16, card_data, card_delay) io" where
  "paper_tape_read i address m =
     (let r = dev_register_address (dev i m) address in
      if r = 0
      then Done (ucast (ptr_character (ptr_of i m)))
             (set_ptr i (\<lambda>d. d\<lparr>ptr_status := put_bit readyForTransfer_bit False (ptr_status d)\<rparr>) m)
      else if r = 2 then Done (ptr_status (ptr_of i m)) m
      else Done 0 m)"

definition read_tape_byte :: "PaperTapeData \<Rightarrow> PaperTapeData" where
  "read_tape_byte d =
     (let d1 = (if tapePosition d < length (tapeData d)
                then d\<lparr>ptr_character := tapeData d ! tapePosition d, tapePosition := Suc (tapePosition d)\<rparr>
                else d\<lparr>ptr_character := 0\<rparr>)
      in d1\<lparr>ptr_status := put_bit active_bit False (put_bit readyForTransfer_bit True (ptr_status d1))\<rparr>)"

definition ready_interrupt :: "(cards \<Rightarrow> u16) \<Rightarrow> nat \<Rightarrow> cards \<Rightarrow> cards" where
  "ready_interrupt status i m =
     dev_set_interrupt_status i (bit (status m) interruptEnabled_bit \<and> bit (status m) readyForTransfer_bit) (card_level i m) m"

definition paper_tape_write :: "nat \<Rightarrow> u32 \<Rightarrow> u16 \<Rightarrow> (unit, card_data, card_delay) io" where
  "paper_tape_write i address v m =
     (if dev_register_address (dev i m) address = 3
      then let status = (\<lambda>m. ptr_status (ptr_of i m));
               m1 = set_ptr i (\<lambda>d. d\<lparr>ptr_control := v,
                      ptr_status := put_bit active_bit (bit v 2) (put_bit interruptEnabled_bit (bit v 0) (ptr_status d))\<rparr>) m;
               m2 = (if bit v deviceClear_bit
                     then set_ptr i (\<lambda>d. d\<lparr>ptr_status := put_bit active_bit False (ptr_status d), ptr_character := 0, tapePosition := 0\<rparr>) m1
                     else m1);
               m3 = ready_interrupt status i (set_ptr i (\<lambda>d. d\<lparr>ptr_status := put_bit readyForTransfer_bit True (ptr_status d)\<rparr>) m2);
               m4 = (if bit (status m3) active_bit then set_ptr i read_tape_byte m3 else m3)
           in Done () (ready_interrupt status i m4)
      else Done () m)"

definition paper_tape_ident :: "nat \<Rightarrow> u16 \<Rightarrow> (u16, card_data, card_delay) io" where
  "paper_tape_ident i lvl m =
     (if interruptBits (dev i m) AND push_bit (unat lvl) 1 \<noteq> 0
      then Done (identCode (dev i m)) (dev_set_interrupt_status i False (unat lvl)
             (set_ptr i (\<lambda>d. d\<lparr>ptr_status := put_bit interruptEnabled_bit False (ptr_status d)\<rparr>) m))
      else Done 0 m)"

section \<open>The paper tape punch\<close>

abbreviation IODELAY_PAPERTAPE :: u32 where "IODELAY_PAPERTAPE \<equiv> 200"

definition paper_tape_writer_reset :: "PaperTapeWriterData \<Rightarrow> PaperTapeWriterData" where
  "paper_tape_writer_reset d = d\<lparr>ptw_status := 0, ptw_control := 0, ptw_character := 0\<rparr>"

definition ptp_get_tape_data :: "PaperTapeWriterData \<Rightarrow> u8 list" where
  "ptp_get_tape_data d = take (punchPosition d) (tapeBuffer d)"

definition paper_tape_writer_read :: "nat \<Rightarrow> u32 \<Rightarrow> (u16, card_data, card_delay) io" where
  "paper_tape_writer_read i address m =
     (let r = dev_register_address (dev i m) address; d = ptw_of i m in
      Done (if r = 0 then (if bit (ptw_control d) testMode_bit then ucast (ptw_character d) else 0)
            else if r = 2 then ptw_status d else 0) m)"

text \<open>The buffer grows by doubling; allocation is assumed to succeed.\<close>

definition punch_byte :: "PaperTapeWriterData \<Rightarrow> PaperTapeWriterData" where
  "punch_byte d =
     (let b = ptw_character d; pos = punchPosition d in
      d\<lparr>tapeBuffer := (if pos < length (tapeBuffer d) then (tapeBuffer d)[pos := b] else tapeBuffer d @ [b]),
        punchPosition := Suc pos, ptw_status := put_bit readyForTransfer_bit True (ptw_status d), punched := punched d @ [b]\<rparr>)"

definition paper_tape_writer_write :: "nat \<Rightarrow> u32 \<Rightarrow> u16 \<Rightarrow> (unit, card_data, card_delay) io" where
  "paper_tape_writer_write i address v m =
     (let r = dev_register_address (dev i m) address; status = (\<lambda>m. ptw_status (ptw_of i m)) in
      Done ()
       (if r = 1 then set_ptw i (\<lambda>d. d\<lparr>ptw_character := ucast (v AND 0xFF)\<rparr>) m
        else if r = 3
        then let m1 = set_ptw i (\<lambda>d. d\<lparr>ptw_control := v,
                        ptw_status := put_bit active_bit (bit v 2) (put_bit interruptEnabled_bit (bit v 0) (ptw_status d))\<rparr>) m;
                 m2 = (if bit v deviceClear_bit
                       then set_ptw i (\<lambda>d. d\<lparr>ptw_status := put_bit active_bit False (ptw_status d), ptw_character := 0, punchPosition := 0\<rparr>) m1
                       else m1);
                 m3 = ready_interrupt status i (set_ptw i (\<lambda>d. d\<lparr>ptw_status := put_bit readyForTransfer_bit True (ptw_status d)\<rparr>) m2)
             in if bit (status m3) active_bit
                then let m4 = set_ptw i punch_byte m3
                     in if bit (status m4) interruptEnabled_bit
                        then dev_queue_io_delay i IODELAY_PAPERTAPE punch_end_delay 0 (ucast (interruptLevel (dev i m4))) m4
                        else m4
                else m3
        else m))"

definition paper_tape_writer_ident :: "nat \<Rightarrow> u16 \<Rightarrow> (u16, card_data, card_delay) io" where
  "paper_tape_writer_ident i lvl m =
     (if interruptBits (dev i m) AND push_bit (unat lvl) 1 \<noteq> 0
      then Done (identCode (dev i m)) (dev_set_interrupt_status i False (unat lvl)
             (set_ptw i (\<lambda>d. d\<lparr>ptw_status := put_bit interruptEnabled_bit False (ptw_status d)\<rparr>) m))
      else Done 0 m)"

definition punch_end :: "nat \<Rightarrow> int \<Rightarrow> (bool, card_data, card_delay) io" where
  "punch_end i param m =
     (let m1 = set_ptw i (\<lambda>d. d\<lparr>ptw_status := put_bit readyForTransfer_bit True (ptw_status d)\<rparr>) m
      in Done (bit (ptw_status (ptw_of i m1)) interruptEnabled_bit) m1)"

section \<open>The terminal\<close>

abbreviation TERMINAL_QUEUE_SIZE :: nat where "TERMINAL_QUEUE_SIZE \<equiv> 256"
abbreviation IODELAY_TERMINAL :: u32 where "IODELAY_TERMINAL \<equiv> 100"

abbreviation (input) deviceReadyForTransfer_bit :: nat where "deviceReadyForTransfer_bit \<equiv> 3"
abbreviation (input) parityGeneration_bit :: nat where "parityGeneration_bit \<equiv> 14"
abbreviation (input) stopBits_bit :: nat where "stopBits_bit \<equiv> 13"

text \<open>The parity table: eight rows of 32, each the first row or its complement.\<close>

definition parity_row :: "nat list" where
  "parity_row = [0, 1, 1, 0, 1, 0, 0, 1, 1, 0, 0, 1, 0, 1, 1, 0, 1, 0, 0, 1, 0, 1, 1, 0, 0, 1, 1, 0, 1, 0, 0, 1]"

definition g_odd_parity_table :: "nat list" where
  "g_odd_parity_table =
     (let a = parity_row; n = map (\<lambda>b. 1 - b) a in concat [a, n, n, a, n, a, a, n])"

definition dev_get_odd_parity :: "u8 \<Rightarrow> nat" where
  "dev_get_odd_parity v = g_odd_parity_table ! unat v"

definition terminal_reset :: "TerminalData \<Rightarrow> TerminalData" where
  "terminal_reset d = d\<lparr>inputStatus := put_bit active_bit True 0, outputStatus := put_bit readyForTransfer_bit True 0\<rparr>"

definition terminal_tick_needed :: "card \<Rightarrow> bool" where
  "terminal_tick_needed d = (case deviceData d of TTY t \<Rightarrow> queue_count t > 0 | _ \<Rightarrow> False)"

text \<open>\<open>characterLength\<close>: 0 is 8 bits, 1 is 7, 2 is 6 and 3 is 5.\<close>

definition characterLength :: "u16 \<Rightarrow> nat" where
  "characterLength control = unat (drop_bit 11 control AND 3)"

definition terminal_half_bits :: "u16 \<Rightarrow> nat" where
  "terminal_half_bits control =
     (let dataBits = 8 - characterLength control;
          halfBits = 2 * (1 + dataBits) + (if bit control parityGeneration_bit then 2 else 0)
      in halfBits + (if bit control stopBits_bit then 2 else if dataBits = 5 then 3 else 4))"

definition terminal_char_ticks :: "TerminalData \<Rightarrow> u32" where
  "terminal_char_ticks d = line_time d (terminal_half_bits (inputControl d))"

definition uart_character :: "u16 \<Rightarrow> u8 \<Rightarrow> u16" where
  "uart_character control key =
     (let value = ucast key :: u16; k = characterLength control in
      if k = 0
      then (let v = value AND 0xFF in if dev_get_odd_parity (ucast v) = 1 then v OR push_bit 7 1 else v)
      else if k = 1
      then (let v = value AND 0x7F in
            if bit control parityGeneration_bit \<and> dev_get_odd_parity (ucast v) = 1 then v OR push_bit 7 1 else v)
      else if k = 2 then value AND 0x3F
      else value AND 0x1F)"

text \<open>The line: the key at the head of the queue is timed, then counted down.\<close>

definition time_line :: "TerminalData \<Rightarrow> TerminalData" where
  "time_line d =
     (let d1 = (if \<not> lineTimed d then d\<lparr>lineTicksLeft := terminal_char_ticks d, lineTimed := True\<rparr> else d)
      in if lineTicksLeft d1 > 0 then d1\<lparr>lineTicksLeft := lineTicksLeft d1 - 1\<rparr> else d1)"

definition receive_key :: "TerminalData \<Rightarrow> TerminalData" where
  "receive_key d =
     d\<lparr>queue_head := (queue_head d + 1) mod TERMINAL_QUEUE_SIZE, queue_count := queue_count d - 1, lineTimed := False,
       uartInputBuf := uart_character (inputControl d) (queue_buffer d ! queue_head d),
       inputStatus := put_bit deviceReadyForTransfer_bit True (inputStatus d)\<rparr>"

definition input_interrupt :: "nat \<Rightarrow> cards \<Rightarrow> cards" where
  "input_interrupt i m =
     (let s = inputStatus (term_of i m)
      in dev_set_interrupt_status i (bit s interruptEnabled_bit \<and> bit s deviceReadyForTransfer_bit) 12 m)"

definition output_interrupt :: "nat \<Rightarrow> cards \<Rightarrow> cards" where
  "output_interrupt i m =
     (let s = outputStatus (term_of i m)
      in dev_set_interrupt_status i (bit s interruptEnabled_bit \<and> bit s readyForTransfer_bit) 10 m)"

definition terminal_line :: "nat \<Rightarrow> cards \<Rightarrow> cards" where
  "terminal_line i m =
     (if queue_count (term_of i m) > 0
      then let m1 = set_term i time_line m; d = term_of i m1
           in if lineTicksLeft d = 0 \<and> \<not> bit (inputStatus d) deviceReadyForTransfer_bit \<and> bit (outputStatus d) readyForTransfer_bit
              then input_interrupt i (set_term i receive_key m1) else m1
      else m)"

definition terminal_read :: "nat \<Rightarrow> u32 \<Rightarrow> (u16, card_data, card_delay) io" where
  "terminal_read i address m =
     (let r = dev_register_address (dev i m) address; d = term_of i m in
      if r = 0
      then Done (uartInputBuf d)
             (input_interrupt i (set_term i (\<lambda>d. d\<lparr>uartInputBuf := 0,
                inputStatus := put_bit deviceReadyForTransfer_bit False (inputStatus d)\<rparr>) m))
      else if r = 2 then Done (inputStatus d) m
      else if r = 6 then Done (outputStatus d) m
      else Done 0 m)"

definition terminal_queue_key :: "u8 \<Rightarrow> TerminalData \<Rightarrow> TerminalData" where
  "terminal_queue_key keycode d =
     (if queue_count d \<ge> TERMINAL_QUEUE_SIZE then d\<lparr>inputStatus := put_bit 7 True (inputStatus d)\<rparr>
      else d\<lparr>queue_buffer := (queue_buffer d)[queue_tail d := keycode],
             queue_tail := (queue_tail d + 1) mod TERMINAL_QUEUE_SIZE, queue_count := queue_count d + 1\<rparr>)"

definition terminal_queue_key_code :: "nat \<Rightarrow> u8 \<Rightarrow> cards \<Rightarrow> cards" where
  "terminal_queue_key_code i keycode m =
     (let m1 = set_term i (terminal_queue_key keycode) m
      in if queue_count (term_of i m) \<ge> TERMINAL_QUEUE_SIZE then m1 else dev_request_tick m1)"

definition terminal_input_room :: "TerminalData \<Rightarrow> nat" where
  "terminal_input_room d = (if queue_count d \<ge> TERMINAL_QUEUE_SIZE then 0 else TERMINAL_QUEUE_SIZE - queue_count d)"

definition terminal_write_input_control :: "nat \<Rightarrow> u16 \<Rightarrow> cards \<Rightarrow> cards" where
  "terminal_write_input_control i v m =
     (let m1 = input_interrupt i (set_term i (\<lambda>d. d\<lparr>inputControl := v,
                 inputStatus := put_bit active_bit (bit v 2) (put_bit interruptEnabled_bit (bit v 0) (inputStatus d))\<rparr>) m);
          m2 = (if bit v deviceClear_bit then set_term i terminal_reset m1 else m1)
      in set_term i (\<lambda>d. d\<lparr>inputStatus := put_bit 7 False (put_bit 6 False (put_bit 5 False (inputStatus d)))\<rparr>) m2)"

definition terminal_write_data :: "nat \<Rightarrow> u16 \<Rightarrow> cards \<Rightarrow> cards" where
  "terminal_write_data i v m =
     (if v = 0 then m
      else let c = ucast v AND 0x7F :: u8;
               m1 = output_interrupt i (set_term i (\<lambda>d. d\<lparr>outputStatus := put_bit readyForTransfer_bit False (outputStatus d)\<rparr>) m);
               m2 = (if bit (inputControl (term_of i m1)) testMode_bit then terminal_queue_key_code i c m1
                     else set_term i (\<lambda>d. d\<lparr>shown := shown d @ [c]\<rparr>) m1)
           in dev_queue_io_delay i IODELAY_TERMINAL terminal_write_end_delay (uint (identCode (dev i m2)))
                (ucast (interruptLevel (dev i m2))) m2)"

definition terminal_write :: "nat \<Rightarrow> u32 \<Rightarrow> u16 \<Rightarrow> (unit, card_data, card_delay) io" where
  "terminal_write i address v m =
     (let r = dev_register_address (dev i m) address in
      Done ()
       (if r = 3 then terminal_write_input_control i v m
        else if r = 5 then terminal_write_data i v m
        else if r = 7
        then output_interrupt i (set_term i (\<lambda>d. d\<lparr>outputControl := v,
               outputStatus := put_bit interruptEnabled_bit (bit v 0) (outputStatus d)\<rparr>) m)
        else m))"

definition terminal_ident :: "nat \<Rightarrow> u16 \<Rightarrow> (u16, card_data, card_delay) io" where
  "terminal_ident i lvl m =
     (if interruptBits (dev i m) AND push_bit (unat lvl) 1 \<noteq> 0
      then Done (identCode (dev i m)) (dev_set_interrupt_status i False (unat lvl)
             (set_term i (\<lambda>d. if lvl = 12 then d\<lparr>inputStatus := put_bit interruptEnabled_bit False (inputStatus d)\<rparr>
                              else if lvl = 10 then d\<lparr>outputStatus := put_bit interruptEnabled_bit False (outputStatus d)\<rparr>
                              else d) m))
      else Done 0 m)"

definition terminal_write_end :: "nat \<Rightarrow> int \<Rightarrow> (bool, card_data, card_delay) io" where
  "terminal_write_end i param m =
     Done False (output_interrupt i
       (set_term i (\<lambda>d. d\<lparr>outputStatus := put_bit readyForTransfer_bit True (outputStatus d)\<rparr>) m))"

section \<open>The drum\<close>

abbreviation (input) DRUM_STATUS_DVA :: u16 where "DRUM_STATUS_DVA \<equiv> 0x10"
abbreviation (input) DRUM_STATUS_ERR :: u16 where "DRUM_STATUS_ERR \<equiv> 0x20"
abbreviation (input) DRUM_SECTORS_PER_TRACK :: u32 where "DRUM_SECTORS_PER_TRACK \<equiv> 32"
abbreviation (input) DRUM_WORDS_PER_SECTOR :: u32 where "DRUM_WORDS_PER_SECTOR \<equiv> 64"
abbreviation (input) DRUM_MAX_WORDS :: u32 where "DRUM_MAX_WORDS \<equiv> 0x400000"
abbreviation (input) IODELAY_HDD_SMD :: u32 where "IODELAY_HDD_SMD \<equiv> 10"

text \<open>
  The backing file holds the words in order, high byte first. A write past its end extends it
  with zeros; a short file leaves the rest of the surface as it is.
\<close>

definition word_bytes :: "u16 \<Rightarrow> u8 list" where
  "word_bytes w = [ucast (drop_bit 8 w AND 0xFF), ucast (w AND 0xFF)]"

definition drum_image :: "(nat \<Rightarrow> u16) \<Rightarrow> nat \<Rightarrow> nat \<Rightarrow> u8 list" where
  "drum_image s off count = concat (map (\<lambda>k. word_bytes (s (off + k))) [0..<count])"

definition write_at :: "nat \<Rightarrow> u8 list \<Rightarrow> u8 list \<Rightarrow> u8 list" where
  "write_at pos bs file =
     (if bs = [] then file else take pos (file @ replicate (pos - length file) 0) @ bs @ drop (pos + length bs) file)"

definition file_word :: "u8 list \<Rightarrow> nat \<Rightarrow> u16" where
  "file_word file k = push_bit 8 (ucast (file ! (2 * k))) OR ucast (file ! (2 * k + 1))"

text \<open>\<open>drum_attach_backing\<close>: \<open>None\<close> is a file that does not exist yet.\<close>

definition drum_attach_backing :: "u8 list option \<Rightarrow> DrumData \<Rightarrow> DrumData" where
  "drum_attach_backing f d =
     (case f of
        None \<Rightarrow> d\<lparr>backingFile := Some (replicate (2 * unat (surfaceWords d)) 0)\<rparr>
      | Some file \<Rightarrow>
          d\<lparr>surface := (\<lambda>k. if k < unat (surfaceWords d) \<and> 2 * k + 1 < length file then file_word file k else surface d k),
            backingFile := Some file\<rparr>)"

definition drum_destroy :: "DrumData \<Rightarrow> u8 list option" where
  "drum_destroy d = map_option (write_at 0 (drum_image (surface d) 0 (unat (surfaceWords d)))) (backingFile d)"

definition drum_reset :: "DrumData \<Rightarrow> DrumData" where
  "drum_reset d = d\<lparr>coreAddress := 0, blockAddress := 0, wordCount := 0, drum_control := 0, drum_status := 0,
     drum_interruptEnabled := False\<rparr>"

definition drum_read :: "nat \<Rightarrow> u32 \<Rightarrow> (u16, card_data, card_delay) io" where
  "drum_read i address m =
     (let r = dev_register_address (dev i m) address in
      Done (if r = 4 then drum_status (drum_of i m) else if r = 0 then ucast (coreAddress (drum_of i m) AND 0xFFFF) else 0) m)"

text \<open>Sector in bits 11 to 15, track in bits 0 to 10 of the block address.\<close>

definition word_offset :: "u16 \<Rightarrow> u32" where
  "word_offset b = (ucast (b AND 0x7FF) * DRUM_SECTORS_PER_TRACK + ucast (drop_bit 11 b AND 0x1F)) * DRUM_WORDS_PER_SECTOR"

definition drum_func :: "u16 \<Rightarrow> u16" where
  "drum_func control = drop_bit 11 control AND 3"

text \<open>One turn of the transfer loop.\<close>

definition drum_word :: "nat \<Rightarrow> u16 \<Rightarrow> nat \<Rightarrow> nat \<Rightarrow> (unit, card_data, card_delay) io" where
  "drum_word i func off k m =
     (let core = coreAddress (drum_of i m) + of_nat k in
      if func = 0 then dev_dma_write core (surface (drum_of i m) (off + k)) m
      else if func = 1
      then bind_out (dev_dma_read core) (\<lambda>w. modify (set_drum i (\<lambda>d. d\<lparr>surface := (surface d)(off + k := w)\<rparr>))) m
      else if func = 3
      then bind_out (dev_dma_read core) (\<lambda>w. modify (set_drum i (\<lambda>d.
             if w \<noteq> surface d (off + k) then d\<lparr>drum_status := drum_status d OR DRUM_STATUS_ERR\<rparr> else d))) m
      else Done () m)"

definition write_through :: "nat \<Rightarrow> nat \<Rightarrow> DrumData \<Rightarrow> DrumData" where
  "write_through off count d =
     d\<lparr>backingFile := map_option (write_at (2 * off) (drum_image (surface d) off count)) (backingFile d)\<rparr>"

definition queue_drum_end :: "nat \<Rightarrow> cards \<Rightarrow> cards" where
  "queue_drum_end i m = dev_queue_io_delay i IODELAY_HDD_SMD drum_end_delay 0 (ucast (interruptLevel (dev i m))) m"

definition drum_execute_go :: "nat \<Rightarrow> (unit, card_data, card_delay) io" where
  "drum_execute_go i m =
     (let func = drum_func (drum_control (drum_of i m));
          off = word_offset (blockAddress (drum_of i m));
          count = ucast (wordCount (drum_of i m)) :: u32;
          m1 = set_drum i (\<lambda>d. d\<lparr>drum_status := (drum_status d AND NOT DRUM_STATUS_ERR) OR DRUM_STATUS_DVA\<rparr>) m;
          words = surfaceWords (drum_of i m1)
      in if off > words \<or> count > words - off
         then Done () (queue_drum_end i (set_drum i (\<lambda>d. d\<lparr>drum_status := drum_status d OR DRUM_STATUS_ERR\<rparr>) m1))
         else seq (each (drum_word i func (unat off)) [0..<unat count])
                (seq (modify (\<lambda>m. if func = 1 then set_drum i (write_through (unat off) (unat count)) m else m))
                     (modify (queue_drum_end i))) m1)"

definition drum_write :: "nat \<Rightarrow> u32 \<Rightarrow> u16 \<Rightarrow> (unit, card_data, card_delay) io" where
  "drum_write i address v m =
     (let r = dev_register_address (dev i m) address in
      if r = 1 then Done () (set_drum i (\<lambda>d. d\<lparr>coreAddress := (coreAddress d AND 0x30000) OR ucast v\<rparr>) m)
      else if r = 3 then Done () (set_drum i (\<lambda>d. d\<lparr>blockAddress := v\<rparr>) m)
      else if r = 7 then Done () (set_drum i (\<lambda>d. d\<lparr>wordCount := v\<rparr>) m)
      else if r = 5
      then let m1 = set_drum i (\<lambda>d. d\<lparr>coreAddress := (coreAddress d AND 0xFFFF) OR push_bit 16 (ucast (drop_bit 5 v AND 3)),
                                     drum_control := v\<rparr>) m
           in if v AND 7 = 7 then drum_execute_go i (set_drum i (\<lambda>d. d\<lparr>drum_interruptEnabled := True\<rparr>) m1)
              else if v = 4
              then Done () (set_drum i (\<lambda>d. d\<lparr>drum_status := drum_status d AND NOT DRUM_STATUS_DVA, drum_interruptEnabled := False\<rparr>) m1)
              else Done () m1
      else Done () m)"

definition drum_ident :: "nat \<Rightarrow> u16 \<Rightarrow> (u16, card_data, card_delay) io" where
  "drum_ident i lvl m =
     (if interruptBits (dev i m) AND push_bit (unat lvl) 1 \<noteq> 0
      then Done (identCode (dev i m)) (dev_set_interrupt_status i False (unat lvl) m)
      else Done 0 m)"

definition drum_end :: "nat \<Rightarrow> int \<Rightarrow> (bool, card_data, card_delay) io" where
  "drum_end i param m =
     (let m1 = set_drum i (\<lambda>d. d\<lparr>drum_status := drum_status d AND NOT DRUM_STATUS_DVA\<rparr>) m
      in Done (drum_interruptEnabled (drum_of i m1)) m1)"

section \<open>The cards' operations and their creation\<close>

fun card_delayed :: "(card_data, card_delay) delayed" where
  "card_delayed punch_end_delay = punch_end"
| "card_delayed terminal_write_end_delay = terminal_write_end"
| "card_delayed drum_end_delay = drum_end"

definition rtc_tick :: "bool \<Rightarrow> (nat \<Rightarrow> u64) \<Rightarrow> nat \<Rightarrow> (unit, (card_data, card_delay) DeviceManager) loop" where
  "rtc_tick wall_clock_mode rtc_now_ns i =
     bindl (dev_tick_io_delay card_delayed i) (\<lambda>_. always (modify (rtc_count wall_clock_mode rtc_now_ns i)))"

definition paper_tape_tick :: "nat \<Rightarrow> (unit, (card_data, card_delay) DeviceManager) loop" where
  "paper_tape_tick = dev_tick_io_delay card_delayed"

definition paper_tape_writer_tick :: "nat \<Rightarrow> (unit, (card_data, card_delay) DeviceManager) loop" where
  "paper_tape_writer_tick = dev_tick_io_delay card_delayed"

definition terminal_tick :: "nat \<Rightarrow> (unit, (card_data, card_delay) DeviceManager) loop" where
  "terminal_tick i = bindl (dev_tick_io_delay card_delayed i) (\<lambda>_. always (modify (terminal_line i)))"

definition drum_tick :: "nat \<Rightarrow> (unit, (card_data, card_delay) DeviceManager) loop" where
  "drum_tick = dev_tick_io_delay card_delayed"

fun card_ops :: "bool \<Rightarrow> (nat \<Rightarrow> u64) \<Rightarrow> (card_data, card_delay) ops" where
  "card_ops wall now DEVICE_TYPE_RTC = \<lparr>Tick = Some (rtc_tick wall now), TickNeeded = None, Read = Some rtc_read,
     Write = Some rtc_write, Ident = Some rtc_ident, IotOp = None\<rparr>"
| "card_ops wall now DEVICE_TYPE_LINE_PRINTER = \<lparr>Tick = Some line_printer_tick, TickNeeded = None, Read = Some line_printer_read,
     Write = Some line_printer_write, Ident = Some line_printer_ident, IotOp = None\<rparr>"
| "card_ops wall now DEVICE_TYPE_PAPER_TAPE = \<lparr>Tick = Some paper_tape_tick, TickNeeded = None, Read = Some paper_tape_read,
     Write = Some paper_tape_write, Ident = Some paper_tape_ident, IotOp = None\<rparr>"
| "card_ops wall now DEVICE_TYPE_PAPER_TAPE_WRITER = \<lparr>Tick = Some paper_tape_writer_tick, TickNeeded = None,
     Read = Some paper_tape_writer_read, Write = Some paper_tape_writer_write, Ident = Some paper_tape_writer_ident, IotOp = None\<rparr>"
| "card_ops wall now DEVICE_TYPE_TERMINAL = \<lparr>Tick = Some terminal_tick, TickNeeded = Some terminal_tick_needed,
     Read = Some terminal_read, Write = Some terminal_write, Ident = Some terminal_ident, IotOp = None\<rparr>"
| "card_ops wall now DEVICE_TYPE_DRUM = \<lparr>Tick = Some drum_tick, TickNeeded = None, Read = Some drum_read,
     Write = Some drum_write, Ident = Some drum_ident, IotOp = None\<rparr>"
| "card_ops wall now _ = \<lparr>Tick = None, TickNeeded = None, Read = None, Write = None, Ident = None, IotOp = None\<rparr>"

text \<open>\<open>dev_init\<close> and the settings of a card's thumbwheel.\<close>

definition dev_init :: "DeviceType \<Rightarrow> bool \<Rightarrow> card_data \<Rightarrow> u16 \<Rightarrow> u16 \<Rightarrow> u32 \<Rightarrow> u32 \<Rightarrow> card" where
  "dev_init t always_tick d code lvl start_at end_at =
     \<lparr>startAddress = start_at, endAddress = end_at, interruptBits = 0, interruptLevel = lvl, identCode = code, dev_type = t,
      ioDelays = [], tickAlways = always_tick, inTickList = False, tickOrder = 0, nord1Device = 0, nord1DeviceCount = 0,
      deviceData = d\<rparr>"

definition rtc_create_device :: "nat \<Rightarrow> card option" where
  "rtc_create_device thumbwheel =
     (let mk = dev_init DEVICE_TYPE_RTC True (RTC \<lparr>rtcCounter = 0, divisionNumberN = 0, register1 = 0,
                 clockCountingStarted = False, nextPulseNs = 0, wallLastReadNs = 0, wallBatch = 0, wallSkip = 0,
                 rtc_control = 0, rtc_status = 0, clock_readings = 0\<rparr>) in
      if thumbwheel = 0 then Some (mk 1 13 8 11)
      else if thumbwheel = 1 then Some (mk 2 13 12 15)
      else if thumbwheel = 2 then Some (mk 6 13 16 19)
      else None)"

definition lp_create_line_printer_device :: "nat \<Rightarrow> card option" where
  "lp_create_line_printer_device thumbwheel =
     (let mk = dev_init DEVICE_TYPE_LINE_PRINTER False (LP \<lparr>lp_character = 0, lp_status = 0, lp_control = 0, printed = []\<rparr>) in
      if thumbwheel = 0 then Some (mk 3 10 0x118 0x11B)
      else if thumbwheel = 1 then Some (mk 19 10 0x11C 0x11F)
      else None)"

definition ptr_create_paper_tape_device :: "nat \<Rightarrow> card option" where
  "ptr_create_paper_tape_device thumbwheel =
     (let mk = dev_init DEVICE_TYPE_PAPER_TAPE False
                 (PTR \<lparr>ptr_character = 0, ptr_status = 0, ptr_control = 0, tapeData = [], tapePosition = 0\<rparr>) in
      if thumbwheel = 0 then Some (mk 2 12 0x100 0x103)
      else if thumbwheel = 1 then Some (mk 18 12 0x104 0x107)
      else None)"

definition ptp_create_paper_tape_writer_device :: "nat \<Rightarrow> card option" where
  "ptp_create_paper_tape_writer_device thumbwheel =
     (let mk = dev_init DEVICE_TYPE_PAPER_TAPE_WRITER False
                 (PTW \<lparr>ptw_character = 0, ptw_status = 0, ptw_control = 0, tapeBuffer = [], punchPosition = 0, punched = []\<rparr>) in
      if thumbwheel = 0 then Some (mk 2 10 0x108 0x10B)
      else if thumbwheel = 1 then Some (mk 18 10 0x10C 0x10F)
      else None)"

text \<open>The address and the identity code of \<open>device_definitions\<close>; the names are left out.\<close>

definition device_definitions :: "(u32 \<times> u16) list" where
  "device_definitions =
    [(0xC0, 0x1), (0xC8, 0x51), (0xD0, 0x52), (0xD8, 0x53), (0xE0, 0x24), (0xE8, 0x25), (0xF0, 0x26), (0xF8,
     0x27), (0x2C0, 0x28), (0x2C8, 0x29), (0x2D0, 0x2A), (0x2D8, 0x2B), (0x2E0, 0x2C), (0x2E8, 0x2D), (0x2F0,
     0x2E), (0x2F8, 0x2F), (0x80, 0x30), (0x88, 0x31), (0x90, 0x32), (0x98, 0x33), (0xA0, 0x34), (0xA8, 0x35),
     (0xB0, 0x36), (0xB8, 0x37), (0x280, 0x38), (0x288, 0x39), (0x290, 0x3A), (0x298, 0x3B), (0x2A0, 0x3C),
     (0x2A8, 0x3D), (0x2B0, 0x3E), (0x2B8, 0x3F), (0x1A0, 0x54), (0x1A8, 0x55), (0x1B0, 0x56), (0x1B8, 0x57),
     (0x240, 0x58), (0x248, 0x59), (0x250, 0x5A), (0x258, 0x5B), (0x260, 0x5C), (0x268, 0x5D), (0x270, 0x5E),
     (0x278, 0x5F), (0x300, 0x60), (0x308, 0x61), (0x310, 0x62), (0x318, 0x63), (0x340, 0x64), (0x348, 0x65),
     (0x350, 0x66), (0x358, 0x67)]"

definition terminal_create_device :: "(nat \<Rightarrow> u32) \<Rightarrow> nat \<Rightarrow> card option" where
  "terminal_create_device line thumbwheel =
     (if thumbwheel < length device_definitions
      then let (base, code) = device_definitions ! (thumbwheel - 1) in
           Some (dev_init DEVICE_TYPE_TERMINAL False (TTY \<lparr>noCarrier = False, uartInputBuf = 0, lineTicksLeft = 0,
             lineTimed = False, queue_buffer = replicate TERMINAL_QUEUE_SIZE 0, queue_head = 0, queue_tail = 0, queue_count = 0,
             inputStatus = 0, inputControl = 0, outputStatus = put_bit readyForTransfer_bit True 0, outputControl = 0,
             line_time = line, shown = []\<rparr>) code 10 base (base + 7))
      else None)"

text \<open>The file attached is the one the last \<open>drum_set_backing_file\<close> asked for; \<open>None\<close> when there is none to open.\<close>

definition drum_create_device :: "u8 list option option \<Rightarrow> nat \<Rightarrow> card option" where
  "drum_create_device backing thumbwheel =
     (let d = \<lparr>coreAddress = 0, blockAddress = 0, wordCount = 0, drum_control = 0, drum_status = 0, drum_interruptEnabled = False,
                surface = (\<lambda>_. 0), surfaceWords = DRUM_MAX_WORDS, backingFile = None\<rparr>;
          d1 = (case backing of None \<Rightarrow> d | Some f \<Rightarrow> drum_attach_backing f d)
      in if thumbwheel = 0 then Some (dev_init DEVICE_TYPE_DRUM False (DRUM (drum_reset d1)) 0x14 11 0x160 0x167)
         else None)"

text \<open>\<open>dev_reset\<close> through the card's \<open>Reset\<close> pointer; \<open>create_device\<close> ends with it.\<close>

definition clears_requests :: "card \<Rightarrow> bool" where
  "clears_requests d \<longleftrightarrow> (case deviceData d of DRUM _ \<Rightarrow> True | _ \<Rightarrow> False)"

definition dev_reset :: "card \<Rightarrow> card" where
  "dev_reset d = d\<lparr>interruptBits := (if clears_requests d then 0 else interruptBits d), deviceData :=
     (case deviceData d of RTC x \<Rightarrow> RTC (rtc_reset x) | LP x \<Rightarrow> LP (line_printer_reset x)
      | PTR x \<Rightarrow> PTR (paper_tape_reset x) | PTW x \<Rightarrow> PTW (paper_tape_writer_reset x)
      | TTY x \<Rightarrow> TTY (terminal_reset x) | DRUM x \<Rightarrow> DRUM (drum_reset x))\<rparr>"

definition devmgr_master_clear :: "cards \<Rightarrow> cards" where
  "devmgr_master_clear = on_manager (\<lambda>s. s\<lparr>dm_devices := map dev_reset (dm_devices s),
     dev_irq_dirty := dev_irq_dirty s \<or> (\<exists>d\<in>set (dm_devices s). clears_requests d)\<rparr>)"

end
