(* ===== verification/DeviceLaws.thy ===== *)
theory DeviceLaws
  imports Cards
begin

text \<open>
  Laws of the device layer: the table of address blocks, the acknowledge cycle of IDENT, and
  the tick list with the kept OR of the interrupt requests. What a card has to obey for the
  optimised \<open>devmgr_tick\<close> to be right is the locale \<open>ticking_cards\<close>; the cards of
  \<open>Cards\<close> obey it.
\<close>

section \<open>Loops\<close>

lemma while_loop_step:
  "f x m = None \<Longrightarrow> while_loop f x m = None"
  "f x m = Some (Trap m') \<Longrightarrow> while_loop f x m = Some (Trap m')"
  "f x m = Some (Done (Inr y) m') \<Longrightarrow> while_loop f x m = Some (Done y m')"
  "f x m = Some (Done (Inl x') m') \<Longrightarrow> while_loop f x m = while_loop f x' m'"
  by (subst while_loop.simps, simp)+

text \<open>Total correctness: an invariant and a measure of loop variables and machine.\<close>

lemma while_loop_total:
  assumes "\<And>x m. I x m \<Longrightarrow> (\<exists>x' m'. f x m = Some (Done (Inl x') m') \<and> I x' m' \<and> \<mu> x' m' < (\<mu> x m :: nat))
             \<or> (\<exists>y m'. f x m = Some (Done (Inr y) m') \<and> Q y m')" and "I x m"
  shows "\<exists>y m'. while_loop f x m = Some (Done y m') \<and> Q y m'"
  using \<open>I x m\<close>
proof (induction "\<mu> x m" arbitrary: x m rule: less_induct)
  case less
  from assms(1) [OF less.prems] show ?case
    using less.hyps while_loop_step(3,4) [of f x m] by metis
qed

section \<open>Device records\<close>

lemma dev_simps [simp, acc]:
  "dev_count (set_dev i f m) = dev_count m"
  "j < dev_count m \<Longrightarrow> dev j (set_dev i f m) = (if i = j then f (dev j m) else dev j m)"
  "g_reg (set_dev i f m) = g_reg m"
  "g_reg (on_manager g m) = g_reg m"
  "devices (on_manager g m) = g (devices m)"
  "dm_devices (devices (set_dev i f m)) = (dm_devices (devices m))[i := f (dev i m)]"
  by (auto simp: dev_count_def dev_def set_dev_def on_manager_def nth_list_update)

lemma request_simps [simp, acc]:
  "dev j (dev_irq_changed m) = dev j m" "dev j (dev_request_tick m) = dev j m"
  "dev_count (dev_irq_changed m) = dev_count m" "dev_count (dev_request_tick m) = dev_count m"
  "g_reg (dev_irq_changed m) = g_reg m" "g_reg (dev_request_tick m) = g_reg m"
  by (simp_all add: dev_def dev_count_def dev_irq_changed_def dev_request_tick_def on_manager_def)

section \<open>The address table\<close>

text \<open>Every card has its own block of addresses.\<close>

definition table_ok :: "('x, 'c) DeviceManager \<Rightarrow> bool" where
  "table_ok s \<longleftrightarrow> length (dm_devices s) \<le> deviceCapacity s
     \<and> (\<forall>i<length (dm_devices s). \<forall>j<length (dm_devices s). \<forall>a.
          dev_is_in_address (dm_devices s ! i) a \<longrightarrow> dev_is_in_address (dm_devices s ! j) a \<longrightarrow> i = j)"

lemma find_upt_unique:
  assumes "P i" "i < n" "\<And>j. j < n \<Longrightarrow> P j \<Longrightarrow> j = i"
  shows "find P [0..<n] = Some i"
proof -
  have "\<not> P ([0..<n] ! j)" if "j < i" for j
    using assms(3) [of j] that \<open>i < n\<close> by auto
  then show ?thesis using assms(1,2) unfolding find_Some_iff by (intro exI [of _ i]) simp
qed

lemma in_blocks_overlap:
  "dev_is_in_address d a \<Longrightarrow> dev_is_in_address e a \<Longrightarrow> startAddress d \<le> endAddress e \<and> startAddress e \<le> endAddress d"
  by (auto simp: dev_is_in_address_def intro: order_trans)

lemma blocks_apart_append:
  assumes old: "\<forall>i<length ds. \<forall>j<length ds. P (ds ! i) \<longrightarrow> P (ds ! j) \<longrightarrow> i = j" and new: "\<forall>e\<in>set ds. \<not> (P d \<and> P e)"
  shows "\<forall>i<length (ds @ [d]). \<forall>j<length (ds @ [d]). P ((ds @ [d]) ! i) \<longrightarrow> P ((ds @ [d]) ! j) \<longrightarrow> i = j"
proof (intro allI impI)
  fix i j assume b: "i < length (ds @ [d])" "j < length (ds @ [d])" "P ((ds @ [d]) ! i)" "P ((ds @ [d]) ! j)"
  consider "i < length ds" "j < length ds" | "i = length ds" "j < length ds" | "i < length ds" "j = length ds"
    | "i = length ds" "j = length ds" using b by fastforce
  then show "i = j"
  proof cases
    case 1
    with b old show ?thesis by (simp add: nth_append)
  next
    case 2
    with b new nth_mem [of j ds] show ?thesis by (simp add: nth_append)
  next
    case 3
    with b new nth_mem [of i ds] show ?thesis by (simp add: nth_append)
  qed simp
qed

lemma add_device_table_ok:
  assumes "table_ok s"
  shows "table_ok (snd (devmgr_add_device d s))"
proof (cases "fst (devmgr_add_device d s)")
  case False
  then show ?thesis using assms by (auto simp: devmgr_add_device_def split: if_splits)
next
  case True
  then have e: "snd (devmgr_add_device d s) = s\<lparr>dm_devices := dm_devices s @ [d]\<rparr>"
    and cap: "length (dm_devices s) < deviceCapacity s"
    and apart: "\<forall>other\<in>set (dm_devices s). \<not> (startAddress d \<le> endAddress other \<and> startAddress other \<le> endAddress d)"
    by (auto simp: devmgr_add_device_def split: if_splits)
  have "\<forall>e\<in>set (dm_devices s). \<not> (dev_is_in_address d a \<and> dev_is_in_address e a)" for a
    using apart in_blocks_overlap [of d a] by blast
  moreover have "\<forall>i<length (dm_devices s). \<forall>j<length (dm_devices s).
      dev_is_in_address (dm_devices s ! i) a \<longrightarrow> dev_is_in_address (dm_devices s ! j) a \<longrightarrow> i = j" for a
    using assms by (simp add: table_ok_def)
  ultimately have "\<forall>i<length (dm_devices s @ [d]). \<forall>j<length (dm_devices s @ [d]).
      dev_is_in_address ((dm_devices s @ [d]) ! i) a \<longrightarrow> dev_is_in_address ((dm_devices s @ [d]) ! j) a \<longrightarrow> i = j" for a
    by (intro blocks_apart_append)
  then show ?thesis unfolding e table_ok_def using cap by simp
qed

text \<open>C30
  Invariant: adding a card, accepted or refused, keeps the table within its capacity and no
  address answered by two cards; and in such a table an IOX address reaches the card whose block
  holds it, wherever that card stands, and no other.
\<close>

theorem device_table_unambiguous:
  assumes "table_ok s"
  shows "table_ok (snd (devmgr_add_device d s))
    \<and> (\<forall>m :: ('x, 'c) board. \<forall>a i. devices m = snd (devmgr_add_device d s) \<longrightarrow>
         (device_at a m = Some i \<longleftrightarrow> i < dev_count m \<and> dev_is_in_address (dev i m) a))"
proof -
  have ok: "table_ok (snd (devmgr_add_device d s))" using assms by (rule add_device_table_ok)
  moreover have "device_at a m = Some i \<longleftrightarrow> i < dev_count m \<and> dev_is_in_address (dev i m) a"
    if "devices m = snd (devmgr_add_device d s)" for m :: "('x, 'c) board" and a i
  proof
    assume "device_at a m = Some i"
    then show "i < dev_count m \<and> dev_is_in_address (dev i m) a"
      by (auto simp: device_at_def find_Some_iff)
  next
    assume "i < dev_count m \<and> dev_is_in_address (dev i m) a"
    then show "device_at a m = Some i"
      unfolding device_at_def using ok that
      by (intro find_upt_unique) (auto simp: table_ok_def dev_def dev_count_def)
  qed
  ultimately show ?thesis by blast
qed

theorem device_table_unambiguous_witness:
  "\<exists>s :: (card_data, card_delay) DeviceManager. fst (devmgr_add_device (the (rtc_create_device 0)) s) \<and> table_ok (snd (devmgr_add_device (the (rtc_create_device 0)) s))"
proof -
  have "table_ok (devmgr_init :: (card_data, card_delay) DeviceManager)" by (simp add: table_ok_def devmgr_init_def)
  then show ?thesis
    using device_table_unambiguous [of "devmgr_init :: (card_data, card_delay) DeviceManager" "the (rtc_create_device 0)"]
    by (intro exI [of _ devmgr_init]) (simp add: devmgr_add_device_def devmgr_init_def)
qed

section \<open>The acknowledge cycle\<close>

text \<open>What an identification may change: the answering card only, and of its requests only the level's.\<close>

definition identified :: "nat \<Rightarrow> nat \<Rightarrow> ('x, 'c) board \<Rightarrow> ('x, 'c) board \<Rightarrow> bool" where
  "identified i lvl m m' \<longleftrightarrow> dev_count m' = dev_count m \<and> g_reg m' = g_reg m \<and> (\<forall>j<dev_count m. j \<noteq> i \<longrightarrow> dev j m' = dev j m)
     \<and> interruptBits (dev i m') AND NOT (push_bit lvl 1) = interruptBits (dev i m) AND NOT (push_bit lvl 1)"

definition pending :: "nat \<Rightarrow> ('x, 'c) Device \<Rightarrow> bool" where
  "pending lvl d \<longleftrightarrow> interruptBits d AND push_bit lvl 1 \<noteq> 0"

locale identifying_cards =
  fixes ops :: "('x, 'c) ops" and fitted :: "('x, 'c) Device \<Rightarrow> bool"
  assumes answers: "i < dev_count m \<Longrightarrow> fitted (dev i m) \<Longrightarrow> lvl < 16 \<Longrightarrow> pending lvl (dev i m)
      \<Longrightarrow> \<exists>m'. dev_ident ops i (of_nat lvl) m = Done (identCode (dev i m)) m' \<and> identified i lvl m m'"
    and code: "fitted d \<Longrightarrow> identCode d \<noteq> 0"
begin

lemma scan_first:
  "\<forall>i\<in>set is. i < dev_count m \<and> fitted (dev i m) \<Longrightarrow> lvl < 16 \<Longrightarrow>
   (case find (\<lambda>i. pending lvl (dev i m)) is of
      None \<Rightarrow> ident_scan ops lvl is m = Done (- 1) m
    | Some i \<Rightarrow> \<exists>m'. ident_scan ops lvl is m = Done (uint (identCode (dev i m))) m' \<and> identified i lvl m m'
        \<and> interruptBits (dev i m') = interruptBits (dev i m) AND NOT (push_bit lvl 1))"
proof (induction "is")
  case (Cons i "is")
  show ?case
  proof (cases "pending lvl (dev i m)")
    case False
    then show ?thesis using Cons by (auto simp: pending_def split: option.splits)
  next
    case True
    obtain m' where m': "dev_ident ops i (of_nat lvl) m = Done (identCode (dev i m)) m'" "identified i lvl m m'"
      using answers [of i m lvl] Cons.prems True by auto
    have "identCode (dev i m) > 0" using code Cons.prems word_neq_0_conv by auto
    moreover have "i < dev_count m'" using Cons.prems m'(2) by (simp add: identified_def)
    ultimately show ?thesis
      using True m' by (auto simp: pending_def identified_def and.assoc)
  qed
qed simp

lemma acknowledges:
  assumes fit: "\<forall>i<dev_count m. fitted (dev i m)" and lvl: "lvl < 16"
  shows "case find (\<lambda>i. pending lvl (dev i m)) [0..<dev_count m] of
      None \<Rightarrow> do_ident ops lvl m = cpu_interrupt 14 IOX_error m
    | Some i \<Rightarrow> \<exists>m'. do_ident ops lvl m = Done () m' \<and> g_reg m' = set_cur R_A (identCode (dev i m)) (g_reg m)
        \<and> interruptBits (dev i m') = interruptBits (dev i m) AND NOT (push_bit lvl 1)
        \<and> (\<forall>j<dev_count m. j \<noteq> i \<longrightarrow> dev j m' = dev j m)"
proof (cases "find (\<lambda>i. pending lvl (dev i m)) [0..<dev_count m]")
  case None
  then show ?thesis
    using scan_first [of "[0..<dev_count m]" m lvl] fit lvl by (simp add: do_ident_def devmgr_ident_def)
next
  case (Some i)
  obtain m' where m': "ident_scan ops lvl [0..<dev_count m] m = Done (uint (identCode (dev i m))) m'" "identified i lvl m m'"
    "interruptBits (dev i m') = interruptBits (dev i m) AND NOT (push_bit lvl 1)"
    using scan_first [of "[0..<dev_count m]" m lvl] fit lvl Some by auto
  have f: "(word_of_int (uint a) AND 0xFFFF :: u16) = a" for a :: u16
    by (rule word16_bits) (simp add: bit_simps)
  define m2 where "m2 = m'\<lparr>g_reg := set_cur R_A (identCode (dev i m)) (g_reg m')\<rparr>"
  have "do_ident ops lvl m = Done () m2"
    using m'(1) f by (simp add: do_ident_def devmgr_ident_def put_def on_regs_def m2_def)
  moreover have "dev j m2 = dev j m'" for j by (simp add: m2_def dev_def)
  ultimately show ?thesis using Some m'(2,3) by (auto simp: identified_def m2_def)
qed

end

text \<open>The six cards answer with their code and withdraw the request of that level.\<close>

definition card_fitted :: "card \<Rightarrow> bool" where
  "card_fitted d \<longleftrightarrow> dev_type d \<in> {DEVICE_TYPE_RTC, DEVICE_TYPE_LINE_PRINTER, DEVICE_TYPE_PAPER_TAPE, DEVICE_TYPE_PAPER_TAPE_WRITER,
       DEVICE_TYPE_TERMINAL, DEVICE_TYPE_DRUM}
     \<and> identCode d \<noteq> 0"

lemma clear_interrupt_identified:
  "i < dev_count m \<Longrightarrow> identified i lvl m (dev_set_interrupt_status i False lvl (set_dev i (\<lambda>d. d\<lparr>deviceData := g d\<rparr>) m))"
  by (auto simp: identified_def dev_set_interrupt_status_def device_clear_interrupt_def and.assoc)

lemma clear_interrupt_only: "i < dev_count m \<Longrightarrow> identified i lvl m (dev_set_interrupt_status i False lvl m)"
  by (auto simp: identified_def dev_set_interrupt_status_def device_clear_interrupt_def and.assoc)

lemma unat_of_level: "lvl < 16 \<Longrightarrow> unat (of_nat lvl :: u16) = lvl"
  by simp

interpretation cards: identifying_cards "card_ops wall now" card_fitted for wall now
proof unfold_locales
  fix i m lvl
  assume "i < dev_count m" "card_fitted (dev i m)" "lvl < 16" "pending lvl (dev i m)"
  then show "\<exists>m'. dev_ident (card_ops wall now) i (of_nat lvl) m = Done (identCode (dev i m)) m' \<and> identified i lvl m m'"
    by (auto simp: card_fitted_def dev_ident_def ops_of_def rtc_ident_def line_printer_ident_def paper_tape_ident_def
        paper_tape_writer_ident_def terminal_ident_def drum_ident_def pending_def unat_of_level set_rtc_def set_lp_def set_ptr_def set_ptw_def set_term_def
        intro!: clear_interrupt_identified clear_interrupt_only)
next
  show "card_fitted d \<Longrightarrow> identCode d \<noteq> 0" for d by (simp add: card_fitted_def)
qed

text \<open>C29
  IDENT acknowledges: on a board of the six cards, with no card requesting the level, A keeps
  its value and the IOX error is raised; otherwise A gets the identity code of the first
  requesting card in the table, which loses exactly that request, and every other card is left as
  it was, so its request is served by a later IDENT.
\<close>

theorem ident_acknowledges:
  assumes "\<forall>i<dev_count m. card_fitted (dev i m)" and "lvl < 16"
  shows "case find (\<lambda>i. pending lvl (dev i m)) [0..<dev_count m] of
      None \<Rightarrow> do_ident (card_ops wall now) lvl m = cpu_interrupt 14 IOX_error m
    | Some i \<Rightarrow> \<exists>m'. do_ident (card_ops wall now) lvl m = Done () m'
        \<and> g_reg m' = set_cur R_A (identCode (dev i m)) (g_reg m)
        \<and> interruptBits (dev i m') = interruptBits (dev i m) AND NOT (push_bit lvl 1)
        \<and> (\<forall>j<dev_count m. j \<noteq> i \<longrightarrow> dev j m' = dev j m)"
  using assms by (rule cards.acknowledges)

text \<open>A board with a clock, a printer, a tape reader and a punch; the printer and the punch request level 10.\<close>

definition demo_board :: "cards" where
  "demo_board = \<lparr>g_reg = demo_regs\<lparr>reg_STS := 0\<rparr>, g_mms_type = MMS1,
     g_paging_tables = \<lparr>mmsType = MMS1, shadowRam = [], shadowRamAddress = 0, isInitialized = False\<rparr>,
     s_memory_banks = [], n_Array = (\<lambda>_. 0), g_nd_memsize = 0x30000, g_ecc_latch = (\<lambda>_. 0),
     g_dma_access = False, s_tset_lock_fn = True, s_tset_lock_held = False, s_tset_old = 0,
     s_tset_old_valid = False, tset_calls = [], g_current_cpu_type = ND110, g_current_fpp_type = FPP48, CurrentCPURunMode = CPU_RUNNING,
     g_cpu_exit_code = 0,
     devices = devmgr_init\<lparr>dm_devices :=
       [dev_reset (the (rtc_create_device 0)),
        (dev_reset (the (lp_create_line_printer_device 0)))\<lparr>interruptBits := push_bit 10 1\<rparr>,
        dev_reset (the (ptr_create_paper_tape_device 0)),
        (dev_reset (the (ptp_create_paper_tape_writer_device 0)))\<lparr>interruptBits := push_bit 10 1\<rparr>]\<rparr>\<rparr>"

lemma demo_board_cards:
  "dev_count demo_board = 4"
  "dev 0 demo_board = dev_reset (the (rtc_create_device 0))"
  "dev 1 demo_board = (dev_reset (the (lp_create_line_printer_device 0)))\<lparr>interruptBits := push_bit 10 1\<rparr>"
  "dev 2 demo_board = dev_reset (the (ptr_create_paper_tape_device 0))"
  "dev 3 demo_board = (dev_reset (the (ptp_create_paper_tape_writer_device 0)))\<lparr>interruptBits := push_bit 10 1\<rparr>"
  by (simp_all add: demo_board_def dev_count_def dev_def)

lemmas creation = rtc_create_device_def lp_create_line_printer_device_def ptr_create_paper_tape_device_def
  ptp_create_paper_tape_writer_device_def dev_init_def dev_reset_def clears_requests_def

lemma all_less_4: "(\<forall>i<4. P (i :: nat)) \<longleftrightarrow> P 0 \<and> P 1 \<and> P 2 \<and> P 3"
  by (auto simp: numeral_eq_Suc less_Suc_eq)

lemma demo_board_fitted: "\<forall>i<dev_count demo_board. card_fitted (dev i demo_board)"
  unfolding demo_board_cards(1) all_less_4 demo_board_cards by (simp add: card_fitted_def creation)

lemma demo_board_pending: "find (\<lambda>i. pending 10 (dev i demo_board)) [0..<dev_count demo_board] = Some 1"
proof -
  have "[0..<dev_count demo_board] = [0, 1, 2, 3]" by (simp add: demo_board_cards upt_rec)
  then show ?thesis using demo_board_cards by (simp add: pending_def creation)
qed

theorem ident_acknowledges_witness:
  "\<exists>m'. do_ident (card_ops False (\<lambda>_. 0)) 10 demo_board = Done () m' \<and> cur R_A (g_reg m') = 3
     \<and> interruptBits (dev 1 m') = 0 \<and> dev 3 m' = dev 3 demo_board"
  using ident_acknowledges [OF demo_board_fitted, of 10 False "\<lambda>_. 0"] demo_board_cards
  unfolding demo_board_pending by (auto simp: creation)

section \<open>The tick list and the kept interrupt requests\<close>

text \<open>
  What \<open>devmgr_tick\<close> relies on between its parts: the table positions are recorded, the list
  holds ticking cards in table order and, unless a card was \<open>removed\<close>, exactly the members;
  the kept OR is right unless marked dirty; a card with work that is not in the list has asked.
\<close>

definition irq_ok :: "('x, 'c) ops \<Rightarrow> ('x, 'c) DeviceManager \<Rightarrow> bool" where
  "irq_ok ops s \<longleftrightarrow> dev_irq_dirty s \<or> s_irq_bits s = irq_or ops (dm_devices s)"

definition work_ok :: "('x, 'c) ops \<Rightarrow> ('x, 'c) DeviceManager \<Rightarrow> bool" where
  "work_ok ops s \<longleftrightarrow> dev_tick_wanted s \<or> (\<forall>j<length (dm_devices s). \<not> joins ops (dm_devices s ! j))"

definition order_ok :: "('x, 'c) ops \<Rightarrow> ('x, 'c) DeviceManager \<Rightarrow> bool" where
  "order_ok ops s \<longleftrightarrow> (\<forall>j<length (dm_devices s). tickOrder (dm_devices s ! j) = int j)
     \<and> sorted_wrt (<) (s_tick_list s)
     \<and> (\<forall>j\<in>set (s_tick_list s). j < length (dm_devices s) \<and> has_Tick ops (dm_devices s ! j))"

definition loop_ok :: "('x, 'c) ops \<Rightarrow> bool \<Rightarrow> ('x, 'c) DeviceManager \<Rightarrow> bool" where
  "loop_ok ops removed s \<longleftrightarrow> s_tick_list_devices s = int (length (dm_devices s)) \<and> order_ok ops s
     \<and> irq_ok ops s \<and> work_ok ops s
     \<and> (\<not> removed \<longrightarrow> s_tick_list s = take tick_list_size (tick_members ops (dm_devices s)))"

definition manager_ok :: "('x, 'c) ops \<Rightarrow> ('x, 'c) DeviceManager \<Rightarrow> bool" where
  "manager_ok ops s \<longleftrightarrow> s_tick_list_devices s \<noteq> int (length (dm_devices s)) \<or> loop_ok ops False s"

lemma irq_or_cong:
  "list_all2 (\<lambda>d e. dev_type d = dev_type e \<and> interruptBits d = interruptBits e) ds es \<Longrightarrow> irq_or ops ds = irq_or ops es"
proof -
  have "list_all2 (\<lambda>d e. dev_type d = dev_type e \<and> interruptBits d = interruptBits e) ds es
    \<Longrightarrow> fold (\<lambda>d bits. if has_Tick ops d then bits OR interruptBits d else bits) ds b
      = fold (\<lambda>d bits. if has_Tick ops d then bits OR interruptBits d else bits) es b" for b
    by (induction arbitrary: b rule: list_all2_induct) (auto simp: has_Tick_def)
  then show "list_all2 (\<lambda>d e. dev_type d = dev_type e \<and> interruptBits d = interruptBits e) ds es \<Longrightarrow> irq_or ops ds = irq_or ops es"
    by (simp add: irq_or_def)
qed

lemma irq_or_map:
  "(\<And>d. dev_type (f d) = dev_type d \<and> interruptBits (f d) = interruptBits d) \<Longrightarrow> irq_or ops (map f ds) = irq_or ops ds"
  by (intro irq_or_cong) (simp add: list_all2_conv_all_nth)

lemma number_devices_nth [simp]:
  "length (number_devices ds) = length ds"
  "j < length ds \<Longrightarrow> number_devices ds ! j = (ds ! j)\<lparr>tickOrder := int j\<rparr>"
  by (simp_all add: number_devices_def nth_enumerate_eq)

lemma irq_or_number [simp]: "irq_or ops (number_devices ds) = irq_or ops ds"
  by (intro irq_or_cong) (simp add: list_all2_conv_all_nth)

lemma tick_members_cong:
  assumes "length ds = length es" "\<And>j. j < length ds \<Longrightarrow>
     dev_type (ds ! j) = dev_type (es ! j) \<and> tickAlways (ds ! j) = tickAlways (es ! j) \<and> inTickList (ds ! j) = inTickList (es ! j)"
  shows "tick_members ops ds = tick_members ops es"
  using assms unfolding tick_members_def by (intro filter_cong) (auto simp: has_Tick_def)

lemma tick_members_number [simp]: "tick_members ops (number_devices ds) = tick_members ops ds"
  by (rule tick_members_cong) simp_all

lemma tick_members_sorted:
  "sorted_wrt (<) (take n (tick_members ops ds))"
  "j \<in> set (take n (tick_members ops ds)) \<Longrightarrow> j < length ds \<and> has_Tick ops (ds ! j)"
  using sorted_wrt_upt [of 0 "length ds"] set_take_subset [of n "tick_members ops ds"]
  by (auto simp: tick_members_def intro!: sorted_wrt_take sorted_wrt_filter)

text \<open>
  What a tick of one card may do to the board: it keeps the manager's bookkeeping, reports a
  changed interrupt request by the dirty mark and new work, on any card, by a request.
\<close>

definition tick_keeps :: "('x, 'c) ops \<Rightarrow> ('x, 'c) DeviceManager \<Rightarrow> ('x, 'c) DeviceManager \<Rightarrow> bool" where
  "tick_keeps ops s s' \<longleftrightarrow> length (dm_devices s') = length (dm_devices s)
     \<and> s_tick_list s' = s_tick_list s \<and> s_tick_list_devices s' = s_tick_list_devices s \<and> s_irq_bits s' = s_irq_bits s
     \<and> (\<forall>j<length (dm_devices s). let d = dm_devices s ! j; e = dm_devices s' ! j in
          dev_type e = dev_type d \<and> tickAlways e = tickAlways d \<and> inTickList e = inTickList d \<and> tickOrder e = tickOrder d
          \<and> (dev_irq_dirty s' \<or> interruptBits e = interruptBits d)
          \<and> (devmgr_has_work ops e \<longrightarrow> dev_tick_wanted s' \<or> devmgr_has_work ops d))
     \<and> (dev_irq_dirty s \<longrightarrow> dev_irq_dirty s') \<and> (dev_tick_wanted s \<longrightarrow> dev_tick_wanted s')"

lemma tick_keeps_slot:
  assumes "tick_keeps ops s s'" "j < length (dm_devices s)"
  shows "dev_type (dm_devices s' ! j) = dev_type (dm_devices s ! j)" "tickAlways (dm_devices s' ! j) = tickAlways (dm_devices s ! j)"
    "inTickList (dm_devices s' ! j) = inTickList (dm_devices s ! j)" "tickOrder (dm_devices s' ! j) = tickOrder (dm_devices s ! j)"
    "dev_irq_dirty s' \<or> interruptBits (dm_devices s' ! j) = interruptBits (dm_devices s ! j)"
    "dev_tick_wanted s' \<or> (devmgr_has_work ops (dm_devices s' ! j) \<longrightarrow> devmgr_has_work ops (dm_devices s ! j))"
  using assms by (auto simp: tick_keeps_def Let_def)

lemma tick_keeps_loop_ok:
  assumes keep: "tick_keeps ops s s'" and ok: "loop_ok ops removed s"
  shows "loop_ok ops removed s'"
proof -
  note slot = tick_keeps_slot [OF keep]
  have len: "length (dm_devices s') = length (dm_devices s)" and lists: "s_tick_list s' = s_tick_list s"
    "s_tick_list_devices s' = s_tick_list_devices s" "s_irq_bits s' = s_irq_bits s"
    and marks: "dev_irq_dirty s \<longrightarrow> dev_irq_dirty s'" "dev_tick_wanted s \<longrightarrow> dev_tick_wanted s'"
    using keep by (simp_all add: tick_keeps_def)
  have "order_ok ops s'"
    using ok slot len lists by (auto simp: loop_ok_def order_ok_def has_Tick_def)
  moreover have "irq_ok ops s'"
  proof (cases "dev_irq_dirty s'")
    case False
    then have "irq_or ops (dm_devices s') = irq_or ops (dm_devices s)"
      using slot len by (intro irq_or_cong) (simp add: list_all2_conv_all_nth)
    then show ?thesis using ok False marks lists by (simp add: loop_ok_def irq_ok_def)
  qed (simp add: irq_ok_def)
  moreover have "work_ok ops s'"
    using ok slot len marks by (auto simp: loop_ok_def work_ok_def joins_def has_Tick_def)
  moreover have "tick_members ops (dm_devices s') = tick_members ops (dm_devices s)"
    using slot len by (intro tick_members_cong) auto
  ultimately show ?thesis using ok len lists by (simp add: loop_ok_def)
qed

locale ticking_cards =
  fixes ops :: "('x, 'c) ops"
  assumes ticks: "Tick (ops t) = Some f \<Longrightarrow> i < dev_count m \<Longrightarrow> dev_type (dev i m) = t
      \<Longrightarrow> \<exists>m'. f i m = Some (Done () m') \<and> tick_keeps ops (devices m) (devices m')"
    and needed: "TickNeeded (ops t) = Some g \<Longrightarrow> g (d\<lparr>inTickList := b, tickOrder := k\<rparr>) = g d"
begin

lemma has_work_bookkeeping [simp]:
  "devmgr_has_work ops (d\<lparr>inTickList := b\<rparr>) = devmgr_has_work ops d"
  "devmgr_has_work ops (d\<lparr>tickOrder := k\<rparr>) = devmgr_has_work ops d"
  using needed [where t = "dev_type d" and d = d and b = b and k = "tickOrder d"]
    needed [where t = "dev_type d" and d = d and b = "inTickList d" and k = k]
  by (auto simp: devmgr_has_work_def split: option.split)

lemma rebuild_ok:
  assumes "s_tick_list_devices s = int (length (dm_devices s))" "irq_ok ops s" "work_ok ops s"
  shows "loop_ok ops False (devmgr_rebuild_tick_list ops s)"
  using assms tick_members_sorted [where n = tick_list_size and ops = ops and ds = "dm_devices s"]
  by (auto simp: loop_ok_def devmgr_rebuild_tick_list_def order_ok_def irq_ok_def work_ok_def joins_def has_Tick_def)

lemma take_requests_ok:
  assumes "loop_ok ops removed s"
  shows "loop_ok ops (if fst (devmgr_take_requests ops s) then False else removed) (snd (devmgr_take_requests ops s))"
    and "\<not> fst (devmgr_take_requests ops s) \<Longrightarrow> s_tick_list (snd (devmgr_take_requests ops s)) = s_tick_list s"
    and "length (dm_devices (snd (devmgr_take_requests ops s))) = length (dm_devices s)"
proof -
  let ?join = "\<lambda>d. if joins ops d then d\<lparr>inTickList := True\<rparr> else d"
  let ?s1 = "s\<lparr>dev_tick_wanted := False, dm_devices := map ?join (dm_devices s)\<rparr>"
  have work: "work_ok ops ?s1" by (auto simp: work_ok_def joins_def)
  have irq: "irq_ok ops ?s1" using assms irq_or_map [of ?join ops "dm_devices s"] by (auto simp: loop_ok_def irq_ok_def)
  have devs: "s_tick_list_devices ?s1 = int (length (dm_devices ?s1))" using assms by (simp add: loop_ok_def)
  have r: "devmgr_take_requests ops s = (if \<not> dev_tick_wanted s then (False, s)
      else if \<exists>d\<in>set (dm_devices s). joins ops d then (True, devmgr_rebuild_tick_list ops ?s1) else (False, ?s1))"
    by (simp add: devmgr_take_requests_def Let_def)
  have same: "map ?join (dm_devices s) = dm_devices s" if "\<not> (\<exists>d\<in>set (dm_devices s). joins ops d)"
    using that by (intro map_idI) auto
  show "loop_ok ops (if fst (devmgr_take_requests ops s) then False else removed) (snd (devmgr_take_requests ops s))"
    unfolding r using rebuild_ok [OF devs irq work] assms work irq same
    by (auto simp: loop_ok_def order_ok_def)
  show "\<not> fst (devmgr_take_requests ops s) \<Longrightarrow> s_tick_list (snd (devmgr_take_requests ops s)) = s_tick_list s"
    unfolding r by (auto split: if_splits)
  show "length (dm_devices (snd (devmgr_take_requests ops s))) = length (dm_devices s)"
    unfolding r by (auto simp: devmgr_rebuild_tick_list_def)
qed

lemma after_tick_ok:
  assumes ok: "loop_ok ops removed (devices m)" and i: "i < dev_count m"
  shows "loop_ok ops (fst (after_tick ops i removed m)) (devices (snd (after_tick ops i removed m)))"
    and "s_tick_list (devices (snd (after_tick ops i removed m))) = s_tick_list (devices m)"
    and "length (dm_devices (devices (snd (after_tick ops i removed m)))) = dev_count m"
proof -
  let ?ds = "(dm_devices (devices m))[i := (dev i m)\<lparr>inTickList := False\<rparr>]"
  have "irq_or ops ?ds = irq_or ops (dm_devices (devices m))"
    using i by (intro irq_or_cong) (auto simp: list_all2_conv_all_nth nth_list_update dev_def dev_count_def)
  moreover have "\<not> tickAlways (dev i m) \<and> \<not> devmgr_has_work ops (dev i m) \<Longrightarrow>
      \<forall>j<length ?ds. joins ops (?ds ! j) \<longrightarrow> joins ops (dm_devices (devices m) ! j)"
    using i by (auto simp: joins_def nth_list_update dev_def dev_count_def)
  ultimately show "loop_ok ops (fst (after_tick ops i removed m)) (devices (snd (after_tick ops i removed m)))"
    using ok i by (auto simp: after_tick_def loop_ok_def order_ok_def irq_ok_def work_ok_def set_dev_def on_manager_def
        nth_list_update dev_def dev_count_def has_Tick_def)
  show "s_tick_list (devices (snd (after_tick ops i removed m))) = s_tick_list (devices m)"
    by (simp add: after_tick_def set_dev_def on_manager_def)
  show "length (dm_devices (devices (snd (after_tick ops i removed m)))) = dev_count m"
    by (simp add: after_tick_def set_dev_def on_manager_def dev_count_def)
qed

text \<open>The cards left to tick in this call: those from position \<open>k\<close> of the list on.\<close>

definition left_to_tick :: "nat \<times> bool \<Rightarrow> ('x, 'c) board \<Rightarrow> nat" where
  "left_to_tick x m = (if fst x < length (s_tick_list (devices m)) then dev_count m - s_tick_list (devices m) ! fst x else 0)"

lemma after_position:
  assumes "order_ok ops s" "p = length (takeWhile (\<lambda>j. tickOrder (dm_devices s ! j) \<le> int i) (s_tick_list s))"
    "p < length (s_tick_list s)"
  shows "i < s_tick_list s ! p \<and> s_tick_list s ! p < length (dm_devices s)"
proof -
  have "\<not> tickOrder (dm_devices s ! (s_tick_list s ! p)) \<le> int i"
    using nth_length_takeWhile [of "\<lambda>j. tickOrder (dm_devices s ! j) \<le> int i" "s_tick_list s"] assms(2,3) by simp
  then show ?thesis using assms(1,3) nth_mem [of p "s_tick_list s"] by (auto simp: order_ok_def)
qed

lemma pass_ok:
  assumes ok: "loop_ok ops removed (devices m)" and k: "k < length (s_tick_list (devices m))"
  shows "\<exists>x' m'. tick_pass ops (k, removed) m = Some (Done (Inl x') m') \<and> loop_ok ops (snd x') (devices m')
     \<and> left_to_tick x' m' < left_to_tick (k, removed) m"
proof -
  define i where "i = s_tick_list (devices m) ! k"
  have list: "sorted_wrt (<) (s_tick_list (devices m))" "i < dev_count m" "has_Tick ops (dev i m)" "tickOrder (dev i m) = int i"
    using ok k nth_mem [of k "s_tick_list (devices m)"] unfolding i_def
    by (auto simp: loop_ok_def order_ok_def dev_def dev_count_def)
  obtain f where f: "Tick (ops (dev_type (dev i m))) = Some f" using list(3) by (auto simp: has_Tick_def)
  obtain m1 where m1: "f i m = Some (Done () m1)" "tick_keeps ops (devices m) (devices m1)"
    using ticks [OF f list(2) refl] by blast
  have ok1: "loop_ok ops removed (devices m1)" by (rule tick_keeps_loop_ok [OF m1(2) ok])
  have len1: "dev_count m1 = dev_count m" "s_tick_list (devices m1) = s_tick_list (devices m)"
    using m1(2) by (simp_all add: tick_keeps_def dev_count_def)
  obtain r2 m2 where m2: "after_tick ops i removed m1 = (r2, m2)" by fastforce
  have ok2: "loop_ok ops r2 (devices m2)" "s_tick_list (devices m2) = s_tick_list (devices m)"
    "length (dm_devices (devices m2)) = dev_count m"
    using after_tick_ok [OF ok1, of i] list(2) m2 len1 by auto
  obtain joined s3 where s3: "devmgr_take_requests ops (devices m2) = (joined, s3)" by fastforce
  have ok3: "loop_ok ops (if joined then False else r2) s3" "\<not> joined \<Longrightarrow> s_tick_list s3 = s_tick_list (devices m)"
    "length (dm_devices s3) = dev_count m"
    using take_requests_ok [OF ok2(1)] s3 ok2 by auto
  define m3 where "m3 = m2\<lparr>devices := s3\<rparr>"
  define x where "x = (if joined then (length (takeWhile (\<lambda>j. tickOrder (dm_devices s3 ! j) \<le> int i) (s_tick_list s3)), False)
    else (Suc k, r2))"
  have run: "tick_pass ops (k, removed) m = Some (Done (Inl x) m3)"
    using k f m1(1) m2 s3 list(4)
    by (simp add: tick_pass_def i_def [symmetric] Let_def bindl_def ops_of_def m3_def x_def dev_def)
  have "loop_ok ops (snd x) (devices m3)" using ok3(1) by (cases joined) (simp_all add: x_def m3_def)
  moreover have "left_to_tick x m3 < left_to_tick (k, removed) m"
  proof (cases joined)
    case True
    then have "order_ok ops s3" using ok3(1) by (simp add: loop_ok_def)
    then show ?thesis
      using after_position [of s3 "fst x" i] True list(2) k ok3(3)
      by (auto simp: left_to_tick_def x_def m3_def i_def [symmetric] dev_count_def)
  next
    case False
    then show ?thesis
      using ok3 list(1,2) k sorted_wrt_nth_less [OF list(1), of k "Suc k"]
      by (auto simp: left_to_tick_def x_def m3_def i_def [symmetric] dev_count_def)
  qed
  ultimately show ?thesis using run by blast
qed

lemma new_table_ok: "manager_ok ops s \<Longrightarrow> loop_ok ops False (new_table ops s)"
proof -
  assume m: "manager_ok ops s"
  let ?s = "s\<lparr>dm_devices := map (\<lambda>d. d\<lparr>inTickList := False\<rparr>) (dm_devices s),
     s_tick_list_devices := int (length (dm_devices s))\<rparr>"
  have "loop_ok ops False (devmgr_rebuild_tick_list ops (?s\<lparr>dev_tick_wanted := True, dev_irq_dirty := True\<rparr>))"
    by (rule rebuild_ok) (simp_all add: irq_ok_def work_ok_def)
  moreover have "(devmgr_rebuild_tick_list ops ?s)\<lparr>dev_tick_wanted := True, dev_irq_dirty := True\<rparr>
      = devmgr_rebuild_tick_list ops (?s\<lparr>dev_tick_wanted := True, dev_irq_dirty := True\<rparr>)"
    by (cases s) (simp add: devmgr_rebuild_tick_list_def)
  ultimately show ?thesis
    using m by (simp add: new_table_def manager_ok_def)
qed

lemma collect_ok:
  "loop_ok ops False s \<Longrightarrow> loop_ok ops False (collect_irq ops s) \<and> \<not> dev_irq_dirty (collect_irq ops s)
     \<and> s_irq_bits (collect_irq ops s) = irq_or ops (dm_devices (collect_irq ops s))"
  by (auto simp: collect_irq_def loop_ok_def order_ok_def irq_ok_def work_ok_def)

lemma tick_exact:
  assumes "manager_ok ops (devices m)"
  shows "\<exists>bits m'. devmgr_tick ops m = Some (Done bits m') \<and> manager_ok ops (devices m')
     \<and> bits = irq_or ops (dm_devices (devices m'))"
proof -
  define m0 where "m0 = on_manager (\<lambda>s. snd (devmgr_take_requests ops (new_table ops s))) m"
  have "loop_ok ops False (devices m0)"
    using take_requests_ok(1) [OF new_table_ok [OF assms]] by (simp add: m0_def split: if_splits)
  then have "\<exists>removed m1. while_loop (tick_pass ops) (0, False) m0 = Some (Done removed m1) \<and> loop_ok ops removed (devices m1)"
  proof (intro while_loop_total [where I = "\<lambda>x m. loop_ok ops (snd x) (devices m)" and \<mu> = left_to_tick])
    fix x :: "nat \<times> bool" and m :: "('x, 'c) board"
    assume ok: "loop_ok ops (snd x) (devices m)"
    show "(\<exists>x' m'. tick_pass ops x m = Some (Done (Inl x') m') \<and> loop_ok ops (snd x') (devices m') \<and> left_to_tick x' m' < left_to_tick x m)
       \<or> (\<exists>y m'. tick_pass ops x m = Some (Done (Inr y) m') \<and> loop_ok ops y (devices m'))"
      using pass_ok [of "snd x" m "fst x"] ok
      by (cases "fst x < length (s_tick_list (devices m))") (auto simp: tick_pass_def split: prod.split)
  qed simp
  then obtain removed m1 where m1: "while_loop (tick_pass ops) (0, False) m0 = Some (Done removed m1)"
    "loop_ok ops removed (devices m1)" by blast
  define s2 where "s2 = (if removed then devmgr_rebuild_tick_list ops (devices m1) else devices m1)"
  have "loop_ok ops False s2"
    using m1(2) rebuild_ok [of "devices m1"] by (auto simp: s2_def loop_ok_def)
  then have "loop_ok ops False (collect_irq ops s2)" "s_irq_bits (collect_irq ops s2) = irq_or ops (dm_devices (collect_irq ops s2))"
    using collect_ok by auto
  moreover have "devmgr_tick ops m = Some (Done (s_irq_bits (collect_irq ops s2)) (m1\<lparr>devices := collect_irq ops s2\<rparr>))"
    using m1(1) by (simp add: devmgr_tick_def bindl_def m0_def [symmetric] s2_def Let_def)
  ultimately show ?thesis by (simp add: manager_ok_def)
qed

text \<open>After the requests are taken, every card with work is in the list.\<close>

lemma requests_taken:
  assumes "manager_ok ops s" "length (dm_devices s) \<le> tick_list_size"
    and "s' = snd (devmgr_take_requests ops (new_table ops s))"
    and "j < length (dm_devices s')" "has_Tick ops (dm_devices s' ! j)"
    and "tickAlways (dm_devices s' ! j) \<or> devmgr_has_work ops (dm_devices s' ! j)"
  shows "j \<in> set (s_tick_list s')"
proof -
  have ok: "loop_ok ops False s'" using take_requests_ok(1) [OF new_table_ok [OF assms(1)]] assms(3) by (simp split: if_splits)
  have len: "length (dm_devices s') = length (dm_devices s)"
    using take_requests_ok(3) [OF new_table_ok [OF assms(1)]] assms(3) by (simp add: new_table_def devmgr_rebuild_tick_list_def)
  have "length (tick_members ops (dm_devices s')) \<le> tick_list_size"
    using assms(2) len length_filter_le [of _ "[0..<length (dm_devices s')]"] unfolding tick_members_def
    by (metis (no_types, lifting) diff_zero le_trans length_upt)
  then have list: "s_tick_list s' = tick_members ops (dm_devices s')" using ok by (simp add: loop_ok_def)
  have "\<not> joins ops (dm_devices s' ! j)"
  proof -
    have "\<not> dev_tick_wanted s'" using assms(3) by (auto simp: devmgr_take_requests_def Let_def devmgr_rebuild_tick_list_def)
    then show ?thesis using ok assms(4) by (simp add: loop_ok_def work_ok_def)
  qed
  then show ?thesis using assms(4-6) by (auto simp: list tick_members_def joins_def)
qed

end

section \<open>The six cards obey the contract\<close>

lemma tick_keeps_refl: "tick_keeps ops s s"
  by (simp add: tick_keeps_def Let_def)

lemma tick_keeps_trans: "tick_keeps ops s t \<Longrightarrow> tick_keeps ops t u \<Longrightarrow> tick_keeps ops s u"
proof -
  assume st: "tick_keeps ops s t" and tu: "tick_keeps ops t u"
  have len: "length (dm_devices t) = length (dm_devices s)" using st by (simp add: tick_keeps_def)
  have marks: "dev_irq_dirty t \<longrightarrow> dev_irq_dirty u" "dev_tick_wanted t \<longrightarrow> dev_tick_wanted u"
    using tu by (simp_all add: tick_keeps_def)
  have "let d = dm_devices s ! j; e = dm_devices u ! j in
          dev_type e = dev_type d \<and> tickAlways e = tickAlways d \<and> inTickList e = inTickList d \<and> tickOrder e = tickOrder d
          \<and> (dev_irq_dirty u \<or> interruptBits e = interruptBits d)
          \<and> (devmgr_has_work ops e \<longrightarrow> dev_tick_wanted u \<or> devmgr_has_work ops d)" if "j < length (dm_devices s)" for j
    using tick_keeps_slot [OF st that] tick_keeps_slot [OF tu, of j] that len marks by (auto simp: Let_def)
  then show ?thesis using st tu by (auto simp: tick_keeps_def)
qed

lemma card_work [simp]:
  "devmgr_has_work (card_ops wall now) d \<longleftrightarrow> ioDelays d \<noteq> [] \<or> dev_type d = DEVICE_TYPE_TERMINAL \<and> terminal_tick_needed d"
  by (cases "dev_type d") (simp_all add: devmgr_has_work_def)

definition keeps_bookkeeping :: "(card \<Rightarrow> card) \<Rightarrow> bool" where
  "keeps_bookkeeping f \<longleftrightarrow> (\<forall>d. dev_type (f d) = dev_type d \<and> tickAlways (f d) = tickAlways d \<and> inTickList (f d) = inTickList d
      \<and> tickOrder (f d) = tickOrder d \<and> (ioDelays d = [] \<longrightarrow> ioDelays (f d) = [])
      \<and> (terminal_tick_needed (f d) \<longrightarrow> terminal_tick_needed d))"

lemma updated_slot:
  "xs[i := f (xs ! i)] ! j = (if j = i \<and> i < length xs then f (xs ! j) else xs ! j)"
  by (cases "i < length xs") (auto simp: nth_list_update not_less list_update_beyond)

lemma card_keeps_update:
  assumes "keeps_bookkeeping f" "\<And>d. interruptBits (f d) = interruptBits d"
  shows "tick_keeps (card_ops wall now) (devices m) (devices (set_dev i f m))"
  using assms by (auto simp: tick_keeps_def Let_def set_dev_def on_manager_def updated_slot keeps_bookkeeping_def)

lemma card_keeps_irq:
  assumes "keeps_bookkeeping f"
  shows "tick_keeps (card_ops wall now) (devices m) (devices (dev_irq_changed (set_dev i f m)))"
  using assms by (auto simp: tick_keeps_def Let_def dev_irq_changed_def set_dev_def on_manager_def updated_slot keeps_bookkeeping_def)

lemma needed_simps [simp]:
  "terminal_tick_needed (d\<lparr>ioDelays := ds\<rparr>) = terminal_tick_needed d"
  "terminal_tick_needed (d\<lparr>interruptBits := w\<rparr>) = terminal_tick_needed d"
  "terminal_tick_needed (d\<lparr>inTickList := b, tickOrder := k\<rparr>) = terminal_tick_needed d"
  by (simp_all add: terminal_tick_needed_def)

lemma card_keeps_data:
  "tick_keeps (card_ops wall now) s (devices m) \<Longrightarrow> (\<And>d. terminal_tick_needed (d\<lparr>deviceData := g d\<rparr>) \<Longrightarrow> terminal_tick_needed d)
    \<Longrightarrow> tick_keeps (card_ops wall now) s (devices (set_dev i (\<lambda>d. d\<lparr>deviceData := g d\<rparr>) m))"
  by (erule tick_keeps_trans) (intro card_keeps_update; simp add: keeps_bookkeeping_def)

lemma card_keeps_status:
  "tick_keeps (card_ops wall now) (devices m) (devices (dev_set_interrupt_status i b lvl m))"
  unfolding dev_set_interrupt_status_def dev_generate_interrupt_def device_clear_interrupt_def
  by (auto simp: tick_keeps_refl keeps_bookkeeping_def intro!: card_keeps_irq)

lemmas card_keeps = tick_keeps_refl card_keeps_status card_keeps_update

lemma terminal_data_needed:
  "(\<And>t. queue_count (f t) > 0 \<Longrightarrow> queue_count t > 0) \<Longrightarrow>
     terminal_tick_needed (d\<lparr>deviceData := on_term f (deviceData d)\<rparr>) \<Longrightarrow> terminal_tick_needed d"
  by (auto simp: terminal_tick_needed_def on_term_def split: card_data.splits)

lemma card_keeps_term:
  "tick_keeps (card_ops wall now) s (devices m) \<Longrightarrow> (\<And>t. queue_count (f t) > 0 \<Longrightarrow> queue_count t > 0)
     \<Longrightarrow> tick_keeps (card_ops wall now) s (devices (set_term i f m))"
  unfolding set_term_def by (erule card_keeps_data) (rule terminal_data_needed [where f = f])

lemma card_keeps_drum:
  "tick_keeps (card_ops wall now) s (devices m) \<Longrightarrow> tick_keeps (card_ops wall now) s (devices (set_drum i f m))"
  unfolding set_drum_def by (erule card_keeps_data) (auto simp: terminal_tick_needed_def on_drum_def split: card_data.splits)

lemma card_keeps_ptw:
  "tick_keeps (card_ops wall now) s (devices m) \<Longrightarrow> tick_keeps (card_ops wall now) s (devices (set_ptw i f m))"
  unfolding set_ptw_def by (erule card_keeps_data) (simp add: terminal_tick_needed_def)

lemma card_keeps_output:
  "tick_keeps (card_ops wall now) s (devices m) \<Longrightarrow> tick_keeps (card_ops wall now) s (devices (input_interrupt i m))"
  "tick_keeps (card_ops wall now) s (devices m) \<Longrightarrow> tick_keeps (card_ops wall now) s (devices (output_interrupt i m))"
  by (auto simp: input_interrupt_def output_interrupt_def Let_def elim!: tick_keeps_trans intro!: card_keeps_status)

lemma count_status [simp]:
  "dev_count (dev_set_interrupt_status i b lvl m) = dev_count m"
  "dev_count (dev_generate_interrupt i lvl m) = dev_count m"
  by (simp_all add: dev_set_interrupt_status_def dev_generate_interrupt_def device_clear_interrupt_def)

lemma delays_status [simp]:
  "i < dev_count m \<Longrightarrow> ioDelays (dev i (dev_generate_interrupt j lvl m)) = ioDelays (dev i m)"
  by (simp add: dev_generate_interrupt_def)

lemma term_steps [simp]:
  "dev_count (set_term i f m) = dev_count m" "dev_count (input_interrupt i m) = dev_count m" "dev_count (output_interrupt i m) = dev_count m"
  "i < dev_count m \<Longrightarrow> ioDelays (dev i (output_interrupt j m)) = ioDelays (dev i m)"
  "i < dev_count m \<Longrightarrow> ioDelays (dev i (set_term j f m)) = ioDelays (dev i m)"
  by (simp_all add: set_term_def input_interrupt_def output_interrupt_def Let_def dev_set_interrupt_status_def
      device_clear_interrupt_def dev_generate_interrupt_def)

lemma card_delayed_keeps:
  assumes "i < dev_count m"
  shows "\<exists>b m'. card_delayed c i p m = Done b m' \<and> dev_count m' = dev_count m
     \<and> tick_keeps (card_ops wall now) (devices m) (devices m') \<and> ioDelays (dev i m') = ioDelays (dev i m)"
proof (cases c)
  case punch_end_delay
  then show ?thesis
    using assms by (simp add: punch_end_def Let_def card_keeps_ptw tick_keeps_refl) (simp add: set_ptw_def)
next
  case terminal_write_end_delay
  then show ?thesis
    using assms by (auto simp: terminal_write_end_def intro!: card_keeps_output card_keeps_term tick_keeps_refl)
next
  case drum_end_delay
  then show ?thesis
    using assms by (simp add: drum_end_def Let_def card_keeps_drum tick_keeps_refl) (simp add: set_drum_def)
qed

lemma delay_pass_step:
  assumes i: "i < dev_count m" and k: "k < length (ioDelays (dev i m))"
  shows "\<exists>k' m'. delay_pass card_delayed i k m = Done (Inl k') m' \<and> dev_count m' = dev_count m
     \<and> tick_keeps (card_ops wall now) (devices m) (devices m')
     \<and> length (ioDelays (dev i m')) - k' < length (ioDelays (dev i m)) - k"
proof -
  let ?count = "\<lambda>d. d\<lparr>ioDelays := count_down k (ioDelays d)\<rparr>" and ?drop = "\<lambda>d. d\<lparr>ioDelays := remove_at k (ioDelays d)\<rparr>"
  define m1 where "m1 = set_dev i ?count m"
  have keep: "keeps_bookkeeping (\<lambda>d. d\<lparr>ioDelays := count_down k (ioDelays d)\<rparr>)"
    "keeps_bookkeeping (\<lambda>d. d\<lparr>ioDelays := remove_at k (ioDelays d)\<rparr>)"
    by (auto simp: keeps_bookkeeping_def count_down_def remove_at_def)
  have m1: "tick_keeps (card_ops wall now) (devices m) (devices m1)" "dev_count m1 = dev_count m"
    "ioDelays (dev i m1) = count_down k (ioDelays (dev i m))"
    using i keep(1) by (auto simp: m1_def intro!: card_keeps_update)
  define e where "e = ioDelays (dev i m1) ! k"
  show ?thesis
  proof (cases "delayTicks e \<le> 0")
    case False
    then have "delay_pass card_delayed i k m = Done (Inl (Suc k)) m1"
      using k by (simp add: delay_pass_def m1_def [symmetric] e_def Let_def)
    then show ?thesis using m1 k by (auto simp: count_down_def)
  next
    case True
    obtain b m2 where m2: "card_delayed (callback e) i (parameter e) m1 = Done b m2" "dev_count m2 = dev_count m"
      "tick_keeps (card_ops wall now) (devices m1) (devices m2)" "ioDelays (dev i m2) = ioDelays (dev i m1)"
      using card_delayed_keeps [of i m1 "callback e"] i m1(2) by metis
    define lvl where "lvl = delay_level (ioDelays (dev i m2) ! k)"
    define m3 where "m3 = (if b \<and> lvl > 0 then dev_generate_interrupt i (unat lvl) m2 else m2)"
    have m3: "tick_keeps (card_ops wall now) (devices m2) (devices m3)" "dev_count m3 = dev_count m"
      "ioDelays (dev i m3) = ioDelays (dev i m1)"
      using m2 i card_keeps_status [of wall now m2 i True "unat lvl"]
      by (auto simp: m3_def dev_set_interrupt_status_def tick_keeps_refl)
    define m4 where "m4 = set_dev i ?drop m3"
    have m4: "tick_keeps (card_ops wall now) (devices m3) (devices m4)" "dev_count m4 = dev_count m"
      "ioDelays (dev i m4) = remove_at k (ioDelays (dev i m1))"
      using m3 i keep(2) by (auto simp: m4_def intro!: card_keeps_update)
    have "delay_pass card_delayed i k m = Done (Inl k) m4"
      using k True m2(1)
      by (simp add: delay_pass_def m1_def [symmetric] e_def [symmetric] Let_def lvl_def m3_def [unfolded lvl_def] m4_def)
    moreover have "tick_keeps (card_ops wall now) (devices m) (devices m4)"
      using m1(1) m2(3) m3(1) m4(1) tick_keeps_trans by blast
    moreover have "length (ioDelays (dev i m4)) = length (ioDelays (dev i m)) - 1"
      using m4(3) m1(3) k by (simp add: remove_at_def count_down_def)
    ultimately show ?thesis using m4(2) k by (intro exI [of _ k] exI [of _ m4]) auto
  qed
qed

lemma delay_loop_keeps:
  assumes "i < dev_count m"
  shows "\<exists>m'. dev_tick_io_delay card_delayed i m = Some (Done () m') \<and> dev_count m' = dev_count m
     \<and> tick_keeps (card_ops wall now) (devices m) (devices m')"
proof -
  have "\<exists>y m'. while_loop (\<lambda>k. always (delay_pass card_delayed i k)) 0 m = Some (Done y m') \<and>
      dev_count m' = dev_count m \<and> tick_keeps (card_ops wall now) (devices m) (devices m')"
  proof (rule while_loop_total [where \<mu> = "\<lambda>k m. length (ioDelays (dev i m)) - k"
      and I = "\<lambda>k m'. dev_count m' = dev_count m \<and> tick_keeps (card_ops wall now) (devices m) (devices m')"])
    fix k m'
    assume I: "dev_count m' = dev_count m \<and> tick_keeps (card_ops wall now) (devices m) (devices m')"
    show "(\<exists>x' m''. always (delay_pass card_delayed i k) m' = Some (Done (Inl x') m'') \<and>
        (dev_count m'' = dev_count m \<and> tick_keeps (card_ops wall now) (devices m) (devices m'')) \<and>
        length (ioDelays (dev i m'')) - x' < length (ioDelays (dev i m')) - k) \<or>
      (\<exists>y m''. always (delay_pass card_delayed i k) m' = Some (Done (Inr y) m'') \<and>
        dev_count m'' = dev_count m \<and> tick_keeps (card_ops wall now) (devices m) (devices m''))"
    proof (cases "k < length (ioDelays (dev i m'))")
      case True
      then show ?thesis
        using delay_pass_step [of i m' k wall now] assms I tick_keeps_trans by (fastforce simp: always_def)
    next
      case False
      then show ?thesis using I by (auto simp: always_def delay_pass_def)
    qed
  qed (simp add: tick_keeps_refl)
  then show ?thesis by (simp add: dev_tick_io_delay_def)
qed

lemma rtc_count_keeps: "tick_keeps (card_ops wall now) (devices m) (devices (rtc_count w clock i m))"
proof -
  have data: "tick_keeps (card_ops wall now) s (devices m) \<Longrightarrow> tick_keeps (card_ops wall now) s (devices (set_rtc i f m))" for s f m
    unfolding set_rtc_def by (erule card_keeps_data) (simp add: terminal_tick_needed_def)
  have status: "tick_keeps (card_ops wall now) s (devices m)
      \<Longrightarrow> tick_keeps (card_ops wall now) s (devices (dev_set_interrupt_status i b lvl m))" for s b lvl m
    by (erule tick_keeps_trans) (rule card_keeps_status)
  have pulse: "tick_keeps (card_ops wall now) s (devices m) \<Longrightarrow> tick_keeps (card_ops wall now) s (devices (raise_pulse i m))" for s m
    unfolding raise_pulse_def Let_def by (simp add: data status)
  show ?thesis
    unfolding rtc_count_def Let_def by (simp add: data pulse tick_keeps_refl)
qed

lemma terminal_line_keeps: "tick_keeps (card_ops wall now) (devices m) (devices (terminal_line i m))"
  unfolding terminal_line_def Let_def
  by (auto intro!: card_keeps_output card_keeps_term tick_keeps_refl simp: time_line_def receive_key_def Let_def split: if_splits)

interpretation ticking: ticking_cards "card_ops wall now" for wall now
proof unfold_locales
  fix t f i and m :: cards
  assume t: "Tick (card_ops wall now t) = Some f" "i < dev_count m" "dev_type (dev i m) = t"
  obtain m1 where m1: "dev_tick_io_delay card_delayed i m = Some (Done () m1)" "tick_keeps (card_ops wall now) (devices m) (devices m1)"
    using delay_loop_keeps [OF t(2)] by blast
  have "tick_keeps (card_ops wall now) (devices m) (devices (rtc_count wall now i m1))"
    using m1(2) rtc_count_keeps tick_keeps_trans by blast
  moreover have "tick_keeps (card_ops wall now) (devices m) (devices (terminal_line i m1))"
    using m1(2) terminal_line_keeps tick_keeps_trans by blast
  ultimately show "\<exists>m'. f i m = Some (Done () m') \<and> tick_keeps (card_ops wall now) (devices m) (devices m')"
    using t(1) m1 by (cases t) (auto simp: rtc_tick_def bindl_def always_def line_printer_tick_def paper_tape_tick_def
        paper_tape_writer_tick_def terminal_tick_def drum_tick_def tick_keeps_refl)
next
  show "TickNeeded (card_ops wall now t) = Some g \<Longrightarrow> g (d\<lparr>inTickList := b, tickOrder := k\<rparr>) = g d" for t g d b k
    by (cases t) simp_all
qed





end
