(* ===== verification/CardLaws.thy ===== *)
theory CardLaws
  imports DeviceLaws
begin

text \<open>
  The cards at work: the period of the real-time clock, and a tape punched and read back through
  the I/O instructions' dispatch.
\<close>

section \<open>The clock's period\<close>

lemma rtc_of_set [simp]:
  "i < dev_count m \<Longrightarrow> rtc_of i (set_rtc i f m) = f (rtc_of i m)"
  "i < dev_count m \<Longrightarrow> interruptBits (dev i (set_rtc i f m)) = interruptBits (dev i m)"
  "i < dev_count m \<Longrightarrow> interruptLevel (dev i (set_rtc i f m)) = interruptLevel (dev i m)"
  "dev_count (set_rtc i f m) = dev_count m"
  by (simp_all add: rtc_of_def set_rtc_def)

lemma status_keeps_data [simp]:
  "i < dev_count m \<Longrightarrow> rtc_of i (dev_set_interrupt_status i b lvl m) = rtc_of i m"
  by (simp add: rtc_of_def dev_set_interrupt_status_def dev_generate_interrupt_def device_clear_interrupt_def)

lemma count_down_run:
  fixes m :: cards and i k :: nat and now :: "nat \<Rightarrow> u64"
  defines "m' \<equiv> (rtc_count False now i ^^ k) m"
  assumes "i < dev_count m" "int k < rtcCounter (rtc_of i m)"
  shows "dev_count m' = dev_count m \<and> rtc_of i m' = (rtc_of i m)\<lparr>rtcCounter := rtcCounter (rtc_of i m) - int k\<rparr>
     \<and> interruptBits (dev i m') = interruptBits (dev i m) \<and> interruptLevel (dev i m') = interruptLevel (dev i m)"
  using assms(3) unfolding m'_def
proof (induction k)
  case (Suc k)
  define m1 where "m1 = (rtc_count False now i ^^ k) m"
  have m1: "dev_count m1 = dev_count m" "rtc_of i m1 = (rtc_of i m)\<lparr>rtcCounter := rtcCounter (rtc_of i m) - int k\<rparr>"
    "interruptBits (dev i m1) = interruptBits (dev i m)" "interruptLevel (dev i m1) = interruptLevel (dev i m)"
    using Suc by (simp_all add: m1_def)
  have "rtc_count False now i m1 = set_rtc i (\<lambda>d. d\<lparr>rtcCounter := rtcCounter d - 1\<rparr>) m1"
    using m1(1,2) assms(2) Suc.prems by (simp add: rtc_count_def Let_def)
  then show ?case using m1 assms(2) by (simp add: m1_def)
qed simp

lemma request_bit: "w AND push_bit n 1 = 0 \<longleftrightarrow> \<not> bit w n" for w :: u16
  by (metis push_bit_of_1 and_exp_eq_0_iff_not_bit)

lemma bit_put_bit: "n < 16 \<Longrightarrow> bit (put_bit n b w) k \<longleftrightarrow> (if k = n then b else bit w k)"
  by (auto simp: put_bit_def bit_simps)

text \<open>C31
  Liveness of the clock: counting instructions, with the counter at \<open>c\<close> the next pulse
  comes at exactly the \<open>c\<close>-th tick. Before it neither the ready flag nor the interrupt request
  changes; with it the card is ready, the counter is reloaded with the division number, and the
  card's level 13 is requested if interrupts are enabled.
\<close>

theorem rtc_pulse_period:
  assumes "i < dev_count m" "0 < c" "rtcCounter (rtc_of i m) = int c" "interruptLevel (dev i m) = 13"
  shows "(\<forall>k<c. rtc_status (rtc_of i ((rtc_count False now i ^^ k) m)) = rtc_status (rtc_of i m)
            \<and> interruptBits (dev i ((rtc_count False now i ^^ k) m)) = interruptBits (dev i m))
    \<and> (let m' = (rtc_count False now i ^^ c) m in
         bit (rtc_status (rtc_of i m')) readyForTransfer_bit \<and> rtcCounter (rtc_of i m') = divisionNumberN (rtc_of i m)
         \<and> (bit (interruptBits (dev i m')) 13 \<longleftrightarrow> bit (rtc_status (rtc_of i m)) interruptEnabled_bit \<or> bit (interruptBits (dev i m)) 13))"
proof -
  obtain k where c: "c = Suc k" using assms(2) by (cases c) auto
  define m1 where "m1 = (rtc_count False now i ^^ k) m"
  have m1: "dev_count m1 = dev_count m" "rtc_of i m1 = (rtc_of i m)\<lparr>rtcCounter := rtcCounter (rtc_of i m) - int k\<rparr>"
    "interruptBits (dev i m1) = interruptBits (dev i m)" "interruptLevel (dev i m1) = 13"
    using count_down_run [of i m k now] assms c by (simp_all add: m1_def)
  have last: "(rtc_count False now i ^^ c) m = raise_pulse i (set_rtc i (\<lambda>d. d\<lparr>rtcCounter := rtcCounter d - 1\<rparr>) m1)"
    using m1(1,2) assms c by (simp add: rtc_count_def Let_def m1_def [symmetric])
  have "bit (interruptBits (dev i (dev_set_interrupt_status i True 13 m2))) 13" if "i < dev_count m2" for m2 :: cards
    using that request_bit [of "interruptBits (dev i m2)" 13]
    by (auto simp: dev_set_interrupt_status_def dev_generate_interrupt_def bit_or_iff bit_push_bit_iff)
  then show ?thesis
    using count_down_run [of i m _ now] assms m1
    unfolding last Let_def raise_pulse_def card_level_def
    by (simp add: bit_put_bit rtc_clear_clock_ticks_def)
qed

text \<open>A clock three ticks before its pulse, interrupts enabled.\<close>

definition clock_board :: cards where
  "clock_board = set_rtc 0 (\<lambda>d. d\<lparr>rtcCounter := 3, rtc_status := 1\<rparr>) demo_board"

theorem rtc_pulse_period_witness:
  "bit (interruptBits (dev 0 ((rtc_count False (\<lambda>_. 0) 0 ^^ 3) clock_board))) 13
     \<and> interruptBits (dev 0 ((rtc_count False (\<lambda>_. 0) 0 ^^ 2) clock_board)) = 0"
proof -
  have "0 < dev_count clock_board" "rtcCounter (rtc_of 0 clock_board) = int 3" "rtc_status (rtc_of 0 clock_board) = 1"
    "interruptLevel (dev 0 clock_board) = 13" "interruptBits (dev 0 clock_board) = 0"
    by (simp_all add: clock_board_def demo_board_cards creation)
  then show ?thesis
    using rtc_pulse_period [of 0 clock_board 3 "\<lambda>_. 0"] by (simp add: Let_def)
qed

section \<open>Paper tape\<close>

text \<open>A card that answers its four addresses (a terminal or a drum its eight), on a board without overlapping blocks.\<close>

definition card_span :: "DeviceType \<Rightarrow> u32" where
  [simp]: "card_span t = (if t = DEVICE_TYPE_TERMINAL \<or> t = DEVICE_TYPE_DRUM then 7 else 3)"

definition card_at :: "nat \<Rightarrow> DeviceType \<Rightarrow> u32 \<Rightarrow> cards \<Rightarrow> bool" where
  "card_at i t start m \<longleftrightarrow> i < dev_count m \<and> table_ok (devices m) \<and> dev_type (dev i m) = t
     \<and> startAddress (dev i m) = start \<and> endAddress (dev i m) = start + card_span t"

lemma card_at_reached: "card_at i t start m \<Longrightarrow> start \<le> a \<Longrightarrow> a \<le> start + card_span t \<Longrightarrow> device_at a m = Some i"
  unfolding device_at_def card_at_def
  by (intro find_upt_unique) (auto simp: table_ok_def dev_def dev_count_def dev_is_in_address_def)

lemma card_at_kept:
  "(\<And>d. dev_type (f d) = dev_type d \<and> startAddress (f d) = startAddress d \<and> endAddress (f d) = endAddress d)
    \<Longrightarrow> card_at i t start (set_dev j f m) = card_at i t start m"
  by (auto simp: card_at_def table_ok_def set_dev_def on_manager_def dev_def dev_count_def updated_slot dev_is_in_address_def)

lemma card_at_marks [simp]:
  "card_at i t start (dev_irq_changed m) = card_at i t start m" "card_at i t start (dev_request_tick m) = card_at i t start m"
  by (simp_all add: card_at_def table_ok_def dev_irq_changed_def dev_request_tick_def on_manager_def dev_def dev_count_def)

lemma card_at_status [simp]: "card_at i t start (dev_set_interrupt_status j b lvl m) = card_at i t start m"
  by (simp add: dev_set_interrupt_status_def dev_generate_interrupt_def device_clear_interrupt_def card_at_kept)

lemma card_at_data [simp]:
  "card_at i t start (set_ptr j f m) = card_at i t start m" "card_at i t start (set_ptw j g m) = card_at i t start m"
  "card_at i t start (set_drum j h m) = card_at i t start m"
  by (simp_all add: set_ptr_def set_ptw_def set_drum_def card_at_kept)

lemma io_write_reaches:
  "card_at i t start m \<Longrightarrow> start \<le> ucast a \<Longrightarrow> ucast a \<le> start + card_span t \<Longrightarrow> a AND 1 \<noteq> 0 \<Longrightarrow> Write (ops t) = Some f
     \<Longrightarrow> io_op ops a v m = seq (f i (ucast a) v) (ret v) m"
  using card_at_reached [of i t start m "ucast a"]
  by (simp add: io_op_def devmgr_write_def dev_write_def ops_of_def card_at_def seq_def bind_out_def)

lemma io_read_reaches:
  "card_at i t start m \<Longrightarrow> start \<le> ucast a \<Longrightarrow> ucast a \<le> start + card_span t \<Longrightarrow> a AND 1 = 0 \<Longrightarrow> Read (ops t) = Some f
     \<Longrightarrow> io_op ops a v m = f i (ucast a) m"
  using card_at_reached [of i t start m "ucast a"]
  by (simp add: io_op_def devmgr_read_def dev_read_def ops_of_def card_at_def)

lemma ptw_of_sel [simp]:
  "i < dev_count m \<Longrightarrow> ptw_of i (set_ptw i f m) = f (ptw_of i m)" "dev_count (set_ptw i f m) = dev_count m"
  "i < dev_count m \<Longrightarrow> ptw_of i (dev_set_interrupt_status j b lvl m) = ptw_of i m"
  "i < dev_count m \<Longrightarrow> startAddress (dev i (set_ptw j f m)) = startAddress (dev i m)"
  by (simp_all add: ptw_of_def set_ptw_def dev_set_interrupt_status_def dev_generate_interrupt_def device_clear_interrupt_def)

lemma ptr_of_sel [simp]:
  "i < dev_count m \<Longrightarrow> ptr_of i (set_ptr i f m) = f (ptr_of i m)" "dev_count (set_ptr i f m) = dev_count m"
  "i < dev_count m \<Longrightarrow> ptr_of i (dev_set_interrupt_status j b lvl m) = ptr_of i m"
  "i < dev_count m \<Longrightarrow> startAddress (dev i (set_ptr j f m)) = startAddress (dev i m)"
  by (simp_all add: ptr_of_def set_ptr_def dev_set_interrupt_status_def dev_generate_interrupt_def device_clear_interrupt_def)

lemma start_status [simp]:
  "i < dev_count m \<Longrightarrow> startAddress (dev i (dev_set_interrupt_status j b lvl m)) = startAddress (dev i m)"
  by (simp add: dev_set_interrupt_status_def dev_generate_interrupt_def device_clear_interrupt_def)

text \<open>The guest's programs: punch a tape, and read bytes from one, through the I/O instructions' dispatch.\<close>

primrec punch_tape :: "(card_data, card_delay) ops \<Rightarrow> u8 list \<Rightarrow> (unit, card_data, card_delay) io" where
  "punch_tape ops [] = ret ()"
| "punch_tape ops (b # bs) =
     bind_out (io_op ops 0x109 (ucast b)) (\<lambda>_. bind_out (io_op ops 0x10B 4) (\<lambda>_. punch_tape ops bs))"

primrec read_tape :: "(card_data, card_delay) ops \<Rightarrow> nat \<Rightarrow> (u16 list, card_data, card_delay) io" where
  "read_tape ops 0 = ret []"
| "read_tape ops (Suc n) =
     bind_out (io_op ops 0x103 4) (\<lambda>_. bind_out (io_op ops 0x100 0) (\<lambda>v. bind_out (read_tape ops n) (\<lambda>vs. ret (v # vs))))"

lemma punch_one:
  assumes c: "card_at i DEVICE_TYPE_PAPER_TAPE_WRITER 0x108 m" and full: "punchPosition (ptw_of i m) = length (tapeBuffer (ptw_of i m))"
  shows "\<exists>m'. bind_out (io_op (card_ops wall now) 0x109 (ucast b)) (\<lambda>_. io_op (card_ops wall now) 0x10B 4) m = Done 4 m'
     \<and> card_at i DEVICE_TYPE_PAPER_TAPE_WRITER 0x108 m'
     \<and> tapeBuffer (ptw_of i m') = tapeBuffer (ptw_of i m) @ [b] \<and> punchPosition (ptw_of i m') = Suc (punchPosition (ptw_of i m))"
proof -
  have i: "i < dev_count m" "startAddress (dev i m) = 0x108" using c by (simp_all add: card_at_def)
  have "ucast b AND mask 8 = (ucast b :: u16)"
    by (rule bit_word_eqI) (auto simp: bit_simps dest: bit_imp_le_length)
  then have "ucast (ucast b AND mask 8 :: u16) = b" by (simp only:) (rule bit_word_eqI, simp add: bit_simps)
  then have b: "ucast (ucast b AND 0xFF :: u16) = b" by (simp add: mask_eq_exp_minus_1)
  show ?thesis
    using io_write_reaches [OF c, of "0x109" "card_ops wall now"] io_write_reaches [of i DEVICE_TYPE_PAPER_TAPE_WRITER "0x108" _ "0x10B" "card_ops wall now"]
      c i full b
    by (simp add: paper_tape_writer_write_def seq_def dev_register_address_def ready_interrupt_def Let_def bit_put_bit punch_byte_def)
qed

lemma punch_list:
  assumes "card_at i DEVICE_TYPE_PAPER_TAPE_WRITER 0x108 m" "punchPosition (ptw_of i m) = length (tapeBuffer (ptw_of i m))"
  shows "\<exists>m'. punch_tape (card_ops wall now) bs m = Done () m' \<and> ptp_get_tape_data (ptw_of i m') = tapeBuffer (ptw_of i m) @ bs"
  using assms
proof (induction bs arbitrary: m)
  case (Cons b bs)
  obtain m1 where m1: "bind_out (io_op (card_ops wall now) 0x109 (ucast b)) (\<lambda>_. io_op (card_ops wall now) 0x10B 4) m = Done 4 m1"
    "card_at i DEVICE_TYPE_PAPER_TAPE_WRITER 0x108 m1" "tapeBuffer (ptw_of i m1) = tapeBuffer (ptw_of i m) @ [b]"
    "punchPosition (ptw_of i m1) = Suc (punchPosition (ptw_of i m))"
    using punch_one [OF Cons.prems] by blast
  have "punch_tape (card_ops wall now) (b # bs) m = punch_tape (card_ops wall now) bs m1"
    using m1(1) by (auto simp: bind_out_def split: outcome.splits)
  then show ?case using Cons.IH [OF m1(2)] m1(3,4) Cons.prems(2) by simp
qed (simp add: ptp_get_tape_data_def)

lemma read_one:
  assumes c: "card_at i DEVICE_TYPE_PAPER_TAPE 0x100 m" and pos: "tapePosition (ptr_of i m) < length (tapeData (ptr_of i m))"
  shows "\<exists>m'. bind_out (io_op (card_ops wall now) 0x103 4) (\<lambda>_. io_op (card_ops wall now) 0x100 0) m
        = Done (ucast (tapeData (ptr_of i m) ! tapePosition (ptr_of i m))) m'
     \<and> card_at i DEVICE_TYPE_PAPER_TAPE 0x100 m' \<and> tapeData (ptr_of i m') = tapeData (ptr_of i m)
     \<and> tapePosition (ptr_of i m') = Suc (tapePosition (ptr_of i m))"
proof -
  have i: "i < dev_count m" "startAddress (dev i m) = 0x100" using c by (simp_all add: card_at_def)
  show ?thesis
    using io_write_reaches [OF c, of "0x103" "card_ops wall now"]
      io_read_reaches [of i DEVICE_TYPE_PAPER_TAPE "0x100" _ "0x100" "card_ops wall now"] c i pos
    by (simp add: paper_tape_write_def paper_tape_read_def seq_def dev_register_address_def ready_interrupt_def Let_def bit_put_bit
        read_tape_byte_def)
qed

lemma read_list:
  assumes "card_at i DEVICE_TYPE_PAPER_TAPE 0x100 m" "tapePosition (ptr_of i m) + n \<le> length (tapeData (ptr_of i m))"
  shows "\<exists>m'. read_tape (card_ops wall now) n m = Done (map ucast (take n (drop (tapePosition (ptr_of i m)) (tapeData (ptr_of i m))))) m'"
  using assms
proof (induction n arbitrary: m)
  case (Suc n)
  let ?d = "ptr_of i m"
  have pos: "tapePosition ?d < length (tapeData ?d)" using Suc.prems(2) by simp
  obtain m1 where m1: "bind_out (io_op (card_ops wall now) 0x103 4) (\<lambda>_. io_op (card_ops wall now) 0x100 0) m
        = Done (ucast (tapeData ?d ! tapePosition ?d)) m1" "card_at i DEVICE_TYPE_PAPER_TAPE 0x100 m1"
     "tapeData (ptr_of i m1) = tapeData ?d" "tapePosition (ptr_of i m1) = Suc (tapePosition ?d)"
    using read_one [OF Suc.prems(1) pos] by blast
  have run: "read_tape (card_ops wall now) (Suc n) m
      = bind_out (read_tape (card_ops wall now) n) (\<lambda>vs. ret (ucast (tapeData ?d ! tapePosition ?d) # vs)) m1"
    using m1(1) by (auto simp: bind_out_def split: outcome.splits)
  obtain m2 where "read_tape (card_ops wall now) n m1 = Done (map ucast (take n (drop (Suc (tapePosition ?d)) (tapeData ?d)))) m2"
    using Suc.IH [OF m1(2)] m1(3,4) Suc.prems(2) by auto
  then have "read_tape (card_ops wall now) (Suc n) m
      = Done (ucast (tapeData ?d ! tapePosition ?d) # map ucast (take n (drop (Suc (tapePosition ?d)) (tapeData ?d)))) m2"
    unfolding run by simp
  then show ?case using Cons_nth_drop_Suc [OF pos, symmetric] by auto
qed simp

text \<open>C36
  Round trip through the I/O system: with the punch and the reader at their addresses on a
  board without overlapping blocks, a program that punches the bytes \<open>bs\<close> by IOX on a fresh
  tape leaves exactly \<open>bs\<close> on it, and a program that reads that tape by IOX on any board
  with a reader gets \<open>bs\<close> back, in order.
\<close>

theorem tape_roundtrip:
  assumes "card_at i DEVICE_TYPE_PAPER_TAPE_WRITER 0x108 m" "tapeBuffer (ptw_of i m) = []" "punchPosition (ptw_of i m) = 0"
    and "card_at j DEVICE_TYPE_PAPER_TAPE 0x100 n" "bs \<noteq> []"
  shows "\<exists>m' n'. punch_tape (card_ops wall now) bs m = Done () m' \<and> ptp_get_tape_data (ptw_of i m') = bs
     \<and> read_tape (card_ops wall now) (length bs) (set_ptr j (ptr_load_tape (ptp_get_tape_data (ptw_of i m'))) n) = Done (map ucast bs) n'"
proof -
  obtain m' where m': "punch_tape (card_ops wall now) bs m = Done () m'" "ptp_get_tape_data (ptw_of i m') = bs"
    using punch_list [OF assms(1)] assms(2,3) by fastforce
  have "j < dev_count n" using assms(4) by (simp add: card_at_def)
  then show ?thesis
    using m' read_list [of j "set_ptr j (ptr_load_tape bs) n" "length bs" wall now] assms(4,5)
    by (simp add: ptr_load_tape_def)
qed

lemma demo_board_table: "table_ok (devices demo_board)"
proof -
  have "table_ok (devmgr_init :: (card_data, card_delay) DeviceManager)" by (simp add: table_ok_def devmgr_init_def)
  then have "table_ok (snd (devmgr_add_device (dev 3 demo_board) (snd (devmgr_add_device (dev 2 demo_board)
      (snd (devmgr_add_device (dev 1 demo_board) (snd (devmgr_add_device (dev 0 demo_board) devmgr_init))))))))"
    by (intro add_device_table_ok)
  moreover have "snd (devmgr_add_device (dev 3 demo_board) (snd (devmgr_add_device (dev 2 demo_board)
      (snd (devmgr_add_device (dev 1 demo_board) (snd (devmgr_add_device (dev 0 demo_board) devmgr_init))))))) = devices demo_board"
    by (simp add: demo_board_def dev_def devmgr_add_device_def devmgr_init_def creation)
  ultimately show ?thesis by simp
qed

theorem tape_roundtrip_witness:
  "\<exists>m' n'. punch_tape (card_ops False (\<lambda>_. 0)) [0x41, 0x42] demo_board = Done () m'
     \<and> read_tape (card_ops False (\<lambda>_. 0)) 2 (set_ptr 2 (ptr_load_tape (ptp_get_tape_data (ptw_of 3 m'))) demo_board)
         = Done [0x41, 0x42] n'"
proof -
  have "card_at 3 DEVICE_TYPE_PAPER_TAPE_WRITER 0x108 demo_board" "card_at 2 DEVICE_TYPE_PAPER_TAPE 0x100 demo_board"
    "tapeBuffer (ptw_of 3 demo_board) = []" "punchPosition (ptw_of 3 demo_board) = 0"
    using demo_board_table by (simp_all add: card_at_def ptw_of_def demo_board_cards creation paper_tape_writer_reset_def)
  from tape_roundtrip [OF this(1,3,4,2), of "[0x41, 0x42]" False "\<lambda>_. 0"]
  obtain m' n' where "punch_tape (card_ops False (\<lambda>_. 0)) [0x41, 0x42] demo_board = Done () m'"
    "read_tape (card_ops False (\<lambda>_. 0)) (length [0x41, 0x42 :: u8]) (set_ptr 2 (ptr_load_tape (ptp_get_tape_data (ptw_of 3 m'))) demo_board)
         = Done (map ucast [0x41, 0x42 :: u8]) n'"
    by blast
  moreover have "length [0x41, 0x42 :: u8] = 2" "map ucast [0x41, 0x42 :: u8] = [0x41, 0x42 :: u16]" by simp_all
  ultimately show ?thesis by metis
qed

end
