(* ===== verification/Dispatch.thy ===== *)
theory Dispatch
  imports Cards FloatUnit Bcd Segments Versn
begin

text \<open>
  Instruction decoding: the table of handlers that \<open>cpu_instructions\<close> fills at start-up
  (\<open>src/cpu/cpu_instr.c\<close>), the dispatch \<open>cpu_do_op\<close> (\<open>src/cpu/cpu.c\<close>), EXR, and the
  disassembler's \<open>disasm_extract_opcode\<close> (\<open>src/cpu/cpu_disasm.c\<close>), which EXR uses to
  recognise itself. \<open>g_instr_funcs\<close> is a function from the 65536 instruction words, \<open>None\<close>
  being \<open>NULL\<close>. Opcodes are hexadecimal here, octal in the source.
\<close>

section \<open>Handlers that do next to nothing\<close>

definition opcode_opcom :: "(unit, 'd) exec" where
  "opcode_opcom = privileged (\<lambda>m. Done () (m\<lparr>CurrentCPURunMode := CPU_STOPPED\<rparr>))"

definition opcode_geco :: "(unit, 'd) exec" where
  "opcode_geco = ret ()"

definition opcode_lwcs :: "(unit, 'd) exec" where
  "opcode_lwcs = bind_out check_priv (\<lambda>_. ret ())"

definition unimplemented_instr :: "(unit, 'd) exec" where
  "unimplemented_instr = ret ()"

section \<open>The table\<close>

text \<open>
  What the handlers need from outside the processor: the I/O cards, the panel processor that TRR
  PANC starts, the identity VERSN reads, and the outcome of the shifts and array accesses that C
  leaves undefined.
\<close>

record ('x, 'c) host =
  cards :: "('x, 'c) ops"
  panel :: "CpuRegs \<Rightarrow> CpuRegs"
  identity :: VersnIdentity
  undefined_shift :: "(unit, 'x, 'c) io"
  undefined_bytes :: "(bool, 'x, 'c) io"

text \<open>EXR calls the dispatch again; every other handler is code over the machine.\<close>

datatype ('x, 'c) handler = Exr | Handler "u16 \<Rightarrow> (unit, ('x, 'c) DeviceManager) loop"

definition instr :: "(u16 \<Rightarrow> (unit, 'x, 'c) io) \<Rightarrow> ('x, 'c) handler" where
  "instr f = Handler (\<lambda>operand. always (f operand))"

definition plain :: "(unit, 'x, 'c) io \<Rightarrow> ('x, 'c) handler" where
  "plain f = Handler (\<lambda>_. always f)"

definition regs_instr :: "(u16 \<Rightarrow> CpuRegs \<Rightarrow> CpuRegs) \<Rightarrow> ('x, 'c) handler" where
  "regs_instr f = Handler (\<lambda>operand. always (on_regs (f operand)))"

definition walk :: "('x, 'c) DeviceManager looping \<Rightarrow> ('x, 'c) handler" where
  "walk f = Handler (\<lambda>_. f)"

text \<open>\<open>instruction_add\<close>, \<open>instruction_add_range\<close> and \<open>instruction_add_mask\<close>.\<close>

definition instruction_add :: "u16 \<Rightarrow> 'h \<Rightarrow> (u16 \<Rightarrow> 'h option) \<Rightarrow> u16 \<Rightarrow> 'h option" where
  "instruction_add opcode h f = (\<lambda>i. if i = opcode then Some h else f i)"

definition instruction_add_range :: "u16 \<Rightarrow> u16 \<Rightarrow> 'h \<Rightarrow> (u16 \<Rightarrow> 'h option) \<Rightarrow> u16 \<Rightarrow> 'h option" where
  "instruction_add_range start stop h f = (\<lambda>i. if start \<le> i \<and> i \<le> stop then Some h else f i)"

definition instruction_add_mask :: "u16 \<Rightarrow> u16 \<Rightarrow> 'h \<Rightarrow> (u16 \<Rightarrow> 'h option) \<Rightarrow> u16 \<Rightarrow> 'h option" where
  "instruction_add_mask opcode opmask h f = (\<lambda>i. if opcode \<le> i \<and> i AND opmask = opcode AND opmask then Some h else f i)"

datatype registration = Add u16 | AddRange u16 u16 | AddMask u16 u16

primrec register :: "registration \<Rightarrow> 'h \<Rightarrow> (u16 \<Rightarrow> 'h option) \<Rightarrow> u16 \<Rightarrow> 'h option" where
  "register (Add opcode) = instruction_add opcode"
| "register (AddRange start stop) = instruction_add_range start stop"
| "register (AddMask opcode opmask) = instruction_add_mask opcode opmask"

type_synonym ('x, 'c) row = "registration \<times> ('x, 'c) handler"

text \<open>The calls of \<open>cpu_instructions\<close> in their order; the names of the groups are this theory's.\<close>

definition memory_rows :: "('x, 'c) host \<Rightarrow> ('x, 'c) row list" where
  "memory_rows e =
     [(AddMask 0x0000 0xF800, instr opcode_stz), (AddMask 0x0800 0xF800, instr opcode_sta),
      (AddMask 0x1000 0xF800, instr opcode_stt), (AddMask 0x1800 0xF800, instr opcode_stx),
      (AddMask 0x2000 0xF800, instr opcode_std), (AddMask 0x2800 0xF800, instr opcode_ldd),
      (AddMask 0x3000 0xF800, instr opcode_stf), (AddMask 0x3800 0xF800, instr opcode_ldf),
      (AddMask 0x4000 0xF800, instr opcode_min), (AddMask 0x4800 0xF800, instr opcode_lda),
      (AddMask 0x5000 0xF800, instr opcode_ldt), (AddMask 0x5800 0xF800, instr opcode_ldx),
      (AddMask 0x6000 0xF800, instr opcode_add), (AddMask 0x6800 0xF800, instr opcode_sub),
      (AddMask 0x7000 0xF800, instr opcode_and), (AddMask 0x7800 0xF800, instr opcode_ora),
      (AddMask 0x8000 0xF800, instr (opcode_fad (undefined_shift e))),
      (AddMask 0x8800 0xF800, instr (opcode_fsb (undefined_shift e))),
      (AddMask 0x9000 0xF800, instr (opcode_fmu (undefined_shift e))),
      (AddMask 0x9800 0xF800, instr (opcode_fdv (undefined_shift e))), (AddMask 0xA000 0xF800, instr mpy),
      (AddMask 0xA800 0xF800, instr opcode_jmp), (AddMask 0xB800 0xF800, instr opcode_jpl)]"

definition jump_rows :: "('x, 'c) host \<Rightarrow> ('x, 'c) row list" where
  "jump_rows e =
     [(AddMask 0xB000 0xFF00, instr opcode_jap), (AddMask 0xB100 0xFF00, instr opcode_jan),
      (AddMask 0xB200 0xFF00, instr opcode_jaz), (AddMask 0xB300 0xFF00, instr opcode_jaf),
      (AddMask 0xB400 0xFF00, instr opcode_jpc), (AddMask 0xB500 0xFF00, instr opcode_jnc),
      (AddMask 0xB600 0xFF00, instr opcode_jxz), (AddMask 0xB700 0xFF00, instr opcode_jxn),
      (AddMask 0xC000 0xF8C0, instr opcode_skp)]"

definition commercial_rows :: "('x, 'c) host \<Rightarrow> ('x, 'c) row list" where
  "commercial_rows e =
     [(Add 0xC050, plain opcode_addd), (Add 0xC051, plain opcode_subd), (Add 0xC052, plain opcode_comd),
      (Add 0xC054, plain (opcode_pack (undefined_bytes e))),
      (Add 0xC055, plain (opcode_unpack (undefined_bytes e))), (Add 0xC056, plain opcode_shde),
      (Add 0xC053, plain do_tset), (Add 0xC057, plain do_rdus), (Add 0xC058, plain opcode_bfill),
      (Add 0xC059, plain opcode_movb), (Add 0xC05A, plain opcode_movbf)]"

definition versn_rows :: "('x, 'c) host \<Rightarrow> ('x, 'c) row list" where
  "versn_rows e =
     [(Add 0xC05B, plain (opcode_versn (identity e)))]"

definition stack_rows :: "('x, 'c) host \<Rightarrow> ('x, 'c) row list" where
  "stack_rows e =
     [(Add 0xC05C, instr opcode_init), (Add 0xC05D, instr opcode_entr), (Add 0xC05E, instr opcode_leave),
      (Add 0xC05F, instr opcode_eleav), (Add 0xC080, plain opcode_halt)]"

definition nd110_rows :: "('x, 'c) host \<Rightarrow> ('x, 'c) row list" where
  "nd110_rows e =
     [(Add 0xC140, plain opcode_wglob), (Add 0xC141, plain opcode_rglob), (Add 0xC142, plain opcode_inspl),
      (Add 0xC143, plain opcode_rempl), (Add 0xC144, walk opcode_cnrek), (Add 0xC145, walk opcode_clpt),
      (Add 0xC146, walk opcode_enpt), (Add 0xC147, walk opcode_rept), (Add 0xC148, plain opcode_lbit),
      (Add 0xC149, plain opcode_lbitp), (Add 0xC14A, plain opcode_sbit), (Add 0xC14B, plain opcode_sbitp),
      (Add 0xC14C, plain opcode_lbytp), (Add 0xC14D, plain opcode_sbytp), (Add 0xC14E, plain opcode_tsetp),
      (Add 0xC14F, plain opcode_rdusp)]"

definition exr_rows :: "('x, 'c) host \<Rightarrow> ('x, 'c) row list" where
  "exr_rows e =
     [(AddMask 0xC180 0xFFC0, Exr)]"

definition bank_rows :: "('x, 'c) host \<Rightarrow> ('x, 'c) row list" where
  "bank_rows e =
     [(AddMask 0xC1C0 0xFFC7, instr opcode_lasb), (AddMask 0xC1C1 0xFFC7, instr opcode_sasb),
      (AddMask 0xC1C2 0xFFC7, instr opcode_lacb), (AddMask 0xC1C3 0xFFC7, instr opcode_sacb),
      (AddMask 0xC1C4 0xFFC7, instr opcode_lxsb), (AddMask 0xC1C5 0xFFC7, instr opcode_lxcb),
      (AddMask 0xC1C6 0xFFC7, instr opcode_szsb), (AddMask 0xC1C7 0xFFC7, instr opcode_szcb)]"

definition extended_rows :: "('x, 'c) host \<Rightarrow> ('x, 'c) row list" where
  "extended_rows e =
     [(Add 0xC0C0, walk opcode_setpt), (Add 0xC0C1, walk opcode_clept), (Add 0xC0C2, walk opcode_clnreent),
      (Add 0xC0C3, walk opcode_chreent), (Add 0xC0C4, walk opcode_clepu),
      (AddMask 0xC280 0xFFC0, regs_instr rmpy), (AddMask 0xC380 0xFFC0, regs_instr rdiv),
      (AddMask 0xC480 0xFFC0, plain opcode_lbyt), (AddMask 0xC580 0xFFC0, plain opcode_sbyt),
      (Add 0xC5C0, plain opcode_geco), (AddMask 0xC640 0xFFC0, instr do_movew),
      (AddMask 0xC680 0xFFC0, instr opcode_mix3), (AddMask 0xC6C0 0xFFC7, instr opcode_ldatx),
      (AddMask 0xC6C1 0xFFC7, instr opcode_ldxtx), (AddMask 0xC6C2 0xFFC7, instr opcode_lddtx),
      (AddMask 0xC6C3 0xFFC7, instr opcode_ldbtx), (AddMask 0xC6C4 0xFFC7, instr opcode_statx),
      (AddMask 0xC6C5 0xFFC7, instr opcode_stztx), (AddMask 0xC6C6 0xFFC7, instr opcode_stdtx),
      (Add 0xC740, plain opcode_lwcs), (Add 0xC784, instr (opcode_ident (cards e))),
      (Add 0xC789, instr (opcode_ident (cards e))), (Add 0xC792, instr (opcode_ident (cards e))),
      (Add 0xC7A3, instr (opcode_ident (cards e)))]"

definition register_rows :: "('x, 'c) host \<Rightarrow> ('x, 'c) row list" where
  "register_rows e =
     [(AddRange 0xC800 0xCFFF, regs_instr regop), (AddMask 0xD000 0xFFF0, instr do_tra),
      (AddMask 0xD040 0xFFF0, instr (do_trr (panel e))), (AddMask 0xD080 0xFFF0, instr do_mcl),
      (AddMask 0xD0C0 0xFFF0, instr do_mst), (Add 0xD100, plain opcode_opcom),
      (Add 0xD101, plain opcode_iof), (Add 0xD102, plain opcode_ion)]"

definition butterfly_rows :: "('x, 'c) host \<Rightarrow> ('x, 'c) row list" where
  "butterfly_rows e =
     [(Add 0xD103, plain unimplemented_instr)]"

definition control_rows :: "('x, 'c) host \<Rightarrow> ('x, 'c) row list" where
  "control_rows e =
     [(Add 0xD104, plain opcode_pof), (Add 0xD105, plain opcode_piof), (Add 0xD106, plain opcode_sex),
      (Add 0xD107, plain opcode_rex), (Add 0xD108, plain opcode_pon), (Add 0xD10A, plain opcode_pion),
      (Add 0xD10D, plain (opcode_ioxt (cards e))), (Add 0xD10E, plain opcode_exam),
      (Add 0xD10F, plain opcode_depo), (AddMask 0xD200 0xFF00, plain do_wait),
      (AddMask 0xD300 0xFF00, instr (opcode_nlz (undefined_shift e))),
      (AddMask 0xD400 0xFF00, instr (opcode_dnz (undefined_shift e))),
      (AddMask 0xD502 0xFF07, instr opcode_srb), (AddMask 0xD580 0xFF07, instr opcode_lrb),
      (AddMask 0xD600 0xFF00, instr opcode_mon), (AddMask 0xD700 0xFF80, instr opcode_irw),
      (AddMask 0xD780 0xFF80, instr opcode_irr)]"

definition shift_rows :: "('x, 'c) host \<Rightarrow> ('x, 'c) row list" where
  "shift_rows e =
     [(AddMask 0xD800 0x7980, regs_instr opcode_shift_group),
      (AddMask 0xD880 0x7980, regs_instr opcode_shift_group),
      (AddMask 0xD900 0x7980, regs_instr opcode_shift_group),
      (AddMask 0xD980 0x7980, regs_instr opcode_shift_group)]"

definition argument_rows :: "('x, 'c) host \<Rightarrow> ('x, 'c) row list" where
  "argument_rows e =
     [(AddMask 0xE000 0xF800, instr (opcode_iot (cards e))),
      (AddMask 0xE800 0xF800, instr (opcode_iox (cards e))), (AddMask 0xF000 0xFF00, instr opcode_sab),
      (AddMask 0xF100 0xFF00, instr opcode_saa), (AddMask 0xF200 0xFF00, instr opcode_sat),
      (AddMask 0xF300 0xFF00, instr opcode_sax), (AddMask 0xF400 0xFF00, instr opcode_aab),
      (AddMask 0xF500 0xFF00, instr opcode_aaa), (AddMask 0xF600 0xFF00, instr opcode_aat),
      (AddMask 0xF700 0xFF00, instr opcode_aax), (AddRange 0xF800 0xFFFF, regs_instr do_bops)]"

definition has_nd110_group :: "CpuType \<Rightarrow> bool" where
  "has_nd110_group t \<longleftrightarrow> t = ND110 \<or> t = ND110CE \<or> t = ND110CX \<or> t = ND110PCX \<or> t = ND120CX"

definition cpu_instructions :: "CpuType \<Rightarrow> ('x, 'c) host \<Rightarrow> ('x, 'c) row list" where
  "cpu_instructions t e =
     memory_rows e @ jump_rows e @ commercial_rows e
     @ (if has_nd110_group t then versn_rows e else []) @ stack_rows e
     @ (if has_nd110_group t then nd110_rows e else []) @ exr_rows e
     @ (if has_nd110_group t then bank_rows e else []) @ extended_rows e @ register_rows e
     @ (if t = ND110PCX then butterfly_rows e else []) @ control_rows e @ shift_rows e @ argument_rows e"

text \<open>The table starts as zeroed static storage.\<close>

definition Setup_Instructions :: "CpuType \<Rightarrow> ('x, 'c) host \<Rightarrow> u16 \<Rightarrow> ('x, 'c) handler option" where
  "Setup_Instructions t e = fold (\<lambda>(p, h). register p h) (cpu_instructions t e) (\<lambda>_. None)"

section \<open>The opcode of an instruction word\<close>

definition is_nd100 :: "CpuType \<Rightarrow> bool" where
  "is_nd100 t \<longleftrightarrow> t = ND100 \<or> t = ND100CE \<or> t = ND100CX"

definition decode_140k :: "CpuType \<Rightarrow> u16 \<Rightarrow> u16" where
  "decode_140k t w =
     (if w \<in> set [0xC050, 0xC051, 0xC052, 0xC053, 0xC054, 0xC055, 0xC056, 0xC057, 0xC058, 0xC059, 0xC05A] then w
      else if w = 0xC05B \<and> (t = ND110 \<or> t = ND110CE \<or> t = ND110CX) then w
      else if w \<in> set [0xC05C, 0xC05D, 0xC05E, 0xC05F, 0xC0C0, 0xC0C1, 0xC0C2, 0xC0C3, 0xC0C4,
                          0xC740, 0xC784, 0xC789, 0xC792, 0xC7A3] then w
      else let group = w AND 0xFFC0 in
        if group = 0xC080 then group
        else if group = 0xC140 then
          (if is_nd100 t then group
           else if w \<in> set [0xC140, 0xC141, 0xC142, 0xC143, 0xC144, 0xC145, 0xC146, 0xC147, 0xC148,
                                0xC14B, 0xC14C, 0xC14D, 0xC14E, 0xC14F] then w
           else group)
        else if group = 0xC180 then group
        else if group = 0xC1C0 then
          (if is_nd100 t then group
           else if w AND 0xFFC7 \<in> set [0xC1C0, 0xC1C1, 0xC1C2, 0xC1C3, 0xC1C4, 0xC1C5, 0xC1C6, 0xC1C7]
           then w AND 0xFFC7 else group)
        else if group \<in> set [0xC240, 0xC280, 0xC2C0, 0xC340, 0xC380, 0xC3C0, 0xC440, 0xC480, 0xC4C0, 0xC540,
                             0xC580, 0xC5C0, 0xC640, 0xC680] then group
        else if w AND 0xFFC7 \<in> set [0xC6C0, 0xC6C1, 0xC6C2, 0xC6C3, 0xC6C4, 0xC6C5, 0xC6C6]
        then w AND 0xFFC7 else w)"

definition decode_150k :: "u16 \<Rightarrow> u16" where
  "decode_150k w =
     (if w \<in> set [0xD100, 0xD101, 0xD102, 0xD104, 0xD105, 0xD106, 0xD107, 0xD108, 0xD10A, 0xD10D, 0xD10E, 0xD10F]
      then w
      else if w AND 0xFF00 \<in> set [0xD200, 0xD300, 0xD400, 0xD600] then w AND 0xFF00
      else if w AND 0xFF80 \<in> set [0xD500, 0xD580, 0xD700, 0xD780] then w AND 0xFF80
      else if w AND 0xFFC0 \<in> set [0xD000, 0xD040, 0xD080, 0xD0C0] then w AND 0xFFC0
      else w)"

definition disasm_extract_opcode :: "CpuType \<Rightarrow> u16 \<Rightarrow> u16" where
  "disasm_extract_opcode t w =
     (let top = w AND 0xF800 in
      if top = 0xB000 then w AND 0xFF00
      else if top = 0xC000 then (if w AND 0xC0 = 0 then 0xC000 else decode_140k t w)
      else if top = 0xD000 then decode_150k w
      else if top = 0xC800 then w AND 0xFFC0
      else if top = 0xD800 then w AND 0xF980
      else if top = 0xF000 then w AND 0xFF00
      else if top = 0xF800 then w AND 0xFF80
      else top)"

section \<open>Dispatch\<close>

definition exr_word :: "u16 \<Rightarrow> CpuRegs \<Rightarrow> u16" where
  "exr_word w r = (let sr = unat (drop_bit 3 w AND 0x07) in if sr \<noteq> 0 then cur sr r else 0)"

text \<open>\<open>cpu_do_op\<close> with \<open>do_exr\<close>, the only handler that calls it again.\<close>

partial_function (option) cpu_do_op ::
  "(u16 \<Rightarrow> ('x, 'c) handler option) \<Rightarrow> u16 \<Rightarrow> bool \<Rightarrow> (unit, ('x, 'c) DeviceManager) loop" where
  "cpu_do_op g_instr_funcs operand is_exr m =
     (let m1 = (if is_exr then m else g_reg_update (\<lambda>r. set_cur R_P (cur R_P r + 1) r) m) in
      case g_instr_funcs operand of
        None \<Rightarrow> Some (cpu_illegal_instr m1)
      | Some h \<Rightarrow>
          (case h of
             Handler f \<Rightarrow> f operand m1
           | Exr \<Rightarrow>
               (let exr_instr = exr_word operand (g_reg m1) in
                if disasm_extract_opcode (g_current_cpu_type m1) exr_instr = 0xC180
                then Some (on_regs (cpu_setbit R_STS STS_ERROR_INDICATOR True) m1)
                else cpu_do_op g_instr_funcs exr_instr True m1)))"

end
