(* ===== verification/Run.thy ===== *)
theory Run
  imports Dispatch
begin

text \<open>
  The run loop of \<open>src/cpu/cpu.c\<close>: one tick (\<open>private_cpu_tick\<close>), the loop
  \<open>cpu_run\<close> around it with its return from a fault, the ring of executed instructions, and
  reset. The debugger is off (\<open>gDebuggerEnabled\<close> is false), so its polls, breakpoints and
  stack trace are left out, and so are logging, tracing, the idle sleep and the throttle, which
  only take host time.
\<close>

section \<open>The ring of executed instructions\<close>

record CpuRingEntry =
  ring_pc :: u16
  ring_opcode :: u16
  ring_pil :: u8
  ring_a_reg :: u16
  ring_sts :: u16
  ring_pid :: u16
  ring_pie :: u16
  ring_iid :: u16
  ring_iie :: u16
  ring_devbits :: u16

definition RING_SIZE :: nat where "RING_SIZE = 65536"

record Ring =
  ring_buf :: "nat \<Rightarrow> CpuRingEntry"
  ring_idx :: nat
  ring_count :: nat
  s_ring_trace_enabled :: bool
  s_ring_pc_filter_on :: bool
  s_ring_pc_filter :: u16
  g_cpu_ring_dump_size :: int
  last_device_irq_bits :: u16

definition ring_entry :: "u16 \<Rightarrow> u8 \<Rightarrow> u16 \<Rightarrow> u16 \<Rightarrow> CpuRegs \<Rightarrow> CpuRingEntry" where
  "ring_entry pc pil opcode devbits r =
     \<lparr>ring_pc = pc, ring_opcode = opcode, ring_pil = pil, ring_a_reg = cur R_A r, ring_sts = gSTSr r, ring_pid = reg_PID r,
      ring_pie = reg_PIE r, ring_iid = reg_IID r, ring_iie = reg_IIE r, ring_devbits = devbits\<rparr>"

definition ring_wants :: "Ring \<Rightarrow> u16 \<Rightarrow> bool" where
  "ring_wants g pc \<longleftrightarrow> \<not> (g_cpu_ring_dump_size g \<le> 0 \<and> \<not> s_ring_trace_enabled g)
     \<and> \<not> (s_ring_pc_filter_on g \<and> pc \<noteq> s_ring_pc_filter g)"

definition ring_record :: "u16 \<Rightarrow> u8 \<Rightarrow> u16 \<Rightarrow> CpuRegs \<Rightarrow> Ring \<Rightarrow> Ring" where
  "ring_record pc pil opcode r g =
     (if ring_wants g pc
      then g\<lparr>ring_buf := (ring_buf g)(ring_idx g := ring_entry pc pil opcode (last_device_irq_bits g) r),
             ring_idx := (ring_idx g + 1) mod RING_SIZE,
             ring_count := (if ring_count g < RING_SIZE then ring_count g + 1 else ring_count g)\<rparr>
      else g)"

definition cpu_ring_set_tracing :: "bool \<Rightarrow> bool \<Rightarrow> u16 \<Rightarrow> Ring \<Rightarrow> Ring" where
  "cpu_ring_set_tracing enabled pc_filter_on pc_filter g =
     g\<lparr>s_ring_trace_enabled := enabled, s_ring_pc_filter_on := pc_filter_on, s_ring_pc_filter := pc_filter\<rparr>"

definition cpu_ring_tracing_enabled :: "Ring \<Rightarrow> bool" where
  "cpu_ring_tracing_enabled g = s_ring_trace_enabled g"

definition cpu_ring_pc_filter :: "Ring \<Rightarrow> u16 option" where
  "cpu_ring_pc_filter g = (if s_ring_pc_filter_on g then Some (s_ring_pc_filter g) else None)"

text \<open>The entries copied; \<open>out\<close> is never \<open>NULL\<close>.\<close>

definition cpu_ring_snapshot :: "int \<Rightarrow> Ring \<Rightarrow> CpuRingEntry list" where
  "cpu_ring_snapshot max_entries g =
     (if max_entries \<le> 0 then []
      else let count = (if int (ring_count g) < max_entries then ring_count g else nat max_entries)
           in map (\<lambda>i. ring_buf g (nat ((int (ring_idx g) - int count + int i + int RING_SIZE) mod int RING_SIZE))) [0..<count])"

section \<open>One tick\<close>

record run_state =
  g_instr_counter :: u64
  g_cpu_max_instr :: u64
  g_cpu_breakpoint_enabled :: bool
  g_cpu_breakpoint_addr :: u16
  g_operand :: u16
  the_ring :: Ring

type_synonym ('x, 'c) cpu = "run_state \<times> ('x, 'c) board"
type_synonym ('x, 'c) table = "u16 \<Rightarrow> ('x, 'c) handler option"

definition cpu_set_run_mode :: "CPURunMode \<Rightarrow> 'd machine \<Rightarrow> 'd machine" where
  "cpu_set_run_mode new_mode m = m\<lparr>CurrentCPURunMode := new_mode\<rparr>"

primrec with_state :: "'s \<Rightarrow> ('a, 'm) outcome \<Rightarrow> ('a, 's \<times> 'm) outcome" where
  "with_state s (Done x m) = Done x (s, m)"
| "with_state s (Trap m) = Trap (s, m)"

definition fetch_tick :: "('x, 'c) board \<Rightarrow> (u16, ('x, 'c) board) outcome" where
  "fetch_tick m =
     (let m1 = g_reg_update (\<lambda>r. snd (check_and_switch r)) m
      in mms_fetch_virtual_memory (ucast (cur R_P (g_reg m1))) False m1)"

definition stops_here :: "run_state \<Rightarrow> ('x, 'c) board \<Rightarrow> bool" where
  "stops_here s m \<longleftrightarrow> g_cpu_max_instr s > 0 \<and> g_instr_counter s \<ge> g_cpu_max_instr s
     \<or> g_cpu_breakpoint_enabled s \<and> cur R_P (g_reg m) = g_cpu_breakpoint_addr s"

definition private_cpu_tick :: "('x, 'c) table \<Rightarrow> ('x, 'c) cpu \<Rightarrow> (unit, ('x, 'c) cpu) outcome option" where
  "private_cpu_tick tab = (\<lambda>(s, m).
     case fetch_tick m of
       Trap m2 \<Rightarrow> Some (Trap (s, m2))
     | Done operand m2 \<Rightarrow>
         (let s1 = s\<lparr>g_operand := operand\<rparr>
          in if stops_here s m2 then Some (Done () (s1, cpu_set_run_mode CPU_SHUTDOWN m2))
             else map_option (with_state (s1\<lparr>g_instr_counter := g_instr_counter s + 1\<rparr>)) (cpu_do_op tab operand False m2)))"

section \<open>The run loop\<close>

text \<open>\<open>IO_Tick\<close>, with \<open>last_device_irq_bits\<close>, which \<open>cpu_device_interrupt\<close> sets.\<close>

definition note_irq_bits :: "u16 \<Rightarrow> run_state \<Rightarrow> run_state" where
  "note_irq_bits bits s = (if bits \<noteq> 0 then s\<lparr>the_ring := (the_ring s)\<lparr>last_device_irq_bits := bits\<rparr>\<rparr> else s)"

definition io_tick :: "('x, 'c) ops \<Rightarrow> ('x, 'c) cpu \<Rightarrow> (unit, ('x, 'c) cpu) outcome option" where
  "io_tick ops = (\<lambda>(s, m).
     case IO_Tick ops m of
       None \<Rightarrow> None
     | Some (Trap m1) \<Rightarrow> Some (Trap (s, m1))
     | Some (Done _ m1) \<Rightarrow> Some (Done () (note_irq_bits (s_irq_bits (devices m1)) s, m1)))"

text \<open>The state before the tick gives the PC and the level that are recorded.\<close>

definition record_tick :: "('x, 'c) board \<Rightarrow> ('x, 'c) cpu \<Rightarrow> ('x, 'c) cpu" where
  "record_tick m0 = (\<lambda>(s, m).
     (s\<lparr>the_ring := ring_record (cur R_P (g_reg m0)) (of_nat (gPIL (g_reg m0))) (g_operand s) (g_reg m) (the_ring s)\<rparr>, m))"

text \<open>
  One turn of the loop in the mode \<open>CPU_RUNNING\<close>. \<open>Trap\<close> is the \<open>longjmp\<close> back to
  the \<open>setjmp\<close> before the loop: what is left of the turn is skipped.
\<close>

definition run_turn :: "('x, 'c) table \<Rightarrow> ('x, 'c) ops \<Rightarrow> ('x, 'c) cpu \<Rightarrow> (unit, ('x, 'c) cpu) outcome option" where
  "run_turn tab ops st =
     (case private_cpu_tick tab st of
        None \<Rightarrow> None
      | Some (Trap st1) \<Rightarrow> Some (Trap st1)
      | Some (Done _ st1) \<Rightarrow> io_tick ops (record_tick (snd st) st1))"

partial_function (option) cpu_run :: "('x, 'c) table \<Rightarrow> ('x, 'c) ops \<Rightarrow> int \<Rightarrow> ('x, 'c) cpu \<Rightarrow> (int \<times> ('x, 'c) cpu) option" where
  "cpu_run tab ops ticks st =
     (if ticks = 0 then Some (0, st)
      else if CurrentCPURunMode (snd st) = CPU_RUNNING
      then (case run_turn tab ops st of
              None \<Rightarrow> None
            | Some out \<Rightarrow>
                (case out of
                   Trap st1 \<Rightarrow> cpu_run tab ops ticks st1
                 | Done _ st1 \<Rightarrow> cpu_run tab ops (if ticks > 0 then ticks - 1 else ticks) st1))
      else if CurrentCPURunMode (snd st) = CPU_STOPPED
      then Some (ticks, (fst st, cpu_set_run_mode CPU_SHUTDOWN (snd st)))
      else Some (ticks, st))"

section \<open>Starting\<close>

abbreviation (input) STS_ND100_INDICATOR :: nat where "STS_ND100_INDICATOR \<equiv> 12"

definition zero_regs :: CpuRegs where
  "zero_regs = \<lparr>reg = (\<lambda>_ _. 0), reg_STS = 0, reg_PANS = 0, reg_PANC = 0, reg_OPR = 0, reg_LMP = 0,
     reg_PGS = 0, reg_PCR = (\<lambda>_. 0), reg_PVL = 0, reg_IIC = 0, reg_IID = 0, reg_IIE = 0, reg_PID = 0,
     reg_PIE = 0, reg_CSR = 0, reg_CCL = 0, reg_LCIL = 0, reg_ALD = 0, reg_UCIL = 0, reg_PES = 0,
     reg_PGC = 0, reg_PEA = 0, reg_ECCR = 0, reg_STBNK = 0, reg_STSRT = 0, reg_CMBUK = 0,
     effectiveAddress = 0, useAPT = False, mylock_PEA = False, mylock_PES = False, mylock_PGS = False,
     myreg_PK = 0, chkit = False\<rparr>"

definition reset_regs :: CpuRegs where
  "reset_regs = (cpu_setbit_sts_msb STS_ND100_INDICATOR True zero_regs)\<lparr>reg_CSR := push_bit 2 1\<rparr>"

definition cpu_reset :: "('x, 'c) cpu \<Rightarrow> ('x, 'c) cpu" where
  "cpu_reset = (\<lambda>(s, m).
     (s\<lparr>g_instr_counter := 0\<rparr>,
      cpu_set_run_mode CPU_RUNNING (snd (mms_create_paging_tables (m\<lparr>n_Array := (\<lambda>_. 0), g_reg := reset_regs\<rparr>)))))"

definition cpu_type_names :: "(string \<times> CpuType) list" where
  "cpu_type_names = [(''ND100'', ND100), (''ND100CE'', ND100CE), (''ND100CX'', ND100CX), (''ND110'', ND110),
     (''ND110CE'', ND110CE), (''ND110CX'', ND110CX), (''ND110PCX'', ND110PCX)]"

definition cpu_set_type_from_env :: "(string \<Rightarrow> string option) \<Rightarrow> CpuType \<Rightarrow> CpuType" where
  "cpu_set_type_from_env getenv t =
     (case getenv ''ND100X_CPUTYPE'' of None \<Rightarrow> t | Some name \<Rightarrow> (case map_of cpu_type_names name of None \<Rightarrow> t | Some t' \<Rightarrow> t'))"

definition cpu_init :: "(string \<Rightarrow> string option) \<Rightarrow> VersnIdentity \<Rightarrow> ('x, 'c) cpu \<Rightarrow> VersnIdentity \<times> ('x, 'c) cpu" where
  "cpu_init getenv v = (\<lambda>(s, m).
     let m1 = m\<lparr>n_Array := (\<lambda>_. 0), g_reg := reset_regs, CurrentCPURunMode := CPU_RUNNING\<rparr>;
         m2 = snd (mms_create_paging_tables m1);
         m3 = m2\<lparr>s_memory_banks := mms_memory_banks_init (g_nd_memsize m2),
                 g_current_cpu_type := cpu_set_type_from_env getenv (g_current_cpu_type m2)\<rparr>;
         v1 = cpu_versn_set_identity_from_env getenv (cpu_versn_reset (g_current_cpu_type m3) v)
     in (v1, s\<lparr>g_instr_counter := 0\<rparr>, g_reg_update (reg_ALD_update (\<lambda>_. 0x370)) m3))"

end
