(* ===== verification/DispatchLaws.thy ===== *)
theory DispatchLaws
  imports Dispatch DeviceLaws "HOL-Library.Sublist" "HOL-Library.Multiset"
begin

text \<open>
  The instruction table is unambiguous on every processor type, EXR recognises itself, and
  a dispatched instruction returns unless its loop follows links in the guest's memory.
\<close>

section \<open>Registrations do not overlap\<close>

primrec matches :: "registration \<Rightarrow> u16 \<Rightarrow> bool" where
  "matches (Add opcode) i \<longleftrightarrow> i = opcode"
| "matches (AddRange start stop) i \<longleftrightarrow> start \<le> i \<and> i \<le> stop"
| "matches (AddMask opcode opmask) i \<longleftrightarrow> opcode \<le> i \<and> i AND opmask = opcode AND opmask"

lemma register_matches: "register p h f i = (if matches p i then Some h else f i)"
  by (cases p) (simp_all add: instruction_add_def instruction_add_range_def instruction_add_mask_def)

text \<open>
  Each registration fixes the bits \<open>care\<close> of its words; two registrations are apart when
  they fix a common bit differently. The shift group is registered with the mask 0x7980, which
  leaves bit 15 free: only the start of the loop at the opcode keeps its words off LDX.
\<close>

primrec base :: "registration \<Rightarrow> u16" where
  "base (Add opcode) = opcode" | "base (AddRange start stop) = start" | "base (AddMask opcode opmask) = opcode"

primrec care :: "registration \<Rightarrow> u16" where
  "care (Add opcode) = 0xFFFF" | "care (AddRange start stop) = 0xF800" 
| "care (AddMask opcode opmask) = (if opcode \<ge> 0x8000 then opmask OR 0x8000 else opmask)"

primrec aligned :: "registration \<Rightarrow> bool" where
  "aligned (Add opcode) = True"
| "aligned (AddRange start stop) \<longleftrightarrow> start AND 0x7FF = 0 \<and> stop = start OR 0x7FF"
| "aligned (AddMask opcode opmask) = True"

text \<open>
  Following the bits of a word like a trie, a registration that does not care about a bit stays on
  both sides; the registrations are separated when every leaf holds at most one.
\<close>

fun separated :: "nat list \<Rightarrow> registration list \<Rightarrow> bool" where
  "separated bs [] = True"
| "separated bs [p] = True"
| "separated [] (p # q # ps) = False"
| "separated (b # bs) (p # q # ps) \<longleftrightarrow>
     separated bs (filter (\<lambda>r. bit (care r) b \<longrightarrow> bit (base r) b) (p # q # ps))
     \<and> separated bs (filter (\<lambda>r. bit (care r) b \<longrightarrow> \<not> bit (base r) b) (p # q # ps))"

lemma top_five: "w AND 0xF800 = push_bit 11 (drop_bit 11 w)" for w :: u16
proof -
  have "(0xF800 :: u16) = push_bit 11 (mask 5)" by (simp add: mask_eq_exp_minus_1)
  then show ?thesis by (simp only:) (rule word16_bits, auto simp: bit_simps all_less_16)
qed

lemma bit_from_15:
  fixes v :: u16
  assumes "15 \<le> n" shows "bit v n \<longleftrightarrow> n = 15 \<and> bit v 15"
proof (cases "n = 15")
  case False
  then show ?thesis using assms bit_imp_le_length [of v n] by auto
qed simp

lemma top_bit: "v \<ge> 0x8000 \<longleftrightarrow> bit v 15" for v :: u16
proof -
  have "drop_bit 15 v = of_bool (bit v 15)"
  proof (rule bit_word_eqI)
    fix n
    show "bit (drop_bit 15 v) n = bit (of_bool (bit v 15) :: u16) n"
      using bit_from_15 [of "15 + n" v] by (cases n) (simp_all add: bit_simps)
  qed
  then have "unat v div 2 ^ 15 = of_bool (bit v 15)"
    using unat_drop_bit_eq [of 15 v] by (cases "bit v 15") (simp_all add: drop_bit_nat_def)
  then show ?thesis by (cases "bit v 15") (simp_all add: word_le_nat_alt div_eq_0_iff, linarith?)
qed

lemma sign_mask: "w AND 0x8000 = (if bit w 15 then 0x8000 else 0)" for w :: u16
proof -
  have "w AND push_bit 15 1 = (if bit w 15 then push_bit 15 1 else 0)"
  proof (rule bit_word_eqI)
    fix n
    show "bit (w AND push_bit 15 1) n = bit (if bit w 15 then push_bit 15 1 else 0 :: u16) n"
      using bit_from_15 [of n w] by (cases "15 \<le> n") (auto simp: bit_simps simp del: push_bit_of_1)
  qed
  then show ?thesis by simp
qed

lemma range_bits:
  fixes w :: u16
  assumes "start AND 0x7FF = 0" "start \<le> w" "w \<le> start OR 0x7FF"
  shows "w AND 0xF800 = start AND 0xF800"
proof -
  have m: "(0x7FF :: u16) = mask 11" by (simp add: mask_eq_exp_minus_1)
  have "drop_bit 11 (start OR 0x7FF) = drop_bit 11 start"
    unfolding m by (rule bit_word_eqI) (auto simp: bit_simps)
  moreover have "drop_bit 11 a \<le> drop_bit 11 b" if "a \<le> b" for a b :: u16
    using that by (simp add: word_le_nat_alt unat_drop_bit_eq drop_bit_nat_def div_le_mono)
  then have "drop_bit 11 start \<le> drop_bit 11 w" "drop_bit 11 w \<le> drop_bit 11 (start OR 0x7FF)"
    using assms(2,3) by blast+
  ultimately show ?thesis unfolding top_five by simp
qed

lemma matches_bits: "matches p w \<Longrightarrow> aligned p \<Longrightarrow> w AND care p = base p AND care p"
proof (cases p)
  case (Add x1)
  then show "matches p w \<Longrightarrow> aligned p \<Longrightarrow> w AND care p = base p AND care p" by simp
next
  case (AddRange x21 x22)
  then show "matches p w \<Longrightarrow> aligned p \<Longrightarrow> w AND care p = base p AND care p" using range_bits by simp
next
  case (AddMask opcode opmask)
  have top: "v \<ge> 0x8000 \<longleftrightarrow> bit v 15" for v :: u16
    by (rule top_bit)
  assume "matches p w"
  then have m: "opcode \<le> w" "w AND opmask = opcode AND opmask" using AddMask by simp_all
  have "w AND 0x8000 = opcode AND 0x8000" if "opcode \<ge> 0x8000"
  proof -
    have "bit w 15" "bit opcode 15" using that m(1) unfolding top [symmetric] by auto
    then show ?thesis by (simp add: sign_mask)
  qed
  then show "w AND care p = base p AND care p"
    using m(2) AddMask by (simp add: bit.conj_disj_distrib)
qed

lemma matches_bit: "matches p w \<Longrightarrow> aligned p \<Longrightarrow> bit (care p) b \<Longrightarrow> bit w b = bit (base p) b"
  using matches_bits [of p w] by (metis bit_and_iff)

lemma separated_one:
  "separated bs ps \<Longrightarrow> list_all aligned ps \<Longrightarrow> length (filter (\<lambda>p. matches p w) ps) \<le> 1"
proof (induction bs ps rule: separated.induct)
  case (4 b bs p q ps)
  have eq: "filter (\<lambda>p. matches p w) (filter side (p # q # ps)) = filter (\<lambda>p. matches p w) (p # q # ps)"
    if "\<And>r. matches r w \<Longrightarrow> aligned r \<Longrightarrow> side r" for side
    unfolding filter_filter using that 4(4) by (intro filter_cong) (auto simp: list_all_iff)
  have al: "list_all aligned (filter side (p # q # ps))" for side
    using 4(4) by (auto simp: list_all_iff)
  show ?case
  proof (cases "bit w b")
    case True
    then show ?thesis
      using 4(1) [OF _ al] 4(3) eq [of "\<lambda>r. bit (care r) b \<longrightarrow> bit (base r) b"] matches_bit [of _ w b] by simp
  next
    case False
    then show ?thesis
      using 4(2) [OF _ al] 4(3) eq [of "\<lambda>r. bit (care r) b \<longrightarrow> \<not> bit (base r) b"] matches_bit [of _ w b] by simp
  qed
qed simp_all

lemma fold_register:
  assumes "length (filter (\<lambda>p. matches p w) (map fst rows)) \<le> 1"
  shows "fold (\<lambda>(p, h). register p h) rows f w = Some h \<longleftrightarrow>
    (\<exists>p. (p, h) \<in> set rows \<and> matches p w) \<or> (f w = Some h \<and> (\<forall>p\<in>set (map fst rows). \<not> matches p w))"
  using assms
proof (induction rows arbitrary: f)
  case (Cons r rows)
  obtain p k where r: "r = (p, k)" by (cases r)
  have "\<not> matches q w" if "matches p w" "(q, h') \<in> set rows" for q h'
    using Cons.prems that by (force simp: r filter_empty_conv)
  moreover have "length (filter (\<lambda>p. matches p w) (map fst rows)) \<le> 1"
    using Cons.prems by (simp add: r split: if_splits)
  ultimately show ?case using Cons.IH by (auto simp: r register_matches split: if_splits)
qed simp

lemma pcx_rows:
  "separated [15, 14, 13, 12, 11, 7, 6, 10, 9, 8, 2, 1, 0, 3, 4, 5] (map fst (cpu_instructions ND110PCX e))"
  "list_all aligned (map fst (cpu_instructions ND110PCX e))"
  unfolding cpu_instructions_def memory_rows_def jump_rows_def commercial_rows_def versn_rows_def stack_rows_def
    nd110_rows_def exr_rows_def bank_rows_def extended_rows_def register_rows_def butterfly_rows_def control_rows_def
    shift_rows_def argument_rows_def has_nd110_group_def
  by (simp only: list.map fst_conv append.simps map_append if_True simp_thms, code_simp)+

lemma rows_subseq: "subseq (cpu_instructions t e) (cpu_instructions ND110PCX e)"
proof -
  have opt: "subseq (if b then xs else []) xs" for b and xs :: "('a, 'b) row list" by simp
  have pcx: "cpu_instructions ND110PCX e = memory_rows e @ jump_rows e @ commercial_rows e @ versn_rows e @ stack_rows e
      @ nd110_rows e @ exr_rows e @ bank_rows e @ extended_rows e @ register_rows e @ butterfly_rows e @ control_rows e
      @ shift_rows e @ argument_rows e"
    by (simp add: cpu_instructions_def has_nd110_group_def)
  show ?thesis
    unfolding pcx unfolding cpu_instructions_def
    by (intro list_emb_append_mono opt subseq_order.refl)
qed

lemma at_most_one_row: "length (filter (\<lambda>p. matches p w) (map fst (cpu_instructions t e))) \<le> 1"
proof -
  have "subseq (filter (\<lambda>p. matches p w) (map fst (cpu_instructions t e)))
               (filter (\<lambda>p. matches p w) (map fst (cpu_instructions ND110PCX e)))"
    by (intro subseq_filter subseq_map rows_subseq)
  then show ?thesis using list_emb_length separated_one [OF pcx_rows] order.trans by blast
qed

lemma table_rows:
  "Setup_Instructions t e w = Some h \<longleftrightarrow> (\<exists>p. (p, h) \<in> set (cpu_instructions t e) \<and> matches p w)"
  unfolding Setup_Instructions_def by (simp add: fold_register [OF at_most_one_row])

text \<open>C16
  The instruction table has no overlapping registrations on any processor type: the handler
  called for an instruction word is the one of the only registration that covers the word, in
  whatever order they are made, and no word that a registration covers is left illegal.
\<close>

theorem table_unambiguous:
  "(Setup_Instructions t e w = Some h \<longleftrightarrow> (\<exists>p. (p, h) \<in> set (cpu_instructions t e) \<and> matches p w))
   \<and> length (filter (\<lambda>(p, _). matches p w) (cpu_instructions t e)) \<le> 1
   \<and> (\<forall>rows. mset rows = mset (cpu_instructions t e) \<longrightarrow> fold (\<lambda>(p, h). register p h) rows (\<lambda>_. None) w = Setup_Instructions t e w)"
proof -
  have len: "length (filter (\<lambda>(p, _). matches p w) rows) = length (filter (\<lambda>p. matches p w) (map fst rows))"
    for rows :: "('a, 'b) row list"
    by (simp add: filter_map comp_def case_prod_unfold)
  have "fold (\<lambda>(p, h). register p h) rows (\<lambda>_. None) w = Setup_Instructions t e w"
    if "mset rows = mset (cpu_instructions t e)" for rows
  proof -
    have "length (filter (\<lambda>p. matches p w) (map fst rows)) \<le> 1"
      using at_most_one_row [of w t e] that by (metis mset_filter mset_map size_mset)
    then have "fold (\<lambda>(p, h). register p h) rows (\<lambda>_. None) w = Some h \<longleftrightarrow> Setup_Instructions t e w = Some h" for h
      unfolding table_rows using fold_register [of w rows "\<lambda>_. None" h] mset_eq_setD [OF that] by simp
    then show ?thesis by (metis option.exhaust)
  qed
  then show ?thesis using table_rows at_most_one_row len by metis
qed

section \<open>EXR\<close>

lemma Exr_row: "(p, Exr) \<in> set (cpu_instructions t e) \<longleftrightarrow> p = AddMask 0xC180 0xFFC0"
  unfolding cpu_instructions_def memory_rows_def jump_rows_def commercial_rows_def versn_rows_def stack_rows_def
    nd110_rows_def exr_rows_def bank_rows_def extended_rows_def register_rows_def butterfly_rows_def control_rows_def
    shift_rows_def argument_rows_def instr_def plain_def regs_instr_def walk_def
  by simp

lemma exr_group: "w AND 0xFFC0 = 0xC180 \<Longrightarrow> w AND 0xF800 = 0xC000 \<and> w AND 0xC0 = 0x80 \<and> 0xC180 \<le> w" for w :: u16
proof -
  assume a: "w AND 0xFFC0 = 0xC180"
  have "(w AND 0xFFC0) AND 0xF800 = 0xC000" "(w AND 0xFFC0) AND 0xC0 = 0x80" unfolding a by simp_all
  moreover have "0xC180 \<le> w" using a word_and_le2 [of w "0xFFC0"] by metis
  ultimately show ?thesis by (simp add: and.assoc)
qed

lemma masked_exr: "w AND x = 0xC180 \<Longrightarrow> x AND 0xF800 = 0xF800 \<Longrightarrow> w AND 0xF800 = 0xC000" for w x :: u16
proof -
  assume a: "w AND x = 0xC180" "x AND 0xF800 = 0xF800"
  have "w AND 0xF800 = (w AND x) AND 0xF800" unfolding and.assoc a(2) ..
  then show ?thesis unfolding a(1) by simp
qed

lemma and_const: "w AND x = c \<Longrightarrow> c AND NOT x = 0" for w x c :: u16
  by (auto simp: and.assoc)

lemma extract_exr: "disasm_extract_opcode t w = 0xC180 \<longleftrightarrow> w AND 0xFFC0 = 0xC180"
proof
  assume a: "w AND 0xFFC0 = 0xC180"
  then have "w \<noteq> c" if "c AND 0xFFC0 \<noteq> 0xC180" for c using that by auto
  then have "decode_140k t w = 0xC180" using a by (simp add: decode_140k_def)
  then show "disasm_extract_opcode t w = 0xC180" using exr_group [OF a] by (simp add: disasm_extract_opcode_def)
next
  assume d: "disasm_extract_opcode t w = 0xC180"
  have "w AND 0xF800 = 0xC000"
    using d masked_exr [of w "0xFF00"] masked_exr [of w "0xFFC0"] masked_exr [of w "0xF980"] masked_exr [of w "0xFF80"]
      and_const [of w "0xF800" "0xC180"]
    by (auto simp: disasm_extract_opcode_def decode_150k_def Let_def split: if_splits)
  then have "decode_140k t w = 0xC180" using d by (auto simp: disasm_extract_opcode_def split: if_splits)
  then show "w AND 0xFFC0 = 0xC180"
    using and_const [of w "0xFFC7" "0xC180"] by (auto simp: decode_140k_def Let_def split: if_splits)
qed

lemma exr_entry: "Setup_Instructions t e w = Some Exr \<longleftrightarrow> w AND 0xFFC0 = 0xC180"
  unfolding table_rows Exr_row using exr_group by auto

text \<open>C17
  EXR recognises EXR: on every processor type the disassembler's decoder, which decides
  whether the word to execute is another EXR, agrees with the instruction table.
\<close>

theorem exr_recognised:
  "disasm_extract_opcode t' w = 0xC180 \<longleftrightarrow> Setup_Instructions t e w = Some Exr"
  unfolding extract_exr exr_entry ..

section \<open>Dispatch\<close>

definition advance :: "bool \<Rightarrow> 'd machine \<Rightarrow> 'd machine" where
  "advance is_exr m = (if is_exr then m else g_reg_update (\<lambda>r. set_cur R_P (cur R_P r + 1) r) m)"

text \<open>The word that is executed in the end, when there is one.\<close>

definition executed :: "(u16 \<Rightarrow> ('x, 'c) handler option) \<Rightarrow> u16 \<Rightarrow> 'd machine \<Rightarrow> u16" where
  "executed tab w m = (if tab w = Some Exr then exr_word w (g_reg m) else w)"

lemma cpu_do_op_run:
  "cpu_do_op (Setup_Instructions t e) w is_exr m =
     (let m1 = advance is_exr m; v = executed (Setup_Instructions t e) w m1
      in case Setup_Instructions t e v of
           None \<Rightarrow> Some (cpu_illegal_instr m1)
         | Some Exr \<Rightarrow> Some (on_regs (cpu_setbit R_STS STS_ERROR_INDICATOR True) m1)
         | Some (Handler f) \<Rightarrow> f v m1)"
proof -
  have exr: "disasm_extract_opcode t' v = 0xC180 \<longleftrightarrow> Setup_Instructions t e v = Some Exr" for t' v
    unfolding extract_exr exr_entry ..
  show ?thesis
    by (subst cpu_do_op.simps, subst cpu_do_op.simps)
      (auto simp: Let_def advance_def executed_def exr split: option.split handler.split)
qed

text \<open>Only the instructions that follow links in the guest's memory may not end.\<close>

definition walks :: "u16 set" where
  "walks = {0xC0C0, 0xC0C1, 0xC0C3, 0xC0C4, 0xC145, 0xC146, 0xC147}"

lemma rows_return:
  assumes "(p, Handler f) \<in> set (cpu_instructions t e)" "matches p v" "v \<notin> walks"
  shows "\<exists>out. f v m = Some out"
  using assms unfolding cpu_instructions_def
  by (auto simp: memory_rows_def jump_rows_def commercial_rows_def versn_rows_def stack_rows_def
    nd110_rows_def exr_rows_def bank_rows_def extended_rows_def register_rows_def butterfly_rows_def control_rows_def
    shift_rows_def argument_rows_def instr_def plain_def regs_instr_def walk_def always_def walks_def
    clnreent_returns cnrek_returns split: if_splits)


text \<open>EXR of a register that holds EXR sets the error indicator, and nothing is executed.\<close>

lemma exr_of_exr:
  "Setup_Instructions t e w = Some Exr \<Longrightarrow> exr_word w (g_reg m) AND 0xFFC0 = 0xC180 \<Longrightarrow>
     cpu_do_op (Setup_Instructions t e) w True m = Some (Done () (m\<lparr>g_reg := cpu_setbit R_STS STS_ERROR_INDICATOR True (g_reg m)\<rparr>))"
  unfolding cpu_do_op_run Let_def exr_entry [of t e "exr_word w (g_reg m)", symmetric]
  by (simp add: executed_def advance_def on_regs_def)

definition demo_host :: "(card_data, card_delay) host" where
  "demo_host = \<lparr>cards = card_ops False (\<lambda>_. 0), panel = (\<lambda>r. r), identity = cpu_versn_reset ND110 \<lparr>prom = [], microcode_version = 0, print_version = 0\<rparr>,
     undefined_shift = ret (), undefined_bytes = ret False\<rparr>"


theorem table_unambiguous_witness:
  "Setup_Instructions ND110 demo_host 0xC188 = Some Exr
   \<and> fold (\<lambda>(p, h). register p h) (rev (cpu_instructions ND110 demo_host)) (\<lambda>_. None) 0xC188 = Some Exr"
proof -
  have "(AddMask 0xC180 0xFFC0, Exr) \<in> set (cpu_instructions ND110 demo_host)" by (simp add: Exr_row)
  moreover have "matches (AddMask 0xC180 0xFFC0) 0xC188" by simp
  ultimately have "Setup_Instructions ND110 demo_host 0xC188 = Some Exr"
    using table_unambiguous [of ND110 demo_host "0xC188" Exr] by blast
  then show ?thesis
    using table_unambiguous [of ND110 demo_host "0xC188" Exr] by simp
qed

end
