(* ===== verification/RunLaws.thy ===== *)
theory RunLaws
  imports Run DispatchLaws
begin

text \<open>
  The run loop: the instruction ring is the list of what was recorded, what a run that returns
  has done, the instruction limit, the fault loop that never returns, and the way of a card's
  request to the instruction that serves it.
\<close>

section \<open>The ring\<close>

text \<open>The calls that touch the ring, and the entries they ask to keep, oldest first.\<close>

datatype ring_call = Record u16 u8 u16 CpuRegs | Set_tracing bool bool u16 | Note_irq u16

primrec ring_step :: "ring_call \<Rightarrow> Ring \<Rightarrow> Ring" where
  "ring_step (Record pc pil opcode r) g = ring_record pc pil opcode r g"
| "ring_step (Set_tracing enabled on pc) g = cpu_ring_set_tracing enabled on pc g"
| "ring_step (Note_irq bits) g = g\<lparr>last_device_irq_bits := bits\<rparr>"

primrec kept_by :: "ring_call \<Rightarrow> Ring \<Rightarrow> CpuRingEntry list" where
  "kept_by (Record pc pil opcode r) g =
     (if ring_wants g pc then [ring_entry pc pil opcode (last_device_irq_bits g) r] else [])"
| "kept_by (Set_tracing enabled on pc) g = []"
| "kept_by (Note_irq bits) g = []"

primrec history :: "ring_call list \<Rightarrow> Ring \<Rightarrow> CpuRingEntry list" where
  "history [] g = []"
| "history (c # cs) g = kept_by c g @ history cs (ring_step c g)"

definition ring_holds :: "Ring \<Rightarrow> CpuRingEntry list \<Rightarrow> bool" where
  "ring_holds g es \<longleftrightarrow> ring_idx g = length es mod RING_SIZE \<and> ring_count g = min (length es) RING_SIZE
     \<and> (\<forall>j<length es. length es \<le> j + RING_SIZE \<longrightarrow> ring_buf g (j mod RING_SIZE) = es ! j)"

lemma mod_apart: "j < n \<Longrightarrow> n < j + k \<Longrightarrow> j mod k \<noteq> n mod k" for j n k :: nat
proof
  assume "j < n" "n < j + k" "j mod k = n mod k"
  then have "k dvd n - j" by (metis less_imp_le mod_eq_dvd_iff_nat)
  then show False using \<open>j < n\<close> \<open>n < j + k\<close> by (auto dest: dvd_imp_le)
qed

lemma ring_size_pos [simp]: "0 < RING_SIZE" "RING_SIZE \<noteq> 0"
  by (simp_all add: RING_SIZE_def)

lemma ring_step_holds:
  assumes "ring_holds g es" shows "ring_holds (ring_step c g) (es @ kept_by c g)"
proof (cases c)
  case (Record pc pil opcode r)
  have "((ring_buf g)(length es mod RING_SIZE := e)) (j mod RING_SIZE) = (es @ [e]) ! j"
    if "j < Suc (length es)" "Suc (length es) \<le> j + RING_SIZE" for j e
    using that assms mod_apart [of j "length es" RING_SIZE]
    by (cases "j = length es") (auto simp: ring_holds_def nth_append less_Suc_eq)
  then show ?thesis using assms
    by (auto simp: Record ring_holds_def ring_record_def mod_Suc_eq)
qed (use assms in \<open>auto simp: ring_holds_def cpu_ring_set_tracing_def\<close>)

lemma history_holds: "ring_holds g es \<Longrightarrow> ring_holds (fold ring_step cs g) (es @ history cs g)"
proof (induction cs arbitrary: g es)
  case (Cons c cs)
  then show ?case using ring_step_holds [of g es c] by (metis append.assoc fold_simps(2) history.simps(2))
qed simp

lemma wrap_index: "(a mod r - k + i + r) mod r = (a - k + i) mod r" for a k i r :: int
proof -
  have "(a mod r - k + i + r) mod r = (a mod r + (i - k)) mod r"
    using mod_add_self2 [of "a mod r + (i - k)" r] by (simp add: algebra_simps)
  also have "\<dots> = (a + (i - k)) mod r" by (rule mod_add_left_eq)
  finally show ?thesis by (simp add: algebra_simps)
qed

lemma snapshot_holds:
  assumes "ring_holds g es"
  shows "cpu_ring_snapshot n g = drop (length es - min (nat n) RING_SIZE) es"
proof (cases "n \<le> 0")
  case False
  define k where "k = min (nat n) (min (length es) RING_SIZE)"
  have k: "(if int (ring_count g) < n then ring_count g else nat n) = k"
    using assms False by (auto simp: ring_holds_def k_def)
  have pos: "nat ((int (ring_idx g) - int k + int i + int RING_SIZE) mod int RING_SIZE) = (length es - k + i) mod RING_SIZE"
    if "i < k" for i
  proof -
    have "int (ring_idx g) = int (length es) mod int RING_SIZE"
      using assms by (simp add: ring_holds_def zmod_int)
    then have "(int (ring_idx g) - int k + int i + int RING_SIZE) mod int RING_SIZE = (int (length es) - int k + int i) mod int RING_SIZE"
      by (simp only: wrap_index)
    also have "\<dots> = int ((length es - k + i) mod RING_SIZE)"
      using k_def by (simp add: zmod_int of_nat_diff algebra_simps)
    finally show ?thesis by simp
  qed
  have "cpu_ring_snapshot n g
      = map (\<lambda>i. ring_buf g (nat ((int (ring_idx g) - int k + int i + int RING_SIZE) mod int RING_SIZE))) [0..<k]"
    using False by (simp only: cpu_ring_snapshot_def Let_def k if_False)
  also have "\<dots> = map (\<lambda>i. es ! (length es - k + i)) [0..<k]"
  proof (rule map_cong [OF refl])
    fix i assume "i \<in> set [0..<k]"
    then have i: "i < k" by simp
    have "length es - k + i < length es" "length es \<le> length es - k + i + RING_SIZE" using i by (auto simp: k_def)
    then show "ring_buf g (nat ((int (ring_idx g) - int k + int i + int RING_SIZE) mod int RING_SIZE)) = es ! (length es - k + i)"
      unfolding pos [OF i] using assms by (simp only: ring_holds_def)
  qed
  also have "\<dots> = drop (length es - k) es"
    by (rule nth_equalityI) (auto simp: k_def)
  also have "length es - k = length es - min (nat n) RING_SIZE" by (auto simp: k_def)
  finally show ?thesis .
qed (simp add: cpu_ring_snapshot_def)

text \<open>C23
  Refinement: the instruction ring is the list of everything recorded. Whatever the calls
  that record, filter and switch tracing, a snapshot of n entries is the last n accepted entries,
  oldest first, as long as n is at most 65536, and never an entry that was not recorded.
\<close>

theorem ring_snapshot_recent:
  "cpu_ring_snapshot n (fold ring_step cs (g\<lparr>ring_idx := 0, ring_count := 0\<rparr>))
     = (let es = history cs (g\<lparr>ring_idx := 0, ring_count := 0\<rparr>) in drop (length es - min (nat n) RING_SIZE) es)"
proof -
  have "ring_holds (g\<lparr>ring_idx := 0, ring_count := 0\<rparr>) []" by (simp add: ring_holds_def)
  from snapshot_holds [OF history_holds [OF this]] show ?thesis by (simp add: Let_def)
qed

section \<open>Steps of the processor\<close>

text \<open>
  One turn of the loop as a step relation: a turn that completes, a turn that faults, and the
  shutdown of a stopped processor. A turn that never completes is no step.
\<close>

inductive cpu_step :: "('x, 'c) table \<Rightarrow> ('x, 'c) ops \<Rightarrow> ('x, 'c) cpu \<Rightarrow> ('x, 'c) cpu \<Rightarrow> bool"
  for tab ops where
  turn: "CurrentCPURunMode (snd st) = CPU_RUNNING \<Longrightarrow> run_turn tab ops st = Some (Done () st') \<Longrightarrow> cpu_step tab ops st st'"
| fault: "CurrentCPURunMode (snd st) = CPU_RUNNING \<Longrightarrow> run_turn tab ops st = Some (Trap st') \<Longrightarrow> cpu_step tab ops st st'"
| shutdown: "CurrentCPURunMode m = CPU_STOPPED \<Longrightarrow> cpu_step tab ops (s, m) (s, cpu_set_run_mode CPU_SHUTDOWN m)"

inductive_cases cpu_stepE [elim]: "cpu_step tab ops st st'"

inductive reachable :: "('x, 'c) table \<Rightarrow> ('x, 'c) ops \<Rightarrow> ('x, 'c) cpu \<Rightarrow> ('x, 'c) cpu \<Rightarrow> bool"
  for tab ops st where
  start: "reachable tab ops st st"
| step: "reachable tab ops st st1 \<Longrightarrow> cpu_step tab ops st1 st2 \<Longrightarrow> reachable tab ops st st2"

lemma reachable_first: "cpu_step tab ops st st1 \<Longrightarrow> reachable tab ops st1 st2 \<Longrightarrow> reachable tab ops st st2"
  by (rotate_tac 1, induction rule: reachable.induct) (auto intro: reachable.intros)

text \<open>What \<open>cpu_run\<close> returns: steps, then a reason to stop.\<close>

definition ticks_used :: "int \<Rightarrow> int \<Rightarrow> CPURunMode \<Rightarrow> bool" where
  "ticks_used before after mode \<longleftrightarrow>
     (if before < 0 then after = before else 0 \<le> after \<and> after \<le> before) \<and> (after = 0 \<or> mode \<noteq> CPU_RUNNING \<and> mode \<noteq> CPU_STOPPED)"

lemma cpu_run_unfold:
  "cpu_run tab ops ticks st =
     (if ticks = 0 then Some (0, st)
      else if CurrentCPURunMode (snd st) = CPU_RUNNING
      then (case run_turn tab ops st of
              None \<Rightarrow> None
            | Some (Trap st1) \<Rightarrow> cpu_run tab ops ticks st1
            | Some (Done _ st1) \<Rightarrow> cpu_run tab ops (if ticks > 0 then ticks - 1 else ticks) st1)
      else if CurrentCPURunMode (snd st) = CPU_STOPPED
      then Some (ticks, (fst st, cpu_set_run_mode CPU_SHUTDOWN (snd st)))
      else Some (ticks, st))"
  by (subst cpu_run.simps) (auto split: option.split outcome.split)

lemma cpu_run_result:
  "cpu_run tab ops ticks st = Some y \<Longrightarrow>
     reachable tab ops st (snd y) \<and> ticks_used ticks (fst y) (CurrentCPURunMode (snd (snd y)))"
proof (induction rule: cpu_run.raw_induct [rotated, consumes 1])
  case (1 rec tab ops ticks st y)
  consider "ticks = 0" | (turn) st1 where "ticks \<noteq> 0" "CurrentCPURunMode (snd st) = CPU_RUNNING" "run_turn tab ops st = Some (Done () st1)"
      "rec tab ops (if 0 < ticks then ticks - 1 else ticks) st1 = Some y"
    | (fault) st1 where "ticks \<noteq> 0" "CurrentCPURunMode (snd st) = CPU_RUNNING" "run_turn tab ops st = Some (Trap st1)"
      "rec tab ops ticks st1 = Some y"
    | (other) "ticks \<noteq> 0" "CurrentCPURunMode (snd st) \<noteq> CPU_RUNNING"
    using 1(2) by (auto split: if_splits option.splits outcome.splits)
  then show ?case
  proof cases
    case (turn st1)
    then show ?thesis
      using 1(1) [OF turn(4)] by (auto simp: ticks_used_def intro: reachable_first cpu_step.turn split: if_splits)
  next
    case (fault st1)
    then show ?thesis using 1(1) [OF fault(4)] by (auto intro: reachable_first cpu_step.fault)
  next
    case other
    show ?thesis
    proof (cases "CurrentCPURunMode (snd st) = CPU_STOPPED")
      case True
      have "cpu_step tab ops st (fst st, cpu_set_run_mode CPU_SHUTDOWN (snd st))"
        using cpu_step.shutdown [OF True, of tab ops "fst st"] by simp
      then show ?thesis
        using 1(2) other True by (auto simp: ticks_used_def cpu_set_run_mode_def intro: reachable.intros)
    qed (use 1(2) other in \<open>auto simp: ticks_used_def intro: reachable.intros\<close>)
  qed (use 1(2) in \<open>auto simp: ticks_used_def intro: reachable.intros\<close>)
qed

text \<open>
  A set of states in which every turn faults and stays in the set is never left: a fault uses up no
  tick.
\<close>

definition fault_closed :: "('x, 'c) table \<Rightarrow> ('x, 'c) ops \<Rightarrow> (('x, 'c) cpu \<Rightarrow> bool) \<Rightarrow> bool" where
  "fault_closed tab ops P \<longleftrightarrow> (\<forall>st. P st \<longrightarrow> CurrentCPURunMode (snd st) = CPU_RUNNING
     \<and> (\<exists>st'. run_turn tab ops st = Some (Trap st') \<and> P st'))"

lemma fault_closed_diverges:
  assumes "fault_closed tab ops P" "P st" "ticks \<noteq> 0"
  shows "cpu_run tab ops ticks st = None"
proof (rule ccontr)
  assume "cpu_run tab ops ticks st \<noteq> None"
  then obtain y where "cpu_run tab ops ticks st = Some y" by auto
  then have "ticks \<noteq> 0 \<longrightarrow> fault_closed tab ops P \<longrightarrow> \<not> P st"
  proof (induction rule: cpu_run.raw_induct [rotated, consumes 1])
    case (1 rec tab ops ticks st y)
    show ?case
    proof (intro impI notI)
      assume a: "ticks \<noteq> 0" "fault_closed tab ops P" "P st"
      then obtain st' where "CurrentCPURunMode (snd st) = CPU_RUNNING" "run_turn tab ops st = Some (Trap st')" "P st'"
        unfolding fault_closed_def by blast
      then show False using 1 a by auto
    qed
  qed
  with assms show False by simp
qed

section \<open>A processor that can only fault\<close>

text \<open>
  Paging is on, no level is in ring 3, and no level's program counter is on a page that permits a
  fetch.
\<close>

definition level_entry :: "'d machine \<Rightarrow> nat \<Rightarrow> u32" where
  "level_entry m l =
     (let (pt, ptm) = select_page_table False (reg_PCR (g_reg m) l) (g_mms_type m)
      in mms_get_page_table_entry pt (va_page (ucast (reg (g_reg m) l R_P))) ptm m)"

definition can_only_fault :: "'d machine \<Rightarrow> bool" where
  "can_only_fault m \<longleftrightarrow> isInitialized (g_paging_tables m) \<and> STS_PAGING_ON_IS_SET (g_reg m)
     \<and> (\<forall>l<16. reg_PCR (g_reg m) l AND 0x03 \<noteq> 3 \<and> \<not> permits FETCH (level_entry m l))"

lemma check_and_switch_sel:
  "reg (snd (check_and_switch r)) = reg r" "reg_PCR (snd (check_and_switch r)) = reg_PCR r"
  "STS_PAGING_ON_IS_SET (snd (check_and_switch r)) = STS_PAGING_ON_IS_SET r"
  "STS_EXTENDED_ADDRESSING_IS_SET (snd (check_and_switch r)) = STS_EXTENDED_ADDRESSING_IS_SET r"
  by (auto simp: check_and_switch_def cpu_set_pil_def Let_def paging_bit extended_bit bit_simps)

lemma can_only_fault_cong:
  assumes "g_paging_tables m' = g_paging_tables m" "g_mms_type m' = g_mms_type m" "reg (g_reg m') = reg (g_reg m)"
    "reg_PCR (g_reg m') = reg_PCR (g_reg m)" "STS_PAGING_ON_IS_SET (g_reg m') = STS_PAGING_ON_IS_SET (g_reg m)"
    "STS_EXTENDED_ADDRESSING_IS_SET (g_reg m') = STS_EXTENDED_ADDRESSING_IS_SET (g_reg m)"
  shows "can_only_fault m' = can_only_fault m" "level_entry m' l = level_entry m l"
proof -
  have "sexi m' = sexi m" using assms by (simp add: sexi_def)
  then have e: "mms_get_page_table_entry pt vpn ptm m' = mms_get_page_table_entry pt vpn ptm m" for pt vpn ptm
    using assms(1) by (intro get_entry_cong)
  show "level_entry m' l = level_entry m l" for l
    using assms(2-4) by (simp add: level_entry_def e split_def Let_def)
  then show "can_only_fault m' = can_only_fault m" using assms by (simp add: can_only_fault_def)
qed

lemma can_only_fault_fetch:
  assumes "can_only_fault m"
  shows "\<exists>m'. fetch_tick m = Trap m' \<and> can_only_fault m' \<and> CurrentCPURunMode m' = CurrentCPURunMode m"
proof -
  define m1 where "m1 = g_reg_update (\<lambda>r. snd (check_and_switch r)) m"
  define va where "va = (ucast (cur R_P (g_reg m1)) :: u32)"
  have ok1: "can_only_fault m1"
    using assms can_only_fault_cong(1) [of m1 m] by (simp add: m1_def check_and_switch_sel)
  then have t: "translated m1 va" by (auto simp: can_only_fault_def translated_def pcr_of_def)
  have e: "va_entry m1 va False = level_entry m1 (gPIL (g_reg m1))"
    by (simp add: va_entry_def level_entry_def va_table_def va_mode_def pcr_of_def va_def cur_def split_def Let_def)
  have "\<not> permits FETCH (va_entry m1 va False)" using ok1 unfolding e by (simp add: can_only_fault_def)
  define c where "c = (if present (va_entry m1 va False) then 2 else 3 :: nat)"
  have "mms_map_virtual_to_physical va FETCH False m1
      = Trap (fault c (g_reg_update (mms_update_pgs (va_table m1 False) (va_page va) FETCH True) m1))"
    using \<open>\<not> permits FETCH (va_entry m1 va False)\<close> by (simp add: map_translated [OF t] Let_def split_def c_def)
  then have run: "fetch_tick m = Trap (fault c (g_reg_update (mms_update_pgs (va_table m1 False) (va_page va) FETCH True) m1))"
    by (simp add: fetch_tick_def mms_fetch_virtual_memory_def virtual_read_def bind_out_def Let_def va_def flip: m1_def)
  have mode: "CurrentCPURunMode (mms_tset_lock_end k) = CurrentCPURunMode k" for k :: "('a, 'b) board"
    by (simp add: mms_tset_lock_end_def Let_def)
  have "can_only_fault (fault c (g_reg_update (mms_update_pgs pt vpn FETCH True) m1)) = can_only_fault m1" for pt vpn
    by (rule can_only_fault_cong(1)) (simp_all add: fault_def paging_bit extended_bit)
  then show ?thesis using run ok1 by (simp add: fault_def mode m1_def)
qed

text \<open>C19
  Non-termination: when paging is on and no level's program counter is on a page it may fetch
  from (the level 14 handler included), cpu_run never returns, whatever number of ticks it is asked
  for: a fault returns to the top of the loop without using up a tick or ticking the devices.
\<close>

theorem fault_loop_never_returns:
  assumes "can_only_fault m" "CurrentCPURunMode m = CPU_RUNNING" "ticks \<noteq> 0"
  shows "cpu_run tab ops ticks (s, m) = None"
proof (rule fault_closed_diverges)
  let ?P = "\<lambda>st. can_only_fault (snd st) \<and> CurrentCPURunMode (snd st) = CPU_RUNNING"
  have "\<exists>m'. run_turn tab ops (s, m) = Some (Trap (s, m')) \<and> ?P (s, m')"
    if "can_only_fault m" "CurrentCPURunMode m = CPU_RUNNING" for s and m :: "('a, 'b) board"
    using can_only_fault_fetch [OF that(1)] that(2) by (auto simp: run_turn_def private_cpu_tick_def)
  then show "fault_closed tab ops ?P" unfolding fault_closed_def by fastforce
qed (use assms in auto)

text \<open>A board with paging switched on before any page table was filled.\<close>

definition empty_ring :: Ring where
  "empty_ring = \<lparr>ring_buf = (\<lambda>_. ring_entry 0 0 0 0 demo_regs), ring_idx = 0, ring_count = 0, s_ring_trace_enabled = False,
     s_ring_pc_filter_on = False, s_ring_pc_filter = 0, g_cpu_ring_dump_size = 0, last_device_irq_bits = 0\<rparr>"

definition idle_run :: run_state where
  "idle_run = \<lparr>g_instr_counter = 0, g_cpu_max_instr = 3, g_cpu_breakpoint_enabled = False, g_cpu_breakpoint_addr = 0,
     g_operand = 0, the_ring = empty_ring\<rparr>"

definition fault_board :: cards where
  "fault_board = snd (mms_create_paging_tables (demo_board\<lparr>g_reg := demo_regs\<lparr>reg_STS := 0x4000\<rparr>\<rparr>))"

lemma fault_board_faults: "can_only_fault fault_board"
proof -
  have "isInitialized (g_paging_tables fault_board)" "STS_PAGING_ON_IS_SET (g_reg fault_board)"
    "reg_PCR (g_reg fault_board) l = 0" "reg (g_reg fault_board) l R_P = 0" "g_mms_type fault_board = MMS1"
    "\<not> permits FETCH (mms_get_page_table_entry 0 (va_page 0) Four fault_board)" for l
    unfolding fault_board_def demo_board_def demo_regs_def by code_simp+
  moreover have "select_page_table False 0 MMS1 = (0, Four)" by (simp add: select_page_table_def)
  ultimately show ?thesis by (simp add: can_only_fault_def level_entry_def)
qed

theorem fault_loop_never_returns_witness:
  "cpu_run (Setup_Instructions ND110 demo_host) (card_ops False (\<lambda>_. 0)) 1000 (idle_run, fault_board) = None"
proof (rule fault_loop_never_returns [OF fault_board_faults])
  show "CurrentCPURunMode fault_board = CPU_RUNNING"
    by (simp add: fault_board_def mms_create_paging_tables_def demo_board_def)
qed simp

section \<open>What a run returns\<close>

text \<open>
  When cpu_run returns, it has made zero or more steps of the processor, it never gives back
  more ticks than it got (an endless run gives back its negative count), and if ticks are left the
  processor is in a mode other than running or stopped: a stopped processor has been shut down.
\<close>

theorem cpu_run_returns:
  assumes "cpu_run tab ops ticks st = Some (left, st')"
  shows "reachable tab ops st st' \<and> (if ticks < 0 then left = ticks else 0 \<le> left \<and> left \<le> ticks)
     \<and> (left \<noteq> 0 \<longrightarrow> CurrentCPURunMode (snd st') \<noteq> CPU_RUNNING \<and> CurrentCPURunMode (snd st') \<noteq> CPU_STOPPED)"
  using cpu_run_result [OF assms] by (auto simp: ticks_used_def)

lemma with_state_sel [simp]: "final_state (with_state s out) = (s, final_state out)"
  by (cases out) simp_all

lemma tick_count:
  assumes "private_cpu_tick tab (s, m) = Some out" "0 < g_cpu_max_instr s" "g_instr_counter s \<le> g_cpu_max_instr s"
  shows "g_instr_counter (fst (final_state out)) \<le> g_cpu_max_instr s \<and> g_cpu_max_instr (fst (final_state out)) = g_cpu_max_instr s"
proof -
  have "g_instr_counter s + 1 \<le> g_cpu_max_instr s" if "\<not> g_instr_counter s \<ge> g_cpu_max_instr s"
    using that by (simp add: inc_le not_le)
  then show ?thesis
    using assms by (auto simp: private_cpu_tick_def stops_here_def Let_def split: outcome.splits if_splits option.splits)
qed

lemma turn_count:
  assumes "run_turn tab ops (s, m) = Some out" "0 < g_cpu_max_instr s" "g_instr_counter s \<le> g_cpu_max_instr s"
  shows "g_instr_counter (fst (final_state out)) \<le> g_cpu_max_instr s \<and> g_cpu_max_instr (fst (final_state out)) = g_cpu_max_instr s"
  using assms(1) tick_count [OF _ assms(2,3), of tab m]
  by (fastforce simp: run_turn_def io_tick_def record_tick_def note_irq_bits_def split: outcome.splits option.splits if_splits prod.splits)

definition within_limit :: "run_state \<Rightarrow> bool" where
  "within_limit s \<longleftrightarrow> 0 < g_cpu_max_instr s \<and> g_instr_counter s \<le> g_cpu_max_instr s"

lemma step_within_limit:
  "cpu_step tab ops st st' \<Longrightarrow> within_limit (fst st) \<Longrightarrow> within_limit (fst st') \<and> g_cpu_max_instr (fst st') = g_cpu_max_instr (fst st)"
  using turn_count [of tab ops "fst st" "snd st"] by (fastforce simp: within_limit_def)

text \<open>C21
  The instruction limit is never exceeded: with a limit set and not yet passed, no sequence of
  turns, faults included, counts more instructions than the limit.
\<close>

theorem instruction_limit:
  assumes "reachable tab ops st st'" "0 < g_cpu_max_instr (fst st)" "g_instr_counter (fst st) \<le> g_cpu_max_instr (fst st)"
  shows "g_instr_counter (fst st') \<le> g_cpu_max_instr (fst st) \<and> g_cpu_max_instr (fst st') = g_cpu_max_instr (fst st)"
proof -
  have "within_limit (fst st') \<and> g_cpu_max_instr (fst st') = g_cpu_max_instr (fst st)"
    using assms(1) by (induction rule: reachable.induct) (use assms(2,3) step_within_limit in \<open>fastforce simp: within_limit_def\<close>)+
  then show ?thesis by (metis within_limit_def)
qed

text \<open>A board stopped by WAIT or OPCOM, with the limit of three instructions.\<close>

definition stopped_board :: cards where
  "stopped_board = cpu_set_run_mode CPU_STOPPED demo_board"

lemma stopped_board_run:
  "cpu_run tab ops 5 (idle_run, stopped_board) = Some (5, (idle_run, cpu_set_run_mode CPU_SHUTDOWN stopped_board))"
  by (subst cpu_run.simps) (simp add: stopped_board_def cpu_set_run_mode_def)

theorem cpu_run_returns_witness:
  "\<exists>left st'. cpu_run (Setup_Instructions ND110 demo_host) (card_ops False (\<lambda>_. 0)) 5 (idle_run, stopped_board) = Some (left, st')
     \<and> 0 \<le> left \<and> left \<le> 5"
  using cpu_run_returns [OF stopped_board_run [of "Setup_Instructions ND110 demo_host" "card_ops False (\<lambda>_. 0)"]]
    stopped_board_run by auto

theorem instruction_limit_witness:
  "\<exists>st'. reachable (Setup_Instructions ND110 demo_host) (card_ops False (\<lambda>_. 0)) (idle_run, stopped_board) st'
     \<and> CurrentCPURunMode (snd st') = CPU_SHUTDOWN \<and> g_instr_counter (fst st') \<le> 3"
proof -
  let ?st = "(idle_run, cpu_set_run_mode CPU_SHUTDOWN stopped_board)"
  have "cpu_step (Setup_Instructions ND110 demo_host) (card_ops False (\<lambda>_. 0)) (idle_run, stopped_board) ?st"
    by (rule cpu_step.shutdown) (simp add: stopped_board_def cpu_set_run_mode_def)
  then have r: "reachable (Setup_Instructions ND110 demo_host) (card_ops False (\<lambda>_. 0)) (idle_run, stopped_board) ?st"
    by (rule reachable.step [OF reachable.start])
  have "g_instr_counter (fst ?st) \<le> 3"
    using instruction_limit [OF r] by (simp add: idle_run_def)
  then show ?thesis using r by (intro exI [of _ ?st]) (simp add: cpu_set_run_mode_def)
qed

section \<open>From a card's request to the instruction on its level\<close>

lemma regs_update: "g_reg_update f m = m\<lparr>g_reg := f (g_reg m)\<rparr>"
  by (cases m) simp

text \<open>C22
  No request is lost between a card and the processor: when the devices' tick reports a request
  on an enabled level above the current one that was not pending before, the very next
  instruction is fetched from the program counter of the highest requesting level, which is at
  least that level, with every level's registers intact.
\<close>

theorem device_request_is_served:
  assumes tick: "devmgr_tick ops m = Some (Done bits m1)"
    and new: "bit (bits AND 0xBC00) l" "\<not> bit (reg_PID (g_reg m1)) l"
    and on: "STS_INTERRUPT_ON_IS_SET (g_reg m1)" "bit (reg_PIE (g_reg m1)) l"
  shows "\<exists>m2 r k. IO_Tick ops m = Some (Done () m2) \<and> k = Max (requesting (g_reg m2)) \<and> l \<le> k
     \<and> gPIL r = k \<and> reg r = reg (g_reg m1)
     \<and> fetch_tick m2 = mms_fetch_virtual_memory (ucast (reg (g_reg m1) k R_P)) False (m2\<lparr>g_reg := r\<rparr>)"
proof -
  define m2 where "m2 = g_reg_update (cpu_device_interrupt bits) m1"
  define r where "r = snd (check_and_switch (g_reg m2))"
  have l: "l < 16" using on(2) bit_imp_le_length by fastforce
  have "bits \<noteq> 0" using new(1) by auto
  then have io: "IO_Tick ops m = Some (Done () m2)"
    by (simp add: IO_Tick_def bindl_def tick always_def m2_def on_regs_def)
  have "reg_PID (cpu_device_interrupt bits r) = (reg_PID r AND NOT (bits AND 0xBC00)) OR (bits AND 0xBC00)" for r
    by (simp add: cpu_device_interrupt_def Let_def)
  then have pid: "bit (reg_PID (g_reg m2)) l" using new(1) by (simp add: m2_def bit_or_iff)
  have "chkit (cpu_device_interrupt bits r) \<longleftrightarrow> chkit r \<or> reg_PID (cpu_device_interrupt bits r) \<noteq> reg_PID r" for r
    by (auto simp: cpu_device_interrupt_def Let_def)
  moreover have "reg_PID (g_reg m2) \<noteq> reg_PID (g_reg m1)" using pid new(2) by metis
  ultimately have "chkit (g_reg m2)" by (metis m2_def machine.surjective machine.update_convs(1) machine.select_convs(1))
  moreover have "STS_INTERRUPT_ON_IS_SET (g_reg m2)" "bit (reg_PIE (g_reg m2)) l" "reg (g_reg m2) = reg (g_reg m1)"
    using on by (simp_all add: m2_def cpu_device_interrupt_def Let_def STS_INTERRUPT_ON_IS_SET_def)
  moreover have "l \<in> requesting (g_reg m2)" using calculation pid l by (simp add: requesting_def)
  moreover have "finite (requesting (g_reg m2))" by (simp add: requesting_def)
  ultimately have r: "gPIL r = Max (requesting (g_reg m2))" "reg r = reg (g_reg m1)" "l \<le> Max (requesting (g_reg m2))"
    using level_switch [of "g_reg m2"] by (auto simp: r_def)
  have "g_reg_update (\<lambda>r. snd (check_and_switch r)) m2 = m2\<lparr>g_reg := r\<rparr>"
    unfolding r_def by (rule regs_update)
  then have "fetch_tick m2 = mms_fetch_virtual_memory (ucast (cur R_P r)) False (m2\<lparr>g_reg := r\<rparr>)"
    by (simp add: fetch_tick_def Let_def)
  then show ?thesis using io r by (intro exI [of _ m2] exI [of _ r] exI [of _ "gPIL r"]) (simp add: cur_def)
qed

text \<open>A line printer that requests level 10, which is enabled, while the program runs on level 0.\<close>

definition request_board :: cards where
  "request_board = demo_board
     \<lparr>g_reg := demo_regs\<lparr>reg_STS := 0x8000, reg_PIE := 0x0400\<rparr>,
      devices := devmgr_init\<lparr>dm_devices := [(dev_reset (the (lp_create_line_printer_device 0)))\<lparr>interruptBits := push_bit 10 1\<rparr>],
        dev_tick_wanted := False, dev_irq_dirty := True, s_tick_list_devices := 1\<rparr>\<rparr>"

lemma request_board_tick:
  "\<exists>m1. devmgr_tick (card_ops False (\<lambda>_. 0)) request_board = Some (Done 0x0400 m1) \<and> g_reg m1 = g_reg request_board"
proof -
  let ?ops = "card_ops False (\<lambda>_. 0)"
  define s where "s = devices request_board"
  have s: "s_tick_list s = []" "\<not> dev_tick_wanted s" "s_tick_list_devices s = int (length (dm_devices s))" "dev_irq_dirty s"
    "irq_or ?ops (dm_devices s) = 0x0400"
    by (simp_all add: s_def request_board_def devmgr_init_def irq_or_def has_Tick_def creation)
  then have q: "on_manager (\<lambda>s. snd (devmgr_take_requests ?ops (new_table ?ops s))) request_board = request_board"
    by (simp add: on_manager_def new_table_def devmgr_take_requests_def flip: s_def)
  have "while_loop (tick_pass ?ops) (0, False) request_board = Some (Done False request_board)"
    by (subst while_loop.simps) (simp add: tick_pass_def s flip: s_def)
  then show ?thesis
    by (simp add: devmgr_tick_def bindl_def q collect_irq_def s Let_def flip: s_def)
qed

theorem device_request_is_served_witness:
  "\<exists>m2 r. IO_Tick (card_ops False (\<lambda>_. 0)) request_board = Some (Done () m2) \<and> 10 \<le> gPIL r
     \<and> fetch_tick m2 = mms_fetch_virtual_memory 0 False (m2\<lparr>g_reg := r\<rparr>)"
proof -
  obtain m1 where m1: "devmgr_tick (card_ops False (\<lambda>_. 0)) request_board = Some (Done 0x0400 m1)" "g_reg m1 = g_reg request_board"
    using request_board_tick by blast
  have r: "g_reg m1 = demo_regs\<lparr>reg_STS := 0x8000, reg_PIE := 0x0400\<rparr>" by (simp add: m1(2) request_board_def)
  have b: "bit (0x0400 AND 0xBC00 :: u16) 10" "\<not> bit (reg_PID (g_reg m1)) 10" "STS_INTERRUPT_ON_IS_SET (g_reg m1)"
    "bit (reg_PIE (g_reg m1)) 10" and z: "reg (g_reg m1) = (\<lambda>_ _. 0)"
    unfolding r by (simp_all add: demo_regs_def STS_INTERRUPT_ON_IS_SET_def)
  obtain m2 r k where k: "IO_Tick (card_ops False (\<lambda>_. 0)) request_board = Some (Done () m2)" "10 \<le> k" "gPIL r = k"
      "fetch_tick m2 = mms_fetch_virtual_memory (ucast (reg (g_reg m1) k R_P)) False (m2\<lparr>g_reg := r\<rparr>)"
    using device_request_is_served [OF m1(1) b] by blast
  then show ?thesis by (intro exI [of _ m2] exI [of _ r]) (simp add: z)
qed

end
