(* ===== verification/TerminalLaws.thy ===== *)
theory TerminalLaws
  imports CardLaws RunLaws
begin

text \<open>
  The terminal at work: its circular buffer is a first-in first-out queue of bounded length, and
  the keys typed at it reach the guest one by one, in order, at the speed of the line.
\<close>

section \<open>The parity table\<close>

definition ones :: "u8 \<Rightarrow> nat" where
  "ones v = length (filter (bit v) [0..<8])"

lemma parity_table: "dev_get_odd_parity v = ones v mod 2"
proof -
  have "\<forall>k\<in>set [0..<256]. g_odd_parity_table ! k = length (filter (bit (word_of_nat k :: u8)) [0..<8]) mod 2"
    by code_simp
  moreover have "unat v < 256" using unsigned_less [of v] by simp
  ultimately show ?thesis by (simp add: dev_get_odd_parity_def ones_def)
qed

section \<open>The input queue\<close>

definition keys :: "TerminalData \<Rightarrow> u8 list" where
  "keys d = map (\<lambda>k. queue_buffer d ! ((queue_head d + k) mod TERMINAL_QUEUE_SIZE)) [0..<queue_count d]"

definition queue_ok :: "TerminalData \<Rightarrow> bool" where
  "queue_ok d \<longleftrightarrow> length (queue_buffer d) = TERMINAL_QUEUE_SIZE \<and> queue_head d < TERMINAL_QUEUE_SIZE
     \<and> queue_count d \<le> TERMINAL_QUEUE_SIZE \<and> queue_tail d = (queue_head d + queue_count d) mod TERMINAL_QUEUE_SIZE"

lemma length_keys [simp]: "length (keys d) = queue_count d"
  by (simp add: keys_def)

lemma other_slot: "k < c \<Longrightarrow> c < 256 \<Longrightarrow> (h + k) mod 256 \<noteq> (h + c) mod 256" for h k c :: nat
  by (rule mod_apart) auto

lemma queue_key:
  assumes "queue_ok d" "queue_count d < TERMINAL_QUEUE_SIZE"
  shows "queue_ok (terminal_queue_key k d)" "keys (terminal_queue_key k d) = keys d @ [k]"
proof -
  have h: "length (queue_buffer d) = 256" "queue_tail d = (queue_head d + queue_count d) mod 256" "queue_count d < 256"
    using assms by (simp_all add: queue_ok_def)
  show "queue_ok (terminal_queue_key k d)"
    using assms by (simp add: queue_ok_def terminal_queue_key_def mod_Suc_eq)
  have "queue_buffer (terminal_queue_key k d) ! ((queue_head d + j) mod 256) = queue_buffer d ! ((queue_head d + j) mod 256)"
    if "j < queue_count d" for j
    using h that other_slot [of j "queue_count d" "queue_head d"] by (simp add: terminal_queue_key_def)
  then show "keys (terminal_queue_key k d) = keys d @ [k]"
    using h by (simp add: keys_def terminal_queue_key_def)
qed

lemma receive_first:
  assumes "queue_ok d" "keys d = k # ks"
  shows "queue_ok (receive_key d)" "keys (receive_key d) = ks" "uartInputBuf (receive_key d) = uart_character (inputControl d) k"
proof -
  have c: "queue_count d = Suc (length ks)" using arg_cong [OF assms(2), of length] by simp
  show "queue_ok (receive_key d)"
    using assms(1) c by (simp add: queue_ok_def receive_key_def mod_add_left_eq)
  have nth: "keys d ! j = queue_buffer d ! ((queue_head d + j) mod 256)" if "j < Suc (length ks)" for j
    using that c by (simp add: keys_def del: upt_Suc)
  show "keys (receive_key d) = ks"
  proof (rule nth_equalityI)
    fix j assume "j < length (keys (receive_key d))"
    then have j: "j < length ks" using c by (simp add: receive_key_def)
    have "ks ! j = queue_buffer d ! ((queue_head d + Suc j) mod 256)" using nth [of "Suc j"] j assms(2) by simp
    moreover have "keys (receive_key d) ! j = queue_buffer d ! ((Suc (queue_head d) mod 256 + j) mod 256)"
      using j c by (simp add: keys_def receive_key_def)
    ultimately show "keys (receive_key d) ! j = ks ! j" by (simp only: mod_add_left_eq add_Suc add_Suc_right)
  qed (simp add: c receive_key_def)
  show "uartInputBuf (receive_key d) = uart_character (inputControl d) k"
    using nth [of 0] assms by (simp add: receive_key_def queue_ok_def)
qed

section \<open>One tick of the line\<close>

definition receivable :: "TerminalData \<Rightarrow> bool" where
  "receivable d \<longleftrightarrow> \<not> bit (inputStatus d) 3 \<and> bit (outputStatus d) 3"

definition line_step :: "TerminalData \<Rightarrow> TerminalData" where
  "line_step d =
     (if queue_count d > 0
      then let d1 = time_line d in if lineTicksLeft d1 = 0 \<and> receivable d1 then receive_key d1 else d1
      else d)"

text \<open>The terminal \<open>i\<close> with the data \<open>d\<close>, nothing delayed, at the address \<open>start\<close>.\<close>

definition terminal_at :: "nat \<Rightarrow> u32 \<Rightarrow> TerminalData \<Rightarrow> cards \<Rightarrow> bool" where
  "terminal_at i start d m \<longleftrightarrow> card_at i DEVICE_TYPE_TERMINAL start m \<and> ioDelays (dev i m) = [] \<and> deviceData (dev i m) = TTY d"

lemma terminal_at_set: "terminal_at i start d m \<Longrightarrow> terminal_at i start (f d) (set_term i f m)"
  by (auto simp: terminal_at_def set_term_def card_at_kept on_term_def) (simp add: card_at_def)+

lemma terminal_at_status: "terminal_at i start d m \<Longrightarrow> terminal_at i start d (dev_set_interrupt_status j b lvl m)"
proof -
  assume a: "terminal_at i start d m"
  then have "i < dev_count m" by (simp add: terminal_at_def card_at_def)
  then have "ioDelays (dev i (dev_set_interrupt_status j b lvl m)) = ioDelays (dev i m)"
    "deviceData (dev i (dev_set_interrupt_status j b lvl m)) = deviceData (dev i m)"
    by (simp_all add: dev_set_interrupt_status_def dev_generate_interrupt_def device_clear_interrupt_def)
  then show ?thesis using a by (simp add: terminal_at_def)
qed

lemma terminal_at_interrupts:
  "terminal_at i start d m \<Longrightarrow> terminal_at i start d (input_interrupt j m)"
  "terminal_at i start d m \<Longrightarrow> terminal_at i start d (dev_request_tick m)"
  by (simp_all add: input_interrupt_def Let_def terminal_at_status) (simp add: terminal_at_def)

lemma terminal_at_data [simp]: "terminal_at i start d m \<Longrightarrow> term_of i m = d"
  by (simp add: terminal_at_def term_of_def)

lemma terminal_tick_line:
  assumes "terminal_at i start d m"
  shows "\<exists>m'. terminal_tick i m = Some (Done () m') \<and> terminal_at i start (line_step d) m'"
proof -
  have "dev_tick_io_delay card_delayed i m = Some (Done () m)"
    unfolding dev_tick_io_delay_def using assms
    by (subst while_loop.simps) (simp add: always_def delay_pass_def terminal_at_def)
  moreover have "terminal_at i start (line_step d) (terminal_line i m)"
    using assms terminal_at_set [OF assms, of time_line]
    by (auto simp: terminal_line_def line_step_def receivable_def Let_def intro!: terminal_at_interrupts terminal_at_set)
  ultimately show ?thesis by (simp add: terminal_tick_def bindl_def always_def modify_def)
qed

primrec tick_line :: "nat \<Rightarrow> nat \<Rightarrow> (unit, (card_data, card_delay) DeviceManager) loop" where
  "tick_line 0 i = always (ret ())"
| "tick_line (Suc n) i = bindl (terminal_tick i) (\<lambda>_. tick_line n i)"

lemma tick_line_steps:
  "terminal_at i start d m \<Longrightarrow> \<exists>m'. tick_line n i m = Some (Done () m') \<and> terminal_at i start ((line_step ^^ n) d) m'"
proof (induction n arbitrary: d m)
  case (Suc n)
  obtain m1 where m1: "terminal_tick i m = Some (Done () m1)" "terminal_at i start (line_step d) m1"
    using terminal_tick_line [OF Suc.prems] by blast
  then show ?case using Suc.IH [OF m1(2)] by (auto simp: bindl_def funpow_swap1)
qed (simp add: always_def ret_def)

text \<open>A key is on the line for exactly its line time.\<close>

lemma timed_step:
  assumes "queue_count d > 0" "receivable d" "lineTimed d" "lineTicksLeft d \<noteq> 0"
  shows "line_step d = (if lineTicksLeft d = 1 then receive_key (d\<lparr>lineTicksLeft := 0\<rparr>) else d\<lparr>lineTicksLeft := lineTicksLeft d - 1\<rparr>)"
  using assms by (simp add: line_step_def time_line_def receivable_def word_neq_0_conv Let_def)

lemma timed_line:
  assumes "queue_count d > 0" "receivable d" "lineTimed d" "unat (lineTicksLeft d) = Suc n"
  shows "(line_step ^^ Suc n) d = receive_key (d\<lparr>lineTicksLeft := 0\<rparr>) \<and> (\<forall>k\<le>n. receivable ((line_step ^^ k) d))"
  using assms
proof (induction n arbitrary: d)
  case 0
  then have "lineTicksLeft d = 1" by (simp add: word_unat_eq_iff)
  then show ?case using 0 timed_step [of d] by simp
next
  case (Suc n)
  let ?d = "d\<lparr>lineTicksLeft := lineTicksLeft d - 1\<rparr>"
  have "lineTicksLeft d \<noteq> 0" "lineTicksLeft d \<noteq> 1" using Suc.prems(4) by auto
  then have step: "line_step d = ?d" using timed_step [of d] Suc.prems by simp
  have "unat (lineTicksLeft ?d) = Suc n" using Suc.prems(4) by (simp add: unat_sub_if' word_le_nat_alt)
  then have ih: "(line_step ^^ Suc n) ?d = receive_key (?d\<lparr>lineTicksLeft := 0\<rparr>)" "\<forall>k\<le>n. receivable ((line_step ^^ k) ?d)"
    using Suc.IH [of ?d] Suc.prems by (auto simp: receivable_def)
  have "receivable ((line_step ^^ k) d)" if "k \<le> Suc n" for k
    using that ih(2) step Suc.prems(2) by (cases k) (auto simp: funpow_swap1)
  then show ?case using ih(1) step by (simp add: funpow_swap1)
qed

text \<open>The next key, from an idle line: after its line time it is in the UART, and not before.\<close>

lemma next_key:
  assumes "queue_count d > 0" "receivable d" "\<not> lineTimed d" "unat (terminal_char_ticks d) = Suc n"
  shows "(line_step ^^ Suc n) d = receive_key (d\<lparr>lineTimed := True, lineTicksLeft := 0\<rparr>) \<and> (\<forall>k\<le>n. receivable ((line_step ^^ k) d))"
proof -
  let ?d = "d\<lparr>lineTicksLeft := terminal_char_ticks d, lineTimed := True\<rparr>"
  have "line_step d = line_step ?d" using assms(1,3) by (simp add: line_step_def time_line_def)
  then have "(line_step ^^ Suc k) d = (line_step ^^ Suc k) ?d" for k by (simp add: funpow_swap1)
  moreover have "(line_step ^^ Suc n) ?d = receive_key (?d\<lparr>lineTicksLeft := 0\<rparr>)" "\<forall>k\<le>n. receivable ((line_step ^^ k) ?d)"
    using timed_line [of ?d n] assms by (auto simp: receivable_def)
  moreover have "receivable ((line_step ^^ k) d)" if "k \<le> n" for k
  proof (cases k)
    case (Suc j)
    then show ?thesis using that calculation by metis
  qed (simp add: assms(2))
  ultimately show ?thesis by simp
qed

section \<open>Typing and reading\<close>

text \<open>An idle terminal; \<open>same_line\<close>: the settings of the line are unchanged.\<close>

definition line_ok :: "TerminalData \<Rightarrow> bool" where
  "line_ok d \<longleftrightarrow> queue_ok d \<and> receivable d \<and> \<not> lineTimed d \<and> terminal_char_ticks d \<noteq> 0"

definition same_line :: "TerminalData \<Rightarrow> TerminalData \<Rightarrow> bool" where
  "same_line d e \<longleftrightarrow> inputControl e = inputControl d \<and> line_time e = line_time d"

lemma same_line_ticks: "same_line d e \<Longrightarrow> terminal_char_ticks e = terminal_char_ticks d"
  by (simp add: same_line_def terminal_char_ticks_def)

lemma key_queued:
  assumes "line_ok d" "queue_count d < TERMINAL_QUEUE_SIZE"
  shows "line_ok (terminal_queue_key k d)" "same_line d (terminal_queue_key k d)"
proof -
  show s: "same_line d (terminal_queue_key k d)" by (simp add: same_line_def terminal_queue_key_def)
  show "line_ok (terminal_queue_key k d)"
    using assms queue_key(1) [of d k] same_line_ticks [OF s]
    by (simp add: line_ok_def) (simp add: receivable_def terminal_queue_key_def)
qed

lemma typed:
  assumes "terminal_at i start d m" "line_ok d" "queue_count d + length ks \<le> TERMINAL_QUEUE_SIZE"
  shows "\<exists>e. terminal_at i start e (fold (terminal_queue_key_code i) ks m) \<and> line_ok e \<and> same_line d e \<and> keys e = keys d @ ks"
  using assms
proof (induction ks arbitrary: d m)
  case (Cons k ks)
  let ?e = "terminal_queue_key k d"
  have room: "queue_count d < TERMINAL_QUEUE_SIZE" using Cons.prems(3) by simp
  have q: "keys ?e = keys d @ [k]" using queue_key(2) Cons.prems(2) room by (simp add: line_ok_def)
  have t: "terminal_at i start ?e (terminal_queue_key_code i k m)"
    using terminal_at_set [OF Cons.prems(1)] terminal_at_data [OF Cons.prems(1)] room
    by (simp add: terminal_queue_key_code_def terminal_at_interrupts)
  have "queue_count ?e = Suc (queue_count d)" using room by (simp add: terminal_queue_key_def)
  then have len: "queue_count ?e + length ks \<le> TERMINAL_QUEUE_SIZE" using Cons.prems(3) by simp
  obtain e where e: "terminal_at i start e (fold (terminal_queue_key_code i) ks (terminal_queue_key_code i k m))" "line_ok e"
    "same_line ?e e" "keys e = keys ?e @ ks"
    using Cons.IH [OF t key_queued(1) [OF Cons.prems(2) room] len] by blast
  moreover have "same_line d e" using e(3) key_queued(2) [OF Cons.prems(2) room, of k] by (simp add: same_line_def)
  ultimately show ?case using q by auto
qed (auto simp: same_line_def)

definition read_away :: "TerminalData \<Rightarrow> TerminalData" where
  "read_away d = d\<lparr>uartInputBuf := 0, inputStatus := put_bit 3 False (inputStatus d)\<rparr>"

lemma terminal_read_data:
  assumes "terminal_at i (ucast a) d m" "a AND 1 = 0"
  shows "\<exists>m'. io_op (card_ops wall now) a v m = Done (uartInputBuf d) m' \<and> terminal_at i (ucast a) (read_away d) m'"
proof -
  have c: "card_at i DEVICE_TYPE_TERMINAL (ucast a) m" "startAddress (dev i m) = ucast a"
    using assms(1) by (simp_all add: terminal_at_def card_at_def)
  have "uint (ucast a :: u32) = uint a" by (simp add: unsigned_ucast_eq take_bit_int_eq_self)
  then have "(ucast a :: u32) \<le> ucast a + 7"
    using uint_lt2p [of a] by (simp add: word_le_def uint_word_ariths)
  then have "io_op (card_ops wall now) a v m = terminal_read i (ucast a) m"
    using io_read_reaches [OF c(1), of a "card_ops wall now"] assms(2) by simp
  then show ?thesis
    using assms(1) terminal_at_set [OF assms(1), of read_away] c(2)
    by (simp add: terminal_read_def dev_register_address_def terminal_at_interrupts flip: read_away_def)
qed

text \<open>
  The guest's program: let the line time of a character pass, read the input data register, and
  so on. The clock of the line is the ticks of the card.
\<close>

primrec read_keys :: "(card_data, card_delay) ops \<Rightarrow> u16 \<Rightarrow> nat \<Rightarrow> nat \<Rightarrow> (u16 list, (card_data, card_delay) DeviceManager) loop" where
  "read_keys ops a i 0 = always (ret [])"
| "read_keys ops a i (Suc n) =
     bindl (\<lambda>m. tick_line (unat (terminal_char_ticks (term_of i m))) i m) (\<lambda>_.
     bindl (always (io_op ops a 0)) (\<lambda>v.
     bindl (read_keys ops a i n) (\<lambda>vs. always (ret (v # vs)))))"

lemma read_first:
  assumes "terminal_at i (ucast a) d m" "a AND 1 = 0" "line_ok d" "keys d = k # ks"
  shows "\<exists>e m1 m2. tick_line (unat (terminal_char_ticks d)) i m = Some (Done () m1)
     \<and> io_op (card_ops wall now) a 0 m1 = Done (uart_character (inputControl d) k) m2
     \<and> terminal_at i (ucast a) e m2 \<and> line_ok e \<and> same_line d e \<and> keys e = ks"
proof -
  let ?t = "d\<lparr>lineTimed := True, lineTicksLeft := 0\<rparr>"
  have d: "queue_ok d" "receivable d" "\<not> lineTimed d" "terminal_char_ticks d \<noteq> 0" using assms(3) by (simp_all add: line_ok_def)
  then obtain n where n: "unat (terminal_char_ticks d) = Suc n" using not0_implies_Suc unat_eq_0 by metis
  have c: "queue_count d > 0" using arg_cong [OF assms(4), of length] by simp
  have t: "queue_ok ?t" "keys ?t = k # ks" using d(1) assms(4) by (simp_all add: queue_ok_def keys_def)
  obtain m1 where m1: "tick_line (Suc n) i m = Some (Done () m1)" "terminal_at i (ucast a) (receive_key ?t) m1"
    using tick_line_steps [OF assms(1), of "Suc n"] next_key [OF c d(2,3) n] by auto
  obtain m2 where m2: "io_op (card_ops wall now) a 0 m1 = Done (uartInputBuf (receive_key ?t)) m2"
    "terminal_at i (ucast a) (read_away (receive_key ?t)) m2"
    using terminal_read_data [OF m1(2) assms(2)] by blast
  let ?e = "read_away (receive_key ?t)"
  have s: "same_line d ?e" by (simp add: same_line_def read_away_def receive_key_def)
  have e: "queue_ok ?e" "keys ?e = ks" "receivable ?e" "\<not> lineTimed ?e"
    using receive_first(1,2) [OF t] d(2) by (simp_all add: queue_ok_def keys_def read_away_def receivable_def bit_put_bit)
      (simp add: receive_key_def)+
  then have "line_ok ?e" using d(4) same_line_ticks [OF s] by (simp add: line_ok_def)
  then show ?thesis using m1(1) m2 n s e(2) receive_first(3) [OF t] by auto
qed

lemma read_all:
  assumes "terminal_at i (ucast a) d m" "a AND 1 = 0" "line_ok d"
  shows "\<exists>e m'. read_keys (card_ops wall now) a i (queue_count d) m = Some (Done (map (uart_character (inputControl d)) (keys d)) m')
     \<and> terminal_at i (ucast a) e m' \<and> line_ok e \<and> keys e = []"
  using assms
proof (induction "keys d" arbitrary: d m)
  case Nil
  then have "queue_count d = 0" using length_keys [of d] by simp
  then show ?case using Nil by (auto simp: always_def ret_def)
next
  case (Cons k ks)
  obtain e m1 m2 where r: "tick_line (unat (terminal_char_ticks d)) i m = Some (Done () m1)"
    "io_op (card_ops wall now) a 0 m1 = Done (uart_character (inputControl d) k) m2"
    "terminal_at i (ucast a) e m2" "line_ok e" "same_line d e" "keys e = ks"
    using read_first [OF Cons.prems Cons.hyps(2) [symmetric]] by blast
  obtain e' m' where r': "read_keys (card_ops wall now) a i (queue_count e) m2
      = Some (Done (map (uart_character (inputControl e)) (keys e)) m')" "terminal_at i (ucast a) e' m'" "line_ok e'" "keys e' = []"
    using Cons.hyps(1) [OF r(6) [symmetric] r(3) Cons.prems(2) r(4)] by blast
  have "queue_count d = Suc (queue_count e)" using Cons.hyps(2) r(6) length_keys [of d] length_keys [of e] by (metis length_Cons)
  moreover have "map f (keys d) = f k # map f (keys e)" for f :: "u8 \<Rightarrow> u16" using Cons.hyps(2) r(6) by (metis list.simps(9))
  ultimately show ?case
    using r r' terminal_at_data [OF Cons.prems(1)]
    by (auto simp: bindl_def always_def ret_def same_line_def)
qed


text \<open>The console on an otherwise empty board, with a line of three instructions per character.\<close>

definition console :: card where
  "console = dev_reset (the (terminal_create_device (\<lambda>_. 3) 0))"

definition console_board :: cards where
  "console_board = demo_board\<lparr>devices := snd (devmgr_add_device console devmgr_init)\<rparr>"

lemma console_board_at: "terminal_at 0 0xC0 (tty (deviceData console)) console_board"
proof -
  have c: "dev_type console = DEVICE_TYPE_TERMINAL" "startAddress console = 0xC0" "endAddress console = 0xC7" "ioDelays console = []"
    "deviceData console = TTY (tty (deviceData console))"
    by (simp_all add: console_def terminal_create_device_def device_definitions_def dev_init_def dev_reset_def)
  have d: "dm_devices (devices console_board) = [console]"
    by (simp add: console_board_def devmgr_add_device_def devmgr_init_def)
  have "table_ok (devmgr_init :: (card_data, card_delay) DeviceManager)" by (simp add: table_ok_def devmgr_init_def)
  then have "table_ok (devices console_board)" by (simp add: console_board_def add_device_table_ok)
  then show ?thesis using c d by (simp add: terminal_at_def card_at_def dev_def dev_count_def)
qed

lemma console_line: "line_ok (tty (deviceData console))" "keys (tty (deviceData console)) = []" "inputControl (tty (deviceData console)) = 0"
proof -
  have "tty (deviceData console) = terminal_reset (tty (deviceData (the (terminal_create_device (\<lambda>_. 3) 0))))"
    by (simp add: console_def terminal_create_device_def device_definitions_def dev_init_def dev_reset_def)
  then show "line_ok (tty (deviceData console))" "keys (tty (deviceData console)) = []" "inputControl (tty (deviceData console)) = 0"
    by (simp_all add: terminal_create_device_def device_definitions_def dev_init_def terminal_reset_def line_ok_def queue_ok_def
        receivable_def terminal_char_ticks_def bit_put_bit keys_def)
qed


section \<open>Two oddities\<close>

text \<open>The first two thumbwheel codes name the same terminal, and none names the last of the table.\<close>

lemma thumbwheels:
  "terminal_create_device line 0 = terminal_create_device line 1"
  "terminal_create_device line t = Some d \<Longrightarrow> startAddress d \<noteq> fst (last device_definitions)"
proof -
  show "terminal_create_device line 0 = terminal_create_device line 1"
    by (simp add: terminal_create_device_def device_definitions_def)
  have "\<forall>k\<in>set [0..<51]. fst (device_definitions ! k) \<noteq> fst (last device_definitions)" by code_simp
  moreover have "length device_definitions = 52" by (simp add: device_definitions_def)
  ultimately show "terminal_create_device line t = Some d \<Longrightarrow> startAddress d \<noteq> fst (last device_definitions)"
    by (auto simp: terminal_create_device_def Let_def dev_init_def split_def split: if_splits)
qed

text \<open>A device clear that also enables the input interrupt while a character waits requests level 12
  and then forgets that the interrupt was enabled: the request stays.\<close>

lemma clear_keeps_request:
  assumes "i < dev_count m" "deviceData (dev i m) = TTY d" "bit (inputStatus d) 3"
  shows "let m' = terminal_write_input_control i 0x11 m
    in bit (interruptBits (dev i m')) 12 \<and> \<not> bit (inputStatus (term_of i m')) 0"
proof -
  let ?f = "\<lambda>d. d\<lparr>inputControl := 0x11, inputStatus := put_bit 2 False (put_bit 0 True (inputStatus d))\<rparr>"
  define m1 where "m1 = set_term i ?f m"
  have m1: "i < dev_count m1" "deviceData (dev i m1) = TTY (?f d)" using assms by (simp_all add: m1_def set_term_def on_term_def)
  have on: "bit (inputStatus (?f d)) 0" "bit (inputStatus (?f d)) 3" using assms(3) by (simp_all add: bit_put_bit)
  define m2 where "m2 = input_interrupt i m1"
  have m2: "i < dev_count m2" "deviceData (dev i m2) = TTY (?f d)" "bit (interruptBits (dev i m2)) 12"
    using m1 on request_bit [of "interruptBits (dev i m1)" 12] unfolding m2_def
    by (auto simp: input_interrupt_def term_of_def dev_set_interrupt_status_def dev_generate_interrupt_def bit_simps)
  have "terminal_write_input_control i 0x11 m =
      set_term i (\<lambda>d. d\<lparr>inputStatus := put_bit 7 False (put_bit 6 False (put_bit 5 False (inputStatus d)))\<rparr>) (set_term i terminal_reset m2)"
    by (simp add: terminal_write_input_control_def Let_def m2_def m1_def)
  then show ?thesis using m2 by (simp add: set_term_def on_term_def term_of_def terminal_reset_def bit_put_bit)
qed

end
