(* ===== verification/DrumLaws.thy ===== *)
theory DrumLaws
  imports CardLaws MoveLaws
begin

text \<open>
  The drum at work: words moved between the guest's memory and the surface, the completion
  interrupt, and the backing file.
\<close>

section \<open>Plain words of direct memory access\<close>

text \<open>
  The words a card reaches without a memory error: installed memory outside the backed banks; the
  shadow window is no obstacle.
\<close>

definition dma_word :: "'d machine \<Rightarrow> u32 \<Rightarrow> bool" where
  "dma_word m a \<longleftrightarrow> \<not> g_dma_access m \<and> a AND 0xFFFFFF = a \<and> plain_physical (m\<lparr>g_dma_access := True\<rparr>) a"

lemma dma_store [simp]:
  "dma_word (store_phys a v m) = dma_word m" "g_dma_access (store_phys a v m) = g_dma_access m"
  "store_phys a v (g_dma_access_update f m) = g_dma_access_update f (store_phys a v m)"
proof -
  have s: "store_phys a v (g_dma_access_update f m) = g_dma_access_update f (store_phys a v m)" for f
    by (simp add: store_phys_def)
  show "g_dma_access (store_phys a v m) = g_dma_access m" by (simp add: store_phys_def)
  then show "dma_word (store_phys a v m) = dma_word m" by (simp add: fun_eq_iff dma_word_def flip: s)
  show "store_phys a v (g_dma_access_update f m) = g_dma_access_update f (store_phys a v m)" by (rule s)
qed

lemma dma_access_off: "\<not> g_dma_access m \<Longrightarrow> m\<lparr>g_dma_access := False\<rparr> = m"
  by (cases m) simp

lemma dma_is_physical:
  assumes "g_dma_access m"
  shows "mms_read_physical_memory (sint a) False m = phys_read a m" "mms_write_physical_memory (sint a) v False m = phys_write a v m"
  using assms by (simp_all add: phys_read_def phys_write_def mms_read_physical_memory_def mms_write_physical_memory_def
      mms_write_physical_memory_wm_def mms_is_address_shadow_memory_def)

lemma run_dma:
  assumes "dma_word m a"
  shows "dev_dma_read a m = Done (phys_content m a) m" "dev_dma_write a v m = Done () (store_phys a v m)"
proof -
  have off: "\<not> g_dma_access m" "\<not> g_dma_access (store_phys a v m)" and a: "a AND 0xFFFFFF = a"
    and p: "plain_physical (m\<lparr>g_dma_access := True\<rparr>) a"
    using assms by (simp_all add: dma_word_def)
  have "phys_content (m\<lparr>g_dma_access := True\<rparr>) a = phys_content m a" by (simp add: phys_content_def)
  then show "dev_dma_read a m = Done (phys_content m a) m"
    using run_phys_read [OF p] off(1) by (simp add: dev_dma_read_def dma_is_physical a modify_def seq_def ret_def dma_access_off)
  show "dev_dma_write a v m = Done () (store_phys a v m)"
    using run_phys_write [OF p, of v] off(2) by (simp add: dev_dma_write_def dma_is_physical a modify_def seq_def dma_access_off)
qed

interpretation dma: word_memory dev_dma_read dev_dma_write phys_content dma_word sans_memory
proof unfold_locales
  show "dma_word s a \<Longrightarrow> dev_dma_read a s = Done (phys_content s a) s" for s :: "'b machine" and a
    by (rule run_dma)
  show "dma_word s a \<Longrightarrow> \<exists>s'. dev_dma_write a v s = Done () s' \<and> phys_content s' = (phys_content s)(a := v)
          \<and> dma_word s' = dma_word s \<and> sans_memory s' = sans_memory s" for s :: "'b machine" and a v
    using run_dma(2) by fastforce
qed

section \<open>One transfer\<close>

text \<open>The drum in slot \<open>i\<close> with the data \<open>d\<close>.\<close>

definition drum_at :: "nat \<Rightarrow> DrumData \<Rightarrow> cards \<Rightarrow> bool" where
  "drum_at i d m \<longleftrightarrow> card_at i DEVICE_TYPE_DRUM 0x160 m \<and> deviceData (dev i m) = DRUM d"

lemma drum_at_of [simp]: "drum_at i d m \<Longrightarrow> drum_of i m = d"
  by (simp add: drum_at_def drum_of_def)

lemma drum_at_set: "drum_at i d m \<Longrightarrow> drum_at i (f d) (set_drum i f m)"
  by (auto simp: drum_at_def) (simp add: card_at_def set_drum_def on_drum_def)

lemma set_drum_same:
  assumes "drum_at i d m" "f d = g d"
  shows "set_drum i f m = set_drum i g m"
proof -
  have "i < length (dm_devices (devices m))" "deviceData (dm_devices (devices m) ! i) = DRUM d"
    using assms(1) by (simp_all add: drum_at_def card_at_def dev_def dev_count_def)
  then show ?thesis using assms(2) by (simp add: set_drum_def set_dev_def on_manager_def on_drum_def)
qed

lemma set_drum_twice: "set_drum i f (set_drum i g m) = set_drum i (\<lambda>d. f (g d)) m"
  by (cases "i < length (dm_devices (devices m))")
    (auto simp: set_drum_def set_dev_def on_manager_def on_drum_def list_update_beyond split: card_data.split
      intro!: arg_cong [where f = "\<lambda>x. m\<lparr>devices := x\<rparr>"])

lemma unchanged_records:
  "deviceData c = x \<Longrightarrow> c\<lparr>deviceData := x\<rparr> = c" "s\<lparr>dm_devices := dm_devices s\<rparr> = s" "m\<lparr>devices := devices m\<rparr> = m"
  by auto

lemma set_drum_id: "drum_at i d m \<Longrightarrow> set_drum i (\<lambda>_. d) m = m"
  by (simp add: set_drum_def set_dev_def on_manager_def on_drum_def drum_at_def dev_def unchanged_records)

lemma plain_physical_devices: "plain_physical (m\<lparr>devices := s\<rparr>) a = plain_physical m a"
  by (simp add: plain_physical_def mms_is_address_shadow_memory_def backed_read_def backed_write_def)

lemma dma_word_devices: "dma_word (m\<lparr>devices := s\<rparr>) a = dma_word m a"
proof -
  have "(m\<lparr>devices := s\<rparr>)\<lparr>g_dma_access := True\<rparr> = (m\<lparr>g_dma_access := True\<rparr>)\<lparr>devices := s\<rparr>" by simp
  then show ?thesis by (simp only: dma_word_def plain_physical_devices) simp
qed

lemma drum_memory [simp]:
  "dma_word (set_drum i f m) = dma_word m" "phys_content (set_drum i f m) = phys_content m"
  by (simp_all add: set_drum_def set_dev_def on_manager_def dma_word_devices phys_content_def fun_eq_iff)

text \<open>A block of memory as the words of a surface from \<open>off\<close> on.\<close>

definition put_words :: "nat \<Rightarrow> nat \<Rightarrow> (nat \<Rightarrow> u16) \<Rightarrow> (nat \<Rightarrow> u16) \<Rightarrow> nat \<Rightarrow> u16" where
  "put_words off n w s = (\<lambda>j. if off \<le> j \<and> j < off + n then w (j - off) else s j)"

lemma put_words_0 [simp]: "put_words off 0 w s = s" by (rule ext) (auto simp: put_words_def)

lemma put_words_Suc: "(put_words off n w s)(off + n := w n) = put_words off (Suc n) w s"
  by (auto simp: put_words_def fun_eq_iff)

abbreviation memory_words :: "u32 \<Rightarrow> cards \<Rightarrow> nat \<Rightarrow> u16" where
  "memory_words a m \<equiv> \<lambda>k. phys_content m (a + of_nat k)"

lemma words_out:
  assumes "drum_at i d m" "\<forall>k<n. dma_word m (coreAddress d + of_nat k)"
  shows "each (drum_word i 1 off) [0..<n] m
      = Done () (set_drum i (\<lambda>d'. d'\<lparr>surface := put_words off n (memory_words (coreAddress d) m) (surface d')\<rparr>) m)"
  using assms(2)
proof (induction n)
  case 0
  then show ?case using set_drum_id [OF assms(1)] set_drum_same [OF assms(1), of "\<lambda>d'. d'\<lparr>surface := surface d'\<rparr>" "\<lambda>_. d"]
    by (simp add: ret_def)
next
  case (Suc n)
  let ?f = "\<lambda>d' :: DrumData. d'\<lparr>surface := put_words off n (memory_words (coreAddress d) m) (surface d')\<rparr>"
  have "drum_at i (?f d) (set_drum i ?f m)" using drum_at_set [OF assms(1), of ?f] by simp
  then have "drum_of i (set_drum i ?f m) = ?f d" by simp
  moreover have "dma_word (set_drum i ?f m) (coreAddress d + of_nat n)" using Suc.prems by simp
  ultimately have "drum_word i 1 off n (set_drum i ?f m) = Done () (set_drum i (\<lambda>d'. d'\<lparr>surface :=
      (put_words off n (memory_words (coreAddress d) m) (surface d'))(off + n := phys_content m (coreAddress d + of_nat n))\<rparr>) m)"
    by (simp add: drum_word_def run_dma modify_def set_drum_twice)
  then show ?case using Suc by (simp add: each_append seq_def put_words_Suc [of off n "memory_words (coreAddress d) m", simplified] ret_def)
qed

lemma of_nat_inj32: "k < 2 ^ 32 \<Longrightarrow> j < 2 ^ 32 \<Longrightarrow> (a + of_nat k = a + of_nat j) = (k = j)" for a :: u32
  by (simp add: word_of_nat_eq_iff take_bit_nat_eq_self)

lemma store_sans [simp]: "devices (store_phys a v m) = devices m" by (simp add: store_phys_def)

lemma drum_at_devices: "devices m' = devices m \<Longrightarrow> drum_at i d m' = drum_at i d m"
  by (simp add: drum_at_def card_at_def table_ok_def dev_def dev_count_def)

lemma words_in:
  assumes "drum_at i d m" "\<forall>k<n. dma_word m (coreAddress d + of_nat k)" "n \<le> 2 ^ 32"
  shows "\<exists>m'. each (drum_word i 0 off) [0..<n] m = Done () m' \<and> devices m' = devices m \<and> dma_word m' = dma_word m
     \<and> (\<forall>k<n. phys_content m' (coreAddress d + of_nat k) = surface d (off + k))
     \<and> (\<forall>a. (\<forall>k<n. a \<noteq> coreAddress d + of_nat k) \<longrightarrow> phys_content m' a = phys_content m a)"
  using assms(2,3)
proof (induction n)
  case (Suc n)
  obtain m1 where m1: "each (drum_word i 0 off) [0..<n] m = Done () m1" "devices m1 = devices m" "dma_word m1 = dma_word m"
    "\<forall>k<n. phys_content m1 (coreAddress d + of_nat k) = surface d (off + k)"
    "\<forall>a. (\<forall>k<n. a \<noteq> coreAddress d + of_nat k) \<longrightarrow> phys_content m1 a = phys_content m a"
    using Suc by auto
  let ?a = "coreAddress d + of_nat n"
  have "drum_of i m1 = d" using drum_at_devices [OF m1(2)] assms(1) by simp
  then have "drum_word i 0 off n m1 = Done () (store_phys ?a (surface d (off + n)) m1)"
    using Suc.prems(1) m1(3) by (simp add: drum_word_def run_dma)
  then have "each (drum_word i 0 off) [0..<Suc n] m = Done () (store_phys ?a (surface d (off + n)) m1)"
    using m1(1) by (simp add: each_append seq_def ret_def)
  moreover have "coreAddress d + of_nat k \<noteq> ?a" if "k < n" for k
    using that Suc.prems(2) of_nat_inj32 [of k n "coreAddress d"] by simp
  ultimately show ?case using m1(2-5) by (intro exI) (auto simp: less_Suc_eq)
qed (auto simp: ret_def)

text \<open>READ-TEST changes nothing; COMPARE raises the error flag exactly on a difference.\<close>

lemma words_tested: "each (drum_word i 2 off) ks m = Done () m"
  by (induction ks) (simp_all add: ret_def drum_word_def seq_def)

lemma words_compared:
  assumes "drum_at i d m" "\<forall>k<n. dma_word m (coreAddress d + of_nat k)"
  shows "each (drum_word i 3 off) [0..<n] m = Done () (set_drum i (\<lambda>d'. d'\<lparr>drum_status :=
      (if \<exists>k<n. memory_words (coreAddress d) m k \<noteq> surface d (off + k) then drum_status d' OR DRUM_STATUS_ERR else drum_status d')\<rparr>) m)"
  using assms(2)
proof (induction n)
  case 0
  then show ?case using set_drum_id [OF assms(1)] set_drum_same [OF assms(1), of "\<lambda>d'. d'\<lparr>drum_status := drum_status d'\<rparr>" "\<lambda>_. d"]
    by (simp add: ret_def)
next
  case (Suc n)
  let ?f = "\<lambda>n (d' :: DrumData). d'\<lparr>drum_status := (if \<exists>k<n. memory_words (coreAddress d) m k \<noteq> surface d (off + k)
      then drum_status d' OR DRUM_STATUS_ERR else drum_status d')\<rparr>"
  let ?g = "\<lambda>d' :: DrumData. if memory_words (coreAddress d) m n \<noteq> surface d' (off + n)
      then d'\<lparr>drum_status := drum_status d' OR DRUM_STATUS_ERR\<rparr> else d'"
  have "drum_at i (?f n d) (set_drum i (?f n) m)" using drum_at_set [OF assms(1), of "?f n"] by simp
  then have "coreAddress (drum_of i (set_drum i (?f n) m)) = coreAddress d" by simp
  moreover have "dma_word (set_drum i (?f n) m) (coreAddress d + of_nat n)" using Suc.prems by simp
  ultimately have "drum_word i 3 off n (set_drum i (?f n) m) = Done () (set_drum i ?g (set_drum i (?f n) m))"
    by (simp add: drum_word_def run_dma modify_def)
  moreover have "set_drum i ?g (set_drum i (?f n) m) = set_drum i (?f (Suc n)) m"
    unfolding set_drum_twice by (rule set_drum_same [OF assms(1)]) (auto simp: less_Suc_eq or.assoc)
  ultimately show ?case using Suc by (simp add: each_append seq_def ret_def)
qed


section \<open>The guest's program\<close>

text \<open>Core address, block, word count and control word, by IOX.\<close>

definition drum_transfer :: "(card_data, card_delay) ops \<Rightarrow> u16 \<Rightarrow> u16 \<Rightarrow> u16 \<Rightarrow> u16 \<Rightarrow> (u16, card_data, card_delay) io" where
  "drum_transfer ops lo block n v =
     bind_out (io_op ops 0x161 lo) (\<lambda>_. bind_out (io_op ops 0x163 block) (\<lambda>_. bind_out (io_op ops 0x167 n) (\<lambda>_. io_op ops 0x165 v)))"

definition transfer_core :: "u16 \<Rightarrow> u16 \<Rightarrow> u32" where
  "transfer_core lo v = ucast lo OR push_bit 16 (ucast (drop_bit 5 v AND 3))"

definition programmed :: "u16 \<Rightarrow> u16 \<Rightarrow> u16 \<Rightarrow> u16 \<Rightarrow> DrumData \<Rightarrow> DrumData" where
  "programmed lo block n v d = d\<lparr>coreAddress := transfer_core lo v, blockAddress := block, wordCount := n, drum_control := v,
     drum_interruptEnabled := True\<rparr>"

lemma drum_writes:
  assumes "drum_at i d m" "a AND 1 \<noteq> 0" "0x160 \<le> (ucast a :: u32)" "(ucast a :: u32) \<le> 0x167"
  shows "io_op (card_ops wall now) a v m = seq (drum_write i (ucast a) v) (ret v) m"
    "dev_register_address (dev i m) (ucast a) = ucast a - 0x160"
proof -
  have c: "card_at i DEVICE_TYPE_DRUM 0x160 m" using assms(1) by (simp add: drum_at_def)
  show "io_op (card_ops wall now) a v m = seq (drum_write i (ucast a) v) (ret v) m"
    using io_write_reaches [OF c] assms(2-4) by simp
  show "dev_register_address (dev i m) (ucast a) = ucast a - 0x160" using c by (simp add: dev_register_address_def card_at_def)
qed

lemma core_loaded:
  "(((c AND 0x30000) OR ucast lo) AND 0xFFFF) OR push_bit 16 (ucast (drop_bit 5 v AND 3)) = transfer_core lo v" for c :: u32
proof -
  have "(ucast lo :: u32) AND mask 16 = ucast lo" by (rule bit_word_eqI) (auto simp: bit_simps dest: bit_imp_le_length)
  then have "(ucast lo :: u32) AND 0xFFFF = ucast lo" by (simp add: mask_eq_exp_minus_1)
  moreover have "(c AND 0x30000) AND 0xFFFF = 0" by (simp add: and.assoc)
  ultimately show ?thesis by (simp add: transfer_core_def bit.conj_disj_distrib2)
qed

lemma transfer_starts:
  assumes "drum_at i d m" "v AND 7 = 7"
  shows "drum_transfer (card_ops wall now) lo block n v m = seq (drum_execute_go i) (ret v) (set_drum i (programmed lo block n v) m)"
proof -
  let ?f1 = "\<lambda>d :: DrumData. d\<lparr>coreAddress := (coreAddress d AND 0x30000) OR ucast lo\<rparr>"
    and ?f2 = "\<lambda>d :: DrumData. d\<lparr>blockAddress := block\<rparr>" and ?f3 = "\<lambda>d :: DrumData. d\<lparr>wordCount := n\<rparr>"
    and ?f4 = "\<lambda>d :: DrumData. d\<lparr>coreAddress := (coreAddress d AND 0xFFFF) OR push_bit 16 (ucast (drop_bit 5 v AND 3)), drum_control := v\<rparr>"
    and ?f5 = "\<lambda>d :: DrumData. d\<lparr>drum_interruptEnabled := True\<rparr>"
  define m1 where "m1 = set_drum i ?f1 m"
  define m2 where "m2 = set_drum i ?f2 m1"
  define m3 where "m3 = set_drum i ?f3 m2"
  have d1: "drum_at i (?f1 d) m1" unfolding m1_def by (rule drum_at_set [OF assms(1)])
  have d2: "drum_at i (?f2 (?f1 d)) m2" unfolding m2_def by (rule drum_at_set [OF d1])
  have d3: "drum_at i (?f3 (?f2 (?f1 d))) m3" unfolding m3_def by (rule drum_at_set [OF d2])
  have "io_op (card_ops wall now) 0x161 lo m = Done lo m1"
    using drum_writes [OF assms(1), of "0x161"] by (simp add: drum_write_def seq_def m1_def)
  moreover have "io_op (card_ops wall now) 0x163 block m1 = Done block m2"
    using drum_writes [OF d1, of "0x163"] by (simp add: drum_write_def seq_def m2_def)
  moreover have "io_op (card_ops wall now) 0x167 n m2 = Done n m3"
    using drum_writes [OF d2, of "0x167"] by (simp add: drum_write_def seq_def m3_def)
  moreover have "io_op (card_ops wall now) 0x165 v m3 = seq (drum_execute_go i) (ret v) (set_drum i ?f5 (set_drum i ?f4 m3))"
    using drum_writes [OF d3, of "0x165"] assms(2) by (simp add: drum_write_def seq_def bind_out_def)
  moreover have "set_drum i ?f5 (set_drum i ?f4 m3) = set_drum i (programmed lo block n v) m"
    unfolding m3_def m2_def m1_def set_drum_twice
    by (rule set_drum_same [OF assms(1)]) (simp add: programmed_def core_loaded)
  ultimately show ?thesis by (simp add: drum_transfer_def)
qed

section \<open>What a transfer does\<close>

text \<open>
  The specification: with the words of memory the transfer addresses, the drum's state after
  it. A block that does not lie on the surface is refused as a whole.
\<close>

definition fits :: "u16 \<Rightarrow> u16 \<Rightarrow> DrumData \<Rightarrow> bool" where
  "fits block n d \<longleftrightarrow> unat (word_offset block) + unat n \<le> unat (surfaceWords d)"

definition transferred :: "u16 \<Rightarrow> u16 \<Rightarrow> u16 \<Rightarrow> u16 \<Rightarrow> (nat \<Rightarrow> u16) \<Rightarrow> DrumData \<Rightarrow> DrumData" where
  "transferred lo block n v words d =
     (let off = unat (word_offset block);
          ready = (drum_status d AND NOT DRUM_STATUS_ERR) OR DRUM_STATUS_DVA;
          wrong = (\<not> fits block n d \<or> drum_func v = 3 \<and> (\<exists>k<unat n. words k \<noteq> surface d (off + k)));
          d1 = (programmed lo block n v d)\<lparr>drum_status := (if wrong then ready OR DRUM_STATUS_ERR else ready)\<rparr>
      in if fits block n d \<and> drum_func v = 1
         then write_through off (unat n) (d1\<lparr>surface := put_words off (unat n) words (surface d)\<rparr>) else d1)"

lemma fits_check:
  "off > words \<or> count > words - off \<longleftrightarrow> \<not> unat off + unat count \<le> unat words" for off :: u32
  by (auto simp: word_less_nat_alt unat_sub_if' word_le_nat_alt)

lemma func_cases: "drum_func v = 0 \<or> drum_func v = 1 \<or> drum_func v = 2 \<or> drum_func v = 3"
proof -
  have "drum_func v \<le> 3" unfolding drum_func_def by (rule word_and_le1)
  then have "unat (drum_func v) \<le> 3" by (simp add: word_le_nat_alt)
  then have "unat (drum_func v) = unat (0 :: u16) \<or> unat (drum_func v) = unat (1 :: u16)
      \<or> unat (drum_func v) = unat (2 :: u16) \<or> unat (drum_func v) = unat (3 :: u16)" by simp arith
  then show ?thesis by (simp only: word_unat_eq_iff)
qed

lemma queue_memory [simp]:
  "dma_word (queue_drum_end i m) = dma_word m" "phys_content (queue_drum_end i m) = phys_content m"
  by (simp_all add: queue_drum_end_def dev_queue_io_delay_def dev_request_tick_def set_dev_def on_manager_def dma_word_devices
      phys_content_def fun_eq_iff)

lemma devices_only:
  "devices m = devices m' \<Longrightarrow> devices (queue_drum_end i m) = devices (queue_drum_end i m')"
  by (simp add: queue_drum_end_def dev_queue_io_delay_def dev_request_tick_def set_dev_def on_manager_def dev_def)

lemma set_drum_devices: "devices m = devices m' \<Longrightarrow> devices (set_drum i f m) = devices (set_drum i f m')"
  by (simp add: set_drum_def set_dev_def on_manager_def)

text \<open>\<open>moved_in\<close>: what a transfer to memory leaves there.\<close>

definition moved_in :: "u32 \<Rightarrow> nat \<Rightarrow> (nat \<Rightarrow> u16) \<Rightarrow> (u32 \<Rightarrow> u16) \<Rightarrow> (u32 \<Rightarrow> u16) \<Rightarrow> bool" where
  "moved_in core n w old new \<longleftrightarrow> (\<forall>k<n. new (core + of_nat k) = w k) \<and> (\<forall>a. (\<forall>k<n. a \<noteq> core + of_nat k) \<longrightarrow> new a = old a)"

text \<open>The loop of each function, as one change of the drum or one of memory.\<close>

definition activated :: "DrumData \<Rightarrow> DrumData" where
  "activated d = d\<lparr>drum_status := (drum_status d AND NOT DRUM_STATUS_ERR) OR DRUM_STATUS_DVA\<rparr>"

definition drum_words :: "u16 \<Rightarrow> nat \<Rightarrow> nat \<Rightarrow> (nat \<Rightarrow> u16) \<Rightarrow> DrumData \<Rightarrow> DrumData" where
  "drum_words func off n w d =
     (if func = 1 then d\<lparr>surface := put_words off n w (surface d)\<rparr>
      else if func = 3 \<and> (\<exists>k<n. w k \<noteq> surface d (off + k)) then d\<lparr>drum_status := drum_status d OR DRUM_STATUS_ERR\<rparr> else d)"

lemma words_moved:
  fixes c n :: u16
  assumes d: "drum_at i d m" "\<forall>k<unat n. dma_word m (coreAddress d + of_nat k)"
  defines "w \<equiv> memory_words (coreAddress d) m"
  shows "\<exists>m'. each (drum_word i (drum_func c) off) [0..<unat n] m = Done () m' \<and> dma_word m' = dma_word m
     \<and> devices m' = devices (set_drum i (drum_words (drum_func c) off (unat n) w) m)
     \<and> (if drum_func c = 0 then moved_in (coreAddress d) (unat n) (\<lambda>k. surface d (off + k)) (phys_content m) (phys_content m')
        else phys_content m' = phys_content m)"
proof -
  have keep: "set_drum i (drum_words f off (unat n) w) m = m" if "f = 0 \<or> f = 2" for f
  proof -
    have "set_drum i (drum_words f off (unat n) w) m = set_drum i (\<lambda>_. d) m"
      using that by (intro set_drum_same [OF d(1)]) (auto simp: drum_words_def)
    then show ?thesis using set_drum_id [OF d(1)] by simp
  qed
  have "unat n < 2 ^ 16" using unsigned_less [of n] by simp
  moreover have "(2 :: nat) ^ 16 \<le> 2 ^ 32" by simp
  ultimately have small: "unat n \<le> 2 ^ 32" by linarith
  consider "drum_func c = 0" | "drum_func c = 1" | "drum_func c = 2" | "drum_func c = 3" using func_cases by blast
  then show ?thesis
  proof cases
    case 1
    then show ?thesis using words_in [OF d small, of off] keep by (auto simp: moved_in_def)
  next
    case 2
    moreover have "set_drum i (drum_words 1 off (unat n) w) m = set_drum i (\<lambda>d'. d'\<lparr>surface := put_words off (unat n) w (surface d')\<rparr>) m"
      by (rule set_drum_same [OF d(1)]) (simp add: drum_words_def)
    ultimately show ?thesis using words_out [OF d, of off] by (simp add: w_def)
  next
    case 3
    then show ?thesis using keep by (simp add: words_tested)
  next
    case 4
    moreover have "set_drum i (drum_words 3 off (unat n) w) m = set_drum i (\<lambda>d'. d'\<lparr>drum_status :=
      (if \<exists>k<unat n. w k \<noteq> surface d (off + k) then drum_status d' OR DRUM_STATUS_ERR else drum_status d')\<rparr>) m"
      by (rule set_drum_same [OF d(1)]) (auto simp: drum_words_def)
    ultimately show ?thesis using words_compared [OF d, of off] by (simp add: w_def)
  qed
qed

lemma go_step:
  assumes p: "drum_at i p m"
  defines "m1 \<equiv> set_drum i activated m" and "f \<equiv> drum_func (drum_control p)" and "off \<equiv> unat (word_offset (blockAddress p))"
    and "n \<equiv> unat (wordCount p)"
  shows "drum_execute_go i m =
     (if fits (blockAddress p) (wordCount p) p
      then seq (each (drum_word i f off) [0..<n])
             (seq (modify (\<lambda>m. if f = 1 then set_drum i (write_through off n) m else m)) (modify (queue_drum_end i))) m1
      else Done () (queue_drum_end i (set_drum i (\<lambda>d. d\<lparr>drum_status := drum_status d OR DRUM_STATUS_ERR\<rparr>) m1)))"
proof -
  have m1: "set_drum i (\<lambda>d. d\<lparr>drum_status := (drum_status d AND NOT DRUM_STATUS_ERR) OR DRUM_STATUS_DVA\<rparr>) m = m1"
    by (simp only: m1_def activated_def [abs_def])
  have "drum_at i (activated p) m1" unfolding m1_def by (rule drum_at_set [OF p])
  then have "drum_of i m = p" "drum_of i m1 = activated p" "surfaceWords (activated p) = surfaceWords p"
    using p by (simp_all add: activated_def)
  moreover have "word_offset (blockAddress p) > surfaceWords p \<or> (ucast (wordCount p) :: u32) > surfaceWords p - word_offset (blockAddress p)
      \<longleftrightarrow> \<not> fits (blockAddress p) (wordCount p) p"
    by (simp add: fits_check fits_def del: not_le)
  moreover have "unat (ucast (wordCount p) :: u32) = n" by (simp add: n_def)
  ultimately show ?thesis
    unfolding drum_execute_go_def Let_def m1 by (simp only: f_def off_def if_not_P if_P not_not split: if_split) simp
qed

lemma transfer_effect:
  fixes lo block n v :: u16
  assumes d: "drum_at i d m" and v: "v AND 7 = 7" and plain: "\<forall>k<unat n. dma_word m (transfer_core lo v + of_nat k)"
  defines "t \<equiv> transferred lo block n v (memory_words (transfer_core lo v) m)"
  shows "\<exists>m'. drum_transfer (card_ops wall now) lo block n v m = Done v m'
     \<and> devices m' = devices (queue_drum_end i (set_drum i t m)) \<and> dma_word m' = dma_word m
     \<and> (if fits block n d \<and> drum_func v = 0
        then moved_in (transfer_core lo v) (unat n) (\<lambda>k. surface d (unat (word_offset block) + k)) (phys_content m) (phys_content m')
        else phys_content m' = phys_content m)"
proof -
  let ?off = "unat (word_offset block)" and ?n = "unat n" and ?f = "drum_func v"
  define p where "p = programmed lo block n v d"
  define m0 where "m0 = set_drum i (programmed lo block n v) m"
  define m1 where "m1 = set_drum i activated m0"
  have p: "coreAddress (activated p) = transfer_core lo v" "surface (activated p) = surface d" "drum_control p = v" "blockAddress p = block"
    "wordCount p = n" "fits block n p = fits block n d"
    by (simp_all add: p_def programmed_def activated_def fits_def)
  have d0: "drum_at i p m0" unfolding m0_def p_def by (rule drum_at_set [OF d])
  have d1: "drum_at i (activated p) m1" unfolding m1_def by (rule drum_at_set [OF d0])
  have onto: "set_drum i f m1 = set_drum i t m" if "f (activated p) = t d" for f
    unfolding m1_def m0_def set_drum_twice using that by (intro set_drum_same [OF d]) (simp add: p_def)
  have keep: "dma_word m1 = dma_word m" "phys_content m1 = phys_content m" by (simp_all add: m1_def m0_def)
  note go = go_step [OF d0, folded m1_def, unfolded p]
  have start: "drum_transfer (card_ops wall now) lo block n v m = seq (drum_execute_go i) (ret v) m0"
    unfolding m0_def by (rule transfer_starts [OF d v])
  note spec = t_def transferred_def activated_def p_def programmed_def Let_def
  show ?thesis
  proof (cases "fits block n d")
    case False
    have "set_drum i (\<lambda>d. d\<lparr>drum_status := drum_status d OR DRUM_STATUS_ERR\<rparr>) m1 = set_drum i t m"
      using False by (intro onto) (simp add: spec)
    then show ?thesis using False go start keep by (simp add: seq_def ret_def)
  next
    case True
    let ?w = "memory_words (transfer_core lo v) m"
    let ?thru = "\<lambda>m. if ?f = 1 then set_drum i (write_through ?off ?n) m else m"
    obtain m2 where m2: "each (drum_word i ?f ?off) [0..<?n] m1 = Done () m2" "dma_word m2 = dma_word m"
      "devices m2 = devices (set_drum i (drum_words ?f ?off ?n ?w) m1)"
      "if ?f = 0 then moved_in (transfer_core lo v) ?n (\<lambda>k. surface d (?off + k)) (phys_content m) (phys_content m2)
       else phys_content m2 = phys_content m"
      using words_moved [OF d1, of n v ?off] plain unfolding p keep by auto
    have "?thru (set_drum i (drum_words ?f ?off ?n ?w) m1) = set_drum i t m"
    proof (cases "?f = 1")
      case f1: True
      then show ?thesis using True by (simp only: if_True simp_thms set_drum_twice) (intro onto, simp add: spec drum_words_def)
    next
      case False
      then show ?thesis using True by (simp only: if_False) (intro onto, auto simp: spec drum_words_def)
    qed
    moreover have "devices (?thru m2) = devices (?thru (set_drum i (drum_words ?f ?off ?n ?w) m1))"
      using set_drum_devices [OF m2(3), of i "write_through ?off ?n"] m2(3) by presburger
    ultimately have "devices (?thru m2) = devices (set_drum i t m)" by (simp only:)
    then have "devices (queue_drum_end i (?thru m2)) = devices (queue_drum_end i (set_drum i t m))" by (rule devices_only)
    then show ?thesis using True go start m2(1,2,4) by (simp add: seq_def modify_def ret_def)
  qed
qed

section \<open>Swapping out and in\<close>

lemma drum_after:
  assumes "drum_at i d m" "devices m' = devices (queue_drum_end i (set_drum i f m))"
  shows "drum_at i (f d) m'"
proof -
  have "drum_at i (f d) (queue_drum_end i (set_drum i f m))"
    using drum_at_set [OF assms(1), of f]
    by (auto simp: queue_drum_end_def dev_queue_io_delay_def drum_at_def card_at_kept) (simp add: card_at_def set_drum_def)
  then show ?thesis using drum_at_devices [OF assms(2)] by simp
qed

text \<open>C32
  Swapping: a program that writes a block of memory to the drum by IOX and reads it back into
  another place, in any state of the machine whose memory there is plain, gets the block back
  word by word; no other word of memory changes, and outside the block the surface is as before.
  The core addresses, block and count are any that lie on the surface.
\<close>

theorem swap_roundtrip:
  fixes lo block n v lo' v' :: u16
  assumes "drum_at i d m" "fits block n d" and out: "v AND 7 = 7" "drum_func v = 1" and inn: "v' AND 7 = 7" "drum_func v' = 0"
    and plain: "\<forall>k<unat n. dma_word m (transfer_core lo v + of_nat k) \<and> dma_word m (transfer_core lo' v' + of_nat k)"
  shows "\<exists>m1 m2 e. drum_transfer (card_ops wall now) lo block n v m = Done v m1
     \<and> drum_transfer (card_ops wall now) lo' block n v' m1 = Done v' m2 \<and> drum_at i e m2
     \<and> (\<forall>k<unat n. phys_content m2 (transfer_core lo' v' + of_nat k) = phys_content m (transfer_core lo v + of_nat k))
     \<and> (\<forall>a. (\<forall>k<unat n. a \<noteq> transfer_core lo' v' + of_nat k) \<longrightarrow> phys_content m2 a = phys_content m a)
     \<and> (\<forall>j. j < unat (word_offset block) \<or> unat (word_offset block) + unat n \<le> j \<longrightarrow> surface e j = surface d j)"
proof -
  let ?w = "memory_words (transfer_core lo v) m" and ?off = "unat (word_offset block)"
  let ?e1 = "transferred lo block n v ?w d"
  obtain m1 where m1: "drum_transfer (card_ops wall now) lo block n v m = Done v m1" "drum_at i ?e1 m1"
    "dma_word m1 = dma_word m" "phys_content m1 = phys_content m"
    using transfer_effect [OF assms(1) out(1), of n lo wall now block] plain out(2) drum_after [OF assms(1)] by auto
  have e1: "fits block n ?e1" "surface ?e1 = put_words ?off (unat n) ?w (surface d)"
    using assms(2) out(2) by (simp_all add: transferred_def fits_def write_through_def programmed_def Let_def)
  let ?w' = "memory_words (transfer_core lo' v') m1"
  obtain m2 where m2: "drum_transfer (card_ops wall now) lo' block n v' m1 = Done v' m2"
    "drum_at i (transferred lo' block n v' ?w' ?e1) m2"
    "moved_in (transfer_core lo' v') (unat n) (\<lambda>k. surface ?e1 (?off + k)) (phys_content m1) (phys_content m2)"
    using transfer_effect [OF m1(2) inn(1), of n lo' wall now block] plain m1(3) inn(2) e1(1) drum_after [OF m1(2)] by auto
  have "surface (transferred lo' block n v' ?w' ?e1) = surface ?e1" using inn(2) by (simp add: transferred_def programmed_def Let_def)
  then show ?thesis
    using m1(1,4) m2 e1(2) by (intro exI conjI) (auto simp: moved_in_def put_words_def)
qed


section \<open>Completion\<close>

primrec drum_ticks :: "nat \<Rightarrow> nat \<Rightarrow> (unit, (card_data, card_delay) DeviceManager) loop" where
  "drum_ticks 0 i = always (ret ())"
| "drum_ticks (Suc n) i = bindl (drum_ticks n i) (\<lambda>_. drum_tick i)"

abbreviation ending :: "nat \<Rightarrow> u8 \<Rightarrow> card_delay DelayedIoInfo" where
  "ending t lvl \<equiv> \<lparr>delayTicks = int t, callback = drum_end_delay, parameter = 0, delay_level = lvl\<rparr>"

text \<open>A drum with its completion \<open>t\<close> ticks away.\<close>

definition busy :: "nat \<Rightarrow> DrumData \<Rightarrow> u16 \<Rightarrow> nat \<Rightarrow> cards \<Rightarrow> bool" where
  "busy i d bits t m \<longleftrightarrow> drum_at i d m \<and> ioDelays (dev i m) = [ending t 11] \<and> interruptBits (dev i m) = bits"

lemma busy_tick:
  assumes "busy i d bits (Suc (Suc t)) m"
  shows "\<exists>m'. drum_tick i m = Some (Done () m') \<and> busy i d bits (Suc t) m'"
proof -
  let ?m' = "set_dev i (\<lambda>d. d\<lparr>ioDelays := [ending (Suc t) 11]\<rparr>) m"
  have i: "i < dev_count m" and e: "ioDelays (dev i m) = [ending (Suc (Suc t)) 11]"
    using assms by (simp_all add: busy_def drum_at_def card_at_def)
  have "set_dev i (\<lambda>d. d\<lparr>ioDelays := count_down 0 (ioDelays d)\<rparr>) m = ?m'"
    using e by (simp add: set_dev_def on_manager_def dev_def count_down_def)
  then have "delay_pass card_delayed i 0 m = Done (Inl 1) ?m'" using i e by (simp add: delay_pass_def Let_def)
  moreover have "delay_pass card_delayed i 1 ?m' = Done (Inr ()) ?m'" using i by (simp add: delay_pass_def)
  ultimately have "drum_tick i m = Some (Done () ?m')"
    unfolding drum_tick_def dev_tick_io_delay_def by (subst while_loop.simps, simp add: always_def) (subst while_loop.simps, simp add: always_def)
  moreover have "busy i d bits (Suc t) ?m'" using assms i by (simp add: busy_def drum_at_def card_at_kept)
  ultimately show ?thesis by blast
qed

definition ended :: "DrumData \<Rightarrow> DrumData" where
  "ended d = d\<lparr>drum_status := drum_status d AND NOT DRUM_STATUS_DVA\<rparr>"

lemma last_tick:
  assumes "busy i d bits 1 m" "drum_interruptEnabled d"
  shows "\<exists>m'. drum_tick i m = Some (Done () m') \<and> drum_at i (ended d) m' \<and> ioDelays (dev i m') = []
     \<and> bit (interruptBits (dev i m')) 11"
proof -
  define m1 where "m1 = set_dev i (\<lambda>d. d\<lparr>ioDelays := [ending 0 11]\<rparr>) m"
  define m2 where "m2 = set_drum i ended m1"
  define m3 where "m3 = dev_generate_interrupt i 11 m2"
  define m4 where "m4 = set_dev i (\<lambda>d. d\<lparr>ioDelays := []\<rparr>) m3"
  have i: "i < dev_count m" and e: "ioDelays (dev i m) = [ending 1 11]" and d: "drum_at i d m"
    using assms(1) by (simp_all add: busy_def drum_at_def card_at_def)
  have d1: "drum_at i d m1" "i < dev_count m1" "ioDelays (dev i m1) = [ending 0 11]"
    using d i by (simp_all add: m1_def drum_at_def card_at_kept)
  have d2: "drum_at i (ended d) m2" "i < dev_count m2" "ioDelays (dev i m2) = [ending 0 11]"
    using drum_at_set [OF d1(1), of ended] d1 by (simp_all add: m2_def set_drum_def)
  have d3: "drum_at i (ended d) m3" "i < dev_count m3" "ioDelays (dev i m3) = [ending 0 11]" "bit (interruptBits (dev i m3)) 11"
    using d2 request_bit [of "interruptBits (dev i m2)" 11]
    by (auto simp: m3_def dev_generate_interrupt_def drum_at_def card_at_kept bit_or_iff bit_push_bit_iff)
  have "set_dev i (\<lambda>d. d\<lparr>ioDelays := count_down 0 (ioDelays d)\<rparr>) m = m1"
    using e by (simp add: m1_def set_dev_def on_manager_def dev_def count_down_def)
  moreover have "drum_end i 0 m1 = Done True m2"
  proof -
    have "drum_end i 0 m1 = Done (drum_interruptEnabled (drum_of i m2)) m2" by (simp only: drum_end_def m2_def ended_def [abs_def] Let_def)
    then show ?thesis using d2(1) assms(2) by (simp add: ended_def)
  qed
  moreover have "set_dev i (\<lambda>d. d\<lparr>ioDelays := remove_at 0 (ioDelays d)\<rparr>) m3 = m4"
    using d3(3) by (simp add: m4_def set_dev_def on_manager_def dev_def remove_at_def)
  ultimately have "delay_pass card_delayed i 0 m = Done (Inl 0) m4"
    using i e d1(3) d2(3) by (simp add: delay_pass_def Let_def m3_def)
  moreover have "ioDelays (dev i m4) = []" using d3(2) by (simp add: m4_def)
  then have "delay_pass card_delayed i 0 m4 = Done (Inr ()) m4" by (simp add: delay_pass_def)
  ultimately have "drum_tick i m = Some (Done () m4)"
    unfolding drum_tick_def dev_tick_io_delay_def by (subst while_loop.simps, simp add: always_def) (subst while_loop.simps, simp add: always_def)
  moreover have "drum_at i (ended d) m4" "ioDelays (dev i m4) = []" "bit (interruptBits (dev i m4)) 11"
    using d3 by (simp_all add: m4_def drum_at_def card_at_kept)
  ultimately show ?thesis by blast
qed

lemma busy_ticks:
  "busy i d bits (Suc t) m \<Longrightarrow> j \<le> t \<Longrightarrow> \<exists>m'. drum_ticks j i m = Some (Done () m') \<and> busy i d bits (Suc (t - j)) m'"
proof (induction j)
  case (Suc j)
  then obtain m1 where m1: "drum_ticks j i m = Some (Done () m1)" "busy i d bits (Suc (t - j)) m1" by auto
  have "Suc (t - j) = Suc (Suc (t - Suc j))" using Suc.prems(2) by simp
  then show ?case using m1 busy_tick [of i d bits "t - Suc j" m1] by (auto simp: bindl_def)
qed (simp add: always_def ret_def)



section \<open>The backing file\<close>

lemma word_bytes_joined:
  "push_bit 8 (ucast (ucast (drop_bit 8 w AND 0xFF) :: u8)) OR ucast (ucast (w AND 0xFF) :: u8) = w" for w :: u16
proof -
  have m: "(0xFF :: u16) = mask 8" by (simp add: mask_eq_exp_minus_1)
  show ?thesis unfolding m by (rule bit_word_eqI) (auto simp: bit_simps)
qed

lemma length_image [simp]: "length (drum_image s off c) = 2 * c"
  by (induction c) (simp_all add: drum_image_def word_bytes_def)

lemma nth_image:
  "k < c \<Longrightarrow> drum_image s off c ! (2 * k) = word_bytes (s (off + k)) ! 0 \<and> drum_image s off c ! Suc (2 * k) = word_bytes (s (off + k)) ! 1"
proof (induction c)
  case (Suc c)
  have "drum_image s off (Suc c) = drum_image s off c @ word_bytes (s (off + c))" by (simp add: drum_image_def)
  then show ?case using Suc by (cases "k = c") (auto simp: nth_append word_bytes_def)
qed simp

lemma length_write_at: "length (write_at pos bs f) = (if bs = [] then length f else max (length f) (pos + length bs))"
  by (auto simp: write_at_def min_def max_def)

lemma nth_write_at:
  assumes "bs \<noteq> []" "j < length (write_at pos bs f)"
  shows "write_at pos bs f ! j = (if j < pos then (if j < length f then f ! j else 0)
      else if j < pos + length bs then bs ! (j - pos) else f ! j)"
proof -
  have "length (take pos (f @ replicate (pos - length f) 0)) = pos" by simp
  then show ?thesis using assms by (auto simp: write_at_def nth_append)
qed

text \<open>The file holds the surface; what lies past its end has never been written and is zero.\<close>

definition mirrored :: "DrumData \<Rightarrow> bool" where
  "mirrored d \<longleftrightarrow> (\<exists>f. backingFile d = Some f \<and> even (length f)
     \<and> (\<forall>k<unat (surfaceWords d). surface d k = (if 2 * k + 1 < length f then file_word f k else 0)))"

lemma mirrored_write_through:
  assumes "mirrored d" "off + n \<le> unat (surfaceWords d)"
  shows "mirrored (write_through off n (d\<lparr>surface := put_words off n w (surface d)\<rparr>))"
proof (cases "n = 0")
  case True
  then show ?thesis using assms(1) by (auto simp: mirrored_def write_through_def write_at_def drum_image_def)
next
  case False
  obtain f where f: "backingFile d = Some f" "even (length f)"
    "\<And>k. k < unat (surfaceWords d) \<Longrightarrow> surface d k = (if 2 * k + 1 < length f then file_word f k else 0)"
    using assms(1) by (auto simp: mirrored_def)
  define bs where "bs = drum_image (put_words off n w (surface d)) off n"
  define g where "g = write_at (2 * off) bs f"
  have bs: "length bs = 2 * n" "bs \<noteq> []" using False by (simp_all add: bs_def flip: length_greater_0_conv)
  have len: "length g = max (length f) (2 * (off + n))" using bs by (simp add: g_def length_write_at)
  have g: "g ! j = (if j < 2 * off then (if j < length f then f ! j else 0)
      else if j < 2 * (off + n) then bs ! (j - 2 * off) else f ! j)" if "j < length g" for j
    using nth_write_at [of bs j "2 * off" f] that bs by (simp add: g_def)
  have "put_words off n w (surface d) k = (if 2 * k + 1 < length g then file_word g k else 0)" if k: "k < unat (surfaceWords d)" for k
  proof -
    consider "k < off" | "off \<le> k" "k < off + n" | "off + n \<le> k" by linarith
    then show ?thesis
    proof cases
      case 1
      then have "g ! (2 * k) = (if 2 * k < length f then f ! (2 * k) else 0)" "g ! (2 * k + 1) = (if 2 * k + 1 < length f then f ! (2 * k + 1) else 0)"
        "2 * k + 1 < length g" using g len by auto
      moreover have "2 * k < length f \<longleftrightarrow> 2 * k + 1 < length f" using f(2) by presburger
      ultimately show ?thesis using f(3) [OF k] 1 by (auto simp: put_words_def file_word_def)
    next
      case 2
      then have "2 * k < 2 * (off + n)" "2 * k + 1 < 2 * (off + n)" "\<not> 2 * k < 2 * off" "\<not> 2 * k + 1 < 2 * off"
        "2 * k - 2 * off = 2 * (k - off)" "2 * k + 1 - 2 * off = Suc (2 * (k - off))" by auto
      then have "g ! (2 * k) = bs ! (2 * (k - off))" "g ! (2 * k + 1) = bs ! Suc (2 * (k - off))" "2 * k + 1 < length g"
        using g [of "2 * k"] g [of "2 * k + 1"] len by auto
      then have "file_word g k = put_words off n w (surface d) k"
        using nth_image [of "k - off" n "put_words off n w (surface d)" off] 2 word_bytes_joined
        by (simp add: file_word_def bs_def word_bytes_def)
      then show ?thesis using \<open>2 * k + 1 < length g\<close> by simp
    next
      case 3
      then have "2 * k + 1 < length g \<longleftrightarrow> 2 * k + 1 < length f" "\<not> 2 * k < 2 * (off + n)" using len by auto
      then have "file_word g k = file_word f k" if "2 * k + 1 < length f"
        using g [of "2 * k"] g [of "2 * k + 1"] that 3 len by (auto simp: file_word_def)
      then show ?thesis using f(3) [OF k] 3 \<open>_ \<longleftrightarrow> 2 * k + 1 < length f\<close> by (simp add: put_words_def)
    qed
  qed
  moreover have "even (length g)" using len f(2) by (simp add: max_def)
  ultimately show ?thesis using f(1) by (auto simp: mirrored_def write_through_def g_def bs_def)
qed

lemma mirrored_cong:
  "surface d = surface e \<Longrightarrow> surfaceWords d = surfaceWords e \<Longrightarrow> backingFile d = backingFile e \<Longrightarrow> mirrored d = mirrored e"
  by (simp add: mirrored_def)

lemma mirrored_transferred: "mirrored d \<Longrightarrow> mirrored (transferred lo block n v w d)"
proof -
  assume d: "mirrored d"
  let ?c = "\<lambda>s. (programmed lo block n v d)\<lparr>drum_status := s\<rparr>"
  have c: "mirrored (?c s)" for s using d mirrored_cong [of d "?c s"] by (simp add: programmed_def)
  have "mirrored (write_through (unat (word_offset block)) (unat n) ((?c s)\<lparr>surface := put_words (unat (word_offset block)) (unat n) w (surface (?c s))\<rparr>))"
    if "fits block n d" for s
    using mirrored_write_through [OF c] that by (simp add: fits_def programmed_def)
  then show ?thesis using c by (simp add: transferred_def Let_def programmed_def)
qed


lemma attached_mirrored:
  assumes "surface d = (\<lambda>_. 0)" "case f of None \<Rightarrow> True | Some bs \<Rightarrow> even (length bs)"
  shows "mirrored (drum_attach_backing f d)"
proof (cases f)
  case None
  have "file_word (replicate (2 * n) 0) k = 0" if "k < n" for n k using that by (simp add: file_word_def)
  then show ?thesis using None assms(1) by (simp add: mirrored_def drum_attach_backing_def)
next
  case (Some bs)
  then show ?thesis using assms by (auto simp: mirrored_def drum_attach_backing_def)
qed

lemma mirrored_recreated:
  assumes "mirrored d" "surfaceWords d = DRUM_MAX_WORDS"
  shows "\<exists>f c. backingFile d = Some f \<and> drum_create_device (Some (Some f)) 0 = Some c
     \<and> (\<forall>k<unat (surfaceWords d). surface (drum (deviceData c)) k = surface d k)"
proof -
  obtain f where f: "backingFile d = Some f"
    "\<forall>k<unat (surfaceWords d). surface d k = (if 2 * k + 1 < length f then file_word f k else 0)"
    using assms(1) by (auto simp: mirrored_def)
  then show ?thesis using assms(2)
    by (intro exI conjI) (auto simp: drum_create_device_def drum_attach_backing_def drum_reset_def dev_init_def Let_def)
qed

text \<open>C34
  Swapped pages survive a stop of the emulator at any moment between transfers: the file mirrors
  the surface of a drum created on a new file or an existing one of whole words, every transfer
  of the guest, refused ones included, keeps it so, and a drum created on the file as it is then
  has the same surface.
\<close>

theorem drum_survives_restart:
  fixes lo block n v :: u16
  assumes "drum_at i d m" "mirrored d" "surfaceWords d = DRUM_MAX_WORDS" "v AND 7 = 7"
    and "\<forall>k<unat n. dma_word m (transfer_core lo v + of_nat k)"
    and "surface e = (\<lambda>_. 0)" "case f of None \<Rightarrow> True | Some bs \<Rightarrow> even (length bs)"
  shows "mirrored (drum_attach_backing f e)
     \<and> (\<exists>m' d' file c. drum_transfer (card_ops wall now) lo block n v m = Done v m' \<and> drum_at i d' m' \<and> mirrored d'
          \<and> surfaceWords d' = DRUM_MAX_WORDS \<and> backingFile d' = Some file \<and> drum_create_device (Some (Some file)) 0 = Some c
          \<and> (\<forall>k<unat (surfaceWords d'). surface (drum (deviceData c)) k = surface d' k))"
proof -
  let ?t = "transferred lo block n v (memory_words (transfer_core lo v) m)"
  obtain m' where m': "drum_transfer (card_ops wall now) lo block n v m = Done v m'" "drum_at i (?t d) m'"
    using transfer_effect [OF assms(1,4,5), of wall now block] drum_after [OF assms(1)] by blast
  have w: "surfaceWords (?t d) = DRUM_MAX_WORDS" using assms(3) by (simp add: transferred_def programmed_def write_through_def Let_def)
  show ?thesis
    using m' w mirrored_transferred [OF assms(2)] mirrored_recreated [OF mirrored_transferred [OF assms(2)] w] attached_mirrored [OF assms(6,7)]
    by blast
qed

section \<open>A board with a drum\<close>

text \<open>An empty drum image, and a memory in which every word holds its address.\<close>

definition drum_card :: card where
  "drum_card = dev_reset (the (drum_create_device (Some (Some [])) 0))"

definition drum_board :: cards where
  "drum_board = demo_board\<lparr>n_Array := of_nat, devices := devmgr_init\<lparr>dm_devices := [drum_card]\<rparr>\<rparr>"

lemma drum_board_facts:
  "dev 0 drum_board = drum_card" "dev_count drum_board = 1"
  "drum_at 0 (drum (deviceData drum_card)) drum_board" "ioDelays (dev 0 drum_board) = []" "interruptLevel (dev 0 drum_board) = 11"
  "surfaceWords (drum (deviceData drum_card)) = DRUM_MAX_WORDS" "surface (drum (deviceData drum_card)) = (\<lambda>_. 0)"
  "mirrored (drum (deviceData drum_card))"
proof -
  show d: "dev 0 drum_board = drum_card" "dev_count drum_board = 1"
    by (simp_all add: drum_board_def dev_def dev_count_def)
  have c: "dev_type drum_card = DEVICE_TYPE_DRUM" "startAddress drum_card = 0x160" "endAddress drum_card = 0x167" "ioDelays drum_card = []"
    "interruptLevel drum_card = 11" "deviceData drum_card = DRUM (drum (deviceData drum_card))"
    "surfaceWords (drum (deviceData drum_card)) = DRUM_MAX_WORDS" "surface (drum (deviceData drum_card)) = (\<lambda>_. 0)"
    "backingFile (drum (deviceData drum_card)) = Some []"
    by (simp_all add: drum_card_def drum_create_device_def dev_init_def dev_reset_def clears_requests_def drum_reset_def
        drum_attach_backing_def)
  then show "ioDelays (dev 0 drum_board) = []" "interruptLevel (dev 0 drum_board) = 11"
    "surfaceWords (drum (deviceData drum_card)) = DRUM_MAX_WORDS" "surface (drum (deviceData drum_card)) = (\<lambda>_. 0)"
    "mirrored (drum (deviceData drum_card))"
    using d by (simp_all add: mirrored_def)
  have "table_ok (devices drum_board)" by (simp add: table_ok_def drum_board_def devmgr_init_def)
  then show "drum_at 0 (drum (deviceData drum_card)) drum_board" using c d by (simp add: drum_at_def card_at_def)
qed

lemma drum_board_memory:
  "dma_word drum_board 0x100" "dma_word drum_board 0x101" "dma_word drum_board 0x200" "dma_word drum_board 0x201"
  by (simp_all add: dma_word_def plain_physical_def drum_board_def demo_board_def mms_is_address_shadow_memory_def backed_read_def
      backed_write_def mms_memory_bank_lookup_def demo_regs_def)


lemma two_words: "(\<forall>k<unat (2 :: u16). P k) \<longleftrightarrow> P 0 \<and> P 1"
  by (auto simp: less_2_cases_iff)

lemma one_word: "(\<forall>k<unat (1 :: u16). P k) \<longleftrightarrow> P 0"
  by auto

theorem swap_roundtrip_witness:
  "\<exists>m1 m2. drum_transfer (card_ops False (\<lambda>_. 0)) 0x100 3 2 0x807 drum_board = Done 0x807 m1
     \<and> drum_transfer (card_ops False (\<lambda>_. 0)) 0x200 3 2 7 m1 = Done 7 m2
     \<and> phys_content m2 0x200 = 0x100 \<and> phys_content m2 0x201 = 0x101"
proof -
  let ?d = "drum (deviceData drum_card)"
  have c: "transfer_core 0x100 0x807 = 0x100" "transfer_core 0x200 7 = 0x200" by (simp_all add: transfer_core_def)
  have "fits 3 2 ?d" by (simp add: fits_def word_offset_def drum_board_facts(6))
  moreover have "drum_func 0x807 = 1" "drum_func 7 = 0" by (simp_all add: drum_func_def)
  moreover have "\<forall>k<unat (2 :: u16). dma_word drum_board (transfer_core 0x100 0x807 + of_nat k)
      \<and> dma_word drum_board (transfer_core 0x200 7 + of_nat k)"
    unfolding two_words c using drum_board_memory by simp
  moreover have "(0x807 :: u16) AND 7 = 7" "(7 :: u16) AND 7 = 7" by simp_all
  ultimately obtain m1 m2 where r: "drum_transfer (card_ops False (\<lambda>_. 0)) 0x100 3 2 0x807 drum_board = Done 0x807 m1"
    "drum_transfer (card_ops False (\<lambda>_. 0)) 0x200 3 2 7 m1 = Done 7 m2"
    "\<forall>k<unat (2 :: u16). phys_content m2 (transfer_core 0x200 7 + of_nat k) = phys_content drum_board (transfer_core 0x100 0x807 + of_nat k)"
    using swap_roundtrip [OF drum_board_facts(3), of 3 2 "0x807" 7 "0x100" "0x200" False "\<lambda>_. 0"] by blast
  have "phys_content drum_board 0x100 = 0x100" "phys_content drum_board 0x101 = 0x101"
    by (simp_all add: phys_content_def drum_board_def)
  then show ?thesis using r(1,2) r(3) [unfolded two_words c] by auto
qed


theorem drum_survives_restart_witness:
  "\<exists>m' d' file c. drum_transfer (card_ops False (\<lambda>_. 0)) 0x100 3 2 0x807 drum_board = Done 0x807 m' \<and> drum_at 0 d' m'
     \<and> backingFile d' = Some file \<and> drum_create_device (Some (Some file)) 0 = Some c
     \<and> surface (drum (deviceData c)) 6144 = surface d' 6144"
proof -
  have c: "transfer_core 0x100 0x807 = 0x100" by (simp add: transfer_core_def)
  have p: "\<forall>k<unat (2 :: u16). dma_word drum_board (transfer_core 0x100 0x807 + of_nat k)"
    unfolding two_words c using drum_board_memory by simp
  have "(0x807 :: u16) AND 7 = 7" by simp
  from drum_survives_restart [OF drum_board_facts(3,8,6) this p drum_board_facts(7), of None False "\<lambda>_. 0" 3]
  obtain m' d' img c where r: "drum_transfer (card_ops False (\<lambda>_. 0)) 0x100 3 2 0x807 drum_board = Done 0x807 m'" "drum_at 0 d' m'"
    "surfaceWords d' = DRUM_MAX_WORDS" "backingFile d' = Some img" "drum_create_device (Some (Some img)) 0 = Some c"
    "\<forall>k<unat (surfaceWords d'). surface (drum (deviceData c)) k = surface d' k"
    by auto
  then have "surface (drum (deviceData c)) 6144 = surface d' 6144" by simp
  then show ?thesis using r by blast
qed

end
