(* ===== verification/Frames.thy ===== *)
theory Frames
  imports RunLaws
begin

text \<open>
  What the processor never changes. The locale \<open>kept\<close> takes any view of the machine that the
  elementary updates of the code leave alone and shows, instruction by instruction, that every
  operation of the processor leaves it alone; \<open>kept_board\<close> adds the cards and lifts the result to
  the instruction table, the tick and every reachable state. TypeSafety interprets both.
\<close>

section \<open>What a loop keeps\<close>

definition pass_keeps :: "('m \<Rightarrow> bool) \<Rightarrow> ('x \<Rightarrow> 'm \<Rightarrow> ('a, 'm) outcome option) \<Rightarrow> bool" where
  "pass_keeps I f \<longleftrightarrow> (\<forall>x m out. I m \<longrightarrow> f x m = Some out \<longrightarrow> I (final_state out))"

definition exec_keeps :: "('m \<Rightarrow> bool) \<Rightarrow> ('x \<Rightarrow> 'm \<Rightarrow> ('a, 'm) outcome) \<Rightarrow> bool" where
  "exec_keeps I f \<longleftrightarrow> (\<forall>x m. I m \<longrightarrow> I (final_state (f x m)))"

lemma exec_keepsD: "exec_keeps I f \<Longrightarrow> f x m = out \<Longrightarrow> I m \<Longrightarrow> I (final_state out)"
  by (auto simp: exec_keeps_def)

lemma while_loop_keeps:
  assumes "while_loop f x m = Some out" and "I m" and "pass_keeps I f"
  shows "I (final_state out)"
proof -
  have "(case ((f, x), m) of (x, xa) \<Rightarrow> (case x of (x, xa) \<Rightarrow> while_loop x xa) xa) = Some out" using assms(1) by simp
  then have "(case ((f, x), m) of (x, xa) \<Rightarrow> (case x of (x, xa) \<Rightarrow> \<lambda>m y. pass_keeps I x \<longrightarrow> I m \<longrightarrow> I (final_state y)) xa) out"
    by (rule while_loop.raw_induct [rotated]) (fastforce simp: pass_keeps_def split: outcome.splits option.splits sum.splits)
  with assms(2,3) show ?thesis by simp
qed

lemma while_exec_keeps:
  assumes "while_exec f x m = Some out" and "I m" and "exec_keeps I f"
  shows "I (final_state out)"
proof -
  have "(case ((f, x), m) of (x, xa) \<Rightarrow> (case x of (x, xa) \<Rightarrow> while_exec x xa) xa) = Some out" using assms(1) by simp
  then have "(case ((f, x), m) of (x, xa) \<Rightarrow> (case x of (x, xa) \<Rightarrow> \<lambda>m y. exec_keeps I x \<longrightarrow> I m \<longrightarrow> I (final_state y)) xa) out"
    by (rule while_exec.raw_induct [rotated]) (fastforce dest: exec_keepsD split: outcome.splits option.splits)
  with assms(2,3) show ?thesis by simp
qed

section \<open>A view of the machine that the processor does not change\<close>

text \<open>
  The contract between the parts of the state that are set up once (memory size, banks,
  processor type, layout of the page tables) and everything the processor does: a \<open>view\<close> that no
  elementary change touches is untouched by every access and every instruction. \<open>ok w out\<close>: the
  view is still \<open>w\<close> after the outcome, whether it returned or trapped.
\<close>

locale kept =
  fixes view :: "'d machine \<Rightarrow> 'w"
  assumes regs [simp]: "view (g_reg_update f m) = view m"
    and array [simp]: "view (n_Array_update g m) = view m"
    and latch [simp]: "view (g_ecc_latch_update h m) = view m"
    and held [simp]: "view (s_tset_lock_held_update b m) = view m"
    and old [simp]: "view (s_tset_old_update v m) = view m"
    and valid [simp]: "view (s_tset_old_valid_update b m) = view m"
    and calls [simp]: "view (tset_calls_update l m) = view m"
    and mode [simp]: "view (CurrentCPURunMode_update r m) = view m"
    and exit_code [simp]: "view (g_cpu_exit_code_update n m) = view m"
    and stores [simp]: "view (devices_update d m) = view m"
    and tables [simp]: "length ram = length (shadowRam (g_paging_tables m)) \<Longrightarrow>
          view (m\<lparr>g_paging_tables := (g_paging_tables m)\<lparr>shadowRam := ram\<rparr>\<rparr>) = view m"
begin

definition ok :: "'w \<Rightarrow> ('a, 'd machine) outcome \<Rightarrow> bool" where
  "ok w out \<longleftrightarrow> view (final_state out) = w"

lemma ok_Done [simp]: "ok w (Done x m) \<longleftrightarrow> view m = w" and ok_Trap [simp]: "ok w (Trap m) \<longleftrightarrow> view m = w"
  by (simp_all add: ok_def)

lemma ok_bind: "ok w (f m) \<Longrightarrow> (\<And>x m'. view m' = w \<Longrightarrow> ok w (g x m')) \<Longrightarrow> ok w (bind_out f g m)"
  by (cases "f m") (auto simp: bind_out_def)

lemma ok_seq: "ok w (f m) \<Longrightarrow> (\<And>m'. view m' = w \<Longrightarrow> ok w (g m')) \<Longrightarrow> ok w (seq f g m)"
  by (simp add: seq_def ok_bind)

lemma ok_if: "(b \<Longrightarrow> ok w x) \<Longrightarrow> (\<not> b \<Longrightarrow> ok w y) \<Longrightarrow> ok w (if b then x else y)"
  by simp

lemma ok_if_fun: "(b \<Longrightarrow> ok w (f m)) \<Longrightarrow> (\<not> b \<Longrightarrow> ok w (g m)) \<Longrightarrow> ok w ((if b then f else g) m)"
  by simp

lemma ok_on_regs [simp]: "ok w (on_regs f m) \<longleftrightarrow> view m = w" by (simp add: on_regs_def)
lemma ok_put [simp]: "ok w (put i v m) \<longleftrightarrow> view m = w" by (simp add: put_def)
lemma ok_get [simp]: "ok w (get i m) \<longleftrightarrow> view m = w" by (simp add: get_def)

lemmas ok_rules = ok_bind ok_seq ok_if ok_if_fun

section \<open>Memory\<close>

lemma view_lock [simp]: "view (mms_tset_lock_end m) = view m" "view (mms_tset_lock_begin m) = view m"
  by (simp_all add: mms_tset_lock_end_def mms_tset_lock_begin_def Let_def)

lemma ok_interrupt [simp]: "ok w (cpu_interrupt lvl sub m) \<longleftrightarrow> view m = w"
  by (simp add: cpu_interrupt_def Let_def)

lemma view_write [simp]: "view (mms_write a v m) = view m"
  by (simp add: mms_write_def Let_def)

lemma view_update [simp]: "view (snd (mms_update_page_table_entry pt vpn ptm e m)) = view m"
  by (simp add: mms_update_page_table_entry_def Let_def)

lemma view_mark [simp]: "view (mark_page pt vpn ptm e am m) = view m"
  by (simp add: mark_page_def mms_set_page_used_def mms_set_page_written_def split_def Let_def)

lemma ok_map: "view m = w \<Longrightarrow> ok w (mms_map_virtual_to_physical va am apt m)"
  by (auto simp: mms_map_virtual_to_physical_def mms_check_page_protection_def Let_def split_def
      mms_handle_pf_def mms_handle_mpv_def mms_handle_memory_out_of_range_def intro!: ok_rules)

lemma view_latch [simp]: "view (nd_ecc_write_latch pa m) = view m" "view (consume_latch c pa m) = view m"
  by (simp_all add: nd_ecc_write_latch_def consume_latch_def Let_def)

lemma ok_detect: "view m = w \<Longrightarrow> ok w (nd_ecc_read_detect pa m)"
  by (simp add: nd_ecc_read_detect_def Let_def)

lemma ok_read_physical: "view m = w \<Longrightarrow> ok w (mms_read_physical_memory pa priv m)"
  by (auto simp: mms_read_physical_memory_def Let_def mms_handle_memory_out_of_range_def split: option.split prod.split
      intro!: ok_rules ok_detect)

lemma ok_write_physical_wm: "view m = w \<Longrightarrow> ok w (mms_write_physical_memory_wm pa v priv wm m)"
  by (auto simp: mms_write_physical_memory_wm_def Let_def mms_handle_memory_out_of_range_def split: option.split prod.split
      intro!: ok_rules)

lemma ok_virtual: "view m = w \<Longrightarrow> ok w (virtual_read am va apt m)" "view m = w \<Longrightarrow> ok w (mms_write_virtual_memory va v apt wm m)"
  by (auto simp: virtual_read_def mms_write_virtual_memory_def intro!: ok_rules ok_map ok_read_physical ok_write_physical_wm)

lemma ok_memory: "view m = w \<Longrightarrow> ok w (cpu_memory_read a apt m)" "view m = w \<Longrightarrow> ok w (cpu_memory_write v a apt wm m)"
  "view m = w \<Longrightarrow> ok w (mms_read_virtual_memory va apt m)" "view m = w \<Longrightarrow> ok w (mms_read_indirect_virtual_memory va apt m)"
  "view m = w \<Longrightarrow> ok w (mms_fetch_virtual_memory va apt m)" "view m = w \<Longrightarrow> ok w (phys_read p m)" "view m = w \<Longrightarrow> ok w (phys_write p v m)"
  by (simp_all add: cpu_memory_read_def cpu_memory_write_def mms_read_virtual_memory_def mms_read_indirect_virtual_memory_def
      mms_fetch_virtual_memory_def phys_read_def phys_write_def mms_write_physical_memory_def ok_virtual ok_read_physical ok_write_physical_wm)

lemma ok_effective_addr: "view m = w \<Longrightarrow> ok w (cpu_get_effective_addr op m)"
  by (auto simp: cpu_get_effective_addr_def Let_def intro!: ok_rules ok_memory)

lemma ok_with_ea: "view m = w \<Longrightarrow> (\<And>ea apt m'. view m' = w \<Longrightarrow> ok w (body ea apt m')) \<Longrightarrow> ok w (with_ea op body m)"
  by (auto simp: with_ea_def intro!: ok_rules ok_effective_addr)

lemma ok_moves: "view m = w \<Longrightarrow> ok w (load_into i a apt m)" "view m = w \<Longrightarrow> ok w (store_from i a apt m)"
  "view m = w \<Longrightarrow> ok w (add_into i b k m)" "view m = w \<Longrightarrow> ok w (set_argument i op m)" "view m = w \<Longrightarrow> ok w (advance_p n m)"
  "view m = w \<Longrightarrow> ok w (word_at a apt m)" "view m = w \<Longrightarrow> ok w (set_word v a m)"
  by (auto simp: load_into_def store_from_def add_into_def set_argument_def advance_p_def word_at_def set_word_def
      intro!: ok_rules ok_memory)

lemmas ok_access = ok_rules ok_with_ea ok_moves ok_memory

section \<open>Memory-reference, argument, jump and stack instructions\<close>

lemma ok_memory_reference:
  assumes "view m = w"
  shows "ok w (opcode_stz op m)" "ok w (opcode_sta op m)" "ok w (opcode_stt op m)" "ok w (opcode_stx op m)"
    "ok w (opcode_std op m)" "ok w (opcode_ldd op m)" "ok w (opcode_stf op m)" "ok w (opcode_ldf op m)"
    "ok w (opcode_min op m)" "ok w (opcode_lda op m)" "ok w (opcode_ldt op m)" "ok w (opcode_ldx op m)"
    "ok w (opcode_add op m)" "ok w (opcode_sub op m)" "ok w (opcode_and op m)" "ok w (opcode_ora op m)"
    "ok w (mpy op m)" "ok w (opcode_jmp op m)" "ok w (opcode_jpl op m)"
  using assms
  by (auto simp: opcode_stz_def opcode_sta_def opcode_stt_def opcode_stx_def opcode_std_def opcode_ldd_def opcode_stf_def
      opcode_ldf_def opcode_min_def opcode_lda_def opcode_ldt_def opcode_ldx_def opcode_add_def opcode_sub_def opcode_and_def
      opcode_ora_def mpy_def opcode_jmp_def opcode_jpl_def Let_def intro!: ok_access)

lemma ok_arguments:
  assumes "view m = w"
  shows "ok w (opcode_sab op m)" "ok w (opcode_saa op m)" "ok w (opcode_sat op m)" "ok w (opcode_sax op m)"
    "ok w (opcode_aab op m)" "ok w (opcode_aaa op m)" "ok w (opcode_aat op m)" "ok w (opcode_aax op m)" "ok w (opcode_mix3 op m)"
  using assms
  by (auto simp: opcode_sab_def opcode_saa_def opcode_sat_def opcode_sax_def opcode_aab_def opcode_aaa_def opcode_aat_def
      opcode_aax_def opcode_mix3_def intro!: ok_access)

lemma ok_jumps:
  assumes "view m = w"
  shows "ok w (opcode_jap op m)" "ok w (opcode_jan op m)" "ok w (opcode_jaz op m)" "ok w (opcode_jaf op m)"
    "ok w (opcode_jpc op m)" "ok w (opcode_jnc op m)" "ok w (opcode_jxz op m)" "ok w (opcode_jxn op m)" "ok w (opcode_skp op m)"
  using assms
  by (simp_all add: opcode_jap_def opcode_jan_def opcode_jaz_def opcode_jaf_def opcode_jpc_def opcode_jnc_def opcode_jxz_def
      opcode_jxn_def opcode_skp_def Let_def)

lemma ok_stack:
  assumes "view m = w"
  shows "ok w (opcode_init op m)" "ok w (opcode_entr op m)" "ok w (opcode_leave op m)" "ok w (opcode_eleav op m)"
  using assms
  by (auto simp: opcode_init_def opcode_entr_def opcode_leave_def opcode_eleav_def Let_def intro!: ok_access)

section \<open>Decimal and floating-point instructions\<close>

lemma ok_load_words: "view m = w \<Longrightarrow> ok w (load_words n op m)"
  by (induction n arbitrary: op m) (auto simp: Let_def intro!: ok_access)

lemma ok_store_words: "view m = w \<Longrightarrow> ok w (store_words i n op m)"
  by (induction n arbitrary: i m) (auto intro!: ok_access)

lemma ok_operand: "view m = w \<Longrightarrow> ok w (bcd_get_operand d1 d2 ascii m)" "view m = w \<Longrightarrow> ok w (bcd_store_operand op m)"
  by (auto simp: bcd_get_operand_def bcd_store_operand_def Let_def intro!: ok_access ok_load_words ok_store_words)

lemma ok_with_operand: "view m = w \<Longrightarrow> (\<And>op m'. view m' = w \<Longrightarrow> ok w (body op m')) \<Longrightarrow> ok w (with_operand i1 i2 ascii body m)"
  by (auto simp: with_operand_def intro!: ok_access ok_operand split: prod.split)

lemma ok_skip_if: "ok w (f m) \<Longrightarrow> ok w (skip_if f m)"
  by (auto simp: skip_if_def intro!: ok_access)

lemma ok_report: "view m = w \<Longrightarrow> ok w (bcd_report_error c m)"
  by (simp add: bcd_report_error_def)

lemma ok_operand_or_report:
  "view m = w \<Longrightarrow> (\<And>op m'. view m' = w \<Longrightarrow> ok w (body op m')) \<Longrightarrow> ok w (operand_or_report i1 i2 ascii body m)"
  by (auto simp: operand_or_report_def intro!: ok_access ok_operand ok_report split: prod.split)

lemma ok_decimal:
  assumes "view m = w" "\<And>m'. view m' = w \<Longrightarrow> ok w (ub m')"
  shows "ok w (opcode_addd m)" "ok w (opcode_subd m)" "ok w (opcode_comd m)" "ok w (opcode_shde m)"
    "ok w (opcode_pack ub m)" "ok w (opcode_unpack ub m)"
  using assms
  by (auto simp: opcode_addd_def opcode_subd_def opcode_comd_def opcode_shde_def opcode_pack_def opcode_unpack_def
      bcd_add_sub_def bcd_shde_def bcd_convert_to_packed_def bcd_convert_to_unpacked_def Let_def split_def
      intro!: ok_access ok_with_operand ok_operand_or_report ok_skip_if ok_operand ok_report split: conversion.split)

lemma ok_float:
  assumes "view m = w" "\<And>m'. view m' = w \<Longrightarrow> ok w (ub m')"
  shows "ok w (opcode_fad ub op m)" "ok w (opcode_fsb ub op m)" "ok w (opcode_fmu ub op m)" "ok w (opcode_fdv ub op m)"
    "ok w (opcode_nlz ub op m)" "ok w (opcode_dnz ub op m)"
proof -
  have "ok w (float_instr ub f g op m)" for f g
    using assms by (auto simp: float_instr_def read3_def read2_def Let_def split_def intro!: ok_access split: option.split)
  then show "ok w (opcode_fad ub op m)" "ok w (opcode_fsb ub op m)" "ok w (opcode_fmu ub op m)" "ok w (opcode_fdv ub op m)"
    by (simp_all add: opcode_fad_def opcode_fsb_def opcode_fmu_def opcode_fdv_def)
  show "ok w (opcode_nlz ub op m)"
    using assms by (auto simp: opcode_nlz_def float_do_nlz_def float_do_nlz32_def Let_def split_def split: option.split prod.split)
  show "ok w (opcode_dnz ub op m)"
    using assms by (auto simp: opcode_dnz_def float_do_dnz_def float_do_dnz32_def Let_def)
qed

section \<open>System instructions\<close>

lemma ok_privileged: "view m = w \<Longrightarrow> (\<And>m'. view m' = w \<Longrightarrow> ok w (body m')) \<Longrightarrow> ok w (privileged body m)"
  by (auto simp: privileged_def check_priv_def Let_def intro!: ok_rules)

lemma ok_const [simp]: "ok w (ret x m) \<longleftrightarrow> view m = w" "ok w (modify f m) \<longleftrightarrow> view (f m) = w"
  by (simp_all add: ret_def modify_def)

lemma ok_check: "view m = w \<Longrightarrow> ok w (check_priv m)"
  by (auto simp: check_priv_def Let_def intro!: ok_rules)

lemmas ok_system = ok_access ok_privileged

lemma ok_internal:
  assumes "view m = w"
  shows "ok w (do_mcl op m)" "ok w (do_mst op m)" "ok w (do_tra op m)" "ok w (do_trr panc op m)" "ok w (do_wait m)"
    "ok w (opcode_halt m)" "ok w (opcode_mon op m)" "ok w (opcode_iof m)" "ok w (opcode_ion m)" "ok w (opcode_pof m)"
    "ok w (opcode_piof m)" "ok w (opcode_sex m)" "ok w (opcode_rex m)" "ok w (opcode_pon m)" "ok w (opcode_pion m)"
    "ok w (opcode_irw op m)" "ok w (opcode_irr op m)" "ok w (opcode_wglob m)" "ok w (opcode_rglob m)"
    "ok w (opcode_opcom m)" "ok w (opcode_geco m)" "ok w (opcode_lwcs m)" "ok w (unimplemented_instr m)"
    "ok w (cpu_illegal_instr m)" "ok w (opcode_versn v m)"
  using assms
  by (auto simp: do_mcl_def do_mst_def do_tra_def do_trr_def do_wait_def opcode_halt_def opcode_mon_def opcode_iof_def
      opcode_ion_def opcode_pof_def opcode_piof_def opcode_sex_def opcode_rex_def opcode_pon_def opcode_pion_def sts_msb_def
      recheck_def opcode_irw_def opcode_irr_def opcode_wglob_def opcode_rglob_def opcode_opcom_def opcode_geco_def opcode_lwcs_def
      unimplemented_instr_def cpu_illegal_instr_def opcode_versn_def Let_def intro!: ok_system ok_check)

lemma ok_store_seq: "view m = w \<Longrightarrow> (\<And>a v m. view m = w \<Longrightarrow> ok w (wr a v m)) \<Longrightarrow> ok w (store_seq wr xs m)"
  by (induction xs arbitrary: m) (auto intro!: ok_rules)

lemma ok_word: "view m = w \<Longrightarrow> ok w (read_word apt a m)" "view m = w \<Longrightarrow> ok w (write_word apt a v m)"
  "view m = w \<Longrightarrow> ok w (load_reg lvl i a m)"
  by (auto simp: read_word_def write_word_def load_reg_def intro!: ok_system)

lemma ok_blocks: "view m = w \<Longrightarrow> ok w (opcode_srb op m)" "view m = w \<Longrightarrow> ok w (opcode_lrb op m)"
  by (auto simp: opcode_srb_def opcode_lrb_def do_srb_def do_lrb_def Let_def intro!: ok_system ok_store_seq ok_word)

lemma view_take_old: "mms_tset_take_old m = (x, m') \<Longrightarrow> view m' = view m"
  by (auto simp: mms_tset_take_old_def split: if_splits)

lemma ok_take: "view m = w \<Longrightarrow> ok w (tset_take_into_A m)"
  by (auto simp: tset_take_into_A_def dest: view_take_old split: prod.split option.split)

lemma ok_tset: "view m = w \<Longrightarrow> ok w (do_tset m)" "view m = w \<Longrightarrow> ok w (opcode_tsetp m)" "view m = w \<Longrightarrow> ok w (do_rdus m)"
  "view m = w \<Longrightarrow> ok w (opcode_rdusp m)"
  by (auto simp: do_tset_def opcode_tsetp_def do_rdus_def opcode_rdusp_def phys_load_def Let_def intro!: ok_system ok_take)

lemma ok_phys: "view m = w \<Longrightarrow> ok w (phys_load i a m)" "view m = w \<Longrightarrow> ok w (phys_store i a m)"
  by (auto simp: phys_load_def phys_store_def intro!: ok_system)

lemma ok_physical:
  assumes "view m = w"
  shows "ok w (opcode_ldatx op m)" "ok w (opcode_ldxtx op m)" "ok w (opcode_lddtx op m)" "ok w (opcode_ldbtx op m)"
    "ok w (opcode_statx op m)" "ok w (opcode_stztx op m)" "ok w (opcode_stdtx op m)" "ok w (opcode_exam m)" "ok w (opcode_depo m)"
    "ok w (opcode_lasb op m)" "ok w (opcode_sasb op m)" "ok w (opcode_lacb op m)" "ok w (opcode_sacb op m)"
    "ok w (opcode_lxsb op m)" "ok w (opcode_lxcb op m)" "ok w (opcode_szsb op m)" "ok w (opcode_szcb op m)"
  using assms
  by (auto simp: opcode_ldatx_def opcode_ldxtx_def opcode_lddtx_def opcode_ldbtx_def opcode_statx_def opcode_stztx_def
      opcode_stdtx_def opcode_exam_def opcode_depo_def opcode_lasb_def opcode_sasb_def opcode_lacb_def opcode_sacb_def
      opcode_lxsb_def opcode_lxcb_def opcode_szsb_def opcode_szcb_def with_el_def at_bank_def intro!: ok_system ok_phys)

lemma ok_bits:
  assumes "view m = w"
  shows "ok w (opcode_lbit m)" "ok w (opcode_lbitp m)" "ok w (opcode_sbit m)" "ok w (opcode_sbitp m)"
    "ok w (opcode_lbytp m)" "ok w (opcode_sbytp m)"
  using assms
  by (auto simp: opcode_lbit_def opcode_lbitp_def opcode_sbit_def opcode_sbitp_def opcode_lbytp_def opcode_sbytp_def load_K_def
      Let_def intro!: ok_system ok_virtual)

lemma ok_page_lists: "view m = w \<Longrightarrow> ok w (opcode_inspl m)" "view m = w \<Longrightarrow> ok w (opcode_rempl m)"
  by (auto simp: opcode_inspl_def opcode_rempl_def Let_def intro!: ok_system)

section \<open>Moves\<close>

lemma ok_each: "view m = w \<Longrightarrow> (\<And>x m. view m = w \<Longrightarrow> ok w (f x m)) \<Longrightarrow> ok w (each f xs m)"
  by (induction xs arbitrary: m) (auto intro!: ok_rules)

lemma ok_copy_byte: "view m = w \<Longrightarrow> ok w (copy_byte s sl sa d dl da i m)"
  by (auto simp: copy_byte_def intro!: ok_access)

lemma ok_movew_word: "view m = w \<Longrightarrow> ok w (movew_word k s d m)"
  by (auto simp: movew_word_def intro!: ok_access)

lemma ok_block_moves:
  assumes "view m = w"
  shows "ok w (opcode_bfill m)" "ok w (opcode_movb m)" "ok w (opcode_movbf m)" "ok w (do_movew op m)"
    "ok w (opcode_lbyt m)" "ok w (opcode_sbyt m)"
  using assms
  by (auto simp: opcode_bfill_def opcode_movb_def opcode_movbf_def do_movew_def opcode_lbyt_def opcode_sbyt_def skip_return_def
      Let_def intro!: ok_system ok_each ok_copy_byte ok_movew_word ok_virtual)

section \<open>Segment instructions\<close>

lemma ok_while:
  "while_exec f x m = Some out \<Longrightarrow> view m = w \<Longrightarrow> (\<And>x m. view m = w \<Longrightarrow> ok w (f x m)) \<Longrightarrow> ok w out"
  unfolding ok_def by (rule while_exec_keeps [where I = "\<lambda>m. view m = w"]) (auto simp: exec_keeps_def)

text \<open>An instruction with a loop: the view is kept when it finishes.\<close>

definition ok_opt :: "'w \<Rightarrow> ('a, 'd machine) outcome option \<Rightarrow> bool" where
  "ok_opt w r \<longleftrightarrow> (\<forall>out. r = Some out \<longrightarrow> ok w out)"

lemma ok_opt_Some [simp]: "ok_opt w (Some out) \<longleftrightarrow> ok w out" "ok_opt w None"
  by (simp_all add: ok_opt_def)

lemma ok_opt_while: "view m = w \<Longrightarrow> (\<And>x m. view m = w \<Longrightarrow> ok w (f x m)) \<Longrightarrow> ok_opt w (while_exec f x m)"
  by (auto simp: ok_opt_def intro: ok_while)

lemma ok_opt_then: "ok w (f m) \<Longrightarrow> (\<And>x m. view m = w \<Longrightarrow> ok_opt w (g x m)) \<Longrightarrow> ok_opt w (exec_then f g m)"
  by (cases "f m") (auto simp: exec_then_def)

lemma ok_opt_privileged: "view m = w \<Longrightarrow> (\<And>m. view m = w \<Longrightarrow> ok_opt w (body m)) \<Longrightarrow> ok_opt w (privileged_loop body m)"
  unfolding privileged_loop_def by (rule ok_opt_then) (auto intro: ok_check)

lemma ok_el: "view m = w \<Longrightarrow> ok w (read_el d m)" "view m = w \<Longrightarrow> ok w (write_el d v m)"
  by (simp_all add: read_el_def write_el_def ok_memory)

lemmas ok_segment = ok_system ok_el ok_word ok_each

lemma ok_nodes:
  assumes "view m = w"
  shows "ok w (setpt_node m)" "ok w (clear_node (\<lambda>_. ret ()) m)" "ok w (clear_node clepu_collect m)"
    "ok w (enter_node k c x m)" "ok w (clpt_node b c x m)" "ok w (clear_marked v r m)"
  using assms
  by (auto simp: setpt_node_def clear_node_def clepu_collect_def clepu_mark_working_set_def enter_node_def clpt_node_def
      clear_marked_def Let_def intro!: ok_segment)

lemma ok_passes:
  assumes "view m = w" and "\<And>m. view m = w \<Longrightarrow> ok w (node m)" and "\<And>x m. view m = w \<Longrightarrow> ok w (nodes x m)"
    and "\<And>x m. view m = w \<Longrightarrow> ok w (rd x m)"
  shows "ok w (chain_pass node u m)" "ok w (core_pass c nodes u m)" "ok w (bitmap_pass rd r3 rs m)" "ok w (chreent_pass t vs m)"
  using assms
  by (auto simp: chain_pass_def core_pass_def bitmap_pass_def chreent_pass_def skip_return_def split_def
      intro!: ok_segment ok_nodes split: prod.split)

lemma ok_segments:
  assumes "view m = w"
  shows "ok_opt w (opcode_setpt m)" "ok_opt w (opcode_clept m)" "ok_opt w (opcode_clepu m)" "ok_opt w (opcode_clnreent m)"
    "ok_opt w (opcode_cnrek m)" "ok_opt w (opcode_enpt m)" "ok_opt w (opcode_rept m)" "ok_opt w (opcode_clpt m)"
    "ok_opt w (opcode_chreent m)"
  using assms
  by (auto simp: opcode_setpt_def opcode_clept_def opcode_clepu_def opcode_clnreent_def opcode_cnrek_def opcode_enpt_def
      opcode_rept_def opcode_clpt_def opcode_chreent_def nd110_enter_page_table_def Let_def
      intro!: ok_opt_privileged ok_opt_while ok_opt_then ok_passes ok_nodes ok_segment)

lemma ok_opt_bindl: "ok_opt w (f m) \<Longrightarrow> (\<And>x m. view m = w \<Longrightarrow> ok_opt w (g x m)) \<Longrightarrow> ok_opt w (bindl f g m)"
  by (auto simp: bindl_def ok_opt_def split: option.split outcome.split)

lemma ok_opt_always [simp]: "ok_opt w (always f m) \<longleftrightarrow> ok w (f m)" by (simp add: always_def)

lemma ok_opt_loop: "view m = w \<Longrightarrow> (\<And>x m. view m = w \<Longrightarrow> ok_opt w (f x m)) \<Longrightarrow> ok_opt w (while_loop f x m)"
  using while_loop_keeps [of f x m _ "\<lambda>m. view m = w"] by (auto simp: ok_opt_def ok_def pass_keeps_def)

end

section \<open>The board: cards, instruction table and run loop\<close>

text \<open>
  The cards' side of the contract: whatever C function a card brings keeps the view. \<open>host_keeps\<close>
  asks the same of the two outcomes C leaves undefined.
\<close>

locale kept_board = kept view for view :: "('x, 'c) board \<Rightarrow> 'w" +
  fixes ops :: "('x, 'c) ops"
  assumes card_tick: "Tick (ops t) = Some f \<Longrightarrow> view m = w \<Longrightarrow> ok_opt w (f i m)"
    and card_read: "Read (ops t) = Some rd \<Longrightarrow> view m = w \<Longrightarrow> ok w (rd i a m)"
    and card_write: "Write (ops t) = Some wr \<Longrightarrow> view m = w \<Longrightarrow> ok w (wr i a v m)"
    and card_ident: "Ident (ops t) = Some idt \<Longrightarrow> view m = w \<Longrightarrow> ok w (idt i lvl m)"
    and card_iot: "IotOp (ops t) = Some iot \<Longrightarrow> view m = w \<Longrightarrow> ok w (iot i d k a16 m)"
begin

lemma view_devices [simp]: "view (on_manager g m) = view m" "view (set_dev i h m) = view m" "view (dev_irq_changed m) = view m"
  by (simp_all add: on_manager_def set_dev_def dev_irq_changed_def)

lemma ok_cards:
  assumes "view m = w"
  shows "ok w (dev_read ops i a m)" "ok w (dev_write ops i a v m)" "ok w (dev_ident ops i lvl m)"
  using assms by (auto simp: dev_read_def dev_write_def dev_ident_def ops_of_def split: option.split
      intro: card_read card_write card_ident)

lemma ok_manager:
  assumes "view m = w"
  shows "ok w (devmgr_read ops a m)" "ok w (devmgr_write ops a v m)"
  using assms by (auto simp: devmgr_read_def devmgr_write_def split: option.split intro!: ok_rules ok_cards)

lemma ok_scan: "view m = w \<Longrightarrow> ok w (ident_scan ops lvl is m)"
  by (induction "is" arbitrary: m) (auto intro!: ok_rules ok_cards)

lemma ok_manager_iot: "view m = w \<Longrightarrow> ok w (devmgr_iot_op ops d k a m)"
proof (cases "find (\<lambda>i. answers_nord1 ops d (dev i m)) [0..<dev_count m]")
  case (Some i)
  assume "view m = w"
  moreover from Some have "answers_nord1 ops d (dev i m)" by (auto simp: find_Some_iff)
  then obtain f where "IotOp (ops (dev_type (dev i m))) = Some f" by (auto simp: answers_nord1_def)
  ultimately show ?thesis using Some by (simp add: devmgr_iot_op_def ops_of_def card_iot)
qed (simp add: devmgr_iot_op_def)

lemma ok_exchange: "view m = w \<Longrightarrow> ok w (io_exchange ops a m)"
  by (auto simp: io_exchange_def io_op_def intro!: ok_rules ok_manager)

lemma ok_unless_memory_io: "view m = w \<Longrightarrow> (\<And>m. view m = w \<Longrightarrow> ok w (body m)) \<Longrightarrow> ok w (unless_memory_io body m)"
  by (simp add: unless_memory_io_def split_def Let_def)

lemma ok_do_ident: "view m = w \<Longrightarrow> ok w (do_ident ops lvl m)"
  by (auto simp: do_ident_def devmgr_ident_def intro!: ok_rules ok_scan)

lemma ok_io:
  assumes "view m = w"
  shows "ok w (opcode_ioxt ops m)" "ok w (opcode_iox ops op m)" "ok w (opcode_iot ops op m)" "ok w (opcode_ident ops op m)"
  using assms
  by (auto simp: opcode_ioxt_def opcode_iox_def opcode_iot_def opcode_ident_def skip_return_def Let_def split_def cpu_illegal_instr_def
      intro!: ok_system ok_unless_memory_io ok_exchange ok_manager_iot ok_do_ident)

section \<open>A tick of the cards\<close>

lemma ok_opt_pass: "view m = w \<Longrightarrow> ok_opt w (tick_pass ops s m)"
  by (auto simp: tick_pass_def after_tick_def split_def Let_def ops_of_def intro!: ok_opt_bindl intro: card_tick split: option.split)

lemma ok_opt_devmgr: "view m = w \<Longrightarrow> ok_opt w (devmgr_tick ops m)"
  by (auto simp: devmgr_tick_def Let_def intro!: ok_opt_bindl ok_opt_loop ok_opt_pass)

lemma ok_opt_IO_Tick: "view m = w \<Longrightarrow> ok_opt w (IO_Tick ops m)"
  by (auto simp: IO_Tick_def intro!: ok_opt_bindl ok_opt_devmgr)

section \<open>The instruction table\<close>

definition host_keeps :: "('x, 'c) host \<Rightarrow> bool" where
  "host_keeps e \<longleftrightarrow> cards e = ops \<and> (\<forall>m. view (final_state (undefined_shift e m)) = view m)
     \<and> (\<forall>m. view (final_state (undefined_bytes e m)) = view m)"

lemmas handlers = instr_def plain_def regs_instr_def walk_def

lemma ok_rows:
  assumes "host_keeps e" "view m = w"
  shows
    "(p, Handler f) \<in> set (memory_rows e) \<Longrightarrow> ok_opt w (f op m)"
    "(p, Handler f) \<in> set (jump_rows e) \<Longrightarrow> ok_opt w (f op m)"
    "(p, Handler f) \<in> set (commercial_rows e) \<Longrightarrow> ok_opt w (f op m)"
    "(p, Handler f) \<in> set (versn_rows e) \<Longrightarrow> ok_opt w (f op m)"
    "(p, Handler f) \<in> set (stack_rows e) \<Longrightarrow> ok_opt w (f op m)"
    "(p, Handler f) \<in> set (nd110_rows e) \<Longrightarrow> ok_opt w (f op m)"
    "(p, Handler f) \<in> set (exr_rows e) \<Longrightarrow> ok_opt w (f op m)"
    "(p, Handler f) \<in> set (bank_rows e) \<Longrightarrow> ok_opt w (f op m)"
    "(p, Handler f) \<in> set (extended_rows e) \<Longrightarrow> ok_opt w (f op m)"
    "(p, Handler f) \<in> set (register_rows e) \<Longrightarrow> ok_opt w (f op m)"
    "(p, Handler f) \<in> set (butterfly_rows e) \<Longrightarrow> ok_opt w (f op m)"
    "(p, Handler f) \<in> set (control_rows e) \<Longrightarrow> ok_opt w (f op m)"
    "(p, Handler f) \<in> set (shift_rows e) \<Longrightarrow> ok_opt w (f op m)"
    "(p, Handler f) \<in> set (argument_rows e) \<Longrightarrow> ok_opt w (f op m)"
proof -
  have ub: "\<And>m'. view m' = w \<Longrightarrow> ok w (undefined_shift e m')" "\<And>m'. view m' = w \<Longrightarrow> ok w (undefined_bytes e m')" "cards e = ops"
    using assms(1) by (auto simp: host_keeps_def ok_def)
  show "ok_opt w (f op m)" if "(p, Handler f) \<in> set (memory_rows e)"
    using that ok_memory_reference [OF assms(2)] ok_float [OF assms(2) ub(1)]
    by (auto simp: memory_rows_def handlers)
  show "ok_opt w (f op m)" if "(p, Handler f) \<in> set (jump_rows e)"
    using that ok_jumps [OF assms(2)]
    by (auto simp: jump_rows_def handlers)
  show "ok_opt w (f op m)" if "(p, Handler f) \<in> set (commercial_rows e)"
    using that ok_decimal [OF assms(2) ub(2)] ok_tset [OF assms(2)] ok_block_moves [OF assms(2)]
    by (auto simp: commercial_rows_def handlers)
  show "ok_opt w (f op m)" if "(p, Handler f) \<in> set (versn_rows e)"
    using that ok_internal [OF assms(2)]
    by (auto simp: versn_rows_def handlers)
  show "ok_opt w (f op m)" if "(p, Handler f) \<in> set (stack_rows e)"
    using that ok_stack [OF assms(2)] ok_internal [OF assms(2)]
    by (auto simp: stack_rows_def handlers)
  show "ok_opt w (f op m)" if "(p, Handler f) \<in> set (nd110_rows e)"
    using that ok_internal [OF assms(2)] ok_page_lists [OF assms(2)] ok_segments [OF assms(2)] ok_bits [OF assms(2)] ok_tset [OF assms(2)]
    by (auto simp: nd110_rows_def handlers)
  show "ok_opt w (f op m)" if "(p, Handler f) \<in> set (exr_rows e)"
    using that assms(2)
    by (auto simp: exr_rows_def handlers)
  show "ok_opt w (f op m)" if "(p, Handler f) \<in> set (bank_rows e)"
    using that ok_physical [OF assms(2)]
    by (auto simp: bank_rows_def handlers)
  show "ok_opt w (f op m)" if "(p, Handler f) \<in> set (extended_rows e)"
    using that ok_segments [OF assms(2)] ok_block_moves [OF assms(2)] ok_internal [OF assms(2)] ok_arguments [OF assms(2)] ok_physical [OF assms(2)] ok_io [OF assms(2)] ub(3) assms(2)
    by (auto simp: extended_rows_def handlers)
  show "ok_opt w (f op m)" if "(p, Handler f) \<in> set (register_rows e)"
    using that ok_internal [OF assms(2)] assms(2)
    by (auto simp: register_rows_def handlers)
  show "ok_opt w (f op m)" if "(p, Handler f) \<in> set (butterfly_rows e)"
    using that ok_internal [OF assms(2)]
    by (auto simp: butterfly_rows_def handlers)
  show "ok_opt w (f op m)" if "(p, Handler f) \<in> set (control_rows e)"
    using that ok_internal [OF assms(2)] ok_io [OF assms(2)] ok_physical [OF assms(2)] ok_float [OF assms(2) ub(1)] ok_blocks [OF assms(2)] ub(3)
    by (auto simp: control_rows_def handlers)
  show "ok_opt w (f op m)" if "(p, Handler f) \<in> set (shift_rows e)"
    using that assms(2)
    by (auto simp: shift_rows_def handlers)
  show "ok_opt w (f op m)" if "(p, Handler f) \<in> set (argument_rows e)"
    using that ok_arguments [OF assms(2)] ok_io [OF assms(2)] ub(3) assms(2)
    by (auto simp: argument_rows_def handlers)
qed

lemma ok_row: "(p, Handler f) \<in> set (cpu_instructions t e) \<Longrightarrow> host_keeps e \<Longrightarrow> view m = w \<Longrightarrow> ok_opt w (f op m)"
  unfolding cpu_instructions_def by (auto split: if_splits dest: ok_rows)

section \<open>Ticks and turns\<close>

lemma table_handler: "Setup_Instructions t e v = Some (Handler f) \<Longrightarrow> host_keeps e \<Longrightarrow> view m = w \<Longrightarrow> ok_opt w (f op m)"
  by (auto simp: table_rows intro: ok_row)

lemma ok_dispatch: "host_keeps e \<Longrightarrow> view m = w \<Longrightarrow> ok_opt w (cpu_do_op (Setup_Instructions t e) op is_exr m)"
proof -
  assume e: "host_keeps e" and m: "view m = w"
  let ?tab = "Setup_Instructions t e" and ?m1 = "advance is_exr m"
  have m1: "view ?m1 = w" using m by (simp add: advance_def)
  have "ok_opt w (f v ?m1)" if "?tab v = Some (Handler f)" for v f by (rule table_handler [OF that e m1])
  then show ?thesis
    unfolding cpu_do_op_run Let_def using m1 by (auto simp: ok_internal split: option.split handler.split)
qed

lemma ok_fetch: "view m = w \<Longrightarrow> ok w (fetch_tick m)"
  by (simp add: fetch_tick_def Let_def ok_memory)

lemma tick_kept:
  assumes "host_keeps e" "private_cpu_tick (Setup_Instructions t e) st = Some out"
  shows "view (snd (final_state out)) = view (snd st)"
proof -
  obtain s m where st: "st = (s, m)" by (cases st)
  show ?thesis
  proof (cases "fetch_tick m")
    case (Trap m1)
    then show ?thesis using assms(2) ok_fetch [of m] by (auto simp: st private_cpu_tick_def)
  next
    case (Done op m1)
    then have m1: "view m1 = view m" using ok_fetch [of m] by auto
    then have "ok_opt (view m) (cpu_do_op (Setup_Instructions t e) op False m1)" using assms(1) by (simp add: ok_dispatch)
    then show ?thesis using Done assms(2) m1
      by (auto simp: st private_cpu_tick_def Let_def with_state_sel ok_def cpu_set_run_mode_def split: if_splits)
  qed
qed

lemma io_kept: "io_tick ops st = Some out \<Longrightarrow> view (snd (final_state out)) = view (snd st)"
  using ok_opt_IO_Tick [of "snd st"]
  by (auto simp: io_tick_def ok_opt_def split: prod.splits option.splits outcome.splits)

lemma turn_kept:
  assumes "host_keeps e" "run_turn (Setup_Instructions t e) ops st = Some out"
  shows "view (snd (final_state out)) = view (snd st)"
proof -
  obtain o1 where o1: "private_cpu_tick (Setup_Instructions t e) st = Some o1"
    using assms(2) by (auto simp: run_turn_def split: option.splits)
  note tick_kept [OF assms(1) o1]
  then show ?thesis
    using assms(2) o1 by (cases o1) (auto simp: run_turn_def record_tick_def split_def dest!: io_kept)
qed

lemma step_kept: "cpu_step (Setup_Instructions t e) ops st st' \<Longrightarrow> host_keeps e \<Longrightarrow> view (snd st') = view (snd st)"
  by (erule cpu_stepE) (auto dest: turn_kept simp: cpu_set_run_mode_def)

lemma reachable_kept: "reachable (Setup_Instructions t e) ops st st' \<Longrightarrow> host_keeps e \<Longrightarrow> view (snd st') = view (snd st)"
  by (induction rule: reachable.induct) (auto dest: step_kept)

end

end
