(* ===== verification/TypeSafety.thy ===== *)
theory TypeSafety
  imports Frames
begin

text \<open>
  The configuration that start-up chooses, kept by the whole processor with the six modelled
  cards: an interpretation of the locales of Frames, and the type invariant it carries.
\<close>

section \<open>The configuration\<close>

text \<open>
  What start-up decides about the machine: processor and paging variant, memory size and banks,
  the shape of the page tables, and the lock functions of a shared-memory bus.
\<close>

definition table_layout :: "PagingTables \<Rightarrow> MMSType \<times> nat \<times> u32 \<times> bool" where
  "table_layout p = (mmsType p, length (shadowRam p), shadowRamAddress p, isInitialized p)"

definition configuration where
  "configuration m = (g_current_cpu_type m, g_current_fpp_type m, g_mms_type m, g_nd_memsize m, s_memory_banks m,
     table_layout (g_paging_tables m), s_tset_lock_fn m)"

lemma configuration_devices [simp]:
  "configuration (m\<lparr>devices := d\<rparr>) = configuration m" "configuration (set_dev i f m) = configuration m"
  "configuration (dev_irq_changed m) = configuration m" "configuration (dev_request_tick m) = configuration m"
  "configuration (dev_set_interrupt_status i b lvl m) = configuration m"
  "configuration (dev_generate_interrupt i lvl m) = configuration m"
  "configuration (dev_queue_io_delay i ticks cb param l8 m) = configuration m"
  "configuration (set_rtc i f1 c) = configuration c" "configuration (set_lp i f2 c) = configuration c"
  "configuration (set_ptr i f3 c) = configuration c" "configuration (set_ptw i f4 c) = configuration c"
  "configuration (set_term i f5 c) = configuration c" "configuration (input_interrupt i c) = configuration c"
  "configuration (output_interrupt i c) = configuration c" "configuration (terminal_queue_key_code i k c) = configuration c"
  "configuration (set_drum i f6 c) = configuration c" "configuration (queue_drum_end i c) = configuration c"
  by (simp_all add: configuration_def set_dev_def on_manager_def dev_irq_changed_def dev_request_tick_def
      dev_set_interrupt_status_def dev_generate_interrupt_def device_clear_interrupt_def dev_queue_io_delay_def
      set_rtc_def set_lp_def set_ptr_def set_ptw_def set_term_def input_interrupt_def output_interrupt_def
      terminal_queue_key_code_def set_drum_def queue_drum_end_def Let_def)

interpretation config: kept configuration
  by unfold_locales (simp_all add: configuration_def table_layout_def)

lemma rtc_count_configuration [simp]: "configuration (rtc_count wall now i m) = configuration m"
  by (simp add: rtc_count_def raise_pulse_def Let_def)

lemma terminal_configuration [simp]:
  "configuration (terminal_line i m) = configuration m" "configuration (terminal_write_input_control i v m) = configuration m"
  "configuration (terminal_write_data i v m) = configuration m"
  by (simp_all add: terminal_line_def terminal_write_input_control_def terminal_write_data_def Let_def)

lemma dma_configuration:
  assumes "configuration m = w"
  shows "config.ok w (dev_dma_read a m)" "config.ok w (dev_dma_write a v m)"
proof -
  have flag: "configuration (g_dma_access_update f m) = configuration m" for f and m :: "'a machine" by (simp add: configuration_def)
  show "config.ok w (dev_dma_read a m)" "config.ok w (dev_dma_write a v m)"
    using assms by (auto simp: dev_dma_read_def dev_dma_write_def mms_write_physical_memory_def flag
        intro!: config.ok_rules config.ok_read_physical config.ok_write_physical_wm)
qed

lemma drum_word_configuration: "configuration m = w \<Longrightarrow> config.ok w (drum_word i f off k m)"
  by (auto simp: drum_word_def Let_def intro!: config.ok_rules dma_configuration)

lemma drum_go_configuration: "configuration m = w \<Longrightarrow> config.ok w (drum_execute_go i m)"
  by (auto simp: drum_execute_go_def Let_def intro!: config.ok_rules config.ok_each drum_word_configuration)

lemma drum_configuration:
  assumes "configuration m = w"
  shows "config.ok w (drum_read i a m)" "config.ok w (drum_write i a v m)" "config.ok w (drum_ident i lvl m)"
  using assms by (auto simp: drum_read_def drum_write_def drum_ident_def Let_def intro!: drum_go_configuration)

lemma punch_configuration: "configuration m = w \<Longrightarrow> config.ok w (card_delayed c i p m)"
  by (cases c) (simp_all add: punch_end_def terminal_write_end_def drum_end_def Let_def)

lemma delay_configuration: "config.ok_opt (configuration m) (dev_tick_io_delay card_delayed i m)"
  unfolding dev_tick_io_delay_def
proof (rule config.ok_opt_loop)
  show "config.ok_opt w (always (delay_pass card_delayed i k) m)" if "configuration m = w" for w k m
    using that by (auto simp: config.ok_opt_always delay_pass_def Let_def intro!: config.ok_rules punch_configuration)
qed simp

interpretation config: kept_board configuration "card_ops wall now" for wall now
proof (unfold_locales, goal_cases)
  case (1 t f m w i)
  then show ?case by (cases t) (auto simp: rtc_tick_def paper_tape_tick_def paper_tape_writer_tick_def line_printer_tick_def terminal_tick_def drum_tick_def
      intro!: config.ok_opt_bindl delay_configuration)
next
  case (2 t rd m w i a)
  then show ?case by (cases t) (auto simp: rtc_read_def line_printer_read_def paper_tape_read_def paper_tape_writer_read_def terminal_read_def Let_def
      intro: drum_configuration)
next
  case (3 t wr m w i a v)
  then show ?case
    by (cases t) (auto simp: rtc_write_def line_printer_write_def paper_tape_write_def paper_tape_writer_write_def ready_interrupt_def terminal_write_def Let_def
        intro: drum_configuration)
next
  case (4 t idt m w i lvl)
  then show ?case
    by (cases t) (auto simp: rtc_ident_def line_printer_ident_def paper_tape_ident_def paper_tape_writer_ident_def terminal_ident_def
        intro: drum_configuration)
next
  case (5 t iot m w i d k a)
  then show ?case by (cases t) auto
qed

section \<open>Every reachable state is well typed\<close>

text \<open>
  The types C does not write down: the page tables have the layout of the installed memory
  management, and the memory banks neither overlap nor wrap.
\<close>

definition well_typed :: "'d machine \<Rightarrow> bool" where
  "well_typed m \<longleftrightarrow> paging_ok m \<and> banks_ok (s_memory_banks m)"

lemma well_typed_configuration: "configuration m' = configuration m \<Longrightarrow> well_typed m \<Longrightarrow> well_typed m'"
  by (simp add: well_typed_def paging_ok_def configuration_def table_layout_def split: MMSType.splits)

lemma init_well_typed: "well_typed (snd (snd (cpu_init getenv v st)))"
proof -
  obtain s m where "st = (s, m)" by (cases st)
  then show ?thesis
    by (cases "g_mms_type m")
      (simp_all add: cpu_init_def well_typed_def Let_def mms_create_paging_tables_def paging_ok_def init_ok)
qed

definition keeps_configuration :: "('a, 'd) exec \<Rightarrow> bool" where
  "keeps_configuration f \<longleftrightarrow> (\<forall>m. configuration (final_state (f m)) = configuration m)"

text \<open>C20
  Type safety of the processor: after cpu_init, in every state the run loop reaches, whatever
  program is in memory, whatever instructions fault and whatever the cards do, the page tables
  have the size and base of the installed memory management and the memory banks are disjoint;
  processor type, paging type, memory size and banks are those cpu_init set. What C leaves
  undefined is assumed not to change them.
\<close>

theorem reachable_well_typed:
  fixes e :: "(card_data, card_delay) host"
  assumes "cards e = card_ops wall now"
    and "keeps_configuration (undefined_shift e)" and "keeps_configuration (undefined_bytes e)"
    and "reachable (Setup_Instructions t e) (cards e) (snd (cpu_init getenv v st0)) st"
  shows "well_typed (snd st) \<and> configuration (snd st) = configuration (snd (snd (cpu_init getenv v st0)))"
proof -
  have "config.host_keeps wall now e"
    using assms(1-3) by (simp add: config.host_keeps_def keeps_configuration_def)
  then have "configuration (snd st) = configuration (snd (snd (cpu_init getenv v st0)))"
    using config.reachable_kept assms(1,4) by metis
  then show ?thesis using well_typed_configuration init_well_typed by metis
qed

text \<open>A board without cards, run to a breakpoint at its first instruction.\<close>

definition started :: "run_state \<times> cards" where
  "started = snd (cpu_init (\<lambda>_. None) (identity demo_host)
     (idle_run\<lparr>g_cpu_breakpoint_enabled := True\<rparr>, demo_board\<lparr>devices := devmgr_init\<rparr>))"

lemma started_fetch:
  "\<exists>op m. fetch_tick (snd started) = Done op m \<and> cur R_P (g_reg m) = 0 \<and> devices m = devmgr_init"
proof -
  have "(case fetch_tick (snd started) of
      Done op m \<Rightarrow> cur R_P (g_reg m) = 0 \<and> dm_devices (devices m) = [] \<and> deviceCapacity (devices m) = 32 \<and> dev_tick_wanted (devices m)
        \<and> dev_irq_dirty (devices m) \<and> s_tick_list (devices m) = [] \<and> s_tick_list_devices (devices m) = - 1 \<and> s_irq_bits (devices m) = 0
    | Trap m \<Rightarrow> False)"
    unfolding started_def demo_board_def demo_host_def by code_simp
  then show ?thesis by (cases "fetch_tick (snd started)") (auto simp: devmgr_init_def)
qed

lemma no_cards_tick: "devices m = devmgr_init \<Longrightarrow> \<exists>m'. IO_Tick ops m = Some (Done () m') \<and> CurrentCPURunMode m' = CurrentCPURunMode m"
  by (simp add: IO_Tick_def devmgr_tick_def bindl_def on_manager_def devmgr_init_def new_table_def devmgr_rebuild_tick_list_def
      number_devices_def tick_members_def devmgr_take_requests_def while_loop.simps tick_pass_def collect_irq_def irq_or_def
      always_def ret_def Let_def)

lemma started_stops:
  "\<exists>st. cpu_step (Setup_Instructions ND110 demo_host) (cards demo_host) started st \<and> CurrentCPURunMode (snd st) = CPU_SHUTDOWN"
proof -
  let ?m = "snd started" and ?s = "fst started" and ?ops = "cards demo_host"
  obtain op m where f: "fetch_tick ?m = Done op m" "cur R_P (g_reg m) = 0" "devices m = devmgr_init"
    using started_fetch by blast
  have s: "g_cpu_breakpoint_enabled ?s" "g_cpu_breakpoint_addr ?s = 0" "CurrentCPURunMode ?m = CPU_RUNNING"
    by (simp_all add: started_def cpu_init_def Let_def idle_run_def mms_create_paging_tables_def)
  obtain m' where io: "IO_Tick ?ops (cpu_set_run_mode CPU_SHUTDOWN m) = Some (Done () m')" "CurrentCPURunMode m' = CPU_SHUTDOWN"
    using no_cards_tick [of "cpu_set_run_mode CPU_SHUTDOWN m" ?ops] f(3) by (auto simp: cpu_set_run_mode_def)
  have "private_cpu_tick tab started = Some (Done () (?s\<lparr>g_operand := op\<rparr>, cpu_set_run_mode CPU_SHUTDOWN m))" for tab
    using f s by (simp add: private_cpu_tick_def split_def stops_here_def)
  then have "\<exists>s'. run_turn tab ?ops started = Some (Done () (s', m'))" for tab
    using io(1) by (simp add: run_turn_def io_tick_def record_tick_def)
  then obtain s' where "run_turn (Setup_Instructions ND110 demo_host) ?ops started = Some (Done () (s', m'))" by blast
  then have "cpu_step (Setup_Instructions ND110 demo_host) ?ops started (s', m')" by (rule cpu_step.turn [OF s(3)])
  then show ?thesis using io(2) by (intro exI [of _ "(s', m')"]) simp
qed

theorem reachable_well_typed_witness:
  "\<exists>st. reachable (Setup_Instructions ND110 demo_host) (cards demo_host) started st \<and> CurrentCPURunMode (snd st) = CPU_SHUTDOWN
     \<and> well_typed (snd st)"
proof -
  obtain st where "cpu_step (Setup_Instructions ND110 demo_host) (cards demo_host) started st" "CurrentCPURunMode (snd st) = CPU_SHUTDOWN"
    using started_stops by blast
  moreover from this have r: "reachable (Setup_Instructions ND110 demo_host) (cards demo_host) started st"
    by (blast intro: reachable.intros)
  moreover have "well_typed (snd st)"
    using reachable_well_typed [OF _ _ _ r [unfolded started_def]] by (simp add: demo_host_def keeps_configuration_def ret_def)
  ultimately show ?thesis by blast
qed

end
