(* ===== verification/Expr.thy ===== *)
theory Expr
  imports Mms
begin

text \<open>
  The expression evaluator of conditional breakpoints, \<open>src/cpu/expr_eval.c\<close>: a recursive descent
  parser that computes while it reads. The C text pointer is the list of characters that remain;
  past its end the character read is NUL. The functions call each other, so they are one recursive
  function of a \<open>mode\<close>: the binary levels share their shape and differ in the table of their
  operators. Memory is read through the memory management, so an evaluation can trap.
\<close>

section \<open>Characters\<close>

abbreviation code :: "char \<Rightarrow> nat" where "code c \<equiv> of_char c"

definition isdigit :: "char \<Rightarrow> bool" where "isdigit c \<longleftrightarrow> 48 \<le> code c \<and> code c \<le> 57"
definition isalpha :: "char \<Rightarrow> bool" where
  "isalpha c \<longleftrightarrow> 65 \<le> code c \<and> code c \<le> 90 \<or> 97 \<le> code c \<and> code c \<le> 122"
definition isalnum :: "char \<Rightarrow> bool" where "isalnum c \<longleftrightarrow> isalpha c \<or> isdigit c"
definition toupper :: "char \<Rightarrow> char" where
  "toupper c = (if 97 \<le> code c \<and> code c \<le> 122 then char_of (code c - 32) else c)"
definition tolower :: "char \<Rightarrow> char" where
  "tolower c = (if 65 \<le> code c \<and> code c \<le> 90 then char_of (code c + 32) else c)"

definition is_ident :: "char \<Rightarrow> bool" where "is_ident c \<longleftrightarrow> isalnum c \<or> c = CHR ''_''"

section \<open>The parser's state\<close>

datatype parse_error = Empty_expression | Expected_parenthesis | Expected_bracket | Unknown_register | Unexpected_token
  | Division_by_zero | Modulo_by_zero | Unexpected_characters

record Parser =
  pos :: string
  perror :: "parse_error option"

abbreviation (input) NUL :: char where "NUL \<equiv> CHR 0x00"

definition peek :: "nat \<Rightarrow> Parser \<Rightarrow> char" where
  "peek k p = (if k < length (pos p) then pos p ! k else NUL)"

definition is_blank :: "char \<Rightarrow> bool" where "is_blank c \<longleftrightarrow> c = CHR '' '' \<or> c = CHR 0x09"

definition skip_ws :: "Parser \<Rightarrow> Parser" where
  "skip_ws p = p\<lparr>pos := dropWhile is_blank (pos p)\<rparr>"

definition has_error :: "Parser \<Rightarrow> bool" where "has_error p \<longleftrightarrow> perror p \<noteq> None"

definition set_error :: "parse_error \<Rightarrow> Parser \<Rightarrow> Parser" where
  "set_error e p = (if perror p = None then p\<lparr>perror := Some e\<rparr> else p)"

definition consume :: "nat \<Rightarrow> Parser \<Rightarrow> Parser" where
  "consume k p = p\<lparr>pos := drop k (pos p)\<rparr>"

type_synonym matcher = "Parser \<Rightarrow> bool \<times> Parser"

definition match2 :: "char \<Rightarrow> char \<Rightarrow> matcher" where
  "match2 c1 c2 p =
     (let p = skip_ws p in if peek 0 p = c1 \<and> peek 1 p = c2 then (True, consume 2 p) else (False, p))"

definition match1 :: "char \<Rightarrow> char \<Rightarrow> matcher" where
  "match1 c not_followed_by p =
     (let p = skip_ws p in if peek 0 p = c \<and> peek 1 p \<noteq> not_followed_by then (True, consume 1 p) else (False, p))"

definition match_keyword :: "string \<Rightarrow> matcher" where
  "match_keyword keyword p =
     (let p = skip_ws p; len = length keyword
      in if map tolower (take len (pos p)) = keyword \<and> \<not> is_ident (peek len p) then (True, consume len p) else (False, p))"

definition match_char :: "char \<Rightarrow> matcher" where
  "match_char c p = (let p = skip_ws p in if peek 0 p = c then (True, consume 1 p) else (False, p))"

section \<open>Registers\<close>

definition internal_registers :: "CpuRegs \<Rightarrow> (string \<times> u16) list" where
  "internal_registers r =
     [(''PANS'', reg_PANS r), (''PANC'', reg_PANC r), (''OPR'', reg_OPR r), (''LMP'', reg_LMP r), (''PGS'', reg_PGS r),
      (''PVL'', reg_PVL r), (''IIC'', reg_IIC r), (''IID'', reg_IID r), (''PID'', reg_PID r), (''PIE'', reg_PIE r),
      (''CSR'', reg_CSR r), (''CCL'', reg_CCL r), (''ALD'', reg_ALD r), (''PES'', reg_PES r), (''PGC'', reg_PGC r),
      (''PEA'', reg_PEA r), (''ECCR'', reg_ECCR r)]"

definition lookup_internal_register :: "string \<Rightarrow> CpuRegs \<Rightarrow> u16 option" where
  "lookup_internal_register buf r = map_of (internal_registers r) buf"

definition main_registers :: "CpuRegs \<Rightarrow> (string \<times> u16) list" where
  "main_registers r =
     [(''A'', cur R_A r), (''B'', cur R_B r), (''D'', cur R_D r), (''T'', cur R_T r), (''X'', cur R_X r), (''L'', cur R_L r),
      (''P'', cur R_P r), (''PC'', cur R_P r), (''STS'', gSTSr r), (''PIL'', of_nat (gPIL r)), (''EA'', effectiveAddress r)]"

definition lookup_register :: "string \<Rightarrow> CpuRegs \<Rightarrow> u16 option" where
  "lookup_register name r =
     (if length name = 0 \<or> length name \<ge> 16 then None
      else let buf = map toupper name in
        case map_of (main_registers r) buf of Some v \<Rightarrow> Some v
        | None \<Rightarrow> (case lookup_internal_register buf r of Some v \<Rightarrow> Some v
        | None \<Rightarrow> if buf ! 0 = CHR ''U'' \<and> length name = 2 \<and> 48 \<le> code (buf ! 1) \<and> code (buf ! 1) \<le> 55
                  then Some (cur (8 + (code (buf ! 1) - 48)) r) else None))"

section \<open>Numbers\<close>

text \<open>\<open>strtoul\<close> on a text that starts with a digit; it saturates at \<open>ULONG_MAX\<close> of 64 bits.\<close>

definition digit_value :: "char \<Rightarrow> nat" where
  "digit_value c = (if isdigit c then code c - 48 else if 97 \<le> code c then code c - 87 else code c - 55)"

definition digit_of :: "nat \<Rightarrow> char \<Rightarrow> bool" where
  "digit_of base c \<longleftrightarrow> isalnum c \<and> digit_value c < base"

definition number_of :: "nat \<Rightarrow> string \<Rightarrow> nat" where
  "number_of base ds = foldl (\<lambda>v c. v * base + digit_value c) 0 ds"

definition strtoul :: "string \<Rightarrow> nat \<Rightarrow> nat \<times> string" where
  "strtoul s base =
     (let body = (if base = 16 \<and> length s > 2 \<and> s ! 0 = CHR ''0'' \<and> (s ! 1 = CHR ''x'' \<or> s ! 1 = CHR ''X'') \<and> digit_of 16 (s ! 2)
                  then drop 2 s else s)
      in (min (number_of base (takeWhile (digit_of base) body)) (2 ^ 64 - 1), dropWhile (digit_of base) body))"

definition parse_number :: "Parser \<Rightarrow> u16 option \<times> Parser" where
  "parse_number p =
     (let p = skip_ws p in
      if \<not> isdigit (peek 0 p) then (None, p)
      else let base = (if peek 0 p = CHR ''0'' \<and> (peek 1 p = CHR ''x'' \<or> peek 1 p = CHR ''X'') then 16
                       else if peek 0 p = CHR ''0'' \<and> isdigit (peek 1 p) then 8 else 10);
               (v, rest) = strtoul (pos p) base
           in (Some (of_nat v), p\<lparr>pos := rest\<rparr>))"

definition parse_identifier :: "CpuRegs \<Rightarrow> Parser \<Rightarrow> u16 option \<times> Parser" where
  "parse_identifier r p =
     (let p = skip_ws p in
      if \<not> isalpha (peek 0 p) \<and> peek 0 p \<noteq> CHR ''_'' then (None, p)
      else case lookup_register (takeWhile is_ident (pos p)) r of
             Some v \<Rightarrow> (Some v, p\<lparr>pos := dropWhile is_ident (pos p)\<rparr>)
           | None \<Rightarrow> (None, set_error Unknown_register p))"

section \<open>The operators of each level\<close>

type_synonym operation = "u16 \<Rightarrow> u16 \<Rightarrow> parse_error + u16"

definition truth :: "bool \<Rightarrow> parse_error + u16" where "truth b = Inr (if b then 1 else 0)"

definition multiplicative :: "(matcher \<times> operation) list" where
  "multiplicative =
     [(match_char CHR ''*'', \<lambda>left right. Inr (left * right)),
      (match_char CHR ''/'', \<lambda>left right. if right = 0 then Inl Division_by_zero else Inr (left div right)),
      (match_char CHR ''%'', \<lambda>left right. if right = 0 then Inl Modulo_by_zero else Inr (left mod right))]"

definition additive :: "(matcher \<times> operation) list" where
  "additive = [(match_char CHR ''+'', \<lambda>left right. Inr (left + right)), (match_char CHR ''-'', \<lambda>left right. Inr (left - right))]"

definition comparison :: "(matcher \<times> operation) list" where
  "comparison =
     [(match2 CHR ''>'' CHR ''='', \<lambda>left right. truth (left \<ge> right)), (match2 CHR ''<'' CHR ''='', \<lambda>left right. truth (left \<le> right)),
      (match1 CHR ''>'' CHR ''='', \<lambda>left right. truth (left > right)), (match1 CHR ''<'' CHR ''='', \<lambda>left right. truth (left < right))]"

definition equality :: "(matcher \<times> operation) list" where
  "equality =
     [(match2 CHR ''='' CHR ''='', \<lambda>left right. truth (left = right)), (match1 CHR ''='' CHR ''='', \<lambda>left right. truth (left = right)),
      (match2 CHR ''!'' CHR ''='', \<lambda>left right. truth (left \<noteq> right))]"

definition bitwise_and :: "(matcher \<times> operation) list" where
  "bitwise_and = [(match1 CHR ''&'' CHR ''&'', \<lambda>left right. Inr (left AND right))]"

definition bitwise_xor :: "(matcher \<times> operation) list" where
  "bitwise_xor = [(match_char CHR ''^'', \<lambda>left right. Inr (left XOR right))]"

definition bitwise_or :: "(matcher \<times> operation) list" where
  "bitwise_or = [(match1 CHR ''|'' CHR ''|'', \<lambda>left right. Inr (left OR right))]"

definition logic_and :: "(matcher \<times> operation) list" where
  "logic_and =
     [(match2 CHR ''&'' CHR ''&'', \<lambda>left right. truth (left \<noteq> 0 \<and> right \<noteq> 0)),
      (match_keyword ''and'', \<lambda>left right. truth (left \<noteq> 0 \<and> right \<noteq> 0))]"

definition logic_or :: "(matcher \<times> operation) list" where
  "logic_or =
     [(match2 CHR ''|'' CHR ''|'', \<lambda>left right. truth (left \<noteq> 0 \<or> right \<noteq> 0)),
      (match_keyword ''or'', \<lambda>left right. truth (left \<noteq> 0 \<or> right \<noteq> 0))]"

text \<open>The levels, from the loosest, 0, to the tightest, 8.\<close>

definition operators :: "nat \<Rightarrow> (matcher \<times> operation) list" where
  "operators level =
     [logic_or, logic_and, bitwise_or, bitwise_xor, bitwise_and, equality, comparison, additive, multiplicative] ! level"

primrec try_operators :: "(matcher \<times> operation) list \<Rightarrow> Parser \<Rightarrow> operation option \<times> Parser" where
  "try_operators [] p = (None, p)"
| "try_operators (op # ops) p = (case fst op p of (found, p1) \<Rightarrow> if found then (Some (snd op), p1) else try_operators ops p1)"

section \<open>The parser\<close>

text \<open>\<open>Binary l\<close> starts a level; \<open>More l left\<close> is the loop of that level.\<close>

datatype mode = Binary nat | More nat u16 | Unary | Primary

definition operand :: "nat \<Rightarrow> mode" where
  "operand level = (if level < 8 then Binary (Suc level) else Unary)"

type_synonym 'd parsed = "(u16 \<times> Parser, 'd machine) outcome option"

definition bind_parse :: "'d parsed \<Rightarrow> (u16 \<Rightarrow> Parser \<Rightarrow> 'd machine \<Rightarrow> 'd parsed) \<Rightarrow> 'd parsed" where
  "bind_parse r f = (case r of None \<Rightarrow> None | Some (Trap m) \<Rightarrow> Some (Trap m) | Some (Done x m) \<Rightarrow> f (fst x) (snd x) m)"

lemma bind_parse_mono [partial_function_mono]:
  fixes r :: "('x \<Rightarrow> 'y option) \<Rightarrow> 'd parsed"
    and g :: "('x \<Rightarrow> 'y option) \<Rightarrow> u16 \<Rightarrow> Parser \<Rightarrow> 'd machine \<Rightarrow> 'd parsed"
  assumes "mono_option r" "\<And>v p m. mono_option (\<lambda>f. g f v p m)"
  shows "mono_option (\<lambda>f. bind_parse (r f) (g f))"
  unfolding bind_parse_def
proof (rule monotoneI)
  fix f h :: "'x \<Rightarrow> 'y option" assume o: "fun_ord option_ord f h"
  have r: "option_ord (r f) (r h)" using assms(1) o by (auto simp: monotone_on_def)
  have g: "option_ord (g f v p m) (g h v p m)" for v p m
    using assms(2) [of v p m] o by (auto simp: monotone_on_def)
  show "option_ord (case r f of None \<Rightarrow> None | Some (Trap m) \<Rightarrow> Some (Trap m) | Some (Done x m) \<Rightarrow> g f (fst x) (snd x) m)
      (case r h of None \<Rightarrow> None | Some (Trap m) \<Rightarrow> Some (Trap m) | Some (Done x m) \<Rightarrow> g h (fst x) (snd x) m)"
  proof (cases "r f")
    case (Some out)
    then have "r h = Some out" using r by (auto simp: flat_ord_def)
    then show ?thesis using Some g by (cases out) (simp_all add: flat_ord_def)
  qed (simp add: flat_ord_def)
qed

definition finish :: "u16 \<Rightarrow> Parser \<Rightarrow> 'd machine \<Rightarrow> 'd parsed" where
  "finish v p m = Some (Done (v, p) m)"

definition read_value :: "u16 \<Rightarrow> Parser \<Rightarrow> 'd machine \<Rightarrow> 'd parsed" where
  "read_value a p m = Some (bind_out (mms_read_virtual_memory (ucast a) False) (\<lambda>v. Done (v, p)) m)"

definition literal :: "Parser \<Rightarrow> 'd machine \<Rightarrow> 'd parsed" where
  "literal p m =
     (case parse_number p of
        (Some v, p1) \<Rightarrow> finish v p1 m
      | (None, p1) \<Rightarrow> (case parse_identifier (g_reg m) p1 of
          (Some v, p2) \<Rightarrow> finish v p2 m
        | (None, p2) \<Rightarrow> finish 0 (set_error Unexpected_token p2) m))"

definition close_with :: "char \<Rightarrow> parse_error \<Rightarrow> Parser \<Rightarrow> Parser" where
  "close_with c e p = (case match_char c p of (found, p1) \<Rightarrow> if found then p1 else set_error e p1)"

text \<open>\<open>prefix\<close>: the operator a unary expression starts with, tried in the order of the code.\<close>

definition unary_prefixes :: "(matcher \<times> (u16 \<Rightarrow> u16)) list" where
  "unary_prefixes =
     [(match_char CHR ''~'', \<lambda>v. NOT v), (match1 CHR ''!'' CHR ''='', \<lambda>v. if v \<noteq> 0 then 0 else 1),
      (match_keyword ''not'', \<lambda>v. if v \<noteq> 0 then 0 else 1), (match1 CHR ''-'' NUL, \<lambda>v. - v)]"

primrec try_prefixes :: "(matcher \<times> (u16 \<Rightarrow> u16)) list \<Rightarrow> Parser \<Rightarrow> (u16 \<Rightarrow> u16) option \<times> Parser" where
  "try_prefixes [] p = (None, p)"
| "try_prefixes (op # ops) p = (case fst op p of (found, p1) \<Rightarrow> if found then (Some (snd op), p1) else try_prefixes ops p1)"

partial_function (option) parse :: "mode \<Rightarrow> Parser \<Rightarrow> 'd machine \<Rightarrow> 'd parsed" where
  "parse mode p m =
     (case mode of
        Primary \<Rightarrow>
          if has_error p then finish 0 p m
          else (case match_char CHR ''('' (skip_ws p) of (paren, p1) \<Rightarrow>
            if paren then bind_parse (parse (Binary 0) p1 m) (\<lambda>v p2. finish v (close_with CHR '')'' Expected_parenthesis p2))
            else (case match_char CHR ''['' p1 of (bracket, p2) \<Rightarrow>
              if bracket
              then bind_parse (parse (Binary 0) p2 m) (\<lambda>v p3 m3.
                     let p4 = close_with CHR '']'' Expected_bracket p3
                     in if \<not> has_error p4 then read_value v p4 m3 else finish 0 p4 m3)
              else literal p2 m))
      | Unary \<Rightarrow>
          if has_error p then finish 0 p m
          else (case try_prefixes unary_prefixes (skip_ws p) of (prefix, p1) \<Rightarrow>
            (case prefix of Some f \<Rightarrow> bind_parse (parse Unary p1 m) (\<lambda>v. finish (f v))
             | None \<Rightarrow> parse Primary p1 m))
      | Binary level \<Rightarrow>
          bind_parse (parse (operand level) p m)
            (\<lambda>left p1 m1. if has_error p1 then finish 0 p1 m1 else parse (More level left) p1 m1)
      | More level left \<Rightarrow>
          (case try_operators (operators level) (skip_ws p) of (found, p1) \<Rightarrow>
            (case found of None \<Rightarrow> finish left p1 m
             | Some f \<Rightarrow>
                 bind_parse (parse (operand level) p1 m) (\<lambda>right p2 m2.
                   case f left right of
                     Inl e \<Rightarrow> finish 0 (set_error e p2) m2
                   | Inr v \<Rightarrow> if has_error p2 then finish 0 p2 m2 else parse (More level v) p2 m2))))"

declare parse.simps [code]

definition expr_eval_value :: "string \<Rightarrow> 'd machine \<Rightarrow> (u16 \<times> parse_error option, 'd machine) outcome option" where
  "expr_eval_value expr m =
     (if expr = [] then Some (Done (0, Some Empty_expression) m)
      else case parse (Binary 0) \<lparr>pos = expr, perror = None\<rparr> m of
             None \<Rightarrow> None
           | Some (Trap m1) \<Rightarrow> Some (Trap m1)
           | Some (Done x m1) \<Rightarrow>
               let p1 = skip_ws (snd x);
                   p2 = (if \<not> has_error p1 \<and> peek 0 p1 \<noteq> NUL then set_error Unexpected_characters p1 else p1)
               in Some (Done (if has_error p2 then 0 else fst x, perror p2) m1))"

text \<open>The caller always passes an address for the error.\<close>

definition expr_eval_condition :: "string \<Rightarrow> 'd machine \<Rightarrow> (bool \<times> parse_error option, 'd machine) outcome option" where
  "expr_eval_condition expr m =
     map_option (\<lambda>out. bind_out (\<lambda>_. out) (\<lambda>(v, e). Done (e = None \<and> v \<noteq> 0, e)) m) (expr_eval_value expr m)"

end
