(* ===== verification/ExprLaws.thy ===== *)
theory ExprLaws
  imports Expr
begin

text \<open>
  The expression evaluator returns on every text. A matcher that succeeds eats a character, and the
  modes of the parser are ranked by how deep they stand, so the text that remains and the rank
  together decrease.
\<close>

section \<open>Termination\<close>

abbreviation len :: "Parser \<Rightarrow> nat" where "len p \<equiv> length (pos p)"

lemma skip_ws_sel [simp]: "perror (skip_ws p) = perror p" "has_error (skip_ws p) = has_error p"
  by (simp_all add: skip_ws_def has_error_def)

lemma skip_length: "len (skip_ws p) \<le> len p"
  by (simp add: skip_ws_def length_dropWhile_le)

lemma consume_sel [simp]: "perror (consume k p) = perror p" "len (consume k p) = len p - k"
  by (simp_all add: consume_def)

lemma set_error_sel [simp]: "len (set_error e p) = len p" "has_error (set_error e p)"
  by (simp_all add: set_error_def has_error_def)

text \<open>A matcher eats at least a character when it matches.\<close>

definition eats :: "(Parser \<Rightarrow> bool \<times> Parser) \<Rightarrow> bool" where
  "eats f \<longleftrightarrow> (\<forall>p. len (snd (f p)) \<le> len p \<and> (fst (f p) \<longrightarrow> len (snd (f p)) < len p))"

lemma eatsD: "eats f \<Longrightarrow> f p = (b, q) \<Longrightarrow> len q \<le> len p \<and> (b \<longrightarrow> len q < len p)"
  unfolding eats_def by (metis fst_conv snd_conv)

lemma peek_in: "peek 0 p \<noteq> NUL \<Longrightarrow> 0 < len p"
  by (simp add: peek_def split: if_splits)

lemma eats_consume:
  assumes "b \<Longrightarrow> 0 < len (skip_ws p)" "0 < k"
  shows "len (snd (if b then (True, consume k (skip_ws p)) else (False, skip_ws p))) \<le> len p
     \<and> (fst (if b then (True, consume k (skip_ws p)) else (False, skip_ws p)) \<longrightarrow>
        len (snd (if b then (True, consume k (skip_ws p)) else (False, skip_ws p))) < len p)"
  using assms skip_length [of p] by (cases b) (simp_all del: length_greater_0_conv, arith)

lemma matchers_eat:
  "c \<noteq> NUL \<Longrightarrow> eats (match_char c)" "c \<noteq> NUL \<Longrightarrow> eats (match1 c d)" "c \<noteq> NUL \<Longrightarrow> eats (match2 c d)"
  "w \<noteq> [] \<Longrightarrow> eats (match_keyword w)"
  unfolding eats_def match_char_def match1_def match2_def match_keyword_def Let_def
  by (intro allI eats_consume; use peek_in in fastforce)+

lemma try_operators_eat: "\<forall>op\<in>set ops. eats (fst op) \<Longrightarrow> try_operators ops p = (r, p1) \<Longrightarrow>
    len p1 \<le> len p \<and> (r \<noteq> None \<longrightarrow> len p1 < len p)"
proof (induction ops arbitrary: p)
  case (Cons op ops)
  obtain b q where q: "fst op p = (b, q)" by (cases "fst op p")
  have "len q \<le> len p" "b \<longrightarrow> len q < len p" using Cons.prems(1) eatsD [where f = "fst op", OF _ q] by auto
  then show ?case using Cons.IH [of q] Cons.prems q by (auto split: if_splits)
qed simp

lemma try_prefixes_eat: "\<forall>op\<in>set ops. eats (fst op) \<Longrightarrow> try_prefixes ops p = (r, p1) \<Longrightarrow>
    len p1 \<le> len p \<and> (r \<noteq> None \<longrightarrow> len p1 < len p)"
proof (induction ops arbitrary: p)
  case (Cons op ops)
  obtain b q where q: "fst op p = (b, q)" by (cases "fst op p")
  have "len q \<le> len p" "b \<longrightarrow> len q < len p" using Cons.prems(1) eatsD [where f = "fst op", OF _ q] by auto
  then show ?case using Cons.IH [of q] Cons.prems q by (auto split: if_splits)
qed simp

lemmas operator_tables = multiplicative_def additive_def comparison_def equality_def bitwise_and_def bitwise_xor_def bitwise_or_def
  logic_and_def logic_or_def

lemma operators_eat: "level \<le> 8 \<Longrightarrow> \<forall>op\<in>set (operators level). eats (fst op)"
  by (auto simp: operators_def operator_tables le_Suc_eq numeral_eq_Suc intro: matchers_eat)

lemma prefixes_eat: "\<forall>op\<in>set unary_prefixes. eats (fst op)"
  by (simp add: unary_prefixes_def matchers_eat)

lemma strtoul_length: "strtoul s b = (v, rest) \<Longrightarrow> length rest \<le> length s"
  by (auto simp: strtoul_def Let_def intro: order_trans [OF length_dropWhile_le] split: if_splits)

lemma number_length: "parse_number p = (r, q) \<Longrightarrow> len q \<le> len p"
  using skip_length [of p] by (auto simp: parse_number_def Let_def split: if_splits prod.splits dest!: strtoul_length)

lemma identifier_length: "parse_identifier r p = (v, q) \<Longrightarrow> len q \<le> len p"
  using skip_length [of p] length_dropWhile_le [of is_ident "pos (skip_ws p)"]
  by (auto simp: parse_identifier_def Let_def split: if_splits option.splits)

lemma close_length: "c \<noteq> NUL \<Longrightarrow> len (close_with c e p) \<le> len p"
  using matchers_eat(1) [of c] by (auto simp: close_with_def eats_def split: prod.split dest!: spec [of _ p])

text \<open>What every part of the parser does: it returns, and no text is put back.\<close>

definition returns :: "Parser \<Rightarrow> 'd parsed \<Rightarrow> bool" where
  "returns p r \<longleftrightarrow> (\<exists>out. r = Some out \<and> (\<forall>v q m. out = Done (v, q) m \<longrightarrow> len q \<le> len p))"

lemma returns_finish: "returns p (finish v q m) \<longleftrightarrow> len q \<le> len p"
  by (auto simp: returns_def finish_def)

lemma returns_bind:
  assumes "returns q r" "len q \<le> len p" "\<And>v q' m. len q' \<le> len q \<Longrightarrow> returns p (f v q' m)"
  shows "returns p (bind_parse r f)"
proof -
  obtain out where out: "r = Some out" "\<And>v q' m. out = Done (v, q') m \<Longrightarrow> len q' \<le> len q" using assms(1) by (auto simp: returns_def)
  show ?thesis
  proof (cases out)
    case (Done x m)
    then show ?thesis using out assms(3) [of "snd x" "fst x" m] by (cases x) (simp add: bind_parse_def)
  qed (use out in \<open>simp add: bind_parse_def returns_def\<close>)
qed

lemma returns_literal: "returns p (literal p m)"
  using number_length [of p] identifier_length
  by (fastforce simp: literal_def returns_finish split: prod.split option.split intro: order_trans)

lemma returns_read: "len q \<le> len p \<Longrightarrow> returns p (read_value a q m)"
  by (auto simp: read_value_def returns_def bind_out_def split: outcome.splits)

fun rank :: "mode \<Rightarrow> nat" where
  "rank (Binary level) = 12 - level"
| "rank Unary = 3"
| "rank Primary = 2"
| "rank (More level v) = 1"

fun level_ok :: "mode \<Rightarrow> bool" where
  "level_ok (Binary level) \<longleftrightarrow> level \<le> 8"
| "level_ok (More level v) \<longleftrightarrow> level \<le> 8"
| "level_ok _ \<longleftrightarrow> True"

lemma operand_ok: "level \<le> 8 \<Longrightarrow> level_ok (operand level)" "level \<le> 8 \<Longrightarrow> rank (operand level) < rank (Binary level)"
  "rank (operand level) \<le> 12"
  by (auto simp: operand_def)

lemma parse_returns_ok: "level_ok mode \<Longrightarrow> returns p (parse mode p m)"
proof (induction "16 * len p + rank mode" arbitrary: mode p m rule: less_induct)
  case less
  note IH = less.hyps and ok = less.prems
  have weaken: "returns q r \<Longrightarrow> len q \<le> len p \<Longrightarrow> returns p r" for q and r :: "'a parsed"
    by (fastforce simp: returns_def)
  show ?case
  proof (cases mode)
    case (Binary level)
    have "returns p (parse (operand level) p m)" using IH operand_ok [of level] ok Binary by auto
    then show ?thesis
      unfolding Binary parse.simps [of "Binary level" p m] mode.case
      using ok Binary by (intro returns_bind) (auto simp: returns_finish intro!: weaken [OF IH])
  next
    case (More level left)
    obtain r p1 where t: "try_operators (operators level) (skip_ws p) = (r, p1)" by (cases "try_operators (operators level) (skip_ws p)")
    have l: "len p1 \<le> len p" "r \<noteq> None \<longrightarrow> len p1 < len p"
      using try_operators_eat [OF operators_eat t] skip_length [of p] ok More by auto
    show ?thesis
    proof (cases r)
      case (Some f)
      then have "returns p1 (parse (operand level) p1 m)" using IH [of p1 "operand level"] operand_ok [of level] l ok More by auto
      then show ?thesis
        unfolding More parse.simps [of "More level left" p m] mode.case t prod.case Some option.case
        using l Some ok More
        by (intro returns_bind) (auto simp: returns_finish split: sum.split intro!: weaken [OF IH])
    qed (use l in \<open>simp add: parse.simps [of "More level left" p m] More t returns_finish\<close>)
  next
    case Unary
    obtain r p1 where t: "try_prefixes unary_prefixes (skip_ws p) = (r, p1)" by (cases "try_prefixes unary_prefixes (skip_ws p)")
    have l: "len p1 \<le> len p" "r \<noteq> None \<longrightarrow> len p1 < len p"
      using try_prefixes_eat [OF prefixes_eat t] skip_length [of p] by auto
    have "returns p1 (parse Unary p1 m)" if "r \<noteq> None" using IH [of p1 Unary] l that Unary by simp
    moreover have "returns p1 (parse Primary p1 m)" using IH [of p1 Primary] l Unary by simp
    ultimately show ?thesis
      using l by (cases r) (auto simp: parse.simps [of Unary p m] Unary t returns_finish intro!: returns_bind intro: weaken)
  next
    case Primary
    obtain b1 p1 where t1: "match_char CHR ''('' (skip_ws p) = (b1, p1)" by (cases "match_char CHR ''('' (skip_ws p)")
    obtain b2 p2 where t2: "match_char CHR ''['' p1 = (b2, p2)" by (cases "match_char CHR ''['' p1")
    have l: "len p1 \<le> len p" "b1 \<longrightarrow> len p1 < len p" "len p2 \<le> len p1" "b2 \<longrightarrow> len p2 < len p1"
      using eatsD [OF matchers_eat(1) t1] eatsD [OF matchers_eat(1) t2] skip_length [of p] by auto
    have paren: "returns p1 (parse (Binary 0) p1 m)" if b1 using IH [of p1 "Binary 0"] l that Primary by simp
    have bracket: "returns p2 (parse (Binary 0) p2 m)" if b2 using IH [of p2 "Binary 0"] l that Primary by simp
    have c: "len (close_with CHR '')'' e q) \<le> len p" "len (close_with CHR '']'' e q) \<le> len p" if "len q \<le> len p" for e q
      using that by (auto intro: order_trans [OF close_length])
    show ?thesis
      unfolding Primary parse.simps [of Primary p m] mode.case t1 prod.case t2
      using l paren bracket returns_literal [of p2 m]
      by (auto simp: returns_finish Let_def intro!: returns_bind returns_read c intro: weaken)
  qed
qed


text \<open>C39
  Termination: evaluating any text, however it is nested and however wrong, returns, with a value
  or with an error, or leaves through a fault of the memory it reads; with an error the value is 0.
\<close>

theorem expression_returns:
  "\<exists>out. expr_eval_value s m = Some out \<and>
     (case out of Trap m' \<Rightarrow> True | Done x m' \<Rightarrow> (case snd x of None \<Rightarrow> True | Some e \<Rightarrow> fst x = 0))"
proof (cases "s = []")
  case True
  then show ?thesis by (simp add: expr_eval_value_def)
next
  case False
  have "returns \<lparr>pos = s, perror = None\<rparr> (parse (Binary 0) \<lparr>pos = s, perror = None\<rparr> m)" by (rule parse_returns_ok) simp
  then obtain out where p: "parse (Binary 0) \<lparr>pos = s, perror = None\<rparr> m = Some out" by (auto simp: returns_def)
  show ?thesis
    using False unfolding expr_eval_value_def p by (cases out) (simp_all add: Let_def has_error_def split: option.split)
qed

end
