(* ===== verification/ExprTrees.thy ===== *)
theory ExprTrees
  imports ExprLaws
begin

text \<open>
  The expression evaluator against its grammar. A tree of operators, registers, numbers and memory
  references has a value, and it can be printed in every notation the grammar knows; reading the
  printed text gives the value. First the trees, then the tokens (operators, numbers, names), then
  the levels: \<open>reads\<close>, \<open>reads_operand\<close> and \<open>reads_unary\<close> state it for a level, for an operand of a
  level and for a unary expression, each followed by any text that may follow it.
\<close>

section \<open>Expressions and their notation\<close>

text \<open>The operators, each spelling on its own.\<close>

datatype binary = Times | Over | Rem | Plus | Minus | Greater_eq | Less_eq | Greater | Less | Eq2 | Eq1 | Not_eq
  | And_bits | Xor_bits | Or_bits | And2 | And_word | Or2 | Or_word
datatype unary = Complement | Bang | Not_word | Negate
datatype radix = Decimal | Octal | Hexadecimal
datatype expression = Number radix u16 | Register string | Memory expression | Unop unary expression | Binop binary expression expression

fun level :: "binary \<Rightarrow> nat" where
  "level Times = 8" | "level Over = 8" | "level Rem = 8" | "level Plus = 7" | "level Minus = 7"
| "level Greater_eq = 6" | "level Less_eq = 6" | "level Greater = 6" | "level Less = 6"
| "level Eq2 = 5" | "level Eq1 = 5" | "level Not_eq = 5" | "level And_bits = 4" | "level Xor_bits = 3" | "level Or_bits = 2"
| "level And2 = 1" | "level And_word = 1" | "level Or2 = 0" | "level Or_word = 0"

fun symbol :: "binary \<Rightarrow> string" where
  "symbol Times = ''*''" | "symbol Over = ''/''" | "symbol Rem = ''%''" | "symbol Plus = ''+''" | "symbol Minus = ''-''"
| "symbol Greater_eq = ''>=''" | "symbol Less_eq = ''<=''" | "symbol Greater = ''>''" | "symbol Less = ''<''"
| "symbol Eq2 = ''==''" | "symbol Eq1 = ''=''" | "symbol Not_eq = ''!=''" | "symbol And_bits = ''&''" | "symbol Xor_bits = ''^''"
| "symbol Or_bits = ''|''" | "symbol And2 = ''&&''" | "symbol And_word = ''and''" | "symbol Or2 = ''||''" | "symbol Or_word = ''or''"

fun apply_binary :: "binary \<Rightarrow> operation" where
  "apply_binary Times a b = Inr (a * b)"
| "apply_binary Over a b = (if b = 0 then Inl Division_by_zero else Inr (a div b))"
| "apply_binary Rem a b = (if b = 0 then Inl Modulo_by_zero else Inr (a mod b))"
| "apply_binary Plus a b = Inr (a + b)"
| "apply_binary Minus a b = Inr (a - b)"
| "apply_binary Greater_eq a b = truth (a \<ge> b)"
| "apply_binary Less_eq a b = truth (a \<le> b)"
| "apply_binary Greater a b = truth (a > b)"
| "apply_binary Less a b = truth (a < b)"
| "apply_binary Eq2 a b = truth (a = b)"
| "apply_binary Eq1 a b = truth (a = b)"
| "apply_binary Not_eq a b = truth (a \<noteq> b)"
| "apply_binary And_bits a b = Inr (a AND b)"
| "apply_binary Xor_bits a b = Inr (a XOR b)"
| "apply_binary Or_bits a b = Inr (a OR b)"
| "apply_binary And2 a b = truth (a \<noteq> 0 \<and> b \<noteq> 0)"
| "apply_binary And_word a b = truth (a \<noteq> 0 \<and> b \<noteq> 0)"
| "apply_binary Or2 a b = truth (a \<noteq> 0 \<or> b \<noteq> 0)"
| "apply_binary Or_word a b = truth (a \<noteq> 0 \<or> b \<noteq> 0)"

fun prefix_symbol :: "unary \<Rightarrow> string" where
  "prefix_symbol Complement = ''~''" | "prefix_symbol Bang = ''!''" | "prefix_symbol Not_word = ''not ''" | "prefix_symbol Negate = ''-''"

fun apply_unary :: "unary \<Rightarrow> u16 \<Rightarrow> u16" where
  "apply_unary Complement v = NOT v"
| "apply_unary Bang v = (if v \<noteq> 0 then 0 else 1)"
| "apply_unary Not_word v = (if v \<noteq> 0 then 0 else 1)"
| "apply_unary Negate v = - v"

text \<open>The value of a tree: both operands are always evaluated, from left to right.\<close>

fun evaluate :: "expression \<Rightarrow> (parse_error + u16, 'd) exec" where
  "evaluate (Number b n) m = Done (Inr n) m"
| "evaluate (Register s) m = Done (case lookup_register s (g_reg m) of Some v \<Rightarrow> Inr v | None \<Rightarrow> Inl Unknown_register) m"
| "evaluate (Memory e) m =
     bind_out (evaluate e) (\<lambda>x. case x of Inl err \<Rightarrow> Done (Inl err)
       | Inr a \<Rightarrow> bind_out (mms_read_virtual_memory (ucast a) False) (\<lambda>v. Done (Inr v))) m"
| "evaluate (Unop u e) m = bind_out (evaluate e) (\<lambda>x. case x of Inl err \<Rightarrow> Done (Inl err) | Inr v \<Rightarrow> Done (Inr (apply_unary u v))) m"
| "evaluate (Binop op a b) m =
     bind_out (evaluate a) (\<lambda>x. case x of Inl err \<Rightarrow> Done (Inl err)
       | Inr v \<Rightarrow> bind_out (evaluate b) (\<lambda>y. case y of Inl err \<Rightarrow> Done (Inl err) | Inr w \<Rightarrow> Done (apply_binary op v w))) m"

definition show_digit :: "nat \<Rightarrow> char" where
  "show_digit d = char_of (if d < 10 then 48 + d else 87 + d)"

fun digits :: "nat \<Rightarrow> nat \<Rightarrow> string" where
  "digits b n = (if b \<le> 1 \<or> n < b then [show_digit n] else digits b (n div b) @ [show_digit (n mod b)])"

declare digits.simps [simp del]

fun show_number :: "radix \<Rightarrow> u16 \<Rightarrow> string" where
  "show_number Decimal n = digits 10 (unat n)"
| "show_number Octal n = ''0'' @ digits 8 (unat n)"
| "show_number Hexadecimal n = ''0x'' @ digits 16 (unat n)"

text \<open>Printing inside an operand of level \<open>k\<close>, with parentheses only where they are needed.\<close>

fun show_expr :: "nat \<Rightarrow> expression \<Rightarrow> string" where
  "show_expr k (Number b n) = show_number b n"
| "show_expr k (Register s) = s"
| "show_expr k (Memory e) = ''['' @ show_expr 0 e @ '']''"
| "show_expr k (Unop u e) = prefix_symbol u @ show_expr 9 e"
| "show_expr k (Binop op a b) =
     (let s = show_expr (level op) a @ '' '' @ symbol op @ '' '' @ show_expr (Suc (level op)) b
      in if level op < k then ''('' @ s @ '')'' else s)"

definition main_names :: "string list" where
  "main_names = [''A'', ''B'', ''D'', ''T'', ''X'', ''L'', ''P'', ''PC'', ''STS'', ''PIL'', ''EA'']"
definition internal_names :: "string list" where
  "internal_names = [''PANS'', ''PANC'', ''OPR'', ''LMP'', ''PGS'', ''PVL'', ''IIC'', ''IID'', ''PID'', ''PIE'', ''CSR'', ''CCL'', ''ALD'', ''PES'',
     ''PGC'', ''PEA'', ''ECCR'']"
definition scratch_names :: "string list" where
  "scratch_names = [''U0'', ''U1'', ''U2'', ''U3'', ''U4'', ''U5'', ''U6'', ''U7'']"
definition register_names :: "string list" where
  "register_names = main_names @ internal_names @ scratch_names"

definition a_name :: "string \<Rightarrow> bool" where "a_name s \<longleftrightarrow> map toupper s \<in> set register_names"

fun known_registers :: "expression \<Rightarrow> bool" where
  "known_registers (Number b n) \<longleftrightarrow> True"
| "known_registers (Register s) \<longleftrightarrow> a_name s"
| "known_registers (Memory e) \<longleftrightarrow> known_registers e"
| "known_registers (Unop u e) \<longleftrightarrow> known_registers e"
| "known_registers (Binop op a b) \<longleftrightarrow> known_registers a \<and> known_registers b"


section \<open>Reading single tokens\<close>

abbreviation reading :: "string \<Rightarrow> Parser" where "reading s \<equiv> \<lparr>pos = s, perror = None\<rparr>"

lemma peek_simps [simp]:
  "peek 0 (reading (c # s)) = c" "peek (Suc k) (reading (c # s)) = peek k (reading s)" "peek k (reading []) = NUL"
  by (simp_all add: peek_def)

lemma skip_simps [simp]:
  "skip_ws (reading (c # s)) = (if c = CHR '' '' \<or> c = CHR 0x09 then skip_ws (reading s) else reading (c # s))" "skip_ws (reading []) = reading []"
  "skip_ws (skip_ws p) = skip_ws p"
  by (simp_all add: skip_ws_def dropWhile_idem is_blank_def)

lemma reading_sel [simp]: "\<not> has_error (reading s)" "consume k (reading s) = reading (drop k s)"
  by (simp_all add: has_error_def consume_def)

lemmas matcher_defs = match_char_def match1_def match2_def match_keyword_def Let_def

text \<open>What follows a printed operand of level above \<open>k\<close>: the end, a closing bracket, or an operator up to that level.\<close>

definition closes :: "string \<Rightarrow> bool" where
  "closes rest \<longleftrightarrow> rest = [] \<or> (\<exists>s. rest = CHR '')'' # s) \<or> (\<exists>s. rest = CHR '']'' # s)"

definition tails :: "nat \<Rightarrow> string \<Rightarrow> bool" where
  "tails k rest \<longleftrightarrow> closes rest \<or> (\<exists>op s. level op \<le> k \<and> rest = CHR '' '' # symbol op @ CHR '' '' # s)"

lemma operators_simps:
  "operators 0 = logic_or" "operators (Suc 0) = logic_and" "operators 2 = bitwise_or" "operators 3 = bitwise_xor" "operators 4 = bitwise_and"
  "operators 5 = equality" "operators 6 = comparison" "operators 7 = additive" "operators 8 = multiplicative"
  by (simp_all add: operators_def)

lemma levels: "j \<le> 8 \<Longrightarrow> j = 0 \<or> j = Suc 0 \<or> j = 2 \<or> j = 3 \<or> j = 4 \<or> j = 5 \<or> j = 6 \<or> j = 7 \<or> (j :: nat) = 8"
  by linarith

lemma lower_simps [simp]: "tolower CHR '')'' = CHR '')''" "tolower CHR '']'' = CHR '']''" "tolower CHR ''a'' = CHR ''a''"
  "tolower CHR ''n'' = CHR ''n''" "tolower CHR ''d'' = CHR ''d''" "tolower CHR ''o'' = CHR ''o''" "tolower CHR ''r'' = CHR ''r''"
  "tolower CHR ''t'' = CHR ''t''" "tolower CHR ''*'' = CHR ''*''" "tolower CHR ''/'' = CHR ''/''" "tolower CHR ''%'' = CHR ''%''"
  "tolower CHR ''+'' = CHR ''+''" "tolower CHR ''-'' = CHR ''-''" "tolower CHR ''>'' = CHR ''>''" "tolower CHR ''<'' = CHR ''<''"
  "tolower CHR ''='' = CHR ''=''" "tolower CHR ''!'' = CHR ''!''" "tolower CHR ''&'' = CHR ''&''" "tolower CHR ''^'' = CHR ''^''"
  "tolower CHR ''|'' = CHR ''|''" "tolower CHR ''~'' = CHR ''~''" "tolower CHR ''('' = CHR ''(''" "tolower CHR ''['' = CHR ''[''"
  by (simp_all add: tolower_def)

lemma blank_not_ident [simp]: "\<not> is_ident CHR '' ''" "\<not> is_ident CHR '')''" "\<not> is_ident CHR '']''"
  by (simp_all add: is_ident_def isalnum_def isalpha_def isdigit_def)

lemma closes_stops: "closes rest \<Longrightarrow> j \<le> 8 \<Longrightarrow> try_operators (operators j) (reading rest) = (None, reading rest)"
  by (drule levels) (auto simp: closes_def operators_simps operator_tables matcher_defs)

lemma symbol_stops:
  assumes "level op < j" "j \<le> 8"
  shows "try_operators (operators j) (reading (symbol op @ CHR '' '' # s)) = (None, reading (symbol op @ CHR '' '' # s))"
  using levels [OF assms(2)] assms(1)
  by (cases op; elim disjE; simp add: operators_simps operator_tables matcher_defs)

lemma tails_stops:
  assumes "tails k rest" "k < j" "j \<le> 8"
  shows "try_operators (operators j) (skip_ws (reading rest)) = (None, skip_ws (reading rest))"
proof -
  consider "closes rest" | op s where "level op \<le> k" "rest = CHR '' '' # symbol op @ CHR '' '' # s"
    using assms(1) by (auto simp: tails_def)
  then show ?thesis
  proof cases
    case 1
    then have "skip_ws (reading rest) = reading rest" by (auto simp: closes_def)
    then show ?thesis using closes_stops [OF 1 assms(3)] by simp
  next
    case 2
    have "skip_ws (reading (symbol op @ CHR '' '' # s)) = reading (symbol op @ CHR '' '' # s)" by (cases op) simp_all
    then show ?thesis using symbol_stops [of op j s] 2 assms(2,3) by simp
  qed
qed

lemma symbol_found:
  "try_operators (operators (level op)) (skip_ws (reading (CHR '' '' # symbol op @ CHR '' '' # s))) = (Some (apply_binary op), reading (CHR '' '' # s))"
  by (cases op) (simp_all add: operators_simps operator_tables matcher_defs fun_eq_iff)


section \<open>Numbers and names\<close>

text \<open>What follows a token in a printed expression does not continue it.\<close>

definition delimits :: "string \<Rightarrow> bool" where
  "delimits rest \<longleftrightarrow> rest = [] \<or> (\<exists>c s. rest = c # s \<and> c \<in> {CHR '' '', CHR '')'', CHR '']''})"

lemma tails_delimits: "tails k rest \<Longrightarrow> delimits rest"
  by (auto simp: tails_def closes_def delimits_def)

lemma delimiter_chars [simp]: "c \<in> {CHR '' '', CHR '')'', CHR '']''} \<Longrightarrow> \<not> isalnum c \<and> \<not> is_ident c \<and> \<not> isdigit c"
  by (auto simp: is_ident_def isalnum_def isalpha_def isdigit_def)

lemma take_token:
  assumes "\<forall>c\<in>set s. P c" "delimits rest" "\<And>c. P c \<Longrightarrow> is_ident c"
  shows "takeWhile P (s @ rest) = s" "dropWhile P (s @ rest) = rest"
proof -
  have "\<not> P CHR '' ''" "\<not> P CHR '')''" "\<not> P CHR '']''" using assms(3) blank_not_ident by blast+
  then have "takeWhile P rest = [] \<and> dropWhile P rest = rest" using assms(2) by (auto simp: delimits_def)
  then show "takeWhile P (s @ rest) = s" "dropWhile P (s @ rest) = rest"
    using assms(1) by (simp_all add: takeWhile_append dropWhile_append)
qed

definition show_digit_ok :: "nat \<Rightarrow> bool" where
  "show_digit_ok d \<longleftrightarrow> digit_value (show_digit d) = d \<and> isalnum (show_digit d) \<and> (isdigit (show_digit d) \<longleftrightarrow> d < 10) \<and>
     (show_digit d = CHR ''0'' \<longleftrightarrow> d = 0) \<and> show_digit d \<notin> {NUL, CHR ''x'', CHR ''X''}"

lemma show_digits: "d < 16 \<Longrightarrow> show_digit_ok d"
proof -
  have "show_digit_ok 0" "show_digit_ok 1" "show_digit_ok 2" "show_digit_ok 3" "show_digit_ok 4" "show_digit_ok 5" "show_digit_ok 6"
    "show_digit_ok 7" "show_digit_ok 8" "show_digit_ok 9" "show_digit_ok 10" "show_digit_ok 11" "show_digit_ok 12" "show_digit_ok 13"
    "show_digit_ok 14" "show_digit_ok 15"
    by (simp_all add: show_digit_ok_def show_digit_def char_of_def bit_Suc_0_iff digit_value_def isalnum_def isalpha_def isdigit_def)
  moreover assume "d < 16"
  then have "d = 0 \<or> d = 1 \<or> d = 2 \<or> d = 3 \<or> d = 4 \<or> d = 5 \<or> d = 6 \<or> d = 7 \<or> d = 8 \<or> d = 9 \<or> d = 10 \<or> d = 11 \<or> d = 12
    \<or> d = 13 \<or> d = 14 \<or> d = 15" by presburger
  ultimately show ?thesis by (elim disjE) simp_all
qed

lemma show_digit_facts:
  assumes "d < 16"
  shows "digit_value (show_digit d) = d" "isalnum (show_digit d)" "isdigit (show_digit d) \<longleftrightarrow> d < 10" "show_digit d = CHR ''0'' \<longleftrightarrow> d = 0"
    "show_digit d \<noteq> NUL" "show_digit d \<noteq> CHR ''x''" "show_digit d \<noteq> CHR ''X''"
  using show_digits [OF assms] by (simp_all add: show_digit_ok_def)

lemma digits_of_base: "2 \<le> b \<Longrightarrow> b \<le> 16 \<Longrightarrow> c \<in> set (digits b n) \<Longrightarrow> \<exists>d<b. c = show_digit d"
proof (induction b n rule: digits.induct)
  case (1 b n)
  have "n mod b < b" using 1 by simp
  then show ?case using 1 by (subst (asm) (2) digits.simps) (auto split: if_splits intro: exI [of _ "n mod b"])
qed

lemma digits_value: "2 \<le> b \<Longrightarrow> b \<le> 16 \<Longrightarrow> number_of b (digits b n) = n"
proof (induction b n rule: digits.induct)
  case (1 b n)
  show ?case
  proof (cases "n < b")
    case True
    then show ?thesis using 1 by (subst digits.simps) (simp add: number_of_def show_digit_facts)
  next
    case False
    have "n mod b < b" using 1 by simp
    then have "n mod b < 16" using 1 by linarith
    then show ?thesis using 1 False by (subst digits.simps) (simp add: number_of_def show_digit_facts)
  qed
qed

lemma digits_head: "2 \<le> b \<Longrightarrow> b \<le> 16 \<Longrightarrow> \<exists>d ds. digits b n = show_digit d # ds \<and> d < b \<and> (d = 0 \<longrightarrow> n = 0 \<and> ds = [])"
proof (induction b n rule: digits.induct)
  case (1 b n)
  show ?case
  proof (cases "n < b")
    case True
    then show ?thesis by (subst digits.simps) auto
  next
    case False
    then obtain d ds where "digits b (n div b) = show_digit d # ds" "d < b" "d = 0 \<longrightarrow> n div b = 0" using 1 by auto
    moreover have "n div b \<noteq> 0" using False 1 by (simp add: div_eq_0_iff)
    ultimately show ?thesis using 1 False by (subst digits.simps) auto
  qed
qed

lemma strtoul_digits:
  assumes "2 \<le> b" "b \<le> 16" "delimits rest" "n < 2 ^ 16" "p = [] \<or> p = ''0x'' \<and> b = 16 \<or> p = ''0'' \<and> b = 8" "p = [] \<longrightarrow> b = 10"
  shows "strtoul (p @ digits b n @ rest) b = (n, rest)"
proof -
  have all: "\<forall>c\<in>set (digits b n). digit_of b c"
    using digits_of_base [OF assms(1,2)] assms(2) by (fastforce simp: digit_of_def show_digit_facts)
  have zero: "digit_of 8 CHR ''0''" by (simp add: digit_of_def digit_value_def isalnum_def isdigit_def)
  have t: "takeWhile (digit_of b) (s @ digits b n @ rest) = s @ digits b n" "dropWhile (digit_of b) (s @ digits b n @ rest) = rest"
    if "\<forall>c\<in>set s. digit_of b c" for s
    using take_token [of "s @ digits b n" "digit_of b" rest] all that assms(3) by (auto simp: digit_of_def is_ident_def)
  have n: "number_of 8 (CHR ''0'' # ds) = number_of 8 ds" for ds by (simp add: number_of_def digit_value_def isdigit_def)
  obtain d ds where h: "digits b n = show_digit d # ds" "d < b" using digits_head [OF assms(1,2)] by blast
  have small: "min n 18446744073709551615 = n" using assms(4) by simp
  consider "p = []" "b = 10" | "p = ''0x''" "b = 16" | "p = ''0''" "b = 8" using assms(5,6) by blast
  then show ?thesis
  proof cases
    case 1
    then show ?thesis using t [of "[]"] digits_value [OF assms(1,2)] small by (simp add: strtoul_def)
  next
    case 2
    have "digit_of 16 (show_digit d)" using all h 2 by simp
    then have x: "strtoul (''0x'' @ digits 16 n @ rest) 16 =
        (min (number_of 16 (takeWhile (digit_of 16) (digits 16 n @ rest))) (2 ^ 64 - 1), dropWhile (digit_of 16) (digits 16 n @ rest))"
      using h 2 by (simp add: strtoul_def)
    show ?thesis unfolding 2 x using t [of "[]"] digits_value [OF assms(1,2)] small 2 by simp
  next
    case 3
    then show ?thesis using t [of "''0''"] zero digits_value [OF assms(1,2)] small n by (simp add: strtoul_def)
  qed
qed

lemma u16_small: "unat (n :: u16) < 2 ^ 16"
  using unsigned_less [of n] by simp

lemma number_read:
  assumes "delimits rest"
  shows "parse_number (reading (show_number b n @ rest)) = (Some n, reading rest)"
proof -
  have r: "\<not> isdigit (peek 0 (reading rest))" "peek 0 (reading rest) \<notin> {CHR ''x'', CHR ''X''}"
    using assms by (auto simp: delimits_def isdigit_def)
  show ?thesis
  proof (cases b)
    case Decimal
    obtain d ds where h: "digits 10 (unat n) = show_digit d # ds" "d < 10" "d = 0 \<longrightarrow> unat n = 0 \<and> ds = []"
      using digits_head [of 10 "unat n"] by auto
    have "strtoul (digits 10 (unat n) @ rest) 10 = (unat n, rest)" using strtoul_digits [of 10 rest "unat n" "[]"] assms u16_small by simp
    moreover have "isdigit (show_digit d)" "show_digit d \<noteq> CHR '' ''" "show_digit d \<noteq> CHR 0x09"
      using h(2) show_digit_facts(3) [of d] by (auto simp: isdigit_def)
    moreover have "show_digit d = CHR ''0'' \<Longrightarrow> ds = []" using h(2,3) show_digit_facts(4) [of d] by simp
    ultimately show ?thesis using Decimal h(1) r by (auto simp: parse_number_def Let_def)
  next
    case Octal
    obtain d ds where h: "digits 8 (unat n) = show_digit d # ds" "d < 8" using digits_head [of 8 "unat n"] by auto
    have "strtoul (''0'' @ digits 8 (unat n) @ rest) 8 = (unat n, rest)" using strtoul_digits [of 8 rest "unat n" "''0''"] assms u16_small by simp
    then show ?thesis using Octal h show_digit_facts [of d] by (simp add: parse_number_def Let_def) (simp add: isdigit_def)
  next
    case Hexadecimal
    have "strtoul (''0x'' @ digits 16 (unat n) @ rest) 16 = (unat n, rest)" using strtoul_digits [of 16 rest "unat n" "''0x''"] assms u16_small by simp
    then show ?thesis using Hexadecimal by (simp add: parse_number_def Let_def) (simp add: isdigit_def)
  qed
qed

lemma char_of_code: "code c = n \<Longrightarrow> c = char_of n"
  by auto

lemma digit_0_7:
  assumes "48 \<le> code c" "code c \<le> 55"
  shows "c \<in> set ''01234567''"
proof -
  have "48 \<le> n \<Longrightarrow> n \<le> 55 \<Longrightarrow> n = 48 \<or> n = 49 \<or> n = 50 \<or> n = 51 \<or> n = 52 \<or> n = 53 \<or> n = 54 \<or> n = 55" for n :: nat by presburger
  from this [OF assms] show ?thesis by - (elim disjE; drule char_of_code; simp add: char_of_def bit_Suc_0_iff)
qed

lemma upper_kind: "isalpha (toupper c) = isalpha c" "isdigit (toupper c) = isdigit c" "toupper c = CHR ''_'' \<longleftrightarrow> c = CHR ''_''"
proof -
  show "isalpha (toupper c) = isalpha c" "isdigit (toupper c) = isdigit c" by (auto simp: toupper_def isalpha_def isdigit_def)
  show "toupper c = CHR ''_'' \<longleftrightarrow> c = CHR ''_''"
  proof
    assume "toupper c = CHR ''_''"
    then have "code (toupper c) = 95" by simp
    then have "code c = 95" by (simp add: toupper_def split: if_splits)
    from char_of_code [OF this] show "c = CHR ''_''" by (simp add: char_of_def bit_Suc_0_iff)
  qed (simp add: toupper_def)
qed

lemma upper_ident [simp]: "is_ident (toupper c) = is_ident c"
  by (simp add: is_ident_def isalnum_def upper_kind)

lemma lower_upper: "tolower c = CHR ''n'' \<Longrightarrow> toupper c = CHR ''N''"
proof -
  assume "tolower c = CHR ''n''"
  then have "code (tolower c) = 110" by simp
  then have "code c = 110 \<or> code c = 78" by (auto simp: tolower_def split: if_splits)
  then have "code (toupper c) = 78" by (auto simp: toupper_def)
  from char_of_code [OF this] show ?thesis by (simp add: char_of_def bit_Suc_0_iff)
qed

lemma name_tables:
  "buf \<in> set register_names \<longleftrightarrow> map_of (main_registers r) buf \<noteq> None \<or> map_of (internal_registers r) buf \<noteq> None \<or> buf \<in> set scratch_names"
proof -
  have "map fst (main_registers r) = main_names" by (simp add: main_registers_def main_names_def)
  then have m: "map_of (main_registers r) buf \<noteq> None \<longleftrightarrow> buf \<in> set main_names" unfolding map_of_eq_None_iff by (metis set_map)
  have "map fst (internal_registers r) = internal_names" by (simp add: internal_registers_def internal_names_def)
  then have i: "map_of (internal_registers r) buf \<noteq> None \<longleftrightarrow> buf \<in> set internal_names" unfolding map_of_eq_None_iff by (metis set_map)
  show ?thesis unfolding m i register_names_def set_append Un_iff ..
qed

lemma scratch_name:
  "length buf = 2 \<and> buf ! 0 = CHR ''U'' \<and> 48 \<le> code (buf ! 1) \<and> code (buf ! 1) \<le> 55 \<longleftrightarrow> buf \<in> set scratch_names" (is "?l \<longleftrightarrow> _")
proof
  assume ?l
  then obtain c where "buf = [CHR ''U'', c]" "c \<in> set ''01234567''"
    using digit_0_7 [of "buf ! 1"] by (cases buf; cases "tl buf") auto
  then show "buf \<in> set scratch_names" by (auto simp: scratch_names_def)
qed (auto simp: scratch_names_def)

lemma name_known: "a_name s \<longleftrightarrow> lookup_register s r \<noteq> None"
proof -
  have "\<forall>n\<in>set register_names. 0 < length n \<and> length n < 16" by (simp add: register_names_def main_names_def internal_names_def scratch_names_def)
  then have "a_name s \<Longrightarrow> 0 < length s \<and> length s < 16" unfolding a_name_def by fastforce
  moreover have "lookup_register s r \<noteq> None \<longleftrightarrow> map toupper s \<in> set register_names" if "0 < length s" "length s < 16"
    unfolding name_tables [of _ r] scratch_name [symmetric] using that
    by (auto simp: lookup_register_def Let_def lookup_internal_register_def split: option.split)
  moreover have "lookup_register s r \<noteq> None \<Longrightarrow> 0 < length s \<and> length s < 16" by (auto simp: lookup_register_def split: if_splits)
  ultimately show ?thesis unfolding a_name_def by blast
qed

lemma name_chars:
  assumes "a_name s"
  shows "\<forall>c\<in>set s. is_ident c" "\<exists>c t. s = c # t \<and> isalpha c \<and> tolower c \<noteq> CHR ''n''"
proof -
  have k: "\<forall>t\<in>set register_names. (\<forall>c\<in>set t. is_ident c) \<and> t \<noteq> [] \<and> isalpha (hd t) \<and> hd t \<noteq> CHR ''N''" by code_simp
  then have m: "\<forall>c\<in>set (map toupper s). is_ident c" "s \<noteq> []" "isalpha (hd (map toupper s))" "hd (map toupper s) \<noteq> CHR ''N''"
    using assms unfolding a_name_def by blast+
  then show "\<forall>c\<in>set s. is_ident c" by simp
  show "\<exists>c t. s = c # t \<and> isalpha c \<and> tolower c \<noteq> CHR ''n''"
    using m(2-4) lower_upper by (cases s) (auto simp: upper_kind)
qed

lemma name_read:
  assumes "a_name s" "delimits rest"
  shows "parse_number (reading (s @ rest)) = (None, reading (s @ rest))"
    "parse_identifier r (reading (s @ rest)) = (lookup_register s r, reading rest)"
proof -
  obtain c t where s: "s = c # t" "isalpha c" using name_chars [OF assms(1)] by blast
  then have c: "\<not> isdigit c" "c \<noteq> CHR '' ''" "c \<noteq> CHR 0x09" by (auto simp: isalpha_def isdigit_def)
  then have k: "skip_ws (reading (s @ rest)) = reading (s @ rest)" by (simp add: s)
  have t: "takeWhile is_ident (s @ rest) = s" "dropWhile is_ident (s @ rest) = rest"
    using take_token [OF name_chars(1) [OF assms(1)] assms(2)] by simp_all
  obtain v where v: "lookup_register s r = Some v" using assms(1) name_known by blast
  show "parse_number (reading (s @ rest)) = (None, reading (s @ rest))"
    unfolding parse_number_def k Let_def by (simp add: s c)
  show "parse_identifier r (reading (s @ rest)) = (lookup_register s r, reading rest)"
    unfolding parse_identifier_def k Let_def using t v s by simp
qed


section \<open>Where the parser starts\<close>

lemma parse_leading_blanks:
  assumes "\<not> has_error p"
  shows "parse Primary (skip_ws p) m = parse Primary p m" "parse Unary (skip_ws p) m = parse Unary p m"
    "k \<le> 8 \<Longrightarrow> parse (Binary k) (skip_ws p) m = parse (Binary k) p m"
proof -
  show u: "parse Unary (skip_ws p) m = parse Unary p m"
    unfolding parse.simps [of Unary "skip_ws p" m] parse.simps [of Unary p m] using assms by simp
  show "parse Primary (skip_ws p) m = parse Primary p m"
    unfolding parse.simps [of Primary "skip_ws p" m] parse.simps [of Primary p m] using assms by simp
  show "k \<le> 8 \<Longrightarrow> parse (Binary k) (skip_ws p) m = parse (Binary k) p m"
  proof (induction "8 - k" arbitrary: k)
    case 0
    then show ?case
      unfolding parse.simps [of "Binary k" "skip_ws p" m] parse.simps [of "Binary k" p m] mode.case by (simp add: operand_def u)
  next
    case (Suc n)
    then have "parse (Binary (Suc k)) (skip_ws p) m = parse (Binary (Suc k)) p m" by simp
    moreover have "operand k = Binary (Suc k)" using Suc.hyps(2) by (simp add: operand_def)
    ultimately show ?case
      unfolding parse.simps [of "Binary k" "skip_ws p" m] parse.simps [of "Binary k" p m] mode.case by simp
  qed
qed

lemma operand_blanks: "k \<le> 8 \<Longrightarrow> \<not> has_error p \<Longrightarrow> parse (operand k) (skip_ws p) m = parse (operand k) p m"
  by (simp add: operand_def parse_leading_blanks)

lemma more_blanks: "parse (More k v) (skip_ws p) m = parse (More k v) p m"
  unfolding parse.simps [of "More k v" "skip_ws p" m] parse.simps [of "More k v" p m] by simp

lemma more_stops: "tails k rest \<Longrightarrow> k < j \<Longrightarrow> j \<le> 8 \<Longrightarrow> parse (More j v) (reading rest) m = finish v (skip_ws (reading rest)) m"
  unfolding parse.simps [of "More j v" "reading rest" m] by (simp add: tails_stops)

lemma more_closes: "closes rest \<Longrightarrow> j \<le> 8 \<Longrightarrow> parse (More j v) (reading rest) m = finish v (reading rest) m"
  unfolding parse.simps [of "More j v" "reading rest" m] by (auto simp: closes_stops closes_def)

section \<open>A printed tree is read back\<close>

text \<open>A result stands for the outcome of a tree: it goes on with \<open>k\<close> when there is a value.\<close>

fun stands :: "'d parsed \<Rightarrow> (parse_error + u16, 'd machine) outcome \<Rightarrow> (u16 \<Rightarrow> 'd machine \<Rightarrow> 'd parsed) \<Rightarrow> bool" where
  "stands r (Trap m) k \<longleftrightarrow> r = Some (Trap m)"
| "stands r (Done (Inl e) m) k \<longleftrightarrow> (\<exists>v p. r = finish v p m \<and> perror p = Some e)"
| "stands r (Done (Inr v) m) k \<longleftrightarrow> r = k v m"

definition reads :: "nat \<Rightarrow> expression \<Rightarrow> 'd itself \<Rightarrow> bool" where
  "reads k e (_ :: 'd itself) \<longleftrightarrow>
     (\<forall>rest (m :: 'd machine). tails k rest \<longrightarrow>
        stands (parse (Binary k) (reading (show_expr k e @ rest)) m) (evaluate e m) (\<lambda>v. parse (More k v) (reading rest)))"

definition reads_unary :: "expression \<Rightarrow> 'd itself \<Rightarrow> bool" where
  "reads_unary e (_ :: 'd itself) \<longleftrightarrow>
     (\<forall>rest (m :: 'd machine). delimits rest \<longrightarrow>
        stands (parse Unary (reading (show_expr 9 e @ rest)) m) (evaluate e m) (\<lambda>v. finish v (reading rest)))"

text \<open>What an operand of level \<open>k\<close> leaves behind, up to blanks.\<close>

definition reads_operand :: "nat \<Rightarrow> expression \<Rightarrow> 'd itself \<Rightarrow> bool" where
  "reads_operand k e (_ :: 'd itself) \<longleftrightarrow>
     (\<forall>rest (m :: 'd machine). tails k rest \<longrightarrow> (\<exists>q\<in>{reading rest, skip_ws (reading rest)}.
        stands (parse (operand k) (reading (show_expr (Suc k) e @ rest)) m) (evaluate e m) (\<lambda>v. finish v q)))"

lemma tails_mono: "tails k rest \<Longrightarrow> k \<le> j \<Longrightarrow> tails j rest"
  unfolding tails_def using order_trans [of _ k j] by fast

lemma stands_weaken: "stands r out k \<Longrightarrow> (\<And>v m. k v m = k' v m) \<Longrightarrow> stands r out k'"
  by (induction r out k rule: stands.induct) auto

lemma readsD:
  fixes m :: "'d machine"
  shows "reads k e TYPE('d) \<Longrightarrow> tails k rest \<Longrightarrow>
    stands (parse (Binary k) (reading (show_expr k e @ rest)) m) (evaluate e m) (\<lambda>v. parse (More k v) (reading rest))"
  by (simp add: reads_def)

lemma reads_unaryD:
  fixes m :: "'d machine"
  shows "reads_unary e TYPE('d) \<Longrightarrow> delimits rest \<Longrightarrow>
    stands (parse Unary (reading (show_expr 9 e @ rest)) m) (evaluate e m) (\<lambda>v. finish v (reading rest))"
  by (simp add: reads_unary_def)

lemma reads_operandE:
  fixes m :: "'d machine"
  assumes "reads_operand k e TYPE('d)" "tails k rest"
  obtains q where "q = reading rest \<or> q = skip_ws (reading rest)"
    "stands (parse (operand k) (reading (show_expr (Suc k) e @ rest)) m) (evaluate e m) (\<lambda>v. finish v q)"
  using assms unfolding reads_operand_def by blast

lemma unary_operand: "reads_unary e TYPE('d) \<Longrightarrow> reads_operand 8 e TYPE('d)"
  by (auto simp: reads_unary_def reads_operand_def operand_def dest: tails_delimits)

lemma reads_operand:
  assumes "reads (Suc k) e TYPE('d)" "k < 8"
  shows "reads_operand k e TYPE('d)"
  unfolding reads_operand_def
proof (intro allI impI bexI)
  fix rest and m :: "'d machine" assume t: "tails k rest"
  then have up: "tails (Suc k) rest" by (rule tails_mono) simp
  have "operand k = Binary (Suc k)" using assms(2) by (simp add: operand_def)
  then show "stands (parse (operand k) (reading (show_expr (Suc k) e @ rest)) m) (evaluate e m) (\<lambda>v. finish v (skip_ws (reading rest)))"
    by (simp only:) (rule stands_weaken [OF readsD [OF assms(1) up] more_stops [OF t]], use assms(2) in simp_all)
qed simp

text \<open>An outcome that continues, and an error that is passed on.\<close>

definition keeps_errors :: "(u16 \<Rightarrow> Parser \<Rightarrow> 'd machine \<Rightarrow> 'd parsed) \<Rightarrow> bool" where
  "keeps_errors h \<longleftrightarrow> (\<forall>v p m e. perror p = Some e \<longrightarrow> (\<exists>v' p'. h v p m = finish v' p' m \<and> perror p' = Some e))"

lemma bind_finish [simp]: "bind_parse (finish v p m) h = h v p m"
  by (simp add: bind_parse_def finish_def)

lemma bind_stands:
  assumes "stands r (f m) k" "keeps_errors h" "\<And>v m'. f m = Done (Inr v) m' \<Longrightarrow> stands (bind_parse (k v m') h) (g v m') k'"
  shows "stands (bind_parse r h) (bind_out f (\<lambda>x. case x of Inl e \<Rightarrow> Done (Inl e) | Inr v \<Rightarrow> g v) m) k'"
proof (cases "f m")
  case (Done x m')
  then show ?thesis using assms unfolding keeps_errors_def by (cases x) (fastforce simp: bind_out_def)+
qed (use assms(1) in \<open>simp add: bind_out_def bind_parse_def\<close>)

lemma stands_bind_out:
  assumes "stands r (f m) k" "\<And>v m'. f m = Done (Inr v) m' \<Longrightarrow> stands (k v m') (g v m') k'"
  shows "stands r (bind_out f (\<lambda>x. case x of Inl e \<Rightarrow> Done (Inl e) | Inr v \<Rightarrow> g v) m) k'"
proof (cases "f m")
  case (Done x m')
  then show ?thesis using assms by (cases x) (auto simp: bind_out_def)
qed (use assms(1) in \<open>simp add: bind_out_def\<close>)

lemma operand_reads:
  assumes o: "reads_operand k e TYPE('d)" and "show_expr k e = show_expr (Suc k) e" "k \<le> 8"
  shows "reads k e TYPE('d)"
  unfolding reads_def
proof (intro allI impI)
  fix rest and m :: "'d machine" assume "tails k rest"
  then obtain q where q: "q = reading rest \<or> q = skip_ws (reading rest)"
    "stands (parse (operand k) (reading (show_expr k e @ rest)) m) (evaluate e m) (\<lambda>v. finish v q)"
    using reads_operandE [OF o, of rest m] assms(2) by metis
  have "stands (parse (Binary k) (reading (show_expr k e @ rest)) m)
      (bind_out (evaluate e) (\<lambda>x. case x of Inl e \<Rightarrow> Done (Inl e) | Inr v \<Rightarrow> Done (Inr v)) m) (\<lambda>v. parse (More k v) (reading rest))"
    unfolding parse.simps [of "Binary k"] mode.case
  proof (rule bind_stands [where f = "evaluate e", OF q(2)])
    have "\<not> has_error q" "parse (More k v) q m' = parse (More k v) (reading rest) m'" for v m' using q(1) more_blanks by auto
    then show "stands (bind_parse (finish v q m') (\<lambda>left p1 m1. if has_error p1 then finish 0 p1 m1 else parse (More k left) p1 m1))
        (Done (Inr v) m') (\<lambda>v. parse (More k v) (reading rest))" for v m' by simp
  qed (auto simp: keeps_errors_def has_error_def)
  moreover have "bind_out (evaluate e) (\<lambda>x. case x of Inl e \<Rightarrow> Done (Inl e) | Inr v \<Rightarrow> Done (Inr v)) m = evaluate e m"
    by (auto simp: bind_out_def split: outcome.split sum.split)
  ultimately show "stands (parse (Binary k) (reading (show_expr k e @ rest)) m) (evaluate e m) (\<lambda>v. parse (More k v) (reading rest))"
    by simp
qed

lemma binop_reads:
  assumes "reads (level op) a TYPE('d)" "reads_operand (level op) b TYPE('d)"
  shows "reads (level op) (Binop op a b) TYPE('d)"
  unfolding reads_def
proof (intro allI impI)
  fix rest and m :: "'d machine" assume t: "tails (level op) rest"
  define k where "k = level op"
  have k8: "k \<le> 8" unfolding k_def by (cases op) simp_all
  let ?right = "CHR '' '' # show_expr (Suc k) b @ rest"
  let ?tail = "CHR '' '' # symbol op @ ?right"
  have "tails k ?tail" by (auto simp: tails_def k_def)
  then have a: "stands (parse (Binary k) (reading (show_expr k a @ ?tail)) m) (evaluate a m) (\<lambda>v. parse (More k v) (reading ?tail))" for m :: "'d machine"
    using readsD [OF assms(1), of ?tail m] unfolding k_def by blast
  let ?h = "\<lambda>left right p2 m2. case apply_binary op left right of Inl e \<Rightarrow> finish 0 (set_error e p2) m2
      | Inr v \<Rightarrow> if has_error p2 then finish 0 p2 m2 else parse (More k v) p2 m2"
  have found: "try_operators (operators k) (skip_ws (reading ?tail)) = (Some (apply_binary op), reading ?right)"
    unfolding k_def by (rule symbol_found)
  have more: "parse (More k v) (reading ?tail) m' = bind_parse (parse (operand k) (reading ?right) m') (?h v)" for v m'
    unfolding parse.simps [of "More k v" "reading ?tail"] mode.case found prod.case option.case ..
  have right: "parse (operand k) (reading ?right) m' = parse (operand k) (reading (show_expr (Suc k) b @ rest)) m'" for m'
    using operand_blanks [OF k8, of "reading ?right" m'] operand_blanks [OF k8, of "reading (show_expr (Suc k) b @ rest)" m'] by simp
  have b: "stands (parse (More k v) (reading ?tail) m')
      (bind_out (evaluate b) (\<lambda>y. case y of Inl e \<Rightarrow> Done (Inl e) | Inr w \<Rightarrow> Done (apply_binary op v w)) m') (\<lambda>v. parse (More k v) (reading rest))" for v and m' :: "'d machine"
  proof -
    obtain q where q: "q = reading rest \<or> q = skip_ws (reading rest)"
      "stands (parse (operand k) (reading (show_expr (Suc k) b @ rest)) m') (evaluate b m') (\<lambda>v. finish v q)"
      using reads_operandE [OF assms(2) t, of m'] unfolding k_def by metis
    have c: "\<not> has_error q" "perror q = None" "\<And>v m'. parse (More k v) q m' = parse (More k v) (reading rest) m'" using q(1) more_blanks by auto
    show ?thesis unfolding more right
    proof (rule bind_stands [where f = "evaluate b", OF q(2)])
      show "keeps_errors (?h v)" by (auto simp: keeps_errors_def has_error_def set_error_def split: sum.split)
      show "stands (bind_parse (finish w q m'') (?h v)) (Done (apply_binary op v w) m'') (\<lambda>v. parse (More k v) (reading rest))" for w m''
        using c by (cases "apply_binary op v w") (auto simp: set_error_def intro!: exI)
    qed
  qed
  have "stands (parse (Binary k) (reading (show_expr k a @ ?tail)) m) (evaluate (Binop op a b) m) (\<lambda>v. parse (More k v) (reading rest))"
    unfolding evaluate.simps by (rule stands_bind_out [where f = "evaluate a", OF a b])
  then show "stands (parse (Binary (level op)) (reading (show_expr (level op) (Binop op a b) @ rest)) m) (evaluate (Binop op a b) m)
      (\<lambda>v. parse (More (level op) v) (reading rest))"
    by (simp add: k_def)
qed


section \<open>The operands in brackets and the prefixes\<close>

lemma no_prefix:
  assumes "s = c # t" "c \<notin> {CHR ''~'', CHR ''!'', CHR ''-'', CHR '' '', CHR 0x09}" "tolower c \<noteq> CHR ''n''"
  shows "try_prefixes unary_prefixes (skip_ws (reading s)) = (None, reading s)"
  using assms by (auto simp: unary_prefixes_def matcher_defs)

lemma unary_primary:
  assumes "s = c # t" "c \<notin> {CHR ''~'', CHR ''!'', CHR ''-'', CHR '' '', CHR 0x09}" "tolower c \<noteq> CHR ''n''"
  shows "parse Unary (reading s) m = parse Primary (reading s) m"
  unfolding parse.simps [of Unary "reading s" m] mode.case no_prefix [OF assms] by simp

lemma number_head:
  "\<exists>c t. show_number b n = c # t \<and> isdigit c"
proof -
  obtain d ds where "digits 10 (unat n) = show_digit d # ds" "d < 10" using digits_head [of 10 "unat n"] by auto
  then show ?thesis using show_digit_facts(3) [of d] by (cases b) (auto simp: isdigit_def)
qed

lemma digit_kind: "isdigit c \<Longrightarrow> c \<notin> {CHR ''~'', CHR ''!'', CHR ''-'', CHR '' '', CHR 0x09, CHR ''('', CHR ''[''} \<and> tolower c \<noteq> CHR ''n''"
  by (auto simp: isdigit_def tolower_def)

lemma alpha_kind: "isalpha c \<Longrightarrow> c \<notin> {CHR ''~'', CHR ''!'', CHR ''-'', CHR '' '', CHR 0x09, CHR ''('', CHR ''[''}"
  by (auto simp: isalpha_def)

lemma primary_literal:
  assumes "s = c # t" "c \<notin> {CHR ''('', CHR ''['', CHR '' '', CHR 0x09}"
  shows "parse Primary (reading s) m = literal (reading s) m"
  unfolding parse.simps [of Primary "reading s" m] mode.case using assms by (simp add: match_char_def)

lemma number_unary: "reads_unary (Number b n) T"
  unfolding reads_unary_def
proof (intro allI impI)
  fix rest m assume d: "delimits rest"
  obtain c t where h: "show_number b n = c # t" "isdigit c" using number_head by blast
  have "parse Unary (reading (show_number b n @ rest)) m = literal (reading (show_number b n @ rest)) m"
    using unary_primary [of "show_number b n @ rest" c "t @ rest" m] primary_literal [of "show_number b n @ rest" c "t @ rest" m] h digit_kind [OF h(2)] by simp
  then show "stands (parse Unary (reading (show_expr 9 (Number b n) @ rest)) m) (evaluate (Number b n) m) (\<lambda>v. finish v (reading rest))"
    by (simp add: literal_def number_read [OF d])
qed

lemma register_unary: "a_name s \<Longrightarrow> reads_unary (Register s) T"
  unfolding reads_unary_def
proof (intro allI impI)
  fix rest m assume d: "delimits rest" and a: "a_name s"
  obtain c t where h: "s = c # t" "isalpha c" "tolower c \<noteq> CHR ''n''" using name_chars [OF a] by blast
  have "parse Unary (reading (s @ rest)) m = literal (reading (s @ rest)) m"
    using unary_primary [of "s @ rest" c "t @ rest" m] primary_literal [of "s @ rest" c "t @ rest" m] h alpha_kind [OF h(2)] by simp
  moreover obtain v where "lookup_register s (g_reg m) = Some v" using name_known [of s "g_reg m"] a by blast
  ultimately show "stands (parse Unary (reading (show_expr 9 (Register s) @ rest)) m) (evaluate (Register s) m) (\<lambda>v. finish v (reading rest))"
    by (simp add: literal_def name_read [OF a d])
qed


lemma show_head: "known_registers e \<Longrightarrow> \<exists>c t. show_expr 9 e = c # t \<and> c \<notin> {NUL, CHR ''=''}"
proof (cases e)
  case (Number b n)
  obtain c t where "show_number b n = c # t" "isdigit c" using number_head by blast
  then show ?thesis using Number by (auto simp: isdigit_def)
next
  case (Register s)
  assume "known_registers e"
  then obtain c t where "s = c # t" "isalpha c" using name_chars(2) [of s] Register by auto
  then show ?thesis using Register by (auto simp: isalpha_def)
next
  case (Unop u a)
  then show ?thesis by (cases u) auto
next
  case (Binop op a b)
  moreover have "level op < 9" by (cases op) simp_all
  ultimately show ?thesis by (simp add: Let_def)
qed simp

lemma prefix_found:
  assumes "s = c # t" "c \<notin> {NUL, CHR ''=''}"
  shows "try_prefixes unary_prefixes (skip_ws (reading (prefix_symbol u @ s))) =
     (Some (apply_unary u), reading (if u = Not_word then CHR '' '' # s else s))"
  using assms by (cases u) (auto simp: unary_prefixes_def matcher_defs fun_eq_iff)

lemma unop_unary:
  assumes "reads_unary e TYPE('d)" "known_registers e"
  shows "reads_unary (Unop u e) TYPE('d)"
  unfolding reads_unary_def
proof (intro allI impI)
  fix rest and m :: "'d machine" assume d: "delimits rest"
  let ?s = "show_expr 9 e @ rest"
  obtain c t where h: "?s = c # t" "c \<notin> {NUL, CHR ''=''}" using show_head [OF assms(2)] by auto
  have b: "parse Unary (reading (if u = Not_word then CHR '' '' # ?s else ?s)) m = parse Unary (reading ?s) m"
    using parse_leading_blanks(2) [of "reading (CHR '' '' # ?s)" m] parse_leading_blanks(2) [of "reading ?s" m] by simp
  have "parse Unary (reading (prefix_symbol u @ ?s)) m = bind_parse (parse Unary (reading ?s) m) (\<lambda>v. finish (apply_unary u v))"
    unfolding parse.simps [of Unary "reading (prefix_symbol u @ ?s)" m] mode.case prefix_found [OF h] prod.case option.case b by simp
  moreover have "stands (bind_parse (parse Unary (reading ?s) m) (\<lambda>v. finish (apply_unary u v))) (evaluate (Unop u e) m) (\<lambda>v. finish v (reading rest))"
    unfolding evaluate.simps
    by (rule bind_stands [where f = "evaluate e", OF reads_unaryD [OF assms(1) d]]) (auto simp: keeps_errors_def)
  ultimately show "stands (parse Unary (reading (show_expr 9 (Unop u e) @ rest)) m) (evaluate (Unop u e) m) (\<lambda>v. finish v (reading rest))"
    by simp
qed

lemma close_found: "close_with c e (reading (c # rest)) = reading rest" if "c \<in> {CHR '')'', CHR '']''}"
  using that by (auto simp: close_with_def match_char_def)

lemma close_error: "perror p = Some e \<Longrightarrow> perror (close_with c e' p) = Some e"
  by (simp add: close_with_def match_char_def Let_def set_error_def)

lemma inner_reads:
  fixes m :: "'d machine"
  assumes "reads 0 e TYPE('d)" "c \<in> {CHR '')'', CHR '']''}"
  shows "stands (parse (Binary 0) (reading (show_expr 0 e @ c # rest)) m) (evaluate e m) (\<lambda>v. finish v (reading (c # rest)))"
proof -
  have c: "closes (c # rest)" using assms(2) by (auto simp: closes_def)
  then have "tails 0 (c # rest)" by (simp add: tails_def)
  from stands_weaken [OF readsD [OF assms(1) this] more_closes [OF c]] show ?thesis by simp
qed

lemma memory_unary:
  assumes "reads 0 e TYPE('d)"
  shows "reads_unary (Memory e) TYPE('d)"
  unfolding reads_unary_def
proof (intro allI impI)
  fix rest and m :: "'d machine"
  let ?s = "CHR ''['' # show_expr 0 e @ CHR '']'' # rest"
  let ?h = "\<lambda>v p3 m3. let p4 = close_with CHR '']'' Expected_bracket p3 in if \<not> has_error p4 then read_value v p4 m3 else finish 0 p4 m3"
  have "parse Unary (reading ?s) m = parse Primary (reading ?s) m" by (rule unary_primary [OF refl]) simp_all
  also have "\<dots> = bind_parse (parse (Binary 0) (reading (show_expr 0 e @ CHR '']'' # rest)) m) ?h"
    unfolding parse.simps [of Primary "reading ?s" m] by (simp add: match_char_def)
  finally have p: "parse Unary (reading ?s) m = bind_parse (parse (Binary 0) (reading (show_expr 0 e @ CHR '']'' # rest)) m) ?h" .
  have "stands (bind_parse (parse (Binary 0) (reading (show_expr 0 e @ CHR '']'' # rest)) m) ?h) (evaluate (Memory e) m) (\<lambda>v. finish v (reading rest))"
    unfolding evaluate.simps
  proof (rule bind_stands [where f = "evaluate e", OF inner_reads [OF assms]])
    show "keeps_errors ?h" by (auto simp: keeps_errors_def has_error_def Let_def close_error intro!: exI)
    show "stands (bind_parse (finish v (reading (CHR '']'' # rest)) m') ?h) (bind_out (mms_read_virtual_memory (ucast v) False) (\<lambda>v. Done (Inr v)) m')
        (\<lambda>v. finish v (reading rest))" for v and m' :: "'d machine"
      unfolding bind_finish
      by (cases "mms_read_virtual_memory (ucast v) False m'") (simp_all add: close_found read_value_def bind_out_def, simp add: finish_def)
  qed simp
  then show "stands (parse Unary (reading (show_expr 9 (Memory e) @ rest)) m) (evaluate (Memory e) m) (\<lambda>v. finish v (reading rest))"
    using p by simp
qed

lemma binop_unary:
  assumes "reads 0 (Binop op a b) TYPE('d)"
  shows "reads_unary (Binop op a b) TYPE('d)"
  unfolding reads_unary_def
proof (intro allI impI)
  fix rest and m :: "'d machine"
  let ?e = "Binop op a b"
  let ?s = "CHR ''('' # show_expr 0 ?e @ CHR '')'' # rest"
  let ?h = "\<lambda>v p2. finish v (close_with CHR '')'' Expected_parenthesis p2)"
  have "level op < 9" by (cases op) simp_all
  then have e: "show_expr 9 ?e @ rest = ?s" by (simp add: Let_def)
  have "parse Unary (reading ?s) m = parse Primary (reading ?s) m" by (rule unary_primary [OF refl]) simp_all
  also have "\<dots> = bind_parse (parse (Binary 0) (reading (show_expr 0 ?e @ CHR '')'' # rest)) m) ?h"
    unfolding parse.simps [of Primary "reading ?s" m] by (simp add: match_char_def del: show_expr.simps)
  finally have p: "parse Unary (reading ?s) m = bind_parse (parse (Binary 0) (reading (show_expr 0 ?e @ CHR '')'' # rest)) m) ?h" .
  have "stands (bind_parse (parse (Binary 0) (reading (show_expr 0 ?e @ CHR '')'' # rest)) m) ?h)
      (bind_out (evaluate ?e) (\<lambda>x. case x of Inl e \<Rightarrow> Done (Inl e) | Inr v \<Rightarrow> Done (Inr v)) m) (\<lambda>v. finish v (reading rest))"
    by (rule bind_stands [where f = "evaluate ?e", OF inner_reads [OF assms]]) (auto simp: keeps_errors_def close_found dest: close_error)
  moreover have "bind_out (evaluate ?e) (\<lambda>x. case x of Inl e \<Rightarrow> Done (Inl e) | Inr v \<Rightarrow> Done (Inr v)) m = evaluate ?e m"
    by (auto simp: bind_out_def split: outcome.split sum.split)
  ultimately show "stands (parse Unary (reading (show_expr 9 ?e @ rest)) m) (evaluate ?e m) (\<lambda>v. finish v (reading rest))"
    unfolding e p by simp
qed


section \<open>Every level reads every tree\<close>

lemma descend:
  assumes "k \<le> j" "reads_operand j e TYPE('d)" "j \<le> 8" "\<And>i. k \<le> i \<Longrightarrow> i \<le> j \<Longrightarrow> show_expr i e = show_expr (Suc i) e"
  shows "reads k e TYPE('d)"
  using assms(1)
proof (induction k rule: inc_induct)
  case base
  show ?case using assms by (intro operand_reads) auto
next
  case (step i)
  then have "reads_operand i e TYPE('d)" using assms(3) by (intro reads_operand) auto
  then show ?case using step assms by (intro operand_reads) auto
qed

lemma unary_reads:
  assumes "reads_unary e TYPE('d)" "\<And>i. show_expr i e = show_expr (Suc i) e" "k \<le> 8"
  shows "reads k e TYPE('d)"
  using descend [OF assms(3) unary_operand [OF assms(1)]] assms(2) by simp

lemma binop_levels:
  assumes "\<And>k. k \<le> 8 \<Longrightarrow> reads k a TYPE('d)" "\<And>k. k \<le> 8 \<Longrightarrow> reads k b TYPE('d)" "reads_unary b TYPE('d)"
  shows "reads_unary (Binop op a b) TYPE('d) \<and> (\<forall>k\<le>8. reads k (Binop op a b) TYPE('d))"
proof -
  have l: "level op \<le> 8" by (cases op) simp_all
  have b: "reads_operand (level op) b TYPE('d)"
    using l assms(2) [of "Suc (level op)"] unary_operand [OF assms(3)] reads_operand [of "level op" b] by (cases "level op = 8") auto
  have at: "reads (level op) (Binop op a b) TYPE('d)" by (rule binop_reads [OF assms(1) [OF l] b])
  have low: "reads k (Binop op a b) TYPE('d)" if "k \<le> level op" for k
  proof (cases "k = level op")
    case False
    then have k: "k \<le> level op - 1" "Suc (level op - 1) = level op" using that by auto
    then show ?thesis
      using l at by (intro descend [OF k(1)] reads_operand) auto
  qed (use at in simp)
  then have u: "reads_unary (Binop op a b) TYPE('d)" by (intro binop_unary) simp
  have "reads k (Binop op a b) TYPE('d)" if "level op < k" "k \<le> 8" for k
    using that by (intro descend [OF that(2) unary_operand [OF u]]) auto
  then show ?thesis using u low by (meson not_le)
qed

lemma reads_all: "known_registers e \<Longrightarrow> reads_unary e TYPE('d) \<and> (\<forall>k\<le>8. reads k e TYPE('d))"
proof (induction e)
  case (Number b n)
  show ?case using number_unary by (auto intro: unary_reads)
next
  case (Register s)
  then show ?case using register_unary [of s] by (auto intro: unary_reads)
next
  case (Memory e)
  then have "reads_unary (Memory e) TYPE('d)" by (intro memory_unary) simp
  then show ?case by (auto intro: unary_reads)
next
  case (Unop u e)
  then have "reads_unary (Unop u e) TYPE('d)" by (intro unop_unary) simp_all
  then show ?case by (auto intro: unary_reads)
next
  case (Binop op a b)
  then show ?case by (intro binop_levels) simp_all
qed

lemma show_text: "known_registers e \<Longrightarrow> show_expr 0 e \<noteq> []"
  using show_head [of e] by (cases e) auto

text \<open>C38
  Refinement of the grammar: a tree of the grammar, printed in any notation of its numbers and
  operators, with parentheses only where precedence and left association need them, evaluates to
  the value of the tree: 16-bit arithmetic, registers of the current level, memory through the
  memory management, both operands of \<open>&&\<close> and \<open>||\<close> always computed, a division by zero anywhere the
  error of the whole, a fault of a memory read a trap.
\<close>

theorem expression_value:
  fixes m :: "'d machine"
  assumes "known_registers e"
  shows "expr_eval_value (show_expr 0 e) m =
    Some (case evaluate e m of
        Trap m' \<Rightarrow> Trap m'
      | Done (Inl err) m' \<Rightarrow> Done (0, Some err) m'
      | Done (Inr v) m' \<Rightarrow> Done (v, None) m')"
proof -
  have r: "reads 0 e TYPE('d)" by (rule reads_all [OF assms, THEN conjunct2, rule_format]) simp
  have "stands (parse (Binary 0) (reading (show_expr 0 e @ [])) m) (evaluate e m) (\<lambda>v. finish v (reading []))"
    by (rule stands_weaken [OF readsD [OF r] more_closes]) (simp_all add: tails_def closes_def)
  then have p: "stands (parse (Binary 0) (reading (show_expr 0 e)) m) (evaluate e m) (\<lambda>v. finish v (reading []))" by simp
  show ?thesis
  proof (cases "evaluate e m")
    case (Done x m')
    then show ?thesis
      using p show_text [OF assms] by (cases x) (auto simp: expr_eval_value_def finish_def has_error_def Let_def)
  qed (use p show_text [OF assms] in \<open>simp add: expr_eval_value_def\<close>)
qed

definition demo_expression :: expression where
  "demo_expression = Binop And2 (Binop Greater (Binop Plus (Register ''x'') (Binop Times (Number Octal 5) (Unop Negate (Binop Minus (Register ''A'') (Number Hexadecimal 31))))) (Number Decimal 7)) (Unop Bang (Register ''u3''))"

theorem expression_value_witness:
  "known_registers demo_expression \<and> show_expr 0 demo_expression = ''x + 05 * -(A - 0x1f) > 7 && !u3'' \<and>
   expr_eval_value (show_expr 0 demo_expression) (demo_machine MMS2) =
     Some (case evaluate demo_expression (demo_machine MMS2) of
        Trap m' \<Rightarrow> Trap m'
      | Done (Inl err) m' \<Rightarrow> Done (0, Some err) m'
      | Done (Inr v) m' \<Rightarrow> Done (v, None) m')"
proof -
  have k: "known_registers demo_expression" by code_simp
  moreover have "show_expr 0 demo_expression = ''x + 05 * -(A - 0x1f) > 7 && !u3''" by code_simp
  ultimately show ?thesis using expression_value [OF k] by blast
qed

end
